(* ===== verification/Prelude.thy ===== *)
theory Prelude
  imports Main "HOL-Library.Word"
begin

text \<open>
  Shared vocabulary of the development: the machine integer types of the C sources, byte-addressed
  little-endian memory with its loads, stores and fills, address regions and when two of them are
  disjoint, and the page arithmetic of an x86-64 kernel with 4 KiB pages.

  Facts that discharge side conditions on regions are collected in \<open>region_simps\<close>, facts that say
  which bytes a memory operation leaves alone in \<open>mem_frame\<close>, facts that evaluate memory at concrete
  addresses in \<open>mem_eval\<close>, and the values of the C constants in \<open>consts_eval\<close>.
\<close>

unbundle bit_operations_syntax

named_theorems region_simps
named_theorems mem_frame
named_theorems mem_eval
named_theorems consts_eval

type_synonym u8 = "8 word"
type_synonym u16 = "16 word"
type_synonym u32 = "32 word"
type_synonym u64 = "64 word"
type_synonym mem = "u64 \<Rightarrow> u8"

section \<open>Loads and stores\<close>

text \<open>The addresses of \<open>n\<close> consecutive bytes from \<open>a\<close> on, wrapping at the end of the address space.\<close>

definition region :: "u64 \<Rightarrow> nat \<Rightarrow> u64 set" where
  "region a n = {x. unat (x - a) < n}"

text \<open>A load of \<open>n\<close> bytes, least significant byte first, as x86-64 does it.\<close>

primrec load :: "nat \<Rightarrow> mem \<Rightarrow> u64 \<Rightarrow> 'a::len word" where
  "load 0 m a = 0"
| "load (Suc n) m a = ucast (m a) OR push_bit 8 (load n m (a + 1))"

definition store :: "nat \<Rightarrow> mem \<Rightarrow> u64 \<Rightarrow> 'a::len word \<Rightarrow> mem" where
  "store n m a w =
     (\<lambda>x. if unat (x - a) < n then ucast (drop_bit (8 * unat (x - a)) w) else m x)"

abbreviation ld16 :: "mem \<Rightarrow> u64 \<Rightarrow> u16" where "ld16 m a \<equiv> load 2 m a"
abbreviation ld32 :: "mem \<Rightarrow> u64 \<Rightarrow> u32" where "ld32 m a \<equiv> load 4 m a"
abbreviation ld64 :: "mem \<Rightarrow> u64 \<Rightarrow> u64" where "ld64 m a \<equiv> load 8 m a"
abbreviation st8 :: "mem \<Rightarrow> u64 \<Rightarrow> u8 \<Rightarrow> mem" where "st8 m a w \<equiv> store 1 m a w"
abbreviation st16 :: "mem \<Rightarrow> u64 \<Rightarrow> u16 \<Rightarrow> mem" where "st16 m a w \<equiv> store 2 m a w"
abbreviation st32 :: "mem \<Rightarrow> u64 \<Rightarrow> u32 \<Rightarrow> mem" where "st32 m a w \<equiv> store 4 m a w"
abbreviation st64 :: "mem \<Rightarrow> u64 \<Rightarrow> u64 \<Rightarrow> mem" where "st64 m a w \<equiv> store 8 m a w"

text \<open>\<open>memset\<close> and \<open>memcpy\<close> of the C library.\<close>

definition memset :: "mem \<Rightarrow> u64 \<Rightarrow> u8 \<Rightarrow> nat \<Rightarrow> mem" where
  "memset m a v n = (\<lambda>x. if unat (x - a) < n then v else m x)"

definition store_bytes :: "mem \<Rightarrow> u64 \<Rightarrow> u8 list \<Rightarrow> mem" where
  "store_bytes m a bs = (\<lambda>x. if unat (x - a) < length bs then bs ! unat (x - a) else m x)"

definition load_bytes :: "mem \<Rightarrow> u64 \<Rightarrow> nat \<Rightarrow> u8 list" where
  "load_bytes m a n = map (\<lambda>i. m (a + of_nat i)) [0..<n]"

section \<open>Regions\<close>

lemma word_eq_unatI: "unat v = unat w \<Longrightarrow> v = w"
  by (rule unsigned_word_eqI)

lemma sint64: "- (2 ^ 63) \<le> x \<Longrightarrow> x < 2 ^ 63 \<Longrightarrow> sint (word_of_int x :: u64) = x"
  by (simp add: sint_sbintrunc' signed_take_bit_int_eq_self)

lemma sint32: "- (2 ^ 31) \<le> x \<Longrightarrow> x < 2 ^ 31 \<Longrightarrow> sint (word_of_int x :: u32) = x"
  by (simp add: sint_sbintrunc' signed_take_bit_int_eq_self)

lemma region_iff: "x \<in> region a n \<longleftrightarrow> unat (x - a) < n"
  by (simp add: region_def)

lemma region_add: "i < n \<Longrightarrow> n \<le> 4294967296 \<Longrightarrow> a + of_nat i \<in> region a n"
  by (simp add: region_def unat_of_nat)

lemma region_mono: "n \<le> k \<Longrightarrow> region a n \<subseteq> region a k"
  by (auto simp: region_def)

lemma region_sub:
  assumes "unat i + k \<le> n"
  shows "region (a + i) k \<subseteq> region a n"
proof
  fix x assume "x \<in> region (a + i) k"
  then have "unat (x - a - i) < k" by (simp add: region_def algebra_simps)
  moreover have "unat (x - a) \<le> unat (x - a - i) + unat i"
    using unat_word_ariths(1) [of "x - a - i" i] by simp
  ultimately show "x \<in> region a n" using assms by (simp add: region_def)
qed

lemma notin_region_sub:
  "x \<notin> region a n \<Longrightarrow> unat i + k \<le> n \<Longrightarrow> x \<notin> region (a + i) k"
  "x \<notin> region a n \<Longrightarrow> k \<le> n \<Longrightarrow> x \<notin> region a k"
  using region_sub [of i k n a] region_mono [of k n a] by auto

lemma region_disj:
  assumes "unat i + n \<le> unat j" and "unat j + k \<le> 2 ^ 64 + unat i"
  shows "region (a + i) n \<inter> region (a + j) k = {}"
proof -
  have False if x: "unat (x - a - i) < n" "unat (x - a - j) < k" for x :: u64
  proof -
    define d where "d = x - a - j"
    have e: "x - a - i = d + (j - i)" by (simp add: d_def)
    have ji: "unat (j - i) = unat j - unat i"
      using assms(1) by (simp add: unat_sub word_le_nat_alt)
    have "unat d + unat (j - i) < 2 ^ 64"
      using x(2) assms ji by (simp add: d_def)
    then have "unat (d + (j - i)) = unat d + unat (j - i)"
      by (simp add: unat_add_lem [THEN iffD1])
    then show False using x(1) e ji assms(1) by simp
  qed
  then show ?thesis by (auto simp: region_def diff_diff_eq)
qed

lemma field_disj [region_simps]:
  "unat i + n \<le> unat j \<and> unat j + k \<le> 2 ^ 64 \<or> unat j + k \<le> unat i \<and> unat i + n \<le> 2 ^ 64
     \<Longrightarrow> region (a + i) n \<inter> region (a + j) k = {}"
  using region_disj [of i n j k a] region_disj [of j k i n a] by (auto simp: Int_commute)

lemma field_disj0 [region_simps]:
  "n \<le> unat j \<Longrightarrow> unat j + k \<le> 2 ^ 64 \<Longrightarrow> region a n \<inter> region (a + j) k = {}"
  "n \<le> unat j \<Longrightarrow> unat j + k \<le> 2 ^ 64 \<Longrightarrow> region (a + j) k \<inter> region a n = {}"
  using field_disj [of 0 n j k a] field_disj [of j k 0 n a] by auto

lemma region_disj_mono:
  "region a n \<inter> region b k = {} \<Longrightarrow> unat i + n' \<le> n \<Longrightarrow> unat j + k' \<le> k
     \<Longrightarrow> region (a + i) n' \<inter> region (b + j) k' = {}"
  using region_sub [of i n' n a] region_sub [of j k' k b] by blast

lemma region_disj_mono0:
  "region a n \<inter> region b k = {} \<Longrightarrow> n' \<le> n \<Longrightarrow> unat j + k' \<le> k
     \<Longrightarrow> region a n' \<inter> region (b + j) k' = {}"
  "region a n \<inter> region b k = {} \<Longrightarrow> unat i + n' \<le> n \<Longrightarrow> k' \<le> k
     \<Longrightarrow> region (a + i) n' \<inter> region b k' = {}"
  "region a n \<inter> region b k = {} \<Longrightarrow> n' \<le> n \<Longrightarrow> k' \<le> k \<Longrightarrow> region a n' \<inter> region b k' = {}"
  using region_sub [of j k' k b] region_sub [of i n' n a] region_mono [of n' n a]
    region_mono [of k' k b] by blast+

text \<open>An executable form of disjointness: neither start lies inside the other area.\<close>

definition apart :: "u64 \<Rightarrow> nat \<Rightarrow> u64 \<Rightarrow> nat \<Rightarrow> bool" where
  "apart a n b k \<longleftrightarrow> n \<le> unat (b - a) \<and> k \<le> unat (a - b)"

lemma apart_commute: "apart a n b k \<longleftrightarrow> apart b k a n"
  by (auto simp: apart_def)

lemma apart_same [simp]: "0 < n \<Longrightarrow> \<not> apart a n a k"
  by (simp add: apart_def)

lemma unat_diff_sum: "unat (b - a :: u64) + unat (a - b) \<le> 2 ^ 64"
proof -
  have "(unat (b - a) + unat (a - b)) mod 2 ^ 64 = 0"
    using unat_word_ariths(1) [of "b - a" "a - b"] by simp
  then obtain c where c: "unat (b - a) + unat (a - b) = 2 ^ 64 * c" by blast
  moreover have "unat (b - a) < 2 ^ 64" "unat (a - b) < 2 ^ 64"
    using unsigned_less [of "b - a"] unsigned_less [of "a - b"] by simp_all
  ultimately have "2 ^ 64 * c < 2 ^ 64 * (2 :: nat)" by simp
  then have "c \<le> 1" by simp
  then show ?thesis using c by simp
qed

lemma dvd_unat_diff:
  "k dvd 2 ^ 64 \<Longrightarrow> k dvd unat x \<Longrightarrow> k dvd unat y \<Longrightarrow> k dvd unat (x - y :: u64)"
  by (auto simp: unat_sub_if' intro!: dvd_diff_nat dvd_add)

lemma apart_disjoint:
  assumes "apart a n b k"
  shows "region a n \<inter> region b k = {}"
proof -
  have "unat (b - a) + k \<le> 2 ^ 64" using assms unat_diff_sum [of b a] by (simp add: apart_def)
  then show ?thesis
    using region_disj [of 0 n "b - a" k a] assms by (simp add: apart_def)
qed

lemma apart_offsets:
  assumes "unat i + n \<le> unat j" and "unat j + k \<le> 2 ^ 64" and "0 < n"
  shows "apart (a + i) n (a + j) k" "apart (a + j) k (a + i) n"
proof -
  have ji: "unat (j - i) = unat j - unat i" using assms(1) by (simp add: unat_sub word_le_nat_alt)
  have "(2 :: nat) ^ 64 dvd unat (i - j) + unat (j - i)"
    using unat_word_ariths(1) [of "i - j" "j - i"] by (simp add: mod_eq_0_iff_dvd [symmetric])
  then have "2 ^ 64 \<le> unat (i - j) + unat (j - i)" using ji assms(1,3) by (intro dvd_imp_le) simp_all
  then have "k \<le> unat (i - j)" "n \<le> unat (j - i)" unfolding ji using assms by linarith+
  then show "apart (a + i) n (a + j) k" by (simp add: apart_def)
  then show "apart (a + j) k (a + i) n" by (simp add: apart_commute)
qed

lemma apart_mono: "apart a n b k \<Longrightarrow> n' \<le> n \<Longrightarrow> k' \<le> k \<Longrightarrow> apart a n' b k'"
  by (simp add: apart_def)

lemma apart_sub:
  "apart a n b k \<Longrightarrow> unat i + n' \<le> n \<Longrightarrow> unat j + k' \<le> k
     \<Longrightarrow> region (a + i) n' \<inter> region (b + j) k' = {}"
  "apart a n b k \<Longrightarrow> n' \<le> n \<Longrightarrow> unat j + k' \<le> k \<Longrightarrow> region a n' \<inter> region (b + j) k' = {}"
  "apart a n b k \<Longrightarrow> unat i + n' \<le> n \<Longrightarrow> k' \<le> k \<Longrightarrow> region (a + i) n' \<inter> region b k' = {}"
  "apart a n b k \<Longrightarrow> n' \<le> n \<Longrightarrow> k' \<le> k \<Longrightarrow> region a n' \<inter> region b k' = {}"
  by (rule region_disj_mono [OF apart_disjoint] region_disj_mono0 [OF apart_disjoint]; assumption)+

section \<open>What loads see of stores\<close>

lemma bit_load:
  "bit (load n m a :: 'a::len word) j \<longleftrightarrow>
     j < LENGTH('a) \<and> j < 8 * n \<and> bit (m (a + of_nat (j div 8))) (j mod 8)"
proof (induction n arbitrary: a j)
  case 0
  then show ?case by simp
next
  case (Suc n)
  show ?case
  proof (cases "j < 8")
    case True
    then show ?thesis by (auto simp: bit_simps)
  next
    case False
    then obtain k where j: "j = k + 8" by (metis add.commute le_add_diff_inverse linorder_not_less)
    have hi: "\<not> bit (m a) (k + 8)" by (simp add: bit_word.rep_eq bit_take_bit_iff)
    have "(k + 8) div 8 = Suc (k div 8)" by simp
    then have e: "a + word_of_nat ((k + 8) div 8) = a + 1 + word_of_nat (k div 8)"
      by (simp only: of_nat_Suc add.assoc)
    have "bit (load (Suc n) m a :: 'a word) (k + 8) \<longleftrightarrow>
        k + 8 < LENGTH('a) \<and> bit (load n m (a + 1) :: 'a word) k"
      using hi by (auto simp: bit_simps)
    then show ?thesis
      unfolding j Suc.IH e by (simp only: mod_add_self2) auto
  qed
qed

lemma load_cong:
  assumes "\<And>i. i < n \<Longrightarrow> m (a + of_nat i) = m' (a + of_nat i)"
  shows "(load n m a :: 'a::len word) = load n m' a"
  using assms
proof (induction n arbitrary: a)
  case 0
  then show ?case by simp
next
  case (Suc n)
  have "m a = m' a" using Suc.prems [of 0] by simp
  moreover have "(load n m (a + 1) :: 'a word) = load n m' (a + 1)"
  proof (rule Suc.IH)
    fix i assume "i < n"
    then show "m (a + 1 + of_nat i) = m' (a + 1 + of_nat i)"
      using Suc.prems [of "Suc i"] by (simp add: add.assoc)
  qed
  ultimately show ?case by simp
qed

lemma load_agree:
  assumes "\<And>x. x \<in> region a n \<Longrightarrow> m x = m' x" and "n \<le> 4294967296"
  shows "(load n m a :: 'a::len word) = load n m' a"
  using assms by (intro load_cong) (simp add: region_add)

lemma load_frame:
  assumes "\<And>x. x \<notin> R \<Longrightarrow> m' x = m x" and "region a n \<inter> R = {}" and "n \<le> 4294967296"
  shows "(load n m' a :: 'a::len word) = load n m a"
proof (rule load_agree)
  fix x assume "x \<in> region a n"
  then have "x \<notin> R" using assms(2) by blast
  then show "m' x = m x" by (rule assms(1))
qed (rule assms(3))

lemma store_outside [mem_frame]: "x \<notin> region a n \<Longrightarrow> store n m a w x = m x"
  by (simp add: store_def region_def)

lemma memset_outside [mem_frame]: "x \<notin> region a n \<Longrightarrow> memset m a v n x = m x"
  by (simp add: memset_def region_def)

lemma memset_inside: "x \<in> region a n \<Longrightarrow> memset m a v n x = v"
  by (simp add: memset_def region_def)

lemma store_bytes_outside [mem_frame]: "x \<notin> region a (length bs) \<Longrightarrow> store_bytes m a bs x = m x"
  by (simp add: store_bytes_def region_def)

lemma load_store_same [simp]:
  fixes w :: "'a::len word"
  assumes "LENGTH('a) = 8 * n" and "n \<le> 8"
  shows "load n (store n m a w) a = w"
proof (rule bit_word_eqI)
  fix j assume j: "j < LENGTH('a)"
  then have d: "j div 8 < n" using assms(1) by auto
  then have u: "unat (of_nat (j div 8) :: u64) = j div 8"
    using assms(2) by (simp add: unat_of_nat)
  have "j div 8 * 8 + j mod 8 = j" by simp
  then have "j mod 8 + 8 * (j div 8) = j" by (simp add: mult.commute add.commute)
  then show "bit (load n (store n m a w) a :: 'a word) j = bit w j"
    using j d u assms by (auto simp: bit_load store_def bit_simps)
qed

lemma load_store_disj:
  assumes "region a n \<inter> region b k = {}" and "k \<le> 4294967296"
  shows "load k (store n m a w) b = load k m b"
  using assms by (intro load_agree store_outside) auto

lemma load_store_apart [mem_eval]:
  "apart a n b k \<Longrightarrow> k \<le> 4294967296 \<Longrightarrow> load k (store n m a w) b = load k m b"
  by (rule load_store_disj [OF apart_disjoint])

lemma store_apart [mem_eval]: "n \<le> unat (x - a) \<Longrightarrow> store n m a w x = m x"
  by (simp add: store_def)

lemma store_at [mem_eval]: "0 < n \<Longrightarrow> store n m a w a = ucast w"
  by (simp add: store_def)

declare apart_def [mem_eval]

lemma store_commute:
  "region a n \<inter> region b k = {} \<Longrightarrow>
     store k (store n m a v) b w = store n (store k m b w) a v"
  by (auto simp: store_def fun_eq_iff region_def)

lemma load_memset_disj:
  assumes "region a n \<inter> region b k = {}" and "k \<le> 4294967296"
  shows "load k (memset m a v n) b = load k m b"
  using assms by (intro load_agree memset_outside) auto

lemma load_zero:
  assumes "\<And>x. x \<in> region b k \<Longrightarrow> m x = 0" and "k \<le> 4294967296"
  shows "load k m b = 0"
proof (rule bit_word_eqI)
  fix j
  have "m (b + of_nat (j div 8)) = 0" if "j < 8 * k"
    using assms that by (intro assms(1) region_add) auto
  then show "bit (load k m b) j = bit 0 j" by (auto simp: bit_load)
qed

lemma load_blank [mem_eval]: "n \<le> 4294967296 \<Longrightarrow> load n (\<lambda>_. 0) a = 0"
  by (simp add: load_zero)

lemma load_memset_zero:
  "region b k \<subseteq> region a n \<Longrightarrow> k \<le> 4294967296 \<Longrightarrow> load k (memset m a 0 n) b = 0"
  by (rule load_zero) (auto intro: memset_inside)

lemma length_load_bytes [simp]: "length (load_bytes m a n) = n"
  by (simp add: load_bytes_def)

lemma load_bytes_agree:
  assumes "\<And>x. x \<in> region a n \<Longrightarrow> m x = m' x" and "n \<le> 4294967296"
  shows "load_bytes m a n = load_bytes m' a n"
  using assms by (auto simp: load_bytes_def region_add)

lemma load_bytes_store_bytes [simp]:
  "length bs = n \<Longrightarrow> n \<le> 4294967296 \<Longrightarrow> load_bytes (store_bytes m a bs) a n = bs"
  by (auto simp: load_bytes_def store_bytes_def unat_of_nat intro!: nth_equalityI)

section \<open>Error numbers\<close>

definition EPERM :: int where [consts_eval]: "EPERM = 1"
definition ENOENT :: int where [consts_eval]: "ENOENT = 2"
definition EIO :: int where [consts_eval]: "EIO = 5"
definition EFAULT :: int where [consts_eval]: "EFAULT = 14"
definition ENOMEM :: int where [consts_eval]: "ENOMEM = 12"
definition EACCES :: int where [consts_eval]: "EACCES = 13"
definition EEXIST :: int where [consts_eval]: "EEXIST = 17"
definition EINVAL :: int where [consts_eval]: "EINVAL = 22"
definition ENOSPC :: int where [consts_eval]: "ENOSPC = 28"
definition ENAMETOOLONG :: int where [consts_eval]: "ENAMETOOLONG = 36"
definition ENOSYS :: int where [consts_eval]: "ENOSYS = 38"
definition ENOTEMPTY :: int where [consts_eval]: "ENOTEMPTY = 39"
definition ENODATA :: int where [consts_eval]: "ENODATA = 61"
definition EOPNOTSUPP :: int where [consts_eval]: "EOPNOTSUPP = 95"

section \<open>Pages\<close>

definition PAGE_SIZE :: u64 where [consts_eval]: "PAGE_SIZE = 4096"
definition PAGE_MASK :: u64 where [consts_eval]: "PAGE_MASK = NOT 4095"

definition page_aligned :: "u64 \<Rightarrow> bool" where
  "page_aligned p \<longleftrightarrow> p AND 4095 = 0"

lemma and_4095_mod: "unat (p AND 4095 :: u64) = unat p mod 4096"
proof -
  have "p AND 4095 = take_bit 12 p" by (simp add: take_bit_eq_mask mask_eq_exp_minus_1)
  then show ?thesis by (simp add: take_bit_eq_mod unat_mod_distrib)
qed

lemma page_aligned_iff: "page_aligned p \<longleftrightarrow> 4096 dvd unat p"
  using and_4095_mod [of p] by (auto simp: page_aligned_def unat_eq_0 dvd_eq_mod_eq_0)

lemma page_aligned_take_bit: "page_aligned p \<longleftrightarrow> take_bit 12 p = 0"
  by (simp add: page_aligned_def take_bit_eq_mask mask_eq_exp_minus_1)

lemma page_aligned_bit: "page_aligned p \<Longrightarrow> bit p j \<Longrightarrow> 12 \<le> j"
  unfolding page_aligned_take_bit by (metis bit_0_eq bit_take_bit_iff bot_apply bot_bool_def not_le)

lemma page_aligned_diff:
  "page_aligned p \<Longrightarrow> page_aligned q \<Longrightarrow> 4096 dvd unat (p - q)"
  by (rule dvd_unat_diff) (simp_all add: page_aligned_iff)

lemma page_aligned_add:
  assumes "page_aligned p" and "page_aligned q"
  shows "page_aligned (p + q)"
proof -
  have "4096 dvd unat p + unat q" "(4096::nat) dvd 2 ^ 64"
    using assms by (auto simp: page_aligned_iff)
  then have "4096 dvd (unat p + unat q) mod 2 ^ 64" by (simp add: dvd_mod)
  then show ?thesis by (simp add: page_aligned_iff unat_word_ariths)
qed

text \<open>Distinct pages, seen through any translation that keeps their distance, do not overlap.\<close>

lemma pages_disjoint:
  assumes "4096 dvd unat (p - q)" and "p \<noteq> q"
  shows "region p 4096 \<inter> region q 4096 = {}"
proof -
  obtain k where k: "unat (p - q) = 4096 * k" using assms(1) by blast
  have "unat (p - q) \<noteq> 0" using assms(2) by (simp add: unat_eq_0)
  moreover have "unat (p - q) < 2 ^ 64" using unsigned_less [of "p - q"] by simp
  ultimately have "4096 \<le> unat (p - q)" "unat (p - q) + 4096 \<le> 2 ^ 64"
    using k by auto
  then show ?thesis
    using region_disj [of 0 4096 "p - q" 4096 q] by (simp add: Int_commute)
qed

lemma or_flags_and_mask:
  assumes "page_aligned p" and "take_bit 12 f = f"
  shows "(p OR f) AND PAGE_MASK = p"
proof (rule bit_word_eqI)
  fix j assume "j < LENGTH(64)"
  have f: "bit f j \<Longrightarrow> j < 12" using assms(2) by (metis bit_take_bit_iff)
  have "bit (4095 :: u64) j \<longleftrightarrow> j < 12"
    using bit_mask_iff [where ?'a = "64 word", of 12 j] \<open>j < LENGTH(64)\<close>
    by (simp add: mask_eq_exp_minus_1)
  then show "bit ((p OR f) AND PAGE_MASK) j = bit p j"
    using f page_aligned_bit [OF assms(1), of j] \<open>j < LENGTH(64)\<close>
    by (auto simp: PAGE_MASK_def bit_simps)
qed

section \<open>Linked lists through memory\<close>

text \<open>The first \<open>n\<close> elements met when following the links \<open>nxt\<close> from \<open>p\<close> on.\<close>

primrec follow :: "('a \<Rightarrow> 'a) \<Rightarrow> 'a \<Rightarrow> nat \<Rightarrow> 'a list" where
  "follow nxt p 0 = []"
| "follow nxt p (Suc n) = p # follow nxt (nxt p) n"

lemma length_follow [simp]: "length (follow nxt p n) = n"
  by (induction n arbitrary: p) auto

lemma follow_cong:
  assumes "\<And>x. x \<in> set (follow nxt p n) \<Longrightarrow> nxt' x = nxt x"
  shows "follow nxt' p n = follow nxt p n"
  using assms
proof (induction n arbitrary: p)
  case 0
  then show ?case by simp
next
  case (Suc n)
  then show ?case using Suc.prems [of p] by simp
qed

lemma follow_chain:
  assumes "\<And>i. i < n \<Longrightarrow> nxt (f i) = f (Suc i)"
  shows "follow nxt (f 0) n = map f [0 ..< n]"
  using assms
proof (induction n arbitrary: f)
  case (Suc n)
  have "follow nxt (f (Suc 0)) n = map (\<lambda>i. f (Suc i)) [0 ..< n]"
    using Suc.IH [of "\<lambda>i. f (Suc i)"] Suc.prems by simp
  moreover have "map f [0 ..< Suc n] = f 0 # map (\<lambda>i. f (Suc i)) [0 ..< n]"
    by (simp only: upt_conv_Cons zero_less_Suc map_Suc_upt [symmetric] list.map map_map comp_def)
  ultimately show ?case using Suc.prems [of 0] by simp
qed simp

lemma follow_numeral [mem_eval]:
  "follow nxt p (numeral k) = p # follow nxt (nxt p) (pred_numeral k)"
  by (simp add: numeral_eq_Suc)

end
