(* ===== verification/Layout.thy ===== *)
theory Layout
  imports Prelude
begin

text \<open>
  The persistent layout of the file system (\<open>rdfs_master/rdfs.h\<close>, \<open>rdfs_const.h\<close>,
  \<open>macro_cfg.h\<close>): the mount information, the super block and NUMA node descriptors at the start of
  the mapped NVM window, the numbering of the inode slots, and the page-table entry codec.

  The NVM window is a byte memory addressed by kernel virtual address. A pointer to a C struct is
  its address, and a struct field is a load or a store at the field's offset (offsets are those of
  the x86-64 ABI, where the declarations in \<open>rdfs.h\<close> leave no implicit padding that matters).
\<close>

section \<open>Constants\<close>

definition RDFS_START :: u64 where [consts_eval]: "RDFS_START = 0xffffcb0000000000"
definition RDFS_END :: u64 where [consts_eval]: "RDFS_END = 0xffffe8ffffffffff"
definition DIR_AREA_SIZE :: u64 where [consts_eval]: "DIR_AREA_SIZE = 0x800000000"
definition MAX_DIR_SIZE :: u64 where [consts_eval]: "MAX_DIR_SIZE = 0x200000"
definition MAX_FILE_NUM :: u64 where [consts_eval]: "MAX_FILE_NUM = 1024"
definition MAX_FILE_SIZE :: u64 where [consts_eval]: "MAX_FILE_SIZE = 0x800000000"
definition rdfs_NUMA_LINE :: u64 where [consts_eval]: "rdfs_NUMA_LINE = 0x1880000000"
definition NUMA_MASK :: u64 where [consts_eval]: "NUMA_MASK = 0xfc0fc0"
definition RDFS_ROOT_INO :: u64 where [consts_eval]: "RDFS_ROOT_INO = 1"

text \<open>Sizes of \<open>struct numa_des\<close>, of an inode slot and of the structs that live in them.\<close>

definition sizeof_numa_des :: u64 where [consts_eval]: "sizeof_numa_des = 128"
definition RDFS_INODE_BITS :: nat where [consts_eval]: "RDFS_INODE_BITS = 7"
definition RDFS_INODE_SIZE :: u64 where [consts_eval]: "RDFS_INODE_SIZE = 128"
definition sizeof_rdfs_inode :: nat where [consts_eval]: "sizeof_rdfs_inode = 136"
definition sizeof_bdev_des :: u64 where [consts_eval]: "sizeof_bdev_des = 648"
definition RDFS_SB_SIZE :: u64 where [consts_eval]: "RDFS_SB_SIZE = drop_bit 1 PAGE_SIZE"
definition RDFS_SB_SPACE :: u64 where [consts_eval]: "RDFS_SB_SPACE = PAGE_SIZE"
definition ADDRESS_TO_INO_SPACE :: u64 where [consts_eval]: "ADDRESS_TO_INO_SPACE = MAX_FILE_NUM * 8"
definition BDEV_DES_OFFSET :: u64 where [consts_eval]: "BDEV_DES_OFFSET = RDFS_SB_SPACE + ADDRESS_TO_INO_SPACE"

section \<open>The mount information and the NVM window\<close>

record rdfs_sb_info =
  virt_addr :: u64
  phy_addr :: u64
  num_inodes :: u64
  sbi_blocksize :: u64
  sbi_inode_size :: u32
  sbi_bpi :: u64
  initsize :: u64
  s_mount_opt :: u64
  sbi_uid :: u32
  sbi_gid :: u32
  sbi_mode :: u16
  next_generation :: u32
  bdev_count :: u32
  atomic_bdev_post :: u32

text \<open>The state every operation on NVM works on; later components extend the record.\<close>

record nvm =
  sbi :: rdfs_sb_info
  mem :: mem

abbreviation put8 :: "'a nvm_scheme \<Rightarrow> u64 \<Rightarrow> u8 \<Rightarrow> 'a nvm_scheme" where
  "put8 s a v \<equiv> s\<lparr>mem := st8 (mem s) a v\<rparr>"
abbreviation put16 :: "'a nvm_scheme \<Rightarrow> u64 \<Rightarrow> u16 \<Rightarrow> 'a nvm_scheme" where
  "put16 s a v \<equiv> s\<lparr>mem := st16 (mem s) a v\<rparr>"
abbreviation put32 :: "'a nvm_scheme \<Rightarrow> u64 \<Rightarrow> u32 \<Rightarrow> 'a nvm_scheme" where
  "put32 s a v \<equiv> s\<lparr>mem := st32 (mem s) a v\<rparr>"
abbreviation put64 :: "'a nvm_scheme \<Rightarrow> u64 \<Rightarrow> u64 \<Rightarrow> 'a nvm_scheme" where
  "put64 s a v \<equiv> s\<lparr>mem := st64 (mem s) a v\<rparr>"

text \<open>Physical and virtual addresses of NVM differ by a constant.\<close>

definition rdfs_va :: "'a nvm_scheme \<Rightarrow> u64 \<Rightarrow> u64" where
  "rdfs_va s phys = phys - phy_addr (sbi s) + virt_addr (sbi s)"

definition rdfs_pa :: "'a nvm_scheme \<Rightarrow> u64 \<Rightarrow> u64" where
  "rdfs_pa s va = va - virt_addr (sbi s) + phy_addr (sbi s)"

lemma rdfs_va_pa [simp]: "rdfs_va s (rdfs_pa s v) = v" "rdfs_pa s (rdfs_va s p) = p"
  by (simp_all add: rdfs_va_def rdfs_pa_def)

lemma rdfs_va_inj [simp]: "rdfs_va s p = rdfs_va s q \<longleftrightarrow> p = q"
  by (simp add: rdfs_va_def)

lemma rdfs_va_diff [simp]: "rdfs_va s p - rdfs_va s q = p - q"
  by (simp add: rdfs_va_def)

lemma rdfs_va_add: "rdfs_va s (p + k) = rdfs_va s p + k"
  by (simp add: rdfs_va_def)

lemma rdfs_va_mem_update [simp]:
  "rdfs_va (s\<lparr>mem := m\<rparr>) = rdfs_va s" "rdfs_pa (s\<lparr>mem := m\<rparr>) = rdfs_pa s"
  by (auto simp: rdfs_va_def rdfs_pa_def)

section \<open>The super block and the node descriptors\<close>

definition rdfs_get_super :: "'a nvm_scheme \<Rightarrow> u64" where
  "rdfs_get_super s = virt_addr (sbi s)"

definition rdfs_get_redund_super :: "'a nvm_scheme \<Rightarrow> u64" where
  "rdfs_get_redund_super s = virt_addr (sbi s) + RDFS_SB_SIZE"

lemma rdfs_get_super_mem_update [simp]: "rdfs_get_super (s\<lparr>mem := m\<rparr>) = rdfs_get_super s"
  by (simp add: rdfs_get_super_def)

text \<open>Fields of \<open>struct rdfs_super_block\<close>.\<close>

definition s_numa_flag :: "'a nvm_scheme \<Rightarrow> u8" where
  "s_numa_flag s = mem s (rdfs_get_super s + 48)"

definition s_numa_des :: "'a nvm_scheme \<Rightarrow> nat \<Rightarrow> u64" where
  "s_numa_des s i = ld64 (mem s) (rdfs_get_super s + (if i = 0 then 104 else 112))"

text \<open>Fields of \<open>struct numa_des\<close>.\<close>

abbreviation (input) free_inode_count :: "'a nvm_scheme \<Rightarrow> u64 \<Rightarrow> u64" where
  "free_inode_count s nd \<equiv> ld64 (mem s) nd"
abbreviation (input) free_page_count :: "'a nvm_scheme \<Rightarrow> u64 \<Rightarrow> u64" where
  "free_page_count s nd \<equiv> ld64 (mem s) (nd + 8)"
abbreviation (input) free_inode_phy :: "'a nvm_scheme \<Rightarrow> u64 \<Rightarrow> u64" where
  "free_inode_phy s nd \<equiv> ld64 (mem s) (nd + 16)"
abbreviation (input) free_page_phy :: "'a nvm_scheme \<Rightarrow> u64 \<Rightarrow> u64" where
  "free_page_phy s nd \<equiv> ld64 (mem s) (nd + 24)"

definition rdfs_get_cpu_numa_id :: nat where
  "rdfs_get_cpu_numa_id = 0"

definition rdfs_get_numa_by_id :: "'a nvm_scheme \<Rightarrow> nat \<Rightarrow> u64" where
  "rdfs_get_numa_by_id s i = s_numa_des s i"

definition rdfs_get_phys_numa_id :: "'a nvm_scheme \<Rightarrow> u64 \<Rightarrow> nat" where
  "rdfs_get_phys_numa_id s phys = (if s_numa_flag s \<noteq> 0 \<and> rdfs_NUMA_LINE < phys then 1 else 0)"

definition rdfs_get_inode_numa_id :: "'a nvm_scheme \<Rightarrow> u64 \<Rightarrow> nat" where
  "rdfs_get_inode_numa_id s ni = rdfs_get_phys_numa_id s (rdfs_pa s ni)"

definition rdfs_get_numa_by_inode :: "'a nvm_scheme \<Rightarrow> u64 \<Rightarrow> u64" where
  "rdfs_get_numa_by_inode s ni = rdfs_get_numa_by_id s (rdfs_get_inode_numa_id s ni)"

text \<open>The slot of a virtual address in the table that maps file areas to VFS inodes. The C
  expression adds \<open>index * sizeof(struct inode*)\<close> to a \<open>struct inode**\<close>, so the byte offset is scaled
  by the pointer size a second time. The quotient is below $2^{29}$, so its \<open>int\<close> is exact.\<close>

definition p_address_to_ino :: "'a nvm_scheme \<Rightarrow> u64" where
  "p_address_to_ino s = ld64 (mem s) (rdfs_get_super s + 120)"

definition rdfs_address_to_ino :: "'a nvm_scheme \<Rightarrow> u64 \<Rightarrow> u64" where
  "rdfs_address_to_ino s address =
     (let index = (address - RDFS_START - DIR_AREA_SIZE) div MAX_FILE_SIZE
      in p_address_to_ino s + (index * 8) * 8)"

section \<open>Inode slots\<close>

definition get_rdfs_inode :: "'a nvm_scheme \<Rightarrow> u64 \<Rightarrow> u64" where
  "get_rdfs_inode s ino =
     (if s_numa_flag s \<noteq> 0 then
        if ino AND 1 \<noteq> 0
        then s_numa_des s 0 + sizeof_numa_des + push_bit RDFS_INODE_BITS (drop_bit 1 (ino - 1))
        else s_numa_des s 1 + sizeof_numa_des + push_bit RDFS_INODE_BITS (drop_bit 1 (ino - 2))
      else s_numa_des s 0 + sizeof_numa_des + push_bit RDFS_INODE_BITS (ino - 1))"

definition get_rdfs_inode_phy_addr :: "'a nvm_scheme \<Rightarrow> u64 \<Rightarrow> u64" where
  "get_rdfs_inode_phy_addr s ino = rdfs_pa s (get_rdfs_inode s ino)"

definition get_rdfs_inodenr :: "'a nvm_scheme \<Rightarrow> u64 \<Rightarrow> u64" where
  "get_rdfs_inodenr s inode_phy =
     (if s_numa_flag s \<noteq> 0 then
        if rdfs_NUMA_LINE < inode_phy
        then push_bit 1 (drop_bit RDFS_INODE_BITS
               (inode_phy - rdfs_pa s (s_numa_des s 1) - sizeof_numa_des)) + 2
        else push_bit 1 (drop_bit RDFS_INODE_BITS
               (inode_phy - rdfs_pa s (s_numa_des s 0) - sizeof_numa_des)) + 1
      else drop_bit RDFS_INODE_BITS (inode_phy - rdfs_pa s (s_numa_des s 0) - sizeof_numa_des) + 1)"

text \<open>A slot index survives the two shifts as long as the slot offset does not wrap.\<close>

lemma drop_push_bit:
  fixes k :: u64
  assumes "unat k < 2 ^ (64 - n)"
  shows "drop_bit n (push_bit n k) = k"
proof (rule bit_word_eqI)
  fix j assume "j < LENGTH(64)"
  have "take_bit (64 - n) (unat k) = unat k" using assms by (rule take_bit_nat_eq_self)
  then have "bit (take_bit (64 - n) (unat k)) j = bit (unat k) j" by simp
  then have "bit k j \<Longrightarrow> j < 64 - n" by (simp add: bit_take_bit_iff bit_unsigned_iff)
  then show "bit (drop_bit n (push_bit n k)) j = bit k j" by (auto simp: bit_simps)
qed

lemma push_drop_bit:
  fixes k :: u64
  assumes "\<And>j. j < n \<Longrightarrow> \<not> bit k j"
  shows "push_bit n (drop_bit n k) = k"
proof (rule bit_word_eqI)
  fix j assume "j < LENGTH(64)"
  then show "bit (push_bit n (drop_bit n k)) j = bit k j"
    using assms [of j] by (cases "j < n") (auto simp: bit_simps)
qed

text \<open>The slot of an inode number, relative to its node.\<close>

lemma inode_slot_roundtrip:
  assumes "unat (drop_bit 1 (ino - c)) < 2 ^ 57" and "\<not> bit (ino - c) 0"
  shows "push_bit 1 (drop_bit RDFS_INODE_BITS
           (rdfs_pa s (nd + sizeof_numa_des + push_bit RDFS_INODE_BITS (drop_bit 1 (ino - c)))
              - rdfs_pa s nd - sizeof_numa_des)) + c = ino"
proof -
  have "push_bit 1 (drop_bit 1 (ino - c)) = ino - c"
    using assms(2) by (intro push_drop_bit) (simp add: less_Suc_eq)
  moreover have "drop_bit RDFS_INODE_BITS (push_bit RDFS_INODE_BITS (drop_bit 1 (ino - c)))
      = drop_bit 1 (ino - c)"
    using assms(1) by (intro drop_push_bit) (simp add: RDFS_INODE_BITS_def)
  moreover have "rdfs_pa s (nd + sizeof_numa_des + x) - rdfs_pa s nd - sizeof_numa_des = x" for x
    by (simp add: rdfs_pa_def)
  ultimately show ?thesis by (simp only: diff_add_cancel)
qed

text \<open>
  The numbers of a mounted image. With two nodes, odd numbers live on node 0 below the NUMA line and
  even numbers on node 1 above it; with one node every number lives on node 0.
\<close>

definition inode_nr_ok :: "'a nvm_scheme \<Rightarrow> u64 \<Rightarrow> bool" where
  "inode_nr_ok s ino \<longleftrightarrow>
     ino \<noteq> 0 \<and> ino < 0x100000000000000 \<and>
     (s_numa_flag s \<noteq> 0 \<longrightarrow>
        (ino AND 1 \<noteq> 0 \<longleftrightarrow> \<not> rdfs_NUMA_LINE < get_rdfs_inode_phy_addr s ino))"

lemma and_1_bit_0: "(w :: u64) AND 1 \<noteq> 0 \<longleftrightarrow> bit w 0"
  by (simp add: and_one_eq bit_0 odd_iff_mod_2_eq_one)

lemma unat_drop_1_less: "unat (w :: u64) < 2 ^ 57 \<Longrightarrow> unat (drop_bit 1 w) < 2 ^ 57"
  by (simp add: unat_div drop_bit_eq_div)

lemma get_rdfs_inodenr_inverse:
  assumes "inode_nr_ok s ino"
  shows "get_rdfs_inodenr s (get_rdfs_inode_phy_addr s ino) = ino"
proof (cases "s_numa_flag s = 0")
  case True
  have "unat ino < 0x100000000000000" "ino \<noteq> 0"
    using assms by (simp_all add: inode_nr_ok_def word_less_nat_alt)
  then have "unat (ino - 1) < 2 ^ 57" by (simp add: unat_minus_one)
  then have "drop_bit RDFS_INODE_BITS (push_bit RDFS_INODE_BITS (ino - 1)) = ino - 1"
    by (intro drop_push_bit) (simp add: RDFS_INODE_BITS_def)
  moreover have "rdfs_pa s (nd + sizeof_numa_des + x) - rdfs_pa s nd - sizeof_numa_des = x" for nd x
    by (simp add: rdfs_pa_def)
  ultimately show ?thesis
    using True by (simp add: get_rdfs_inodenr_def get_rdfs_inode_phy_addr_def get_rdfs_inode_def)
next
  case False
  define c :: u64 where "c = (if bit ino 0 then 1 else 2)"
  have "unat ino \<noteq> 0" using assms by (simp add: inode_nr_ok_def unat_eq_0)
  moreover have "unat ino \<noteq> 1" if "\<not> bit ino 0"
    using that by (metis bit_1_0 unsigned_1 unsigned_word_eqI)
  ultimately have "c \<le> ino" by (fastforce simp: c_def word_le_nat_alt)
  moreover have "unat ino < 0x100000000000000"
    using assms by (simp add: inode_nr_ok_def word_less_nat_alt)
  ultimately have "unat (ino - c) < 2 ^ 57" by (simp add: unat_sub)
  then have "unat (drop_bit 1 (ino - c)) < 2 ^ 57" by (rule unat_drop_1_less)
  moreover have "\<not> bit (ino - c) 0" by (simp add: c_def bit_0)
  ultimately show ?thesis
    using inode_slot_roundtrip [of ino c s "s_numa_des s (if bit ino 0 then 0 else 1)"] assms False
    by (auto simp: inode_nr_ok_def get_rdfs_inodenr_def get_rdfs_inode_phy_addr_def
        get_rdfs_inode_def and_1_bit_0 c_def)
qed

section \<open>Page-table entries\<close>

text \<open>Flag bits of the x86-64 kernel: \<open>_PAGE_TABLE\<close> and \<open>__PAGE_KERNEL\<close>.\<close>

definition PAGE_TABLE_FLAGS :: u64 where [consts_eval]: "PAGE_TABLE_FLAGS = 0x67"
definition PAGE_KERNEL_FLAGS :: u64 where [consts_eval]: "PAGE_KERNEL_FLAGS = 0x8000000000000163"

definition get_sn_from_pte_v :: "u64 \<Rightarrow> u64" where
  "get_sn_from_pte_v v = drop_bit 12 (v AND 0x0FFFFFFFFFFF000)"

definition get_bdev_id_from_pte_v :: "u64 \<Rightarrow> u64" where
  "get_bdev_id_from_pte_v v = drop_bit 60 (v AND 0x7000000000000000)"

definition pte_is_sn :: "u64 \<Rightarrow> bool" where
  "pte_is_sn v \<longleftrightarrow> v AND NOT PAGE_MASK = 0"

definition get_bdev_des_by_id :: "'a nvm_scheme \<Rightarrow> u64 \<Rightarrow> u64" where
  "get_bdev_des_by_id s bdev_id = virt_addr (sbi s) + BDEV_DES_OFFSET + bdev_id * sizeof_bdev_des"

definition get_phys_from_pte_val :: "u64 \<Rightarrow> u64" where
  "get_phys_from_pte_val v = v AND 0x7ffffffffffff000"

definition pte_of_phys :: "u64 \<Rightarrow> u64" where
  "pte_of_phys phys = phys OR PAGE_KERNEL_FLAGS"

definition table_of_phys :: "u64 \<Rightarrow> u64" where
  "table_of_phys phys = phys OR PAGE_TABLE_FLAGS"

definition rdfs_set_pte :: "'a nvm_scheme \<Rightarrow> u64 \<Rightarrow> u64 \<Rightarrow> 'a nvm_scheme" where
  "rdfs_set_pte s pte phys = put64 s pte (pte_of_phys phys)"

definition rdfs_set_pmd :: "'a nvm_scheme \<Rightarrow> u64 \<Rightarrow> u64 \<Rightarrow> 'a nvm_scheme" where
  "rdfs_set_pmd s pmd pte = put64 s pmd (table_of_phys (rdfs_pa s pte))"

definition rdfs_set_pud :: "'a nvm_scheme \<Rightarrow> u64 \<Rightarrow> u64 \<Rightarrow> 'a nvm_scheme" where
  "rdfs_set_pud s pud pmd = put64 s pud (table_of_phys (rdfs_pa s pmd))"

text \<open>A physical page address: page aligned and below bit 63, as the entry masks assume.\<close>

definition phys_page :: "u64 \<Rightarrow> bool" where
  "phys_page p \<longleftrightarrow> p AND 0x7ffffffffffff000 = p"

lemma phys_page_aligned: "phys_page p \<Longrightarrow> page_aligned p"
proof -
  assume "phys_page p"
  then have "p AND 4095 = (p AND 0x7ffffffffffff000) AND 4095" by (simp add: phys_page_def)
  also have "\<dots> = 0" by (simp add: and.assoc)
  finally show ?thesis by (simp add: page_aligned_def)
qed

lemma phys_pageI:
  assumes "page_aligned p" and "unat p < 2 ^ 62"
  shows "phys_page p"
proof -
  have m: "(0x7ffffffffffff000 :: u64) = mask 63 AND NOT (mask 12)" by (simp add: mask_eq_exp_minus_1)
  have "bit p j \<Longrightarrow> j < 63" for j
  proof -
    assume "bit p j"
    then have "2 ^ j \<le> unat p" using bit_iff_odd [of "unat p" j] by (cases "unat p < 2 ^ j") (auto simp: bit_unsigned_iff)
    then have "(2 :: nat) ^ j < 2 ^ 62" using assms(2) by (rule le_less_trans)
    then have "j < 62" by (rule power_less_imp_less_exp [rotated]) simp
    then show "j < 63" by simp
  qed
  then show ?thesis unfolding phys_page_def m
    using page_aligned_bit [OF assms(1)] by (intro bit_word_eqI) (force simp: bit_simps)
qed

lemma get_phys_set_pte [simp]: "phys_page p \<Longrightarrow> get_phys_from_pte_val (pte_of_phys p) = p"
  by (simp add: get_phys_from_pte_val_def pte_of_phys_def PAGE_KERNEL_FLAGS_def phys_page_def
      bit.conj_disj_distrib2)

lemma get_phys_table [simp]: "phys_page p \<Longrightarrow> get_phys_from_pte_val (table_of_phys p) = p"
  by (simp add: get_phys_from_pte_val_def table_of_phys_def PAGE_TABLE_FLAGS_def phys_page_def
      bit.conj_disj_distrib2)

lemma pte_of_phys_nonzero [simp]: "pte_of_phys p \<noteq> 0" "table_of_phys p \<noteq> 0"
  by (auto simp: pte_of_phys_def table_of_phys_def PAGE_KERNEL_FLAGS_def PAGE_TABLE_FLAGS_def
      or_eq_0_iff)

lemma table_of_phys_mask [simp]: "phys_page p \<Longrightarrow> table_of_phys p AND PAGE_MASK = p"
  unfolding table_of_phys_def
  by (rule or_flags_and_mask) (simp_all add: phys_page_aligned PAGE_TABLE_FLAGS_def take_bit_eq_mod)

text \<open>Index of an address in a table of each level, and the entry's address.\<close>

definition pmd_index :: "u64 \<Rightarrow> u64" where "pmd_index a = drop_bit 21 a AND 511"
definition pte_index :: "u64 \<Rightarrow> u64" where "pte_index a = drop_bit 12 a AND 511"
definition pud_index :: "u64 \<Rightarrow> u64" where "pud_index a = drop_bit 30 a AND 511"

definition rdfs_get_pud :: "'a nvm_scheme \<Rightarrow> u64 \<Rightarrow> u64" where
  "rdfs_get_pud s ino =
     (let ni = get_rdfs_inode s ino
      in if ld64 (mem s) (ni + 72) = 0 then 0 else rdfs_va s (ld64 (mem s) (ni + 72)))"

definition rdfs_get_pmd :: "'a nvm_scheme \<Rightarrow> u64 \<Rightarrow> u64" where
  "rdfs_get_pmd s pud = rdfs_va s (ld64 (mem s) pud AND PAGE_MASK)"

definition rdfs_get_pte :: "'a nvm_scheme \<Rightarrow> u64 \<Rightarrow> u64" where
  "rdfs_get_pte s pmd = rdfs_va s (ld64 (mem s) pmd AND PAGE_MASK)"

definition rdfs_pmd_offset :: "'a nvm_scheme \<Rightarrow> u64 \<Rightarrow> u64 \<Rightarrow> u64" where
  "rdfs_pmd_offset s pud address =
     rdfs_va s (get_phys_from_pte_val (ld64 (mem s) pud)) + pmd_index address * 8"

definition rdfs_pte_offset :: "'a nvm_scheme \<Rightarrow> u64 \<Rightarrow> u64 \<Rightarrow> u64" where
  "rdfs_pte_offset s pmd address =
     rdfs_va s (get_phys_from_pte_val (ld64 (mem s) pmd)) + pte_index address * 8"

section \<open>A concrete mounted image\<close>

text \<open>
  An image at physical address \<open>0x1800000000\<close> mapped at a fixed kernel address, whose two node
  descriptors sit at offset \<open>0x4000\<close> and at the NUMA line. It is the input at which the properties
  with hypotheses are instantiated.
\<close>

definition example_sbi :: rdfs_sb_info where
  "example_sbi = \<lparr>virt_addr = 0xffffc90000000000, phy_addr = 0x1800000000, num_inodes = 0,
     sbi_blocksize = 4096, sbi_inode_size = 128, sbi_bpi = 5, initsize = 0x100000000,
     s_mount_opt = 0, sbi_uid = 0, sbi_gid = 0, sbi_mode = 0x3ff, next_generation = 0,
     bdev_count = 0, atomic_bdev_post = 0\<rparr>"

definition example_super :: mem where
  "example_super =
     st64 (st64 (st8 (\<lambda>_. 0) 0xffffc90000000030 1)
       0xffffc90000000068 0xffffc90000004000) 0xffffc90000000070 0xffffc90080000000"

definition example_nvm :: nvm where
  "example_nvm = \<lparr>sbi = example_sbi, mem = example_super\<rparr>"

lemma example_nvm_eval [mem_eval]:
  "virt_addr (sbi example_nvm) = 0xffffc90000000000"
  "phy_addr (sbi example_nvm) = 0x1800000000"
  "s_numa_flag example_nvm = 1"
  "s_numa_des example_nvm 0 = 0xffffc90000004000"
  "s_numa_des example_nvm (Suc 0) = 0xffffc90080000000"
  by (simp_all add: s_numa_des_def s_numa_flag_def rdfs_get_super_def example_nvm_def
      example_super_def example_sbi_def mem_eval)

section \<open>Properties of the layout\<close>

text \<open>C22. Inode numbering: \<open>get_rdfs_inodenr\<close> inverts \<open>get_rdfs_inode_phy_addr\<close> on every number of the
  image, whether the image uses one NUMA node or interleaves the numbers over two.\<close>

theorem inode_number_roundtrip:
  assumes "inode_nr_ok s ino"
  shows "get_rdfs_inodenr s (get_rdfs_inode_phy_addr s ino) = ino"
  using assms by (rule get_rdfs_inodenr_inverse)

theorem inode_number_roundtrip_witness:
  "inode_nr_ok example_nvm 6
     \<and> get_rdfs_inodenr example_nvm (get_rdfs_inode_phy_addr example_nvm 6) = 6"
proof -
  have "inode_nr_ok example_nvm 6"
    by (simp add: inode_nr_ok_def get_rdfs_inode_phy_addr_def get_rdfs_inode_def rdfs_pa_def
        mem_eval consts_eval)
  then show ?thesis using inode_number_roundtrip [of example_nvm 6] by blast
qed

text \<open>The table that maps file areas to inodes has \<open>MAX_FILE_NUM\<close> slots of eight bytes, yet the slot
  of area \<open>i\<close> is \<open>64 * i\<close> bytes into it: from area 128 on the slot lies behind the table, where the
  block device descriptors and node descriptors are.\<close>

theorem rdfs_address_to_ino_beyond_table:
  assumes "128 \<le> i" and "i < 1024"
  shows "unat (rdfs_address_to_ino s (RDFS_START + DIR_AREA_SIZE + of_nat i * MAX_FILE_SIZE)
           - p_address_to_ino s) \<ge> unat ADDRESS_TO_INO_SPACE"
proof -
  have "(of_nat i * 0x800000000 :: u64) div 0x800000000 = of_nat i"
    using assms by (intro word_eq_unatI) (simp add: unat_div unat_word_ariths unat_of_nat)
  then have "rdfs_address_to_ino s (RDFS_START + DIR_AREA_SIZE + of_nat i * MAX_FILE_SIZE)
      - p_address_to_ino s = of_nat (i * 64)"
    by (simp add: rdfs_address_to_ino_def Let_def MAX_FILE_SIZE_def)
  moreover have "unat (of_nat (i * 64) :: u64) = i * 64"
    using assms by (simp only: unat_of_nat) simp
  ultimately show ?thesis
    using assms by (simp add: ADDRESS_TO_INO_SPACE_def MAX_FILE_NUM_def)
qed

end
