(* ===== verification/Resource_Pool.thy ===== *)
theory Resource_Pool
  imports Main
begin

text \<open>
  The contract shared by the allocators of the system (NVM pages, inode slots, virtual areas): an operation that takes one resource out of a pool and one that gives a
  resource back. The client side is a sequence of requests by a client that returns only what it
  holds; the lemmas of the locale say that no such sequence ever hands a resource out twice or
  loses one.
\<close>

datatype ('c, 'r) pool_op = Take 'c | Give 'r

text \<open>One request of the client, on the allocator's state and the list of resources it holds. A
  failing request changes nothing.\<close>

fun pool_step ::
  "('c \<Rightarrow> 's \<Rightarrow> ('r \<times> 's) option) \<Rightarrow> ('r \<Rightarrow> 's \<Rightarrow> 's) \<Rightarrow> ('c, 'r) pool_op \<Rightarrow> 's \<times> 'r list \<Rightarrow> 's \<times> 'r list"
where
  "pool_step alloc release (Take c) (s, held) =
     (case alloc c s of None \<Rightarrow> (s, held) | Some (r, s') \<Rightarrow> (s', r # held))"
| "pool_step alloc release (Give r) (s, held) =
     (if r \<in> set held then (release r s, remove1 r held) else (s, held))"

definition pool_run ::
  "('c \<Rightarrow> 's \<Rightarrow> ('r \<times> 's) option) \<Rightarrow> ('r \<Rightarrow> 's \<Rightarrow> 's) \<Rightarrow> ('c, 'r) pool_op list \<Rightarrow> 's \<times> 'r list \<Rightarrow> 's \<times> 'r list"
where
  "pool_run alloc release ops st = fold (pool_step alloc release) ops st"

locale resource_pool =
  fixes alloc :: "'c \<Rightarrow> 's \<Rightarrow> ('r \<times> 's) option"
    and release :: "'r \<Rightarrow> 's \<Rightarrow> 's"
    and free_set :: "'s \<Rightarrow> 'r set"
    and inv :: "'s \<Rightarrow> bool"
    and valid :: "'s \<Rightarrow> 'r \<Rightarrow> bool"
  assumes free_valid: "inv s \<Longrightarrow> r \<in> free_set s \<Longrightarrow> valid s r"
    and alloc_mem: "inv s \<Longrightarrow> alloc c s = Some (r, s') \<Longrightarrow> r \<in> free_set s"
    and alloc_set: "inv s \<Longrightarrow> alloc c s = Some (r, s') \<Longrightarrow> free_set s' = free_set s - {r}"
    and alloc_inv: "inv s \<Longrightarrow> alloc c s = Some (r, s') \<Longrightarrow> inv s'"
    and alloc_valid: "inv s \<Longrightarrow> alloc c s = Some (r, s') \<Longrightarrow> valid s' = valid s"
    and release_set: "inv s \<Longrightarrow> valid s r \<Longrightarrow> r \<notin> free_set s
          \<Longrightarrow> free_set (release r s) = insert r (free_set s)"
    and release_inv: "inv s \<Longrightarrow> valid s r \<Longrightarrow> r \<notin> free_set s \<Longrightarrow> inv (release r s)"
    and release_valid: "inv s \<Longrightarrow> valid s r \<Longrightarrow> r \<notin> free_set s \<Longrightarrow> valid (release r s) = valid s"
begin

text \<open>What holds between requests: the client holds each resource once, and none of them is free.\<close>

definition consistent :: "'s \<times> 'r list \<Rightarrow> bool" where
  "consistent st \<longleftrightarrow> inv (fst st) \<and> distinct (snd st) \<and> set (snd st) \<inter> free_set (fst st) = {}
     \<and> (\<forall>r \<in> set (snd st). valid (fst st) r)"

definition all_resources :: "'s \<times> 'r list \<Rightarrow> 'r set" where
  "all_resources st = free_set (fst st) \<union> set (snd st)"

lemma step_consistent:
  assumes "consistent st"
  shows "consistent (pool_step alloc release op st)
       \<and> all_resources (pool_step alloc release op st) = all_resources st"
proof (cases st)
  case (Pair s held)
  then have inv: "inv s" and d: "distinct held" "set held \<inter> free_set s = {}"
    and v: "\<And>r. r \<in> set held \<Longrightarrow> valid s r"
    using assms by (auto simp: consistent_def)
  show ?thesis
  proof (cases op)
    case (Take c)
    show ?thesis
    proof (cases "alloc c s")
      case None
      then show ?thesis using assms Pair Take by simp
    next
      case (Some p)
      then obtain r s' where a: "alloc c s = Some (r, s')" by (cases p) auto
      note facts = alloc_mem [OF inv a] alloc_set [OF inv a] alloc_inv [OF inv a]
        alloc_valid [OF inv a] free_valid [OF inv alloc_mem [OF inv a]]
      show ?thesis
        using facts d v Pair Take a by (auto simp: consistent_def all_resources_def)
    qed
  next
    case (Give r)
    show ?thesis
    proof (cases "r \<in> set held")
      case True
      then have n: "valid s r" "r \<notin> free_set s" using v d by auto
      note facts = release_set [OF inv n] release_inv [OF inv n] release_valid [OF inv n]
      show ?thesis
        using facts d v Pair Give True by (auto simp: consistent_def all_resources_def)
    next
      case False
      then show ?thesis using assms Pair Give by simp
    qed
  qed
qed

lemma run_consistent:
  assumes "consistent st"
  shows "consistent (pool_run alloc release ops st)
       \<and> all_resources (pool_run alloc release ops st) = all_resources st"
  using assms
proof (induction ops arbitrary: st)
  case Nil
  then show ?case by (simp add: pool_run_def)
next
  case (Cons op ops)
  have "pool_run alloc release (op # ops) st
      = pool_run alloc release ops (pool_step alloc release op st)"
    by (simp add: pool_run_def)
  then show ?case using Cons.IH step_consistent [OF Cons.prems] by metis
qed

text \<open>From an idle client: what it ends up holding is distinct, comes out of the initial pool, and
  together with what is still free makes up exactly that pool.\<close>

lemma run_from_idle:
  assumes "inv s" and "pool_run alloc release ops (s, []) = (s', held)"
  shows "inv s' \<and> distinct held \<and> set held \<inter> free_set s' = {} \<and> free_set s' \<union> set held = free_set s"
  using run_consistent [of "(s, [])" ops] assms by (simp add: consistent_def all_resources_def)

end

end
