(* ===== verification/Free_Pages.thy ===== *)
theory Free_Pages
  imports Layout Resource_Pool
begin

text \<open>
  The NVM page allocator of \<open>rdfs_master/balloc.c\<close>. Every NUMA node has a descriptor with the
  physical address of its first free page and the number of free pages; each free page holds the
  physical address of the next one in its first eight bytes. The spin lock of a descriptor makes
  each critical section atomic, so every operation is a function on the NVM state.

  The abstraction of a node is the list of its free pages (\<open>free_page_list\<close>). The lemmas show that
  the operations take from and push onto that list, that they keep the allocator's invariant, and
  that the allocator is a resource pool.
\<close>

section \<open>Operations\<close>

definition get_cpu_numa :: "'a nvm_scheme \<Rightarrow> nat \<Rightarrow> u64" where
  "get_cpu_numa s cpu =
     (if s_numa_flag s \<noteq> 0 \<and> push_bit cpu 1 AND NUMA_MASK \<noteq> 0 then s_numa_des s 1
      else s_numa_des s 0)"

text \<open>The loop of \<open>rdfs_new_block\<close> that walks \<open>num\<close> links.\<close>

primrec next_walk :: "'a nvm_scheme \<Rightarrow> nat \<Rightarrow> u64 \<Rightarrow> u64" where
  "next_walk s 0 next = next"
| "next_walk s (Suc n) next = next_walk s n (rdfs_va s (ld64 (mem s) next))"

text \<open>\<open>None\<close> is the return value \<open>-1\<close>; otherwise \<open>*physaddr\<close> and the new state. The comparison with
  the count converts \<open>num\<close> to an unsigned 64-bit number. The second test of the count, under the
  lock, sees the same state as the first one when nobody intervenes.\<close>

definition rdfs_new_block :: "'a nvm_scheme \<Rightarrow> nat \<Rightarrow> int \<Rightarrow> u64 \<Rightarrow> (u64 \<times> 'a nvm_scheme) option" where
  "rdfs_new_block s cpu num ni =
     (let nd = (if ni \<noteq> 0 then rdfs_get_numa_by_inode s ni else get_cpu_numa s cpu)
      in if free_page_count s nd < word_of_int num then None
         else let physaddr = free_page_phy s nd;
                  next = next_walk s (nat num) (rdfs_va s (free_page_phy s nd));
                  s1 = put64 s (nd + 8) (free_page_count s nd - word_of_int num);
                  s2 = put64 s1 (nd + 24) (rdfs_pa s1 next)
              in Some (physaddr, s2))"

text \<open>\<open>rdfs_get_page\<close> returns an uninitialised local when no page was found: \<open>junk\<close>.\<close>

definition rdfs_get_page :: "'a nvm_scheme \<Rightarrow> nat \<Rightarrow> u64 \<Rightarrow> u64 \<times> 'a nvm_scheme" where
  "rdfs_get_page s cpu junk =
     (case rdfs_new_block s cpu 1 0 of
        None \<Rightarrow> (junk, s)
      | Some (physaddr, s') \<Rightarrow> (if physaddr \<noteq> 0 then rdfs_va s' physaddr else junk, s'))"

definition rdfs_get_zeroed_page :: "'a nvm_scheme \<Rightarrow> nat \<Rightarrow> u64 \<times> 'a nvm_scheme" where
  "rdfs_get_zeroed_page s cpu =
     (case rdfs_new_block s cpu 1 0 of
        None \<Rightarrow> (0, s)
      | Some (physaddr, s') \<Rightarrow>
          if physaddr \<noteq> 0
          then (rdfs_va s' physaddr, s'\<lparr>mem := memset (mem s') (rdfs_va s' physaddr) 0 4096\<rparr>)
          else (0, s'))"

definition rdfs_free_block :: "'a nvm_scheme \<Rightarrow> u64 \<Rightarrow> 'a nvm_scheme" where
  "rdfs_free_block s phys =
     (let numa_id = (if s_numa_flag s \<noteq> 0 \<and> rdfs_NUMA_LINE < phys then 1 else 0);
          nd = s_numa_des s numa_id;
          s1 = put64 s (rdfs_va s phys) (free_page_phy s nd);
          s2 = put64 s1 (nd + 24) phys
      in put64 s2 (nd + 8) (free_page_count s2 nd + 1))"

definition rdfs_count_free_blocks :: "'a nvm_scheme \<Rightarrow> u64" where
  "rdfs_count_free_blocks s =
     (let count = free_page_count s (s_numa_des s 0)
      in if s_numa_des s 1 \<noteq> 0 then count + free_page_count s (s_numa_des s 1) else count)"

text \<open>Deferred frees: pages are chained locally, one chain per node, and spliced in at the end.\<close>

record pre_free_chain =
  free_start :: u64
  free_end :: u64
  free_count :: u64

type_synonym pre_free_struct = "pre_free_chain \<times> pre_free_chain"

definition rdfs_pre_free_init :: pre_free_struct where
  "rdfs_pre_free_init = (\<lparr>free_start = 0, free_end = 0, free_count = 0\<rparr>,
                         \<lparr>free_start = 0, free_end = 0, free_count = 0\<rparr>)"

definition pre_free_push ::
  "'a nvm_scheme \<Rightarrow> pre_free_chain \<Rightarrow> u64 \<Rightarrow> pre_free_chain \<times> 'a nvm_scheme" where
  "pre_free_push s pf phys =
     (if free_count pf = 0
      then (\<lparr>free_start = phys, free_end = phys, free_count = free_count pf + 1\<rparr>, s)
      else (pf\<lparr>free_start := phys, free_count := free_count pf + 1\<rparr>,
            put64 s (rdfs_va s phys) (free_start pf)))"

definition rdfs_pre_free_block ::
  "'a nvm_scheme \<Rightarrow> pre_free_struct \<Rightarrow> u64 \<Rightarrow> pre_free_struct \<times> 'a nvm_scheme" where
  "rdfs_pre_free_block s pfs phys =
     (if rdfs_get_phys_numa_id s phys = 0
      then (let (pf, s') = pre_free_push s (fst pfs) phys in ((pf, snd pfs), s'))
      else (let (pf, s') = pre_free_push s (snd pfs) phys in ((fst pfs, pf), s')))"

definition pre_free_splice :: "'a nvm_scheme \<Rightarrow> u64 \<Rightarrow> pre_free_chain \<Rightarrow> 'a nvm_scheme" where
  "pre_free_splice s nd pf =
     (if free_count pf \<noteq> 0
      then (let s1 = put64 s (rdfs_va s (free_end pf)) (free_page_phy s nd);
                s2 = put64 s1 (nd + 24) (free_start pf)
            in put64 s2 (nd + 8) (free_page_count s2 nd + free_count pf))
      else s)"

definition rdfs_pre_free_list :: "'a nvm_scheme \<Rightarrow> pre_free_struct \<Rightarrow> 'a nvm_scheme" where
  "rdfs_pre_free_list s pfs =
     (let s1 = pre_free_splice s (s_numa_des s 0) (fst pfs)
      in pre_free_splice s1 (s_numa_des s1 1) (snd pfs))"

section \<open>The free list of a node\<close>

text \<open>The address reached after \<open>n\<close> links, the pages met on the way, and the free list they make.\<close>

primrec hop :: "'a nvm_scheme \<Rightarrow> nat \<Rightarrow> u64 \<Rightarrow> u64" where
  "hop s 0 p = p"
| "hop s (Suc n) p = hop s n (ld64 (mem s) (rdfs_va s p))"

definition list_from :: "'a nvm_scheme \<Rightarrow> u64 \<Rightarrow> nat \<Rightarrow> u64 list" where
  "list_from s p n = follow (\<lambda>x. ld64 (mem s) (rdfs_va s x)) p n"

lemma list_from_simps [simp]:
  "list_from s p 0 = []"
  "list_from s p (Suc n) = p # list_from s (ld64 (mem s) (rdfs_va s p)) n"
  by (simp_all add: list_from_def)

definition free_page_list :: "'a nvm_scheme \<Rightarrow> u64 \<Rightarrow> u64 list" where
  "free_page_list s nd = list_from s (free_page_phy s nd) (unat (free_page_count s nd))"

lemma list_from_numeral [mem_eval]:
  "list_from s p (numeral k) = p # list_from s (ld64 (mem s) (rdfs_va s p)) (pred_numeral k)"
  "hop s (numeral k) p = hop s (pred_numeral k) (ld64 (mem s) (rdfs_va s p))"
  by (simp_all add: numeral_eq_Suc)

lemma length_list_from [simp]: "length (list_from s p n) = n"
  by (simp add: list_from_def)

lemma next_walk_hop: "next_walk s n (rdfs_va s p) = rdfs_va s (hop s n p)"
  by (induction n arbitrary: p) auto

lemma list_from_hop: "list_from s (hop s k p) n = drop k (list_from s p (k + n))"
  by (induction k arbitrary: p) auto

lemma list_from_take: "list_from s p k = take k (list_from s p (k + n))"
  by (induction k arbitrary: p) auto

lemma list_from_cong:
  assumes "sbi s' = sbi s"
    and "\<And>x. x \<in> set (list_from s p n) \<Longrightarrow> ld64 (mem s') (rdfs_va s x) = ld64 (mem s) (rdfs_va s x)"
  shows "list_from s' p n = list_from s p n"
proof -
  have "rdfs_va s' = rdfs_va s" using assms(1) by (simp add: fun_eq_iff rdfs_va_def)
  then show ?thesis using assms(2) unfolding list_from_def by (intro follow_cong) simp
qed

section \<open>The invariant\<close>

definition node_ids :: "'a nvm_scheme \<Rightarrow> nat list" where
  "node_ids s = (if s_numa_flag s \<noteq> 0 then [0, 1] else [0])"

text \<open>The metadata areas: the super block and the descriptor of each node in use.\<close>

definition meta_areas :: "'a nvm_scheme \<Rightarrow> u64 list" where
  "meta_areas s = rdfs_get_super s # map (s_numa_des s) (node_ids s)"

definition meta_ok :: "'a nvm_scheme \<Rightarrow> bool" where
  "meta_ok s \<longleftrightarrow> apart (rdfs_get_super s) 128 (s_numa_des s 0) 128 \<and>
     (s_numa_flag s \<noteq> 0 \<longrightarrow> apart (rdfs_get_super s) 128 (s_numa_des s 1) 128 \<and>
                            apart (s_numa_des s 0) 128 (s_numa_des s 1) 128)"

text \<open>A page the allocator may manage: a nonzero physical page address, mapped at a nonzero address without wrapping, whose
  page overlaps no metadata.\<close>

definition page_ok :: "'a nvm_scheme \<Rightarrow> u64 \<Rightarrow> bool" where
  "page_ok s p \<longleftrightarrow> phys_page p \<and> p \<noteq> 0 \<and> rdfs_va s p \<noteq> 0 \<and> unat (rdfs_va s p) + 4096 \<le> 2 ^ 64 \<and>
     list_all (\<lambda>a. apart (rdfs_va s p) 4096 a 128) (meta_areas s)"

definition node_pages_ok :: "'a nvm_scheme \<Rightarrow> nat \<Rightarrow> bool" where
  "node_pages_ok s i \<longleftrightarrow> distinct (free_page_list s (s_numa_des s i)) \<and>
     list_all (\<lambda>p. page_ok s p \<and> rdfs_get_phys_numa_id s p = i) (free_page_list s (s_numa_des s i))"

definition pages_inv :: "'a nvm_scheme \<Rightarrow> bool" where
  "pages_inv s \<longleftrightarrow> meta_ok s \<and> list_all (node_pages_ok s) (node_ids s)"

definition free_page_set :: "'a nvm_scheme \<Rightarrow> u64 set" where
  "free_page_set s = (\<Union>i \<in> set (node_ids s). set (free_page_list s (s_numa_des s i)))"

text \<open>Two states that agree on the metadata and on the free pages look the same to the allocator.\<close>

definition same_super :: "'a nvm_scheme \<Rightarrow> 'a nvm_scheme \<Rightarrow> bool" where
  "same_super s s' \<longleftrightarrow> sbi s' = sbi s \<and> s_numa_flag s' = s_numa_flag s \<and> s_numa_des s' = s_numa_des s"

lemma same_super_eqs:
  assumes "same_super s s'"
  shows "rdfs_va s' = rdfs_va s" "rdfs_pa s' = rdfs_pa s" "rdfs_get_super s' = rdfs_get_super s"
    "node_ids s' = node_ids s" "meta_areas s' = meta_areas s" "meta_ok s' = meta_ok s"
    "page_ok s' = page_ok s" "rdfs_get_phys_numa_id s' = rdfs_get_phys_numa_id s"
    "get_cpu_numa s' = get_cpu_numa s" "rdfs_get_numa_by_inode s' = rdfs_get_numa_by_inode s"
    "get_rdfs_inode s' = get_rdfs_inode s"
  using assms
  by (auto simp: same_super_def fun_eq_iff rdfs_va_def rdfs_pa_def rdfs_get_super_def node_ids_def
      meta_areas_def meta_ok_def page_ok_def rdfs_get_phys_numa_id_def get_cpu_numa_def
      rdfs_get_numa_by_inode_def rdfs_get_numa_by_id_def rdfs_get_inode_numa_id_def get_rdfs_inode_def)

lemma same_superI:
  assumes "sbi s' = sbi s"
    and "\<And>x. x \<in> region (rdfs_get_super s) 128 \<Longrightarrow> mem s' x = mem s x"
  shows "same_super s s'"
proof -
  have sup: "rdfs_get_super s' = rdfs_get_super s" using assms(1) by (simp add: rdfs_get_super_def)
  have "ld64 (mem s') (rdfs_get_super s + k) = ld64 (mem s) (rdfs_get_super s + k)"
    if "unat k + 8 \<le> 128" for k
    using region_sub [OF that] assms(2) by (intro load_agree) auto
  moreover have "mem s' (rdfs_get_super s + 48) = mem s (rdfs_get_super s + 48)"
    by (rule assms(2)) (simp add: region_iff)
  ultimately show ?thesis
    using assms(1) by (auto simp: same_super_def s_numa_flag_def s_numa_des_def sup)
qed

lemma same_super_store:
  assumes "region a n \<inter> region (rdfs_get_super s) 128 = {}"
  shows "same_super s (s\<lparr>mem := store n (mem s) a w\<rparr>)"
  using assms by (intro same_superI) (auto intro!: store_outside)

lemma same_super_trans: "same_super s s' \<Longrightarrow> same_super s' s'' \<Longrightarrow> same_super s s''"
  by (simp add: same_super_def)

lemma same_super_refl: "same_super s s"
  by (simp add: same_super_def)

lemma free_page_list_cong:
  assumes "sbi s' = sbi s"
    and "free_page_count s' nd = free_page_count s nd" and "free_page_phy s' nd = free_page_phy s nd"
    and "\<And>x. x \<in> set (free_page_list s nd)
           \<Longrightarrow> ld64 (mem s') (rdfs_va s x) = ld64 (mem s) (rdfs_va s x)"
  shows "free_page_list s' nd = free_page_list s nd"
  using assms list_from_cong [of s' s] by (simp add: free_page_list_def)

text \<open>Node descriptors in use, and the facts the invariant gives about them.\<close>

definition in_use :: "'a nvm_scheme \<Rightarrow> u64 \<Rightarrow> bool" where
  "in_use s nd \<longleftrightarrow> nd \<in> s_numa_des s ` set (node_ids s)"

lemma in_use_cpu: "in_use s (get_cpu_numa s cpu)"
  by (auto simp: in_use_def get_cpu_numa_def node_ids_def)

lemma in_use_inode: "in_use s (rdfs_get_numa_by_inode s ni)"
  by (auto simp: in_use_def rdfs_get_numa_by_inode_def rdfs_get_numa_by_id_def
      rdfs_get_inode_numa_id_def rdfs_get_phys_numa_id_def node_ids_def)

lemma in_use_phys: "in_use s (s_numa_des s (rdfs_get_phys_numa_id s p))"
  by (auto simp: in_use_def rdfs_get_phys_numa_id_def node_ids_def)

lemma in_use_super_apart: "meta_ok s \<Longrightarrow> in_use s nd \<Longrightarrow> apart nd 128 (rdfs_get_super s) 128"
  by (auto simp: in_use_def node_ids_def meta_ok_def apart_commute split: if_splits)

lemma in_use_apart:
  "meta_ok s \<Longrightarrow> in_use s nd \<Longrightarrow> in_use s nd' \<Longrightarrow> nd \<noteq> nd' \<Longrightarrow> apart nd 128 nd' 128"
  by (auto simp: in_use_def node_ids_def meta_ok_def apart_commute split: if_splits)

lemma page_ok_apart:
  "page_ok s p \<Longrightarrow> apart (rdfs_va s p) 4096 (rdfs_get_super s) 128"
  "page_ok s p \<Longrightarrow> in_use s nd \<Longrightarrow> apart (rdfs_va s p) 4096 nd 128"
  by (auto simp: page_ok_def meta_areas_def in_use_def list_all_iff)

lemma page_ok_pages_disjoint:
  assumes "page_ok s p" and "page_ok s q" and "p \<noteq> q"
  shows "region (rdfs_va s p) 4096 \<inter> region (rdfs_va s q) 4096 = {}"
  using assms by (intro pages_disjoint)
    (auto simp: page_ok_def intro: page_aligned_diff phys_page_aligned)

lemma node_pages_okD:
  assumes "pages_inv s" and "in_use s nd"
  shows "distinct (free_page_list s nd)"
    and "p \<in> set (free_page_list s nd) \<Longrightarrow> page_ok s p"
    and "p \<in> set (free_page_list s nd) \<Longrightarrow> s_numa_des s (rdfs_get_phys_numa_id s p) = nd"
  using assms by (auto simp: pages_inv_def node_pages_ok_def in_use_def list_all_iff)

lemma phys_numa_id_in_use: "rdfs_get_phys_numa_id s p \<in> set (node_ids s)"
  by (simp add: rdfs_get_phys_numa_id_def node_ids_def)

lemma node_des_inj:
  assumes "meta_ok s" and "i \<in> set (node_ids s)" and "j \<in> set (node_ids s)"
    and "s_numa_des s i = s_numa_des s j"
  shows "i = j"
proof (cases "s_numa_flag s = 0")
  case True
  then show ?thesis using assms(2,3) by (simp add: node_ids_def)
next
  case False
  then have "s_numa_des s 0 \<noteq> s_numa_des s 1" using assms(1) by (auto simp: meta_ok_def)
  then show ?thesis using False assms(2-4) by (auto simp: node_ids_def)
qed

lemma pages_invI:
  assumes "meta_ok s"
    and "\<And>nd. in_use s nd \<Longrightarrow> distinct (free_page_list s nd)"
    and "\<And>nd p. in_use s nd \<Longrightarrow> p \<in> set (free_page_list s nd)
           \<Longrightarrow> page_ok s p \<and> s_numa_des s (rdfs_get_phys_numa_id s p) = nd"
  shows "pages_inv s"
proof -
  have "node_pages_ok s i" if i: "i \<in> set (node_ids s)" for i
  proof -
    have u: "in_use s (s_numa_des s i)" using i by (simp add: in_use_def)
    have "rdfs_get_phys_numa_id s p = i" if "p \<in> set (free_page_list s (s_numa_des s i))" for p
    proof -
      have "s_numa_des s (rdfs_get_phys_numa_id s p) = s_numa_des s i"
        using assms(3) [OF u that] by simp
      then show ?thesis by (rule node_des_inj [OF assms(1) phys_numa_id_in_use i])
    qed
    then show ?thesis
      using assms(2) [OF u] assms(3) [OF u] by (auto simp: node_pages_ok_def list_all_iff)
  qed
  then show ?thesis using assms(1) by (simp add: pages_inv_def list_all_iff)
qed

lemma pages_inv_meta: "pages_inv s \<Longrightarrow> meta_ok s"
  by (simp add: pages_inv_def)

lemma free_page_set_in_use: "free_page_set s = (\<Union>nd \<in> {nd. in_use s nd}. set (free_page_list s nd))"
  by (auto simp: free_page_set_def in_use_def)

section \<open>Allocation\<close>

text \<open>The descriptor a call works on, and its effect on that descriptor's two fields.\<close>

definition new_block_node :: "'a nvm_scheme \<Rightarrow> nat \<Rightarrow> u64 \<Rightarrow> u64" where
  "new_block_node s cpu ni = (if ni \<noteq> 0 then rdfs_get_numa_by_inode s ni else get_cpu_numa s cpu)"

lemma in_use_new_block_node [simp]: "in_use s (new_block_node s cpu ni)"
  by (simp add: new_block_node_def in_use_cpu in_use_inode)

definition set_free_pages :: "'a nvm_scheme \<Rightarrow> u64 \<Rightarrow> u64 \<Rightarrow> u64 \<Rightarrow> 'a nvm_scheme" where
  "set_free_pages s nd c p = s\<lparr>mem := st64 (st64 (mem s) (nd + 8) c) (nd + 24) p\<rparr>"

lemma set_free_pages_fields:
  "free_page_count (set_free_pages s nd c p) nd = c" "free_page_phy (set_free_pages s nd c p) nd = p"
  "sbi (set_free_pages s nd c p) = sbi s"
  by (simp_all add: set_free_pages_def load_store_disj region_simps)

lemma set_free_pages_outside:
  assumes "x \<notin> region nd 128"
  shows "mem (set_free_pages s nd c p) x = mem s x"
proof -
  have "x \<notin> region (nd + 8) 8" "x \<notin> region (nd + 24) 8"
    using assms region_sub [of 8 8 128 nd] region_sub [of 24 8 128 nd] by auto
  then show ?thesis by (simp add: set_free_pages_def store_outside)
qed

lemma set_free_pages_load:
  assumes "apart a k nd 128" and "unat i + n \<le> k" and "n \<le> 4294967296"
  shows "load n (mem (set_free_pages s nd c p)) (a + i) = load n (mem s) (a + i)"
  using set_free_pages_outside apart_sub(3) [OF assms(1,2) order_refl] assms(3)
  by (rule load_frame)

lemma set_free_pages_same_super:
  assumes "meta_ok s" and "in_use s nd"
  shows "same_super s (set_free_pages s nd c p)"
  using apart_disjoint [OF in_use_super_apart [OF assms]]
  by (intro same_superI) (auto simp: set_free_pages_fields intro!: set_free_pages_outside)

lemma set_free_pages_other_list:
  assumes "pages_inv s" and "in_use s nd" and "in_use s nd'" and "nd' \<noteq> nd"
  shows "free_page_list (set_free_pages s nd c p) nd' = free_page_list s nd'"
proof (rule free_page_list_cong)
  have a: "apart nd' 128 nd 128"
    using in_use_apart [OF pages_inv_meta [OF assms(1)]] assms by blast
  show "free_page_count (set_free_pages s nd c p) nd' = free_page_count s nd'"
    "free_page_phy (set_free_pages s nd c p) nd' = free_page_phy s nd'"
    by (rule set_free_pages_load [OF a]; simp)+
next
  fix x assume "x \<in> set (free_page_list s nd')"
  then have "apart (rdfs_va s x) 4096 nd 128"
    using node_pages_okD(2) [OF assms(1,3)] page_ok_apart(2) assms(2) by blast
  from set_free_pages_load [OF this, of 0 8]
  show "ld64 (mem (set_free_pages s nd c p)) (rdfs_va s x) = ld64 (mem s) (rdfs_va s x)" by simp
qed (simp add: set_free_pages_fields)

lemma rdfs_new_block_eq:
  "rdfs_new_block s cpu num ni =
     (let nd = new_block_node s cpu ni
      in if free_page_count s nd < word_of_int num then None
         else Some (free_page_phy s nd,
                set_free_pages s nd (free_page_count s nd - word_of_int num)
                  (hop s (nat num) (free_page_phy s nd))))"
  by (simp add: rdfs_new_block_def new_block_node_def set_free_pages_def Let_def next_walk_hop)

lemma rdfs_new_block_None_iff:
  "rdfs_new_block s cpu (int n) ni = None
     \<longleftrightarrow> free_page_count s (new_block_node s cpu ni) < of_nat n"
  by (simp add: rdfs_new_block_eq Let_def)

lemma rdfs_new_block_enough:
  assumes "n \<le> length (free_page_list s (new_block_node s cpu ni))"
  shows "rdfs_new_block s cpu (int n) ni \<noteq> None"
proof -
  have "n \<le> unat (free_page_count s (new_block_node s cpu ni))"
    using assms by (simp add: free_page_list_def)
  then have "of_nat n \<le> free_page_count s (new_block_node s cpu ni)"
    by (metis le_unat_uoi word_le_nat_alt)
  then show ?thesis by (simp add: rdfs_new_block_None_iff not_less)
qed

text \<open>What a successful request for \<open>n\<close> pages does.\<close>

definition new_block_call ::
  "'a nvm_scheme \<Rightarrow> u64 \<Rightarrow> nat \<Rightarrow> u64 \<Rightarrow> 'a nvm_scheme \<Rightarrow> bool" where
  "new_block_call s nd n p s' \<longleftrightarrow> pages_inv s \<and> n < 2 ^ 31 \<and>
     (\<exists>cpu ni. nd = new_block_node s cpu ni \<and> rdfs_new_block s cpu (int n) ni = Some (p, s'))"

lemma new_block_call_enough:
  assumes "new_block_call s nd n p s'"
  shows "pages_inv s" "n < 2 ^ 31" "in_use s nd" "n \<le> unat (free_page_count s nd)"
proof -
  have "of_nat n \<le> free_page_count s nd" "n < 2 ^ 31"
    using assms unfolding new_block_call_def rdfs_new_block_eq Let_def by (auto split: if_splits)
  then show "n \<le> unat (free_page_count s nd)" by (simp add: word_le_nat_alt unat_of_nat)
qed (use assms in \<open>auto simp: new_block_call_def\<close>)

lemma new_block_call_state:
  assumes "new_block_call s nd n p s'"
  shows "s' = set_free_pages s nd (free_page_count s nd - of_nat n) (hop s n (free_page_phy s nd))"
    and "p = free_page_phy s nd"
  using assms unfolding new_block_call_def rdfs_new_block_eq Let_def by (auto split: if_splits)

lemma new_block_call_super:
  assumes "new_block_call s nd n p s'"
  shows "same_super s s'"
  unfolding new_block_call_state(1) [OF assms]
  using new_block_call_enough [OF assms] by (intro set_free_pages_same_super pages_inv_meta)

lemma new_block_call_frame:
  assumes "new_block_call s nd n p s'" and "x \<notin> region nd 128"
  shows "mem s' x = mem s x"
  unfolding new_block_call_state(1) [OF assms(1)] using assms(2) by (rule set_free_pages_outside)

lemma new_block_call_links:
  assumes "new_block_call s nd n p s'" and "x \<in> set (free_page_list s nd)"
  shows "ld64 (mem s') (rdfs_va s x) = ld64 (mem s) (rdfs_va s x)"
proof -
  note c = new_block_call_enough [OF assms(1)]
  have "apart (rdfs_va s x) 4096 nd 128"
    using node_pages_okD(2) [OF c(1,3) assms(2)] c(3) by (rule page_ok_apart(2))
  from set_free_pages_load [OF this, of 0 8] show ?thesis
    by (simp add: new_block_call_state(1) [OF assms(1)])
qed

lemma new_block_call_split:
  assumes "new_block_call s nd n p s'"
  shows "free_page_list s nd
       = list_from s p n @ list_from s (hop s n p) (unat (free_page_count s nd) - n)"
  using new_block_call_enough(4) [OF assms] new_block_call_state(2) [OF assms]
    list_from_hop [of s n p "unat (free_page_count s nd) - n"]
    list_from_take [of s p n "unat (free_page_count s nd) - n"]
  by (simp add: free_page_list_def)

lemma new_block_call_remaining:
  assumes "new_block_call s nd n p s'"
  shows "free_page_list s' nd = drop n (free_page_list s nd)"
proof -
  note split = new_block_call_split [OF assms] and state = new_block_call_state [OF assms]
  have "list_from s' (hop s n p) (unat (free_page_count s nd) - n)
      = list_from s (hop s n p) (unat (free_page_count s nd) - n)"
    using new_block_call_links [OF assms] new_block_call_super [OF assms]
    by (intro list_from_cong) (auto simp: same_super_def split)
  moreover have "unat (free_page_count s nd - of_nat n) = unat (free_page_count s nd) - n"
    using new_block_call_enough [OF assms] by (simp add: unat_sub word_le_nat_alt unat_of_nat)
  ultimately have "free_page_list s' nd = list_from s (hop s n p) (unat (free_page_count s nd) - n)"
    by (simp add: free_page_list_def state(1) set_free_pages_fields state(2) [symmetric])
  then show ?thesis by (simp add: split)
qed

lemma new_block_call_taken:
  assumes "new_block_call s nd n p s'"
  shows "list_from s' p n = take n (free_page_list s nd)"
proof -
  note split = new_block_call_split [OF assms]
  have "list_from s' p n = list_from s p n"
    using new_block_call_links [OF assms] new_block_call_super [OF assms]
    by (intro list_from_cong) (auto simp: same_super_def split)
  then show ?thesis by (simp add: split)
qed

lemma new_block_call_others:
  assumes "new_block_call s nd n p s'" and "in_use s nd'" and "nd' \<noteq> nd"
  shows "free_page_list s' nd' = free_page_list s nd'"
  unfolding new_block_call_state(1) [OF assms(1)]
  using new_block_call_enough [OF assms(1)] assms(2,3) by (intro set_free_pages_other_list)

lemma in_use_same_super: "same_super s s' \<Longrightarrow> in_use s' nd = in_use s nd"
  by (simp add: in_use_def same_super_def node_ids_def)

lemma new_block_call_inv:
  assumes "new_block_call s nd n p s'"
  shows "pages_inv s'"
proof (rule pages_invI)
  note inv = new_block_call_enough(1) [OF assms] and super = new_block_call_super [OF assms]
  show "meta_ok s'" using pages_inv_meta [OF inv] same_super_eqs [OF super] by simp
  fix nd' assume "in_use s' nd'"
  then have u: "in_use s nd'" by (simp add: in_use_same_super [OF super])
  note l = new_block_call_remaining [OF assms] new_block_call_others [OF assms u]
  show "distinct (free_page_list s' nd')"
    using node_pages_okD(1) [OF inv u] l by (cases "nd' = nd") auto
  fix x assume "x \<in> set (free_page_list s' nd')"
  then have "x \<in> set (free_page_list s nd')" using l by (cases "nd' = nd") (auto dest: in_set_dropD)
  then show "page_ok s' x \<and> s_numa_des s' (rdfs_get_phys_numa_id s' x) = nd'"
    using node_pages_okD(2,3) [OF inv u, of x] same_super_eqs [OF super] super
    by (auto simp: same_super_def)
qed

section \<open>Writes outside the allocator's data\<close>

text \<open>Addresses in neither the super block, nor the node descriptors, nor a free page; writes there.\<close>

definition outside_pool :: "'a nvm_scheme \<Rightarrow> u64 set \<Rightarrow> bool" where
  "outside_pool s R \<longleftrightarrow> region (rdfs_get_super s) 128 \<inter> R = {} \<and>
     (\<forall>nd. in_use s nd \<longrightarrow> region nd 128 \<inter> R = {}) \<and>
     (\<forall>p \<in> free_page_set s. region (rdfs_va s p) 4096 \<inter> R = {})"

definition foreign_write :: "'a nvm_scheme \<Rightarrow> u64 set \<Rightarrow> 'a nvm_scheme \<Rightarrow> bool" where
  "foreign_write s R s' \<longleftrightarrow> pages_inv s \<and> sbi s' = sbi s \<and> (\<forall>x. x \<notin> R \<longrightarrow> mem s' x = mem s x) \<and> outside_pool s R"

lemma outside_pool_same:
  "same_super s s' \<Longrightarrow> free_page_set s' \<subseteq> free_page_set s \<Longrightarrow> outside_pool s R \<Longrightarrow> outside_pool s' R"
  unfolding outside_pool_def by (auto simp: same_super_eqs in_use_same_super)

lemma foreign_write_load:
  assumes "foreign_write s R s'" and "region a n \<inter> R = {}" and "n \<le> 4294967296"
  shows "load n (mem s') a = load n (mem s) a"
  using assms by (intro load_frame [where R = R]) (auto simp: foreign_write_def)

lemma foreign_write_super:
  assumes "foreign_write s R s'"
  shows "same_super s s'"
  using assms by (intro same_superI) (auto simp: foreign_write_def outside_pool_def)

lemma foreign_write_list:
  assumes "foreign_write s R s'" and "in_use s nd"
  shows "free_page_list s' nd = free_page_list s nd"
proof (rule free_page_list_cong)
  have nd: "region nd 128 \<inter> R = {}" using assms by (simp add: foreign_write_def outside_pool_def)
  then have "region (nd + i) 8 \<inter> R = {}" if "unat i + 8 \<le> 128" for i
    using region_sub [OF that, of nd] by blast
  then have ld: "ld64 (mem s') (nd + i) = ld64 (mem s) (nd + i)" if "unat i + 8 \<le> 128" for i
    using that by (intro foreign_write_load [OF assms(1)]) simp_all
  show "sbi s' = sbi s" using assms(1) by (simp add: foreign_write_def)
  show "free_page_count s' nd = free_page_count s nd" "free_page_phy s' nd = free_page_phy s nd"
    by (rule ld; simp)+
next
  fix x assume "x \<in> set (free_page_list s nd)"
  then have "region (rdfs_va s x) 4096 \<inter> R = {}"
    using assms by (auto simp: foreign_write_def outside_pool_def free_page_set_in_use)
  then have "region (rdfs_va s x) 8 \<inter> R = {}" using region_mono [of 8 4096 "rdfs_va s x"] by auto
  then show "ld64 (mem s') (rdfs_va s x) = ld64 (mem s) (rdfs_va s x)"
    by (intro foreign_write_load [OF assms(1)]) simp_all
qed

lemma foreign_write_inv:
  assumes "foreign_write s R s'"
  shows "pages_inv s'"
proof (rule pages_invI)
  have inv: "pages_inv s" using assms by (simp add: foreign_write_def)
  note super = foreign_write_super [OF assms]
  show "meta_ok s'" using pages_inv_meta [OF inv] same_super_eqs [OF super] by simp
  fix nd assume "in_use s' nd"
  then have u: "in_use s nd" by (simp add: in_use_same_super [OF super])
  note l = foreign_write_list [OF assms u]
  show "distinct (free_page_list s' nd)" using node_pages_okD(1) [OF inv u] l by simp
  fix x assume "x \<in> set (free_page_list s' nd)"
  then show "page_ok s' x \<and> s_numa_des s' (rdfs_get_phys_numa_id s' x) = nd"
    using node_pages_okD(2,3) [OF inv u, of x] same_super_eqs [OF super] super l
    by (auto simp: same_super_def)
qed

lemma foreign_write_free_set:
  assumes "foreign_write s R s'"
  shows "free_page_set s' = free_page_set s"
  using foreign_write_list [OF assms] in_use_same_super [OF foreign_write_super [OF assms]]
  by (simp add: free_page_set_in_use)

text \<open>Changing what lies outside the NVM changes nothing for the allocator.\<close>

lemma same_nvm_foreign:
  assumes "pages_inv s" and "sbi s' = sbi s" and "mem s' = mem s"
  shows "foreign_write s {} s'"
  using assms by (simp add: foreign_write_def outside_pool_def)

text \<open>Whatever the owner of an allocated page writes into it, the allocator does not notice.\<close>

definition page_write :: "'a nvm_scheme \<Rightarrow> u64 \<Rightarrow> 'a nvm_scheme \<Rightarrow> bool" where
  "page_write s p s' \<longleftrightarrow> pages_inv s \<and> page_ok s p \<and> p \<notin> free_page_set s \<and> sbi s' = sbi s \<and>
     (\<forall>x. x \<notin> region (rdfs_va s p) 4096 \<longrightarrow> mem s' x = mem s x)"

lemma free_page_ok: "pages_inv s \<Longrightarrow> q \<in> free_page_set s \<Longrightarrow> page_ok s q"
  using node_pages_okD(2) by (auto simp: free_page_set_in_use)

lemma page_write_foreign:
  assumes "page_write s p s'"
  shows "foreign_write s (region (rdfs_va s p) 4096) s'"
proof -
  have ok: "pages_inv s" "page_ok s p" "p \<notin> free_page_set s" using assms by (simp_all add: page_write_def)
  have "region (rdfs_va s q) 4096 \<inter> region (rdfs_va s p) 4096 = {}" if "q \<in> free_page_set s" for q
    using page_ok_pages_disjoint [OF free_page_ok [OF ok(1) that] ok(2)] that ok(3) by blast
  moreover have "region nd 128 \<inter> region (rdfs_va s p) 4096 = {}" if "in_use s nd" for nd
    using apart_disjoint [OF page_ok_apart(2) [OF ok(2) that]] by blast
  moreover have "region (rdfs_get_super s) 128 \<inter> region (rdfs_va s p) 4096 = {}"
    using apart_disjoint [OF page_ok_apart(1) [OF ok(2)]] by blast
  ultimately show ?thesis using assms by (simp add: page_write_def foreign_write_def outside_pool_def)
qed

lemmas page_write_load = foreign_write_load [OF page_write_foreign]
lemmas page_write_super = foreign_write_super [OF page_write_foreign]
lemmas page_write_list = foreign_write_list [OF page_write_foreign]
lemmas page_write_inv = foreign_write_inv [OF page_write_foreign]
lemmas page_write_free_set = foreign_write_free_set [OF page_write_foreign]

lemma page_write_node:
  assumes "page_write s p s'" and "in_use s nd" and "unat i + n \<le> 128" and "n \<le> 4294967296"
  shows "load n (mem s') (nd + i) = load n (mem s) (nd + i)"
proof (rule page_write_load [OF assms(1) _ assms(4)])
  have "apart nd 128 (rdfs_va s p) 4096"
    using assms(1,2) page_ok_apart(2) apart_commute by (auto simp: page_write_def)
  then show "region (nd + i) n \<inter> region (rdfs_va s p) 4096 = {}"
    using assms(3) by (rule apart_sub(3)) simp
qed

section \<open>Release\<close>

lemma rdfs_free_block_eq:
  "rdfs_free_block s phys =
     (let nd = s_numa_des s (rdfs_get_phys_numa_id s phys);
          s1 = put64 s (rdfs_va s phys) (free_page_phy s nd)
      in set_free_pages s1 nd (free_page_count s1 nd + 1) phys)"
proof -
  have "region (nd + 24) 8 \<inter> region (nd + 8) 8 = {}" for nd :: u64
    by (rule field_disj) simp
  then show ?thesis
    by (simp add: rdfs_free_block_def rdfs_get_phys_numa_id_def set_free_pages_def Let_def
        load_store_disj store_commute [of "_ + 24"])
qed

text \<open>Pages are nonzero, so a free list with one page more still has a representable length.\<close>

lemma page_list_length:
  assumes "distinct ps" and "0 \<notin> set ps"
  shows "length (ps :: u64 list) < 2 ^ 64"
proof -
  have "card (set (0 # ps)) \<le> CARD(64 word)" by (rule card_mono) auto
  then show ?thesis using assms by (simp add: distinct_card card_word)
qed

definition free_block_call :: "'a nvm_scheme \<Rightarrow> u64 \<Rightarrow> bool" where
  "free_block_call s p \<longleftrightarrow> pages_inv s \<and> page_ok s p \<and> p \<notin> free_page_set s"

lemma free_block_link:
  assumes "free_block_call s p"
  shows "page_write s p (put64 s (rdfs_va s p) q)"
  using assms region_mono [of 8 4096 "rdfs_va s p"]
  by (auto simp: free_block_call_def page_write_def intro!: store_outside)

lemma free_block_push:
  assumes "free_block_call s p" and "nd = s_numa_des s (rdfs_get_phys_numa_id s p)"
  shows "free_page_list (rdfs_free_block s p) nd = p # free_page_list s nd"
proof -
  define s1 where "s1 = put64 s (rdfs_va s p) (free_page_phy s nd)"
  define s2 where "s2 = set_free_pages s1 nd (free_page_count s1 nd + 1) p"
  have s2: "rdfs_free_block s p = s2"
    by (simp add: rdfs_free_block_eq Let_def s1_def s2_def assms(2))
  have w: "page_write s p s1" unfolding s1_def by (rule free_block_link [OF assms(1)])
  have u: "in_use s nd" unfolding assms(2) by (rule in_use_phys)
  note super = page_write_super [OF w] and inv1 = page_write_inv [OF w]
  have u1: "in_use s1 nd" using u by (simp add: in_use_same_super [OF super])
  have va: "rdfs_va s1 = rdfs_va s" "rdfs_va s2 = rdfs_va s1"
    by (simp_all add: s1_def s2_def set_free_pages_def)
  have f: "free_page_count s1 nd = free_page_count s nd" "free_page_phy s1 nd = free_page_phy s nd"
    by (rule page_write_node [OF w u]; simp)+
  have g: "free_page_count s2 nd = free_page_count s nd + 1" "free_page_phy s2 nd = p"
    by (simp_all add: s2_def set_free_pages_fields f)
  have ok1: "page_ok s1 p" using assms(1) same_super_eqs [OF super] by (simp add: free_block_call_def)
  have keep: "ld64 (mem s2) (rdfs_va s1 x) = ld64 (mem s1) (rdfs_va s1 x)" if "page_ok s1 x" for x
    using set_free_pages_load [OF page_ok_apart(2) [OF that u1], of 0 8] by (simp add: s2_def)
  have link: "ld64 (mem s2) (rdfs_va s2 p) = free_page_phy s nd"
    using keep [OF ok1] by (simp add: va) (simp add: s1_def)
  have "list_from s2 (free_page_phy s nd) (unat (free_page_count s nd))
      = list_from s1 (free_page_phy s1 nd) (unat (free_page_count s1 nd))"
    unfolding f by (rule list_from_cong)
      (use node_pages_okD(2) [OF inv1 u1] keep f in \<open>auto simp: s2_def set_free_pages_fields free_page_list_def\<close>)
  also have "\<dots> = free_page_list s nd"
    using page_write_list [OF w u] by (simp add: free_page_list_def)
  finally have tl: "list_from s2 (free_page_phy s nd) (unat (free_page_count s nd)) = free_page_list s nd" .
  have pinv: "pages_inv s" "p \<notin> set (free_page_list s nd)" "p \<noteq> 0"
    using assms(1) u by (auto simp: free_block_call_def free_page_set_in_use page_ok_def)
  have "length (p # free_page_list s nd) < 2 ^ 64"
    using node_pages_okD(1,2) [OF pinv(1) u] pinv by (intro page_list_length) (auto simp: page_ok_def)
  then have "unat (free_page_count s nd + 1) = Suc (unat (free_page_count s nd))"
    by (simp add: free_page_list_def unat_word_ariths)
  then have "free_page_list s2 nd = p # list_from s2 (free_page_phy s nd) (unat (free_page_count s nd))"
    using link by (simp add: free_page_list_def g)
  then show ?thesis using s2 tl by simp
qed

lemma free_block_frame:
  assumes "free_block_call s p"
  shows "same_super s (rdfs_free_block s p)"
    and "in_use s nd \<Longrightarrow> nd \<noteq> s_numa_des s (rdfs_get_phys_numa_id s p)
           \<Longrightarrow> free_page_list (rdfs_free_block s p) nd = free_page_list s nd"
proof -
  let ?nd = "s_numa_des s (rdfs_get_phys_numa_id s p)"
  let ?s1 = "put64 s (rdfs_va s p) (free_page_phy s ?nd)"
  have w: "page_write s p ?s1" by (rule free_block_link [OF assms])
  note super = page_write_super [OF w] and inv = page_write_inv [OF w]
  have u: "in_use ?s1 ?nd" by (simp only: in_use_same_super [OF super] in_use_phys)
  have e: "rdfs_free_block s p = set_free_pages ?s1 ?nd (free_page_count ?s1 ?nd + 1) p"
    by (simp only: rdfs_free_block_eq Let_def)
  show "same_super s (rdfs_free_block s p)"
    unfolding e using super set_free_pages_same_super [OF pages_inv_meta [OF inv] u]
    by (rule same_super_trans)
  assume n: "in_use s nd" "nd \<noteq> ?nd"
  then have "in_use ?s1 nd" by (simp only: in_use_same_super [OF super])
  then have "free_page_list (rdfs_free_block s p) nd = free_page_list ?s1 nd"
    unfolding e using n(2) by (rule set_free_pages_other_list [OF inv u])
  then show "free_page_list (rdfs_free_block s p) nd = free_page_list s nd"
    using page_write_list [OF w n(1)] by simp
qed

lemma free_block_inv:
  assumes "free_block_call s p"
  shows "pages_inv (rdfs_free_block s p)"
proof (rule pages_invI)
  let ?s' = "rdfs_free_block s p"
  let ?nd = "s_numa_des s (rdfs_get_phys_numa_id s p)"
  have inv: "pages_inv s" and ok: "page_ok s p" and new: "p \<notin> free_page_set s"
    using assms by (auto simp: free_block_call_def)
  note super = free_block_frame(1) [OF assms] and push = free_block_push [OF assms refl]
  show "meta_ok ?s'" using pages_inv_meta [OF inv] same_super_eqs [OF super] by simp
  fix nd assume "in_use ?s' nd"
  then have u: "in_use s nd" by (simp add: in_use_same_super [OF super])
  have l: "set (free_page_list ?s' nd) \<subseteq> (if nd = ?nd then {p} else {}) \<union> set (free_page_list s nd)"
    using push free_block_frame(2) [OF assms u] by (cases "nd = ?nd") auto
  show "distinct (free_page_list ?s' nd)"
    using node_pages_okD(1) [OF inv u] push free_block_frame(2) [OF assms u] new u
    by (cases "nd = ?nd") (auto simp: free_page_set_in_use)
  fix x assume "x \<in> set (free_page_list ?s' nd)"
  then show "page_ok ?s' x \<and> s_numa_des ?s' (rdfs_get_phys_numa_id ?s' x) = nd"
    using l ok node_pages_okD(2,3) [OF inv u, of x] same_super_eqs [OF super] super
    by (auto simp: same_super_def split: if_splits)
qed

lemma free_block_set:
  assumes "free_block_call s p"
  shows "free_page_set (rdfs_free_block s p) = insert p (free_page_set s)"
proof -
  let ?nd = "s_numa_des s (rdfs_get_phys_numa_id s p)"
  have "set (free_page_list (rdfs_free_block s p) nd)
      = (if nd = ?nd then insert p (set (free_page_list s nd)) else set (free_page_list s nd))"
    if "in_use s nd" for nd
    using free_block_push [OF assms refl] free_block_frame(2) [OF assms that] by auto
  moreover have "in_use s ?nd" by (rule in_use_phys)
  ultimately show ?thesis
    by (auto simp: free_page_set_in_use in_use_same_super [OF free_block_frame(1) [OF assms]]
        split: if_splits)
qed

lemma new_block_call_set:
  assumes "new_block_call s nd (Suc 0) p s'"
  shows "p \<in> set (free_page_list s nd)" and "free_page_set s' = free_page_set s - {p}"
proof -
  note c = new_block_call_enough [OF assms]
  obtain ps where ps: "free_page_list s nd = p # ps"
    using new_block_call_split [OF assms] by simp
  then show "p \<in> set (free_page_list s nd)" by simp
  have d: "set (free_page_list s' nd) = set (free_page_list s nd) - {p}"
    using new_block_call_remaining [OF assms] node_pages_okD(1) [OF c(1,3)] by (simp add: ps)
  have "set (free_page_list s' nd') = set (free_page_list s nd') - {p}" if u: "in_use s nd'" for nd'
  proof (cases "nd' = nd")
    case True
    then show ?thesis using d by simp
  next
    case False
    then have "p \<notin> set (free_page_list s nd')"
      using ps node_pages_okD(3) [OF c(1,3), of p] node_pages_okD(3) [OF c(1) u, of p] by auto
    then show ?thesis using new_block_call_others [OF assms u False] by simp
  qed
  then show "free_page_set s' = free_page_set s - {p}"
    by (simp add: free_page_set_in_use in_use_same_super [OF new_block_call_super [OF assms]])
qed

section \<open>The allocator is a resource pool\<close>

text \<open>Requests for one page, from any CPU and on behalf of any inode.\<close>

definition alloc_page :: "nat \<times> u64 \<Rightarrow> 'a nvm_scheme \<Rightarrow> (u64 \<times> 'a nvm_scheme) option" where
  "alloc_page c s = rdfs_new_block s (fst c) 1 (snd c)"

lemma alloc_page_call:
  assumes "pages_inv s" and "alloc_page c s = Some (p, s')"
  shows "new_block_call s (new_block_node s (fst c) (snd c)) (Suc 0) p s'"
  using assms by (auto simp: alloc_page_def new_block_call_def)

interpretation page_pool: resource_pool alloc_page "\<lambda>p s. rdfs_free_block s p"
  free_page_set pages_inv page_ok
proof
  fix s s' :: "'a nvm_scheme" and p :: u64 and c
  assume inv: "pages_inv s"
  show "p \<in> free_page_set s \<Longrightarrow> page_ok s p" using inv by (rule free_page_ok)
  { assume "alloc_page c s = Some (p, s')"
    note a = alloc_page_call [OF inv this]
    show "p \<in> free_page_set s"
      using new_block_call_set(1) [OF a] new_block_call_enough(3) [OF a]
      unfolding free_page_set_in_use by blast
    show "free_page_set s' = free_page_set s - {p}" by (rule new_block_call_set(2) [OF a])
    show "pages_inv s'" by (rule new_block_call_inv [OF a])
    show "page_ok s' = page_ok s" by (rule same_super_eqs(7) [OF new_block_call_super [OF a]]) }
  { assume "page_ok s p" "p \<notin> free_page_set s"
    with inv have f: "free_block_call s p" by (simp add: free_block_call_def)
    show "free_page_set (rdfs_free_block s p) = insert p (free_page_set s)"
      by (rule free_block_set [OF f])
    show "pages_inv (rdfs_free_block s p)" by (rule free_block_inv [OF f])
    show "page_ok (rdfs_free_block s p) = page_ok s"
      by (rule same_super_eqs(7) [OF free_block_frame(1) [OF f]]) }
qed

section \<open>Deferred frees\<close>

text \<open>A local chain represents the pages pushed so far, most recent first.\<close>

definition chain_of :: "'a nvm_scheme \<Rightarrow> pre_free_chain \<Rightarrow> u64 list \<Rightarrow> bool" where
  "chain_of s pf ps \<longleftrightarrow> free_count pf = of_nat (length ps) \<and>
     (ps \<noteq> [] \<longrightarrow> free_end pf = last ps \<and> list_from s (free_start pf) (length ps) = ps)"

text \<open>Overwriting the link of the last page does not change which pages a chain meets.\<close>

lemma list_from_last_link:
  assumes "sbi s' = sbi s" and "n \<noteq> 0"
    and "\<And>x. x \<in> set (butlast (list_from s p n))
           \<Longrightarrow> ld64 (mem s') (rdfs_va s x) = ld64 (mem s) (rdfs_va s x)"
  shows "list_from s' p n = list_from s p n
       \<and> hop s' n p = ld64 (mem s') (rdfs_va s (last (list_from s p n)))"
  using assms(2,3)
proof (induction n arbitrary: p)
  case 0
  then show ?case by simp
next
  case (Suc n)
  have va: "rdfs_va s' p = rdfs_va s p" using assms(1) by (simp add: rdfs_va_def)
  show ?case
  proof (cases "n = 0")
    case True
    then show ?thesis using va by simp
  next
    case False
    then have ne: "list_from s (ld64 (mem s) (rdfs_va s p)) n \<noteq> []"
      by (metis length_greater_0_conv length_list_from neq0_conv)
    then have "ld64 (mem s') (rdfs_va s p) = ld64 (mem s) (rdfs_va s p)"
      using Suc.prems(2) [of p] by simp
    then show ?thesis using Suc.IH [OF False] Suc.prems(2) ne va by simp
  qed
qed

lemma list_from_append:
  "list_from s p (m + n) = list_from s p m @ list_from s (hop s m p) n"
  by (induction m arbitrary: p) auto

text \<open>Splicing a chain of pages into a node's list.\<close>

definition splice_call :: "'a nvm_scheme \<Rightarrow> u64 \<Rightarrow> pre_free_chain \<Rightarrow> u64 list \<Rightarrow> bool" where
  "splice_call s nd pf ps \<longleftrightarrow> pages_inv s \<and> in_use s nd \<and> chain_of s pf ps \<and> distinct ps \<and>
     (\<forall>p \<in> set ps. page_ok s p \<and> p \<notin> free_page_set s \<and> s_numa_des s (rdfs_get_phys_numa_id s p) = nd)"

lemma splice_call_length:
  assumes "splice_call s nd pf ps"
  shows "length ps + unat (free_page_count s nd) < 2 ^ 64"
proof -
  have "distinct (ps @ free_page_list s nd)" "0 \<notin> set (ps @ free_page_list s nd)"
    using assms node_pages_okD [of s nd]
    by (auto simp: splice_call_def free_page_set_in_use page_ok_def)
  from page_list_length [OF this] show ?thesis by (simp add: free_page_list_def)
qed

lemma pre_free_splice_eq:
  "pre_free_splice s nd pf =
     (if free_count pf \<noteq> 0
      then (let s1 = put64 s (rdfs_va s (free_end pf)) (free_page_phy s nd)
            in set_free_pages s1 nd (free_page_count s1 nd + free_count pf) (free_start pf))
      else s)"
proof -
  have "region (nd + 24) 8 \<inter> region (nd + 8) 8 = {}" by (rule field_disj) simp
  then show ?thesis
    by (simp add: pre_free_splice_def set_free_pages_def Let_def load_store_disj
        store_commute [of "_ + 24"])
qed

text \<open>After the splice: the descriptor, the link of the chain's last page, every other link.\<close>

lemma splice_effect:
  assumes "splice_call s nd pf ps" and "ps \<noteq> []"
  defines "s' \<equiv> pre_free_splice s nd pf"
  shows "free_page_count s' nd = free_page_count s nd + of_nat (length ps)"
    and "free_page_phy s' nd = free_start pf"
    and "same_super s s'"
    and "ld64 (mem s') (rdfs_va s (last ps)) = free_page_phy s nd"
    and "page_ok s x \<Longrightarrow> x \<noteq> last ps \<Longrightarrow> ld64 (mem s') (rdfs_va s x) = ld64 (mem s) (rdfs_va s x)"
    and "in_use s nd' \<Longrightarrow> nd' \<noteq> nd \<Longrightarrow> free_page_list s' nd' = free_page_list s nd'"
proof -
  define s1 where "s1 = put64 s (rdfs_va s (last ps)) (free_page_phy s nd)"
  have c: "pages_inv s" "in_use s nd" "page_ok s (last ps)" "last ps \<notin> free_page_set s"
    "free_end pf = last ps" "free_count pf = of_nat (length ps)"
    using assms(1,2) by (auto simp: splice_call_def chain_of_def)
  have "(of_nat (length ps) :: u64) \<noteq> 0"
    using splice_call_length [OF assms(1)] assms(2) by (auto simp: word_of_nat_eq_0_iff dest: dvd_imp_le)
  then have s': "s' = set_free_pages s1 nd (free_page_count s1 nd + of_nat (length ps)) (free_start pf)"
    by (simp add: s'_def pre_free_splice_eq c(5,6) Let_def s1_def)
  have w: "page_write s (last ps) s1"
    using free_block_link [of s "last ps"] c by (simp add: free_block_call_def s1_def)
  note super = page_write_super [OF w]
  have u1: "in_use s1 nd" using c(2) by (simp add: in_use_same_super [OF super])
  have "free_page_count s1 nd = free_page_count s nd" by (rule page_write_node [OF w c(2)]; simp)
  then show "free_page_count s' nd = free_page_count s nd + of_nat (length ps)"
    "free_page_phy s' nd = free_start pf"
    by (simp_all add: s' set_free_pages_fields)
  show "same_super s s'"
    using set_free_pages_same_super [OF pages_inv_meta [OF page_write_inv [OF w]] u1]
    unfolding s' by (rule same_super_trans [OF super])
  have keep: "ld64 (mem s') (rdfs_va s x) = ld64 (mem s1) (rdfs_va s x)" if "page_ok s x" for x
    using set_free_pages_load [OF page_ok_apart(2) [OF _ u1], of x 0 8] that
      same_super_eqs [OF super] by (simp add: s')
  show "ld64 (mem s') (rdfs_va s (last ps)) = free_page_phy s nd"
    using keep [OF c(3)] by (simp add: s1_def)
  show "ld64 (mem s') (rdfs_va s x) = ld64 (mem s) (rdfs_va s x)" if "page_ok s x" "x \<noteq> last ps"
  proof -
    have "region (rdfs_va s x) 8 \<inter> region (rdfs_va s (last ps)) 4096 = {}"
      using page_ok_pages_disjoint [OF that(1) c(3) that(2)] region_mono [of 8 4096 "rdfs_va s x"]
      by auto
    from page_write_load [OF w this] show ?thesis using keep [OF that(1)] by simp
  qed
  show "free_page_list s' nd' = free_page_list s nd'" if "in_use s nd'" "nd' \<noteq> nd"
    unfolding s' using set_free_pages_other_list [OF page_write_inv [OF w] u1 _ that(2)] that(1)
      page_write_list [OF w that(1)] by (simp add: in_use_same_super [OF super])
qed

lemma splice_list:
  assumes "splice_call s nd pf ps"
  shows "free_page_list (pre_free_splice s nd pf) nd = ps @ free_page_list s nd"
proof (cases "ps = []")
  case True
  then show ?thesis using assms by (simp add: splice_call_def chain_of_def pre_free_splice_def)
next
  case False
  let ?s' = "pre_free_splice s nd pf"
  note e = splice_effect [OF assms False]
  have c: "pages_inv s" "in_use s nd" "distinct (butlast ps @ [last ps])"
    "list_from s (free_start pf) (length ps) = ps" "\<And>x. x \<in> set ps \<Longrightarrow> page_ok s x"
    "\<And>x. x \<in> set ps \<Longrightarrow> x \<notin> free_page_set s"
    using assms False by (auto simp: splice_call_def chain_of_def)
  have sb: "sbi ?s' = sbi s" using e(3) by (simp add: same_super_def)
  have "last ps \<notin> set (butlast ps)" using c(3) unfolding distinct_append by auto
  then have bl: "ld64 (mem ?s') (rdfs_va s x) = ld64 (mem s) (rdfs_va s x)"
    if "x \<in> set (butlast ps)" for x
    using that c(5) [OF in_set_butlastD [OF that]] by (intro e(5)) auto
  have h: "list_from ?s' (free_start pf) (length ps) = ps"
    "hop ?s' (length ps) (free_start pf) = free_page_phy s nd"
    using list_from_last_link [OF sb, of "length ps" "free_start pf"] bl e(4) c(4) False by simp_all
  have "list_from ?s' (free_page_phy s nd) (unat (free_page_count s nd)) = free_page_list s nd"
    unfolding free_page_list_def
    using node_pages_okD(2) [OF c(1,2)] c(2,6) False
    by (intro list_from_cong [OF sb] e(5)) (auto simp: free_page_list_def free_page_set_in_use)
  moreover have "unat (free_page_count s nd + of_nat (length ps))
      = length ps + unat (free_page_count s nd)"
    using splice_call_length [OF assms] by (simp add: unat_word_ariths unat_of_nat)
  ultimately show ?thesis
    using h by (simp add: free_page_list_def e(1,2) list_from_append)
qed

lemma splice_others:
  assumes "splice_call s nd pf ps"
  shows "same_super s (pre_free_splice s nd pf)"
    and "in_use s nd' \<Longrightarrow> nd' \<noteq> nd \<Longrightarrow> free_page_list (pre_free_splice s nd pf) nd' = free_page_list s nd'"
proof -
  have e: "pre_free_splice s nd pf = s" if "ps = []"
    using assms that by (simp add: splice_call_def chain_of_def pre_free_splice_def)
  show "same_super s (pre_free_splice s nd pf)"
    using e splice_effect(3) [OF assms] by (cases "ps = []") (auto simp: same_super_refl)
  show "free_page_list (pre_free_splice s nd pf) nd' = free_page_list s nd'"
    if "in_use s nd'" "nd' \<noteq> nd"
  proof (cases "ps = []")
    case True
    then show ?thesis using e by simp
  next
    case False
    then show ?thesis using splice_effect(6) [OF assms False that] by simp
  qed
qed

lemma chain_of_write:
  assumes "page_write s p s'" and "chain_of s pf qs" and "p \<notin> set qs"
    and "\<And>q. q \<in> set qs \<Longrightarrow> page_ok s q"
  shows "chain_of s' pf qs"
proof -
  have "ld64 (mem s') (rdfs_va s q) = ld64 (mem s) (rdfs_va s q)" if "q \<in> set qs" for q
  proof (rule page_write_load [OF assms(1)])
    have "page_ok s p" "q \<noteq> p" using that assms(1,3) by (auto simp: page_write_def)
    from page_ok_pages_disjoint [OF assms(4) [OF that] this]
    show "region (rdfs_va s q) 8 \<inter> region (rdfs_va s p) 4096 = {}"
      by (rule region_disj_mono0(3)) simp_all
  qed simp
  then show ?thesis
    using assms(1,2) list_from_cong [of s' s "free_start pf" "length qs"]
    by (auto simp: chain_of_def page_write_def)
qed

lemma pre_free_push_chain:
  assumes "free_block_call s p" and "chain_of s pf qs" and "p \<notin> set qs" and "length qs < 2 ^ 64"
    and "\<And>q. q \<in> set qs \<Longrightarrow> page_ok s q"
  shows "chain_of (snd (pre_free_push s pf p)) (fst (pre_free_push s pf p)) (p # qs)"
    and "page_write s p (snd (pre_free_push s pf p))"
proof -
  have z: "free_count pf = 0 \<longleftrightarrow> qs = []"
    using assms(2,4) by (auto simp: chain_of_def word_of_nat_eq_0_iff dest: dvd_imp_le)
  have same: "page_write s p s" using assms(1) by (simp add: free_block_call_def page_write_def)
  show w: "page_write s p (snd (pre_free_push s pf p))"
    using free_block_link [OF assms(1)] same by (simp add: pre_free_push_def)
  show "chain_of (snd (pre_free_push s pf p)) (fst (pre_free_push s pf p)) (p # qs)"
    using chain_of_write [OF w assms(2,3,5)] assms(2)
    by (cases "qs = []") (auto simp: z pre_free_push_def chain_of_def add.commute)
qed

text \<open>The state of a sequence of deferred frees that has handled the pages \<open>qs\<close>.\<close>

abbreviation on_node :: "'a nvm_scheme \<Rightarrow> nat \<Rightarrow> u64 list \<Rightarrow> u64 list" where
  "on_node s i qs \<equiv> filter (\<lambda>p. rdfs_get_phys_numa_id s p = i) qs"

definition deferred :: "'a nvm_scheme \<Rightarrow> u64 list \<Rightarrow> pre_free_struct \<times> 'a nvm_scheme \<Rightarrow> bool" where
  "deferred s qs st \<longleftrightarrow> pages_inv (snd st) \<and> same_super s (snd st) \<and>
     (\<forall>nd. in_use s nd \<longrightarrow> free_page_list (snd st) nd = free_page_list s nd) \<and>
     chain_of (snd st) (fst (fst st)) (rev (on_node s 0 qs)) \<and>
     chain_of (snd st) (snd (fst st)) (rev (on_node s 1 qs))"

definition releasable :: "'a nvm_scheme \<Rightarrow> u64 list \<Rightarrow> bool" where
  "releasable s ps \<longleftrightarrow> pages_inv s \<and> distinct ps \<and> (\<forall>p \<in> set ps. page_ok s p \<and> p \<notin> free_page_set s)"

lemma releasable_length: "releasable s ps \<Longrightarrow> length ps < 2 ^ 64"
  by (rule page_list_length) (auto simp: releasable_def page_ok_def)

lemma deferred_step:
  assumes "deferred s qs st" and "releasable s (qs @ [p])"
  shows "deferred s (qs @ [p]) (rdfs_pre_free_block (snd st) (fst st) p)"
proof -
  obtain pf0 pf1 s1 where st: "st = ((pf0, pf1), s1)" by (metis surj_pair)
  have d: "pages_inv s1" "same_super s s1" "\<And>nd. in_use s nd \<Longrightarrow> free_page_list s1 nd = free_page_list s nd"
    "chain_of s1 pf0 (rev (on_node s 0 qs))" "chain_of s1 pf1 (rev (on_node s 1 qs))"
    using assms(1) by (auto simp: deferred_def st)
  note eqs = same_super_eqs [OF d(2)] in_use_same_super [OF d(2)]
  have ok: "\<And>q. q \<in> set qs \<Longrightarrow> page_ok s1 q" "p \<notin> set qs"
    using assms(2) by (auto simp: releasable_def eqs)
  have call: "free_block_call s1 p"
    using assms(2) d(1,3) by (auto simp: releasable_def free_block_call_def eqs free_page_set_in_use)
  have len: "length (rev (on_node s i qs)) < 2 ^ 64" for i
    using releasable_length [OF assms(2)] le_less_trans [OF length_filter_le [of _ qs]] by simp
  have keep: "deferred s (qs @ [p]) (pfs, s2)" if "page_write s1 p s2"
    "chain_of s2 (fst pfs) (rev (on_node s 0 (qs @ [p])))"
    "chain_of s2 (snd pfs) (rev (on_node s 1 (qs @ [p])))" for pfs s2
    using that page_write_inv [OF that(1)] same_super_trans [OF d(2) page_write_super [OF that(1)]]
      page_write_list [OF that(1)] d(3) by (simp add: deferred_def eqs)
  have push: "page_write s1 p (snd (pre_free_push s1 pf p))"
    "chain_of (snd (pre_free_push s1 pf p)) (fst (pre_free_push s1 pf p)) (p # rev (on_node s i qs))"
    if "chain_of s1 pf (rev (on_node s i qs))" for pf i
    using pre_free_push_chain [OF call that _ len] ok by auto
  have other: "chain_of s2 pf (rev (on_node s i qs))"
    if "page_write s1 p s2" "chain_of s1 pf (rev (on_node s i qs))" for pf i s2
    using chain_of_write [OF that] ok by auto
  have res: "rdfs_pre_free_block (snd st) (fst st) p =
      (if rdfs_get_phys_numa_id s p = 0
       then ((fst (pre_free_push s1 pf0 p), pf1), snd (pre_free_push s1 pf0 p))
       else ((pf0, fst (pre_free_push s1 pf1 p)), snd (pre_free_push s1 pf1 p)))"
    by (simp add: st rdfs_pre_free_block_def eqs case_prod_beta)
  show ?thesis
  proof (cases "rdfs_get_phys_numa_id s p = 0")
    case True
    then show ?thesis
      unfolding res using keep [OF push(1) [OF d(4)]] push(2) [OF d(4)] other [OF push(1) [OF d(4)] d(5)]
      by simp
  next
    case False
    then have "rdfs_get_phys_numa_id s p = 1" by (simp add: rdfs_get_phys_numa_id_def split: if_splits)
    then show ?thesis
      unfolding res using keep [OF push(1) [OF d(5)]] push(2) [OF d(5)] other [OF push(1) [OF d(5)] d(4)]
      by simp
  qed
qed

definition pre_free_all :: "'a nvm_scheme \<Rightarrow> u64 list \<Rightarrow> pre_free_struct \<times> 'a nvm_scheme" where
  "pre_free_all s ps = fold (\<lambda>p st. rdfs_pre_free_block (snd st) (fst st) p) ps (rdfs_pre_free_init, s)"

lemma releasable_prefix: "releasable s (ps @ qs) \<Longrightarrow> releasable s ps"
  by (auto simp: releasable_def)

lemma pre_free_all_deferred:
  assumes "releasable s ps"
  shows "deferred s ps (pre_free_all s ps)"
  using assms
proof (induction ps rule: rev_induct)
  case Nil
  then show ?case
    by (simp add: pre_free_all_def deferred_def releasable_def same_super_refl chain_of_def
        rdfs_pre_free_init_def)
next
  case (snoc p ps)
  have "pre_free_all s (ps @ [p])
      = rdfs_pre_free_block (snd (pre_free_all s ps)) (fst (pre_free_all s ps)) p"
    by (simp add: pre_free_all_def)
  then show ?case
    using deferred_step [OF snoc.IH [OF releasable_prefix [OF snoc.prems]] snoc.prems] by simp
qed

lemma releasable_same:
  assumes "same_super s s'" and "pages_inv s'" and "releasable s ps"
    and "\<And>nd. in_use s nd \<Longrightarrow> set (free_page_list s' nd) \<inter> set ps = {}"
  shows "releasable s' ps"
  using assms by (auto simp: releasable_def same_super_eqs [OF assms(1)] free_page_set_in_use
      in_use_same_super [OF assms(1)])

text \<open>Freeing a list of pages one by one.\<close>

definition free_all :: "'a nvm_scheme \<Rightarrow> u64 list \<Rightarrow> 'a nvm_scheme" where
  "free_all s ps = fold (\<lambda>p s. rdfs_free_block s p) ps s"

lemma free_all_lists:
  assumes "releasable s ps"
  shows "pages_inv (free_all s ps) \<and> same_super s (free_all s ps) \<and>
     (\<forall>i \<in> set (node_ids s). free_page_list (free_all s ps) (s_numa_des s i)
         = rev (on_node s i ps) @ free_page_list s (s_numa_des s i))"
  using assms
proof (induction ps rule: rev_induct)
  case Nil
  then show ?case by (simp add: free_all_def releasable_def same_super_refl)
next
  case (snoc p ps)
  let ?s1 = "free_all s ps"
  have ih: "pages_inv ?s1" "same_super s ?s1" "\<And>i. i \<in> set (node_ids s) \<Longrightarrow>
      free_page_list ?s1 (s_numa_des s i) = rev (on_node s i ps) @ free_page_list s (s_numa_des s i)"
    using snoc.IH [OF releasable_prefix [OF snoc.prems]] by auto
  note eqs = same_super_eqs [OF ih(2)] in_use_same_super [OF ih(2)]
  have des: "s_numa_des ?s1 = s_numa_des s" using ih(2) by (simp add: same_super_def)
  have call: "free_block_call ?s1 p"
    using snoc.prems ih
    by (auto simp: free_block_call_def releasable_def eqs free_page_set_def des)
  have e: "free_all s (ps @ [p]) = rdfs_free_block ?s1 p" by (simp add: free_all_def)
  have "free_page_list (rdfs_free_block ?s1 p) (s_numa_des s i)
      = rev (on_node s i (ps @ [p])) @ free_page_list s (s_numa_des s i)"
    if i: "i \<in> set (node_ids s)" for i
  proof (cases "rdfs_get_phys_numa_id s p = i")
    case True
    then show ?thesis using free_block_push [OF call refl] ih(3) [OF i] by (simp add: eqs des)
  next
    case False
    have m: "meta_ok s" using snoc.prems by (simp add: releasable_def pages_inv_def)
    have "s_numa_des s i \<noteq> s_numa_des s (rdfs_get_phys_numa_id s p)"
      using node_des_inj [OF m i phys_numa_id_in_use] False by blast
    moreover have "in_use s (s_numa_des s i)" using i by (simp add: in_use_def)
    ultimately show ?thesis
      using free_block_frame(2) [OF call] ih(3) [OF i] False by (simp add: eqs des)
  qed
  then show ?case
    using free_block_inv [OF call] same_super_trans [OF ih(2) free_block_frame(1) [OF call]] e by simp
qed

lemma splice_inv:
  assumes "splice_call s nd pf ps"
  shows "pages_inv (pre_free_splice s nd pf)"
proof (rule pages_invI)
  let ?s' = "pre_free_splice s nd pf"
  have inv: "pages_inv s" and d: "distinct ps"
    and ok: "\<And>p. p \<in> set ps \<Longrightarrow> page_ok s p \<and> p \<notin> free_page_set s
               \<and> s_numa_des s (rdfs_get_phys_numa_id s p) = nd"
    using assms by (auto simp: splice_call_def)
  note super = splice_others(1) [OF assms] and list = splice_list [OF assms]
  show "meta_ok ?s'" using pages_inv_meta [OF inv] same_super_eqs [OF super] by simp
  fix nd' assume "in_use ?s' nd'"
  then have u: "in_use s nd'" by (simp add: in_use_same_super [OF super])
  note o = splice_others(2) [OF assms u]
  show "distinct (free_page_list ?s' nd')"
    using node_pages_okD(1) [OF inv u] list o d ok u
    by (cases "nd' = nd") (auto simp: free_page_set_in_use)
  fix x assume x: "x \<in> set (free_page_list ?s' nd')"
  have "page_ok s x \<and> s_numa_des s (rdfs_get_phys_numa_id s x) = nd'"
    using x list o ok node_pages_okD(2,3) [OF inv u, of x] by (cases "nd' = nd") auto
  then show "page_ok ?s' x \<and> s_numa_des ?s' (rdfs_get_phys_numa_id ?s' x) = nd'"
    using same_super_eqs [OF super] super by (auto simp: same_super_def)
qed

lemma chain_of_splice:
  assumes "splice_call s nd pf ps" and "chain_of s pf' qs" and "set qs \<inter> set ps = {}"
    and "\<And>q. q \<in> set qs \<Longrightarrow> page_ok s q"
  shows "chain_of (pre_free_splice s nd pf) pf' qs"
proof (cases "ps = []")
  case True
  then have "pre_free_splice s nd pf = s"
    using assms(1) by (simp add: splice_call_def chain_of_def pre_free_splice_def)
  then show ?thesis using assms(2) by simp
next
  case False
  let ?s' = "pre_free_splice s nd pf"
  have "ld64 (mem ?s') (rdfs_va s q) = ld64 (mem s) (rdfs_va s q)" if "q \<in> set qs" for q
  proof -
    have "last ps \<in> set ps" using False by simp
    then have "q \<noteq> last ps" using that assms(3) by auto
    then show ?thesis using splice_effect(5) [OF assms(1) False assms(4) [OF that]] by simp
  qed
  then show ?thesis
    using assms(2) splice_effect(3) [OF assms(1) False] list_from_cong [of ?s' s "free_start pf'" "length qs"]
    by (auto simp: chain_of_def same_super_def)
qed

lemma deferred_splice_call:
  assumes "deferred s ps (pfs, s1)" and "releasable s ps" and "i \<in> set (node_ids s)"
    and "chain_of s1 pf (rev (on_node s i ps))"
  shows "splice_call s1 (s_numa_des s i) pf (rev (on_node s i ps))"
proof -
  have d: "pages_inv s1" "same_super s s1" "\<And>nd. in_use s nd \<Longrightarrow> free_page_list s1 nd = free_page_list s nd"
    using assms(1) by (auto simp: deferred_def)
  note eqs = same_super_eqs [OF d(2)] in_use_same_super [OF d(2)]
  have des: "s_numa_des s1 = s_numa_des s" using d(2) by (simp add: same_super_def)
  have "free_page_set s1 = free_page_set s" using d(3) by (simp add: free_page_set_in_use eqs)
  then show ?thesis
    using assms(2-4) d(1) by (auto simp: splice_call_def releasable_def eqs des in_use_def)
qed

text \<open>After the chain of node 0 has been spliced in, the chain of node 1 can be.\<close>

lemma first_splice:
  assumes "deferred s ps ((pf0, pf1), s1)" and "releasable s ps"
  defines "s2 \<equiv> pre_free_splice s1 (s_numa_des s 0) pf0"
  shows "pages_inv s2" "same_super s s2"
    "free_page_list s2 (s_numa_des s 0) = rev (on_node s 0 ps) @ free_page_list s (s_numa_des s 0)"
    "s_numa_flag s \<noteq> 0 \<Longrightarrow> free_page_list s2 (s_numa_des s 1) = free_page_list s (s_numa_des s 1)"
    "s_numa_flag s \<noteq> 0 \<Longrightarrow> splice_call s2 (s_numa_des s 1) pf1 (rev (on_node s 1 ps))"
proof -
  have d: "same_super s s1" "\<And>nd. in_use s nd \<Longrightarrow> free_page_list s1 nd = free_page_list s nd"
    "chain_of s1 pf0 (rev (on_node s 0 ps))" "chain_of s1 pf1 (rev (on_node s 1 ps))"
    using assms(1) by (auto simp: deferred_def)
  have n0: "0 \<in> set (node_ids s)" and m: "meta_ok s"
    using assms(2) by (auto simp: node_ids_def releasable_def pages_inv_def)
  note sc = deferred_splice_call [OF assms(1,2) n0 d(3)]
  show inv: "pages_inv s2" unfolding s2_def by (rule splice_inv [OF sc])
  show super: "same_super s s2"
    unfolding s2_def by (rule same_super_trans [OF d(1) splice_others(1) [OF sc]])
  have u0: "in_use s (s_numa_des s 0)" using n0 by (simp add: in_use_def)
  show l0: "free_page_list s2 (s_numa_des s 0) = rev (on_node s 0 ps) @ free_page_list s (s_numa_des s 0)"
    unfolding s2_def splice_list [OF sc] by (simp add: d(2) [OF u0])
  assume flag: "s_numa_flag s \<noteq> 0"
  then have u1: "in_use s (s_numa_des s 1)" and ne: "s_numa_des s 1 \<noteq> s_numa_des s 0"
    using m by (auto simp: in_use_def node_ids_def meta_ok_def)
  show l1: "free_page_list s2 (s_numa_des s 1) = free_page_list s (s_numa_des s 1)"
    unfolding s2_def using splice_others(2) [OF sc _ ne] u1 d(2) [OF u1]
    by (simp add: in_use_same_super [OF d(1)])
  have "free_page_set s2 = set (on_node s 0 ps) \<union> free_page_set s"
    using flag l0 l1 super by (auto simp: free_page_set_def same_super_eqs [OF super] same_super_def node_ids_def)
  moreover have "chain_of s2 pf1 (rev (on_node s 1 ps))"
    unfolding s2_def using assms(2) same_super_eqs [OF d(1)]
    by (intro chain_of_splice [OF sc d(4)]) (auto simp: releasable_def)
  moreover have "s_numa_des s2 = s_numa_des s" using super by (simp add: same_super_def)
  ultimately show "splice_call s2 (s_numa_des s 1) pf1 (rev (on_node s 1 ps))"
    using inv u1 assms(2)
    by (auto simp: splice_call_def releasable_def same_super_eqs [OF super] in_use_same_super [OF super])
qed

lemma pre_free_list_lists:
  assumes "releasable s ps"
  defines "s' \<equiv> rdfs_pre_free_list (snd (pre_free_all s ps)) (fst (pre_free_all s ps))"
  shows "pages_inv s' \<and> same_super s s' \<and> (\<forall>i \<in> set (node_ids s).
     free_page_list s' (s_numa_des s i) = rev (on_node s i ps) @ free_page_list s (s_numa_des s i))"
proof -
  obtain pf0 pf1 s1 where st: "pre_free_all s ps = ((pf0, pf1), s1)" by (metis surj_pair)
  have def: "deferred s ps ((pf0, pf1), s1)" using pre_free_all_deferred [OF assms(1)] by (simp add: st)
  define s2 where "s2 = pre_free_splice s1 (s_numa_des s 0) pf0"
  note f = first_splice [OF def assms(1), folded s2_def]
  have des: "s_numa_des s1 = s_numa_des s" "s_numa_des s2 = s_numa_des s"
    using def f(2) by (auto simp: same_super_def deferred_def)
  have s': "s' = pre_free_splice s2 (s_numa_des s 1) pf1"
    by (simp add: s'_def st rdfs_pre_free_list_def Let_def s2_def [symmetric] des)
  show ?thesis
  proof (cases "s_numa_flag s = 0")
    case True
    then have "on_node s 1 ps = []" by (simp add: filter_empty_conv rdfs_get_phys_numa_id_def)
    then have "free_count pf1 = 0" using def by (simp add: deferred_def chain_of_def)
    then have "s' = s2" by (simp add: s' pre_free_splice_def)
    then show ?thesis using f(1-3) True by (simp add: node_ids_def)
  next
    case False
    note sc = f(5) [OF False]
    have "in_use s2 (s_numa_des s 0)" "s_numa_des s 0 \<noteq> s_numa_des s 1"
      using False assms(1)
      by (auto simp: des(2) in_use_def node_ids_def releasable_def pages_inv_def meta_ok_def)
    then show ?thesis
      using splice_inv [OF sc] same_super_trans [OF f(2) splice_others(1) [OF sc]]
        splice_list [OF sc] splice_others(2) [OF sc] f(3) f(4) [OF False] False
      by (simp add: s' node_ids_def)
  qed
qed

section \<open>Zeroed pages\<close>

lemma zeroed_page_effect:
  assumes "pages_inv s"
  shows "case rdfs_get_zeroed_page s cpu of (v, s') \<Rightarrow>
     (case free_page_list s (get_cpu_numa s cpu) of
        [] \<Rightarrow> v = 0 \<and> s' = s
      | p # ps \<Rightarrow> v = rdfs_va s p \<and> pages_inv s' \<and> free_page_set s' = free_page_set s - {p}
          \<and> (\<forall>x \<in> region v 4096. mem s' x = 0)
          \<and> same_super s s' \<and> free_page_list s' (get_cpu_numa s cpu) = ps
          \<and> (\<forall>x. x \<notin> region v 4096 \<and> x \<notin> region (get_cpu_numa s cpu) 128 \<longrightarrow> mem s' x = mem s x))"
proof (cases "alloc_page (cpu, 0) s")
  case None
  then have "free_page_list s (get_cpu_numa s cpu) = []"
    using rdfs_new_block_enough [of 1 s cpu 0]
    by (cases "free_page_list s (get_cpu_numa s cpu)") (auto simp: alloc_page_def new_block_node_def)
  then show ?thesis using None by (simp add: rdfs_get_zeroed_page_def alloc_page_def)
next
  case (Some r)
  then obtain p s1 where a: "alloc_page (cpu, 0) s = Some (p, s1)" by (cases r) auto
  note c = alloc_page_call [OF assms a]
  have nd: "new_block_node s cpu 0 = get_cpu_numa s cpu" by (simp add: new_block_node_def)
  have ok: "page_ok s p" using page_pool.free_valid [OF assms page_pool.alloc_mem [OF assms a]] .
  have va: "rdfs_va s1 p = rdfs_va s p" using same_super_eqs(1) [OF new_block_call_super [OF c]] by simp
  obtain ps where l: "free_page_list s (get_cpu_numa s cpu) = p # ps"
    using new_block_call_split [OF c] by (simp add: nd)
  define s2 where "s2 = s1\<lparr>mem := memset (mem s1) (rdfs_va s p) 0 4096\<rparr>"
  have w: "page_write s1 p s2"
    using page_pool.alloc_inv [OF assms a] page_pool.alloc_valid [OF assms a] ok
      page_pool.alloc_set [OF assms a] va by (simp add: page_write_def s2_def memset_outside)
  have "free_page_list s1 (get_cpu_numa s cpu) = ps"
    using new_block_call_remaining [OF c] l by (simp add: nd)
  moreover have "in_use s1 (get_cpu_numa s cpu)"
    using in_use_same_super [OF new_block_call_super [OF c]] in_use_cpu by simp
  ultimately have rest: "free_page_list s2 (get_cpu_numa s cpu) = ps"
    using page_write_list [OF w] by simp
  have r: "rdfs_get_zeroed_page s cpu = (rdfs_va s p, s2)"
    using a ok va by (simp add: rdfs_get_zeroed_page_def alloc_page_def s2_def page_ok_def)
  show ?thesis
    using page_write_inv [OF w] page_write_free_set [OF w] page_pool.alloc_set [OF assms a] rest
      new_block_call_frame [OF c] same_super_trans [OF new_block_call_super [OF c] page_write_super [OF w]]
    by (simp add: r l nd s2_def memset_inside memset_outside)
qed

text \<open>The same, split by the returned pointer.\<close>

definition zeroed_page_call :: "'a nvm_scheme \<Rightarrow> nat \<Rightarrow> u64 \<Rightarrow> 'a nvm_scheme \<Rightarrow> bool" where
  "zeroed_page_call s cpu p s' \<longleftrightarrow> p \<in> free_page_set s \<and> page_ok s p \<and> pages_inv s \<and> pages_inv s'
     \<and> free_page_set s' = free_page_set s - {p} \<and> same_super s s'
     \<and> free_page_list s (get_cpu_numa s cpu) = p # free_page_list s' (get_cpu_numa s cpu)
     \<and> (\<forall>x \<in> region (rdfs_va s p) 4096. mem s' x = 0)
     \<and> (\<forall>x. x \<notin> region (rdfs_va s p) 4096 \<and> x \<notin> region (get_cpu_numa s cpu) 128 \<longrightarrow> mem s' x = mem s x)"

lemma zeroed_page_cases:
  assumes "pages_inv s" and "rdfs_get_zeroed_page s cpu = (v, s')"
  shows "v = 0 \<and> s' = s \<and> free_page_list s (get_cpu_numa s cpu) = []
     \<or> (\<exists>p. v = rdfs_va s p \<and> v \<noteq> 0 \<and> zeroed_page_call s cpu p s')"
proof (cases "free_page_list s (get_cpu_numa s cpu)")
  case Nil
  then show ?thesis using zeroed_page_effect [OF assms(1), of cpu] assms(2) by simp
next
  case (Cons p ps)
  have "p \<in> free_page_set s" using Cons in_use_cpu [of s cpu] unfolding free_page_set_in_use by force
  moreover have "page_ok s p" using free_page_ok [OF assms(1) calculation] .
  ultimately show ?thesis
    using zeroed_page_effect [OF assms(1), of cpu] assms Cons
    by (auto simp: zeroed_page_call_def page_ok_def)
qed

text \<open>The NVM part of a state decides what the allocator sees, whatever else the state records.\<close>

lemma nvm_part:
  fixes s :: "'a nvm_scheme" and s' :: "'b nvm_scheme"
  assumes "sbi s' = sbi s" and "mem s' = mem s"
  shows "rdfs_va s' = rdfs_va s" "rdfs_get_super s' = rdfs_get_super s" "s_numa_flag s' = s_numa_flag s"
    "s_numa_des s' = s_numa_des s" "node_ids s' = node_ids s" "meta_areas s' = meta_areas s" "page_ok s' = page_ok s"
    "free_page_list s' = free_page_list s" "free_page_set s' = free_page_set s" "pages_inv s' = pages_inv s"
    "get_rdfs_inode s' = get_rdfs_inode s" "get_cpu_numa s' = get_cpu_numa s"
proof -
  show va: "rdfs_va s' = rdfs_va s" and super: "rdfs_get_super s' = rdfs_get_super s"
    using assms by (auto simp: rdfs_va_def rdfs_get_super_def)
  show flag: "s_numa_flag s' = s_numa_flag s" and des: "s_numa_des s' = s_numa_des s"
    using assms super by (auto simp: s_numa_flag_def s_numa_des_def)
  show ids: "node_ids s' = node_ids s" using flag by (simp add: node_ids_def)
  show areas: "meta_areas s' = meta_areas s" using super ids des by (simp add: meta_areas_def)
  show ok: "page_ok s' = page_ok s" using va areas by (auto simp: page_ok_def)
  show l: "free_page_list s' = free_page_list s" using assms va by (auto simp: free_page_list_def list_from_def)
  show "free_page_set s' = free_page_set s" using ids des l by (simp add: free_page_set_def)
  have "node_pages_ok s' = node_pages_ok s"
    using ids des l ok flag by (simp add: fun_eq_iff node_pages_ok_def rdfs_get_phys_numa_id_def)
  then show "pages_inv s' = pages_inv s"
    using ids des super flag by (simp add: pages_inv_def meta_ok_def)
  show "get_rdfs_inode s' = get_rdfs_inode s" using flag des by (auto simp: get_rdfs_inode_def)
  show "get_cpu_numa s' = get_cpu_numa s" using flag des by (auto simp: get_cpu_numa_def)
qed

section \<open>A concrete pair of free lists\<close>

text \<open>Node 0 of the example image has two free pages, node 1 has one.\<close>

definition example_pages :: nvm where
  "example_pages = example_nvm\<lparr>mem :=
     st64 (st64 (st64 (st64 (st64 example_super
       0xffffc90000004008 2) 0xffffc90000004018 0x1800100000)
       0xffffc90080000008 1) 0xffffc90080000018 0x1880100000)
       0xffffc90000100000 0x1800101000\<rparr>"

lemma example_pages_eval [mem_eval]:
  "virt_addr (sbi example_pages) = 0xffffc90000000000"
  "phy_addr (sbi example_pages) = 0x1800000000"
  "s_numa_flag example_pages = 1"
  "s_numa_des example_pages 0 = 0xffffc90000004000"
  "s_numa_des example_pages (Suc 0) = 0xffffc90080000000"
  "ld64 (mem example_pages) 0xffffc90000004008 = 2"
  "ld64 (mem example_pages) 0xffffc90000004018 = 0x1800100000"
  "ld64 (mem example_pages) 0xffffc90080000008 = 1"
  "ld64 (mem example_pages) 0xffffc90080000018 = 0x1880100000"
  "ld64 (mem example_pages) 0xffffc90000100000 = 0x1800101000"
  by (simp_all add: s_numa_des_def s_numa_flag_def rdfs_get_super_def example_pages_def
      example_nvm_def example_super_def example_sbi_def mem_eval)

lemma example_pages_lists [mem_eval]:
  "free_page_list example_pages 0xffffc90000004000 = [0x1800100000, 0x1800101000]"
  "free_page_list example_pages 0xffffc90080000000 = [0x1880100000]"
  by (simp_all add: free_page_list_def rdfs_va_def mem_eval)

lemma example_pages_inv: "pages_inv example_pages"
  by (simp add: pages_inv_def meta_ok_def node_ids_def node_pages_ok_def page_ok_def meta_areas_def
      rdfs_get_super_def rdfs_va_def phys_page_def rdfs_get_phys_numa_id_def mem_eval consts_eval)

section \<open>Properties of the page allocator\<close>

text \<open>C9. A request for \<open>n\<close> pages fails exactly when the node has fewer than \<open>n\<close> free pages; otherwise it
  hands out the first \<open>n\<close> pages of the node's free list, still linked in order, leaves the rest as the
  new free list, keeps the allocator's invariant and the other node's list, and writes nowhere but
  into the node's descriptor.\<close>

theorem rdfs_new_block_spec:
  assumes "pages_inv s" and "n < 2 ^ 31"
  shows "let nd = new_block_node s cpu ni; free = free_page_list s nd
     in case rdfs_new_block s cpu (int n) ni of
          None \<Rightarrow> length free < n
        | Some (p, s') \<Rightarrow> n \<le> length free \<and> list_from s' p n = take n free
            \<and> free_page_list s' nd = drop n free \<and> pages_inv s'
            \<and> (\<forall>nd'. in_use s nd' \<and> nd' \<noteq> nd \<longrightarrow> free_page_list s' nd' = free_page_list s nd')
            \<and> (\<forall>x. x \<notin> region nd 128 \<longrightarrow> mem s' x = mem s x)"
proof (cases "rdfs_new_block s cpu (int n) ni")
  case None
  then show ?thesis
    using rdfs_new_block_enough [of n s cpu ni] by (auto simp: Let_def not_le [symmetric])
next
  case (Some r)
  obtain p s' where r: "r = (p, s')" by (cases r)
  have c: "new_block_call s (new_block_node s cpu ni) n p s'"
    using assms Some r by (auto simp: new_block_call_def)
  show ?thesis
    using new_block_call_enough(4) [OF c] new_block_call_taken [OF c] new_block_call_remaining [OF c]
      new_block_call_inv [OF c] new_block_call_others [OF c] new_block_call_frame [OF c] Some r
    by (simp add: Let_def free_page_list_def)
qed

theorem rdfs_new_block_spec_witness:
  "pages_inv example_pages \<and> (2 :: nat) < 2 ^ 31 \<and>
   (let nd = new_block_node example_pages 0 0; free = free_page_list example_pages nd
     in case rdfs_new_block example_pages 0 (int 2) 0 of
          None \<Rightarrow> length free < 2
        | Some (p, s') \<Rightarrow> 2 \<le> length free \<and> list_from s' p 2 = take 2 free
            \<and> free_page_list s' nd = drop 2 free \<and> pages_inv s'
            \<and> (\<forall>nd'. in_use example_pages nd' \<and> nd' \<noteq> nd
                  \<longrightarrow> free_page_list s' nd' = free_page_list example_pages nd')
            \<and> (\<forall>x. x \<notin> region nd 128 \<longrightarrow> mem s' x = mem example_pages x))"
proof -
  have "(2 :: nat) < 2 ^ 31" by simp
  then show ?thesis using rdfs_new_block_spec [OF example_pages_inv] example_pages_inv by blast
qed

text \<open>C8. No sequence of page requests and returns, from any CPUs and for any inodes, ever hands out a
  page twice or loses one: what the client holds is distinct and not free, and held and free pages
  together are exactly the pages that were free at the start.\<close>

theorem page_traces_safe:
  assumes "pages_inv s"
  shows "case pool_run alloc_page (\<lambda>p s. rdfs_free_block s p) ops (s, []) of (s', held) \<Rightarrow>
     pages_inv s' \<and> distinct held \<and> set held \<inter> free_page_set s' = {}
       \<and> free_page_set s' \<union> set held = free_page_set s"
  using page_pool.run_from_idle [OF assms] by (simp split: prod.split)

theorem page_traces_safe_witness:
  "case pool_run alloc_page (\<lambda>p s. rdfs_free_block s p)
          [Take (0, 0), Take (6, 0), Give 0x1800100000, Take (1, 0)] (example_pages, [])
   of (s', held) \<Rightarrow>
     pages_inv s' \<and> distinct held \<and> set held \<inter> free_page_set s' = {}
       \<and> free_page_set s' \<union> set held = free_page_set example_pages"
  by (rule page_traces_safe [OF example_pages_inv])

text \<open>Freeing the page just allocated restores the free list of every node, in order.\<close>

theorem alloc_free_roundtrip:
  assumes "pages_inv s" and "alloc_page c s = Some (p, s')" and "in_use s nd"
  shows "free_page_list (rdfs_free_block s' p) nd = free_page_list s nd"
proof -
  note a = alloc_page_call [OF assms(1,2)]
  let ?nd = "new_block_node s (fst c) (snd c)"
  have l: "free_page_list s ?nd = p # free_page_list s' ?nd"
    using new_block_call_split [OF a] new_block_call_remaining [OF a] by simp
  have call: "free_block_call s' p"
    using page_pool.alloc_set [OF assms(1,2)] page_pool.alloc_inv [OF assms(1,2)]
      page_pool.alloc_valid [OF assms(1,2)] page_pool.alloc_mem [OF assms(1,2)]
      page_pool.free_valid [OF assms(1)] by (simp add: free_block_call_def)
  have sup: "same_super s s'" by (rule new_block_call_super [OF a])
  have home: "s_numa_des s' (rdfs_get_phys_numa_id s' p) = ?nd"
    using node_pages_okD(3) [OF assms(1) new_block_call_enough(3) [OF a], of p] l sup
      same_super_eqs [OF sup] by (simp add: same_super_def)
  show ?thesis
  proof (cases "nd = ?nd")
    case True
    then show ?thesis using free_block_push [OF call home [symmetric]] l by simp
  next
    case False
    then show ?thesis
      using free_block_frame(2) [OF call, of nd] new_block_call_others [OF a assms(3)] home assms(3)
      by (simp add: in_use_same_super [OF sup])
  qed
qed

theorem alloc_free_roundtrip_witness:
  "\<exists>p s'. alloc_page (0, 0) example_pages = Some (p, s') \<and>
     free_page_list (rdfs_free_block s' p) 0xffffc90000004000
       = free_page_list example_pages 0xffffc90000004000"
proof -
  have "alloc_page (0, 0) example_pages \<noteq> None"
    using rdfs_new_block_enough [of 1 example_pages 0 0]
    by (simp add: alloc_page_def new_block_node_def get_cpu_numa_def mem_eval consts_eval)
  then obtain p s' where a: "alloc_page (0, 0) example_pages = Some (p, s')" by auto
  have "in_use example_pages 0xffffc90000004000"
    by (simp add: in_use_def node_ids_def mem_eval)
  from alloc_free_roundtrip [OF example_pages_inv a this] a show ?thesis by blast
qed

text \<open>\<open>rdfs_get_zeroed_page\<close> returns the first free page of the CPU's node with all its 4096 bytes
  zero and no longer free, or a null pointer and the unchanged state when the node has none.\<close>

theorem rdfs_get_zeroed_page_spec:
  assumes "pages_inv s"
  shows "case rdfs_get_zeroed_page s cpu of (v, s') \<Rightarrow>
     (case free_page_list s (get_cpu_numa s cpu) of
        [] \<Rightarrow> v = 0 \<and> s' = s
      | p # ps \<Rightarrow> v = rdfs_va s p \<and> pages_inv s' \<and> free_page_set s' = free_page_set s - {p}
          \<and> (\<forall>x \<in> region v 4096. mem s' x = 0)
          \<and> (\<forall>x. x \<notin> region v 4096 \<and> x \<notin> region (get_cpu_numa s cpu) 128 \<longrightarrow> mem s' x = mem s x))"
  using zeroed_page_effect [OF assms, of cpu] by (auto split: list.splits prod.splits)

theorem rdfs_get_zeroed_page_spec_witness:
  "case rdfs_get_zeroed_page example_pages 7 of (v, s') \<Rightarrow>
     (case free_page_list example_pages (get_cpu_numa example_pages 7) of
        [] \<Rightarrow> v = 0 \<and> s' = example_pages
      | p # ps \<Rightarrow> v = rdfs_va example_pages p \<and> pages_inv s'
          \<and> free_page_set s' = free_page_set example_pages - {p}
          \<and> (\<forall>x \<in> region v 4096. mem s' x = 0)
          \<and> (\<forall>x. x \<notin> region v 4096 \<and> x \<notin> region (get_cpu_numa example_pages 7) 128
                \<longrightarrow> mem s' x = mem example_pages x))"
  by (rule rdfs_get_zeroed_page_spec [OF example_pages_inv])

text \<open>C17. Deferring a batch of frees is equivalent to freeing the pages one by one: chaining them
  locally and splicing the chains in at the end leaves every node with the same free list.\<close>

theorem deferred_free_equivalent:
  assumes "releasable s ps" and "i \<in> set (node_ids s)"
  shows "let (pfs, s1) = pre_free_all s ps; s' = rdfs_pre_free_list s1 pfs
     in free_page_list s' (s_numa_des s i) = free_page_list (free_all s ps) (s_numa_des s i)
      \<and> pages_inv s'"
  using pre_free_list_lists [OF assms(1)] free_all_lists [OF assms(1)] assms(2)
  by (simp add: case_prod_beta)

theorem deferred_free_equivalent_witness:
  "releasable example_pages [0x1800200000, 0x1880200000, 0x1800201000] \<and>
   (let (pfs, s1) = pre_free_all example_pages [0x1800200000, 0x1880200000, 0x1800201000];
        s' = rdfs_pre_free_list s1 pfs
    in free_page_list s' (s_numa_des example_pages 0)
         = free_page_list (free_all example_pages [0x1800200000, 0x1880200000, 0x1800201000])
             (s_numa_des example_pages 0)
     \<and> pages_inv s')"
proof -
  have r: "releasable example_pages [0x1800200000, 0x1880200000, 0x1800201000]"
    using example_pages_inv
    by (simp add: releasable_def page_ok_def meta_areas_def node_ids_def free_page_set_def
        rdfs_get_super_def rdfs_va_def phys_page_def mem_eval)
  have "0 \<in> set (node_ids example_pages)" by (simp add: node_ids_def)
  from deferred_free_equivalent [OF r this] r show ?thesis by blast
qed

end
