(* ===== verification/Free_Inodes.thy ===== *)
theory Free_Inodes
  imports Free_Pages
begin

text \<open>
  The inode slot allocator: the free-list part of \<open>rdfs_new_inode\<close> and \<open>rdfs_free_inode\<close>
  (\<open>rdfs_master/inode.c\<close>) and the node selection of \<open>balloc.c\<close>. A free slot holds the physical
  address of the next free slot in its \<open>i_pg_addr\<close> field, at offset 72. Slots are 128 bytes apart
  while \<open>struct rdfs_inode\<close> is 136 bytes long, so the initialisation of a slot reaches into its
  successor; the lemmas show which bytes are hit and that the free list survives.
\<close>

section \<open>Operations\<close>

text \<open>The state gains the static counter \<open>next_numa_id\<close>.\<close>

record fs = nvm +
  next_numa_id :: u32

definition get_a_numa :: "'a fs_scheme \<Rightarrow> u64 \<times> 'a fs_scheme" where
  "get_a_numa s =
     (if s_numa_flag s \<noteq> 0
      then (s_numa_des s (unat ((next_numa_id s + 1) AND 1)), s\<lparr>next_numa_id := next_numa_id s + 1\<rparr>)
      else (s_numa_des s 0, s))"

definition get_rdfs_inode_numa :: "'a nvm_scheme \<Rightarrow> u64 \<Rightarrow> u64" where
  "get_rdfs_inode_numa s ni =
     (if s_numa_flag s \<noteq> 0 \<and> rdfs_NUMA_LINE < rdfs_pa s ni then s_numa_des s 1 else s_numa_des s 0)"

text \<open>Lines of \<open>rdfs_new_inode\<close> under \<open>inode_lock\<close>: unlink the head, reset its list fields. The result
  is the inode number and the slot.\<close>

definition inode_slot_take ::
  "'a nvm_scheme \<Rightarrow> u64 \<Rightarrow> (u64 \<times> u64 \<times> 'a nvm_scheme) option" where
  "inode_slot_take s nd =
     (if free_inode_count s nd \<noteq> 0 then
        let inode_phy = free_inode_phy s nd;
            ino = get_rdfs_inodenr s inode_phy;
            ni = get_rdfs_inode s ino;
            s1 = put64 s (nd + 16) (ld64 (mem s) (ni + 72));
            s2 = put64 s1 (ni + 72) 0;
            s3 = put64 s2 (ni + 88) 0;
            s4 = put64 s3 (ni + 96) 0;
            s5 = put64 s4 (ni + 80) 0;
            s6 = put32 s5 (ni + 128) 0;
            s7 = put32 s6 (ni + 132) 0;
            s8 = put64 s7 nd (free_inode_count s7 nd - 1)
        in Some (ino, ni, s8)
      else None)"

text \<open>Lines of \<open>rdfs_free_inode\<close> under \<open>inode_lock\<close>; \<open>now\<close> is \<open>get_seconds()\<close>.\<close>

definition inode_slot_give :: "'a nvm_scheme \<Rightarrow> u64 \<Rightarrow> u32 \<Rightarrow> 'a nvm_scheme" where
  "inode_slot_give s ino now =
     (let ni = get_rdfs_inode s ino;
          nd = get_rdfs_inode_numa s ni;
          inode_phy = get_rdfs_inode_phy_addr s ino;
          s1 = put32 s (ni + 40) now;
          s2 = put64 s1 (ni + 72) 0;
          s3 = put64 s2 (ni + 72) (free_inode_phy s2 nd);
          s4 = put64 s3 (nd + 16) inode_phy
      in put64 s4 nd (free_inode_count s4 nd + 1))"

section \<open>Free slots and the invariant\<close>

definition free_slot_list :: "'a nvm_scheme \<Rightarrow> u64 \<Rightarrow> u64 list" where
  "free_slot_list s nd =
     follow (\<lambda>p. ld64 (mem s) (rdfs_va s p + 72)) (free_inode_phy s nd) (unat (free_inode_count s nd))"

text \<open>A slot: at a multiple of 128 bytes behind its node's descriptor, numbered consistently, and with
  the 136 bytes of the struct clear of the metadata and of the other node.\<close>

definition slot_ok :: "'a nvm_scheme \<Rightarrow> u64 \<Rightarrow> bool" where
  "slot_ok s p \<longleftrightarrow> p \<noteq> 0 \<and> unat p < 2 ^ 62 \<and>
     (rdfs_va s p - s_numa_des s (rdfs_get_phys_numa_id s p)) AND 127 = 0 \<and>
     get_rdfs_inode s (get_rdfs_inodenr s p) = rdfs_va s p \<and>
     list_all (\<lambda>a. apart (rdfs_va s p) 136 a 128) (meta_areas s) \<and>
     (s_numa_flag s \<noteq> 0 \<and> rdfs_get_phys_numa_id s p = 0 \<longrightarrow> unat p + 136 \<le> unat rdfs_NUMA_LINE)"

definition slots_inv :: "'a nvm_scheme \<Rightarrow> bool" where
  "slots_inv s \<longleftrightarrow> meta_ok s \<and>
     list_all (\<lambda>i. distinct (free_slot_list s (s_numa_des s i)) \<and>
       list_all (\<lambda>p. slot_ok s p \<and> rdfs_get_phys_numa_id s p = i) (free_slot_list s (s_numa_des s i)))
     (node_ids s)"

lemma and_127_mod: "unat (p AND 127 :: u64) = unat p mod 128"
proof -
  have "p AND 127 = take_bit 7 p" by (simp add: take_bit_eq_mask mask_eq_exp_minus_1)
  then show ?thesis by (simp add: take_bit_eq_mod unat_mod_distrib)
qed

text \<open>Two distinct slots are at least a slot apart, in both directions around the address space.\<close>

lemma slots_far_same_node:
  assumes "(a - c) AND 127 = (0 :: u64)" and "(b - c) AND 127 = 0" and "a \<noteq> b"
  shows "128 \<le> unat (a - b)"
proof -
  have "128 dvd unat (a - c)" "128 dvd unat (b - c)"
    using assms(1,2) and_127_mod [of "a - c"] and_127_mod [of "b - c"] by auto
  then have "128 dvd unat ((a - c) - (b - c))" by (rule dvd_unat_diff [rotated]) simp
  then have "128 dvd unat (a - b)" by simp
  moreover have "unat (a - b) \<noteq> 0" using assms(3) by (simp add: unat_eq_0)
  ultimately show ?thesis by (auto dest: dvd_imp_le)
qed

lemma unat_diff_far:
  fixes p q :: u64
  assumes "unat p + 136 \<le> unat q" and "unat q < 2 ^ 62"
  shows "128 \<le> unat (p - q)" and "128 \<le> unat (q - p)"
proof -
  show "128 \<le> unat (q - p)" using assms by (simp add: unat_sub word_le_nat_alt)
  have "\<not> unat q \<le> unat p" using assms(1) by simp
  then have "unat (p - q) = 2 ^ 64 + unat p - unat q" by (simp add: unat_sub_if')
  then show "128 \<le> unat (p - q)" using assms by simp
qed

lemma slots_far:
  assumes "slot_ok s p" and "slot_ok s q" and "p \<noteq> q"
  shows "128 \<le> unat (rdfs_va s p - rdfs_va s q)"
proof (cases "rdfs_get_phys_numa_id s p = rdfs_get_phys_numa_id s q")
  case True
  then show ?thesis
    using assms slots_far_same_node [of "rdfs_va s p" _ "rdfs_va s q"]
    by (auto simp: slot_ok_def simp del: rdfs_va_diff)
next
  case False
  have b: "unat p < 2 ^ 62" "unat q < 2 ^ 62" using assms by (auto simp: slot_ok_def)
  have "unat p + 136 \<le> unat q \<or> unat q + 136 \<le> unat p"
    using assms(1,2) False
    by (auto simp: slot_ok_def rdfs_get_phys_numa_id_def word_less_nat_alt split: if_splits)
  then show ?thesis using unat_diff_far [of p q] unat_diff_far [of q p] b by auto
qed

text \<open>So a field inside one slot never meets the link word of another, not even a field at offset 128
  or 132.\<close>

lemma slot_fields_disj:
  assumes "slot_ok s p" and "slot_ok s q" and "p \<noteq> q" and "unat k + n \<le> 136"
  shows "region (rdfs_va s q + k) n \<inter> region (rdfs_va s p + 72) 8 = {}"
proof -
  define d where "d = rdfs_va s p - rdfs_va s q"
  have lo: "128 \<le> unat d" using slots_far [OF assms(1-3)] by (simp add: d_def)
  have hi: "unat d + 128 \<le> 2 ^ 64"
    using slots_far [OF assms(2,1)] assms(3) unat_diff_sum [of "rdfs_va s p" "rdfs_va s q"]
    by (simp add: d_def)
  have "unat (d + 72) = unat d + 72" using hi by (simp add: unat_word_ariths)
  then have "region (rdfs_va s q + k) n \<inter> region (rdfs_va s q + (d + 72)) 8 = {}"
    using lo hi assms(4) by (intro region_disj) simp_all
  moreover have "rdfs_va s q + (d + 72) = rdfs_va s p + 72" by (simp add: d_def rdfs_va_def)
  ultimately show ?thesis by (simp only:)
qed

section \<open>What taking and giving back a slot does\<close>

text \<open>Node descriptors in use, as in the page allocator.\<close>

lemma slots_invD:
  assumes "slots_inv s" and "in_use s nd"
  shows "distinct (free_slot_list s nd)"
    and "p \<in> set (free_slot_list s nd) \<Longrightarrow> slot_ok s p"
    and "p \<in> set (free_slot_list s nd) \<Longrightarrow> s_numa_des s (rdfs_get_phys_numa_id s p) = nd"
  using assms by (auto simp: slots_inv_def in_use_def list_all_iff)

lemma slots_invI:
  assumes "meta_ok s"
    and "\<And>nd. in_use s nd \<Longrightarrow> distinct (free_slot_list s nd)"
    and "\<And>nd p. in_use s nd \<Longrightarrow> p \<in> set (free_slot_list s nd)
           \<Longrightarrow> slot_ok s p \<and> s_numa_des s (rdfs_get_phys_numa_id s p) = nd"
  shows "slots_inv s"
proof -
  have "slot_ok s p \<and> rdfs_get_phys_numa_id s p = i"
    if i: "i \<in> set (node_ids s)" and p: "p \<in> set (free_slot_list s (s_numa_des s i))" for i p
  proof -
    have "in_use s (s_numa_des s i)" using i by (simp add: in_use_def)
    then show ?thesis
      using assms(3) p node_des_inj [OF assms(1) phys_numa_id_in_use i] by blast
  qed
  then show ?thesis
    using assms(1,2) by (auto simp: slots_inv_def list_all_iff in_use_def)
qed

lemma slot_ok_apart:
  "slot_ok s p \<Longrightarrow> apart (rdfs_va s p) 136 (rdfs_get_super s) 128"
  "slot_ok s p \<Longrightarrow> in_use s nd \<Longrightarrow> apart (rdfs_va s p) 136 nd 128"
  by (auto simp: slot_ok_def meta_areas_def in_use_def list_all_iff)

lemma slot_ok_same_super:
  assumes "same_super s s'"
  shows "slot_ok s' = slot_ok s" "get_rdfs_inodenr s' = get_rdfs_inodenr s"
    "get_rdfs_inode s' = get_rdfs_inode s" "get_rdfs_inode_phy_addr s' = get_rdfs_inode_phy_addr s"
  using assms same_super_eqs [OF assms]
  by (auto simp: fun_eq_iff slot_ok_def get_rdfs_inodenr_def get_rdfs_inode_def
      get_rdfs_inode_phy_addr_def same_super_def)

text \<open>A change of one node's descriptor and of one slot of that node: the new list of that node, and
  that nothing else moves.\<close>

definition slot_change :: "'a nvm_scheme \<Rightarrow> u64 \<Rightarrow> u64 \<Rightarrow> 'a nvm_scheme \<Rightarrow> bool" where
  "slot_change s nd p s' \<longleftrightarrow> meta_ok s \<and> in_use s nd \<and> slot_ok s p \<and> sbi s' = sbi s \<and>
     (\<forall>x. x \<notin> region nd 24 \<and> x \<notin> region (rdfs_va s p) 136 \<longrightarrow> mem s' x = mem s x)"

lemma slot_change_super:
  assumes "slot_change s nd p s'"
  shows "same_super s s'"
proof (rule same_superI)
  fix x assume x: "x \<in> region (rdfs_get_super s) 128"
  have "region nd 24 \<inter> region (rdfs_get_super s) 128 = {}"
    using assms by (intro apart_sub(4) [OF in_use_super_apart]) (auto simp: slot_change_def)
  moreover have "region (rdfs_va s p) 136 \<inter> region (rdfs_get_super s) 128 = {}"
    using assms by (intro apart_disjoint slot_ok_apart(1)) (auto simp: slot_change_def)
  ultimately show "mem s' x = mem s x" using assms x by (auto simp: slot_change_def)
qed (use assms in \<open>simp add: slot_change_def\<close>)

lemma slot_change_link:
  assumes "slot_change s nd p s'" and "slot_ok s q" and "q \<noteq> p"
  shows "ld64 (mem s') (rdfs_va s q + 72) = ld64 (mem s) (rdfs_va s q + 72)"
proof (rule load_frame [where R = "region nd 24 \<union> region (rdfs_va s p) 136"])
  have "region (rdfs_va s p) 136 \<inter> region (rdfs_va s q + 72) 8 = {}"
    using slot_fields_disj [of s q p 0 136] assms by (simp add: slot_change_def)
  moreover have "region (rdfs_va s q + 72) 8 \<inter> region nd 24 = {}"
    using assms slot_ok_apart(2) [OF assms(2)]
    by (intro apart_sub(3) [of _ 136 _ 128]) (auto simp: slot_change_def)
  ultimately show "region (rdfs_va s q + 72) 8 \<inter> (region nd 24 \<union> region (rdfs_va s p) 136) = {}"
    by blast
qed (use assms in \<open>auto simp: slot_change_def\<close>)

lemma slot_change_node:
  assumes "slot_change s nd p s'" and "in_use s nd'" and "nd' \<noteq> nd"
    and "unat i + n \<le> 128" and "n \<le> 4294967296"
  shows "load n (mem s') (nd' + i) = load n (mem s) (nd' + i)"
proof (rule load_frame [where R = "region nd 24 \<union> region (rdfs_va s p) 136"])
  have "region (nd' + i) n \<inter> region nd 24 = {}"
    using assms in_use_apart [of s nd' nd]
    by (intro apart_sub(3) [of nd' 128 nd 128]) (auto simp: slot_change_def)
  moreover have "region (nd' + i) n \<inter> region (rdfs_va s p) 136 = {}"
    using assms slot_ok_apart(2) [of s p nd'] apart_commute
    by (intro apart_sub(3) [of nd' 128 _ 136]) (auto simp: slot_change_def)
  ultimately show "region (nd' + i) n \<inter> (region nd 24 \<union> region (rdfs_va s p) 136) = {}" by blast
qed (use assms in \<open>auto simp: slot_change_def\<close>)

lemma slot_change_other_list:
  assumes "slot_change s nd p s'" and "slots_inv s" and "in_use s nd'" and "nd' \<noteq> nd"
    and "p \<notin> set (free_slot_list s nd')"
  shows "free_slot_list s' nd' = free_slot_list s nd'"
proof -
  have f: "free_inode_phy s' nd' = free_inode_phy s nd'" "free_inode_count s' nd' = free_inode_count s nd'"
    using slot_change_node [OF assms(1,3,4), of 16 8] slot_change_node [OF assms(1,3,4), of 0 8]
    by simp_all
  have "ld64 (mem s') (rdfs_va s q + 72) = ld64 (mem s) (rdfs_va s q + 72)"
    if "q \<in> set (free_slot_list s nd')" for q
    using that assms(5) slots_invD(2) [OF assms(2,3) that] by (intro slot_change_link [OF assms(1)]) auto
  then show ?thesis
    unfolding free_slot_list_def f same_super_eqs(1) [OF slot_change_super [OF assms(1)]]
    by (intro follow_cong) (simp add: free_slot_list_def)
qed

lemma slots_inv_meta: "slots_inv s \<Longrightarrow> meta_ok s"
  by (simp add: slots_inv_def)

lemma free_slot_list_head:
  assumes "free_inode_count s nd \<noteq> 0"
  shows "free_slot_list s nd = free_inode_phy s nd #
     follow (\<lambda>p. ld64 (mem s) (rdfs_va s p + 72)) (ld64 (mem s) (rdfs_va s (free_inode_phy s nd) + 72))
       (unat (free_inode_count s nd - 1))"
proof -
  have "unat (free_inode_count s nd) = Suc (unat (free_inode_count s nd - 1))"
    using assms by (simp add: unat_minus_one unat_gt_0)
  then show ?thesis by (simp add: free_slot_list_def)
qed

lemma inode_slot_take_effect:
  assumes "slots_inv s" and "in_use s nd" and "inode_slot_take s nd = Some (ino, ni, s')"
  defines "p \<equiv> free_inode_phy s nd"
  shows "free_inode_count s nd \<noteq> 0" "ino = get_rdfs_inodenr s p" "ni = rdfs_va s p"
    "slot_change s nd p s'" "free_inode_phy s' nd = ld64 (mem s) (rdfs_va s p + 72)"
    "free_inode_count s' nd = free_inode_count s nd - 1"
proof -
  show c: "free_inode_count s nd \<noteq> 0"
    using assms(3) by (auto simp: inode_slot_take_def split: if_splits)
  show ino: "ino = get_rdfs_inodenr s p"
    using assms(3) c by (simp add: inode_slot_take_def Let_def p_def)
  have ok: "slot_ok s p"
    using slots_invD(2) [OF assms(1,2)] free_slot_list_head [OF c] by (simp add: p_def)
  then have va: "get_rdfs_inode s ino = rdfs_va s p" by (simp add: slot_ok_def ino)
  then show ni: "ni = rdfs_va s p"
    using assms(3) c ino by (simp add: inode_slot_take_def Let_def p_def)
  have ap: "apart (rdfs_va s p) 136 nd 128" by (rule slot_ok_apart(2) [OF ok assms(2)])
  define m7 where "m7 = st32 (st32 (st64 (st64 (st64 (st64 (st64 (mem s) (nd + 16)
        (ld64 (mem s) (ni + 72))) (ni + 72) 0) (ni + 88) 0) (ni + 96) 0) (ni + 80) 0)
        (ni + 128) 0) (ni + 132) 0"
  have s': "s' = s\<lparr>mem := st64 m7 nd (ld64 m7 nd - 1)\<rparr>"
    using assms(3) c va unfolding inode_slot_take_def Let_def m7_def ni ino p_def by simp
  have m7: "ld64 m7 nd = free_inode_count s nd" "ld64 m7 (nd + 16) = ld64 (mem s) (ni + 72)"
    by (simp_all add: m7_def ni load_store_disj region_simps apart_sub [OF ap])
  show "slot_change s nd p s'"
    unfolding slot_change_def
  proof (intro conjI allI impI)
    fix x assume "x \<notin> region nd 24 \<and> x \<notin> region (rdfs_va s p) 136"
    then show "mem s' x = mem s x"
      by (simp add: s' m7_def ni store_outside notin_region_sub [of x nd 24]
          notin_region_sub [of x "rdfs_va s p" 136])
  qed (use slots_inv_meta [OF assms(1)] assms(2) ok in \<open>auto simp: s'\<close>)
  show "free_inode_phy s' nd = ld64 (mem s) (rdfs_va s p + 72)"
    "free_inode_count s' nd = free_inode_count s nd - 1"
    using m7 by (simp_all add: s' ni load_store_disj region_simps)
qed

lemma inode_slot_take_list:
  assumes "slots_inv s" and "in_use s nd" and "inode_slot_take s nd = Some (ino, ni, s')"
  shows "free_slot_list s nd = free_inode_phy s nd # free_slot_list s' nd"
proof -
  note e = inode_slot_take_effect [OF assms]
  let ?p = "free_inode_phy s nd"
  let ?q = "ld64 (mem s) (rdfs_va s ?p + 72)"
  note h = free_slot_list_head [OF e(1)]
  have keep: "ld64 (mem s') (rdfs_va s q + 72) = ld64 (mem s) (rdfs_va s q + 72)"
    if "q \<in> set (follow (\<lambda>p. ld64 (mem s) (rdfs_va s p + 72)) ?q (unat (free_inode_count s nd - 1)))" for q
    using that slots_invD(1,2) [OF assms(1,2)] h by (intro slot_change_link [OF e(4)]) auto
  have "free_slot_list s' nd
      = follow (\<lambda>p. ld64 (mem s) (rdfs_va s p + 72)) ?q (unat (free_inode_count s nd - 1))"
    unfolding free_slot_list_def e(5,6) same_super_eqs(1) [OF slot_change_super [OF e(4)]]
    by (rule follow_cong) (rule keep)
  then show ?thesis using h by simp
qed

text \<open>Both operations change the list of one node by one slot; the invariant then follows.\<close>

lemma slot_change_inv:
  assumes "slot_change s nd p s'" and "slots_inv s"
    and "distinct (free_slot_list s' nd)"
    and "set (free_slot_list s' nd) \<subseteq> insert p (set (free_slot_list s nd))"
    and "s_numa_des s (rdfs_get_phys_numa_id s p) = nd"
  shows "slots_inv s'"
proof (rule slots_invI)
  note super = slot_change_super [OF assms(1)]
  note eqs = same_super_eqs [OF super] in_use_same_super [OF super] slot_ok_same_super [OF super]
  have des: "s_numa_des s' = s_numa_des s" using super by (simp add: same_super_def)
  show "meta_ok s'" using slots_inv_meta [OF assms(2)] by (simp add: eqs)
  fix nd' assume "in_use s' nd'"
  then have u: "in_use s nd'" by (simp add: eqs)
  have o: "free_slot_list s' nd' = free_slot_list s nd'" if "nd' \<noteq> nd"
    using that slots_invD(3) [OF assms(2) u, of p] assms(5)
    by (intro slot_change_other_list [OF assms(1,2) u]) auto
  show "distinct (free_slot_list s' nd')"
    using o assms(3) slots_invD(1) [OF assms(2) u] by (cases "nd' = nd") auto
  fix q assume q: "q \<in> set (free_slot_list s' nd')"
  have "slot_ok s p" using assms(1) by (simp add: slot_change_def)
  then show "slot_ok s' q \<and> s_numa_des s' (rdfs_get_phys_numa_id s' q) = nd'"
    using q o assms(4,5) slots_invD(2,3) [OF assms(2) u, of q]
    by (cases "nd' = nd") (auto simp: eqs des)
qed

lemma inode_slot_take_inv:
  assumes "slots_inv s" and "in_use s nd" and "inode_slot_take s nd = Some (ino, ni, s')"
  shows "slots_inv s'"
proof (rule slot_change_inv [OF inode_slot_take_effect(4) [OF assms] assms(1)])
  note l = inode_slot_take_list [OF assms]
  show "distinct (free_slot_list s' nd)" using l slots_invD(1) [OF assms(1,2)] by simp
  show "set (free_slot_list s' nd) \<subseteq> insert (free_inode_phy s nd) (set (free_slot_list s nd))"
    using l by auto
  show "s_numa_des s (rdfs_get_phys_numa_id s (free_inode_phy s nd)) = nd"
    using l slots_invD(3) [OF assms(1,2)] by simp
qed

section \<open>Giving a slot back\<close>

definition slot_give_call :: "'a nvm_scheme \<Rightarrow> u64 \<Rightarrow> u64 \<Rightarrow> u64 \<Rightarrow> bool" where
  "slot_give_call s ino p nd \<longleftrightarrow> slots_inv s \<and> slot_ok s p \<and> ino = get_rdfs_inodenr s p \<and>
     nd = s_numa_des s (rdfs_get_phys_numa_id s p) \<and> p \<notin> set (free_slot_list s nd)"

lemma inode_slot_give_effect:
  fixes now :: u32
  assumes "slot_give_call s ino p nd"
  defines "s' \<equiv> inode_slot_give s ino now"
  shows "slot_change s nd p s'" "ld64 (mem s') (rdfs_va s p + 72) = free_inode_phy s nd"
    "free_inode_phy s' nd = p" "free_inode_count s' nd = free_inode_count s nd + 1"
proof -
  have ok: "slot_ok s p" and ino: "ino = get_rdfs_inodenr s p" and inv: "slots_inv s"
    and nd: "nd = s_numa_des s (rdfs_get_phys_numa_id s p)"
    using assms(1) by (auto simp: slot_give_call_def)
  have va: "get_rdfs_inode s ino = rdfs_va s p" using ok by (simp add: slot_ok_def ino)
  have u: "in_use s nd" unfolding nd by (rule in_use_phys)
  have n: "get_rdfs_inode_numa s (rdfs_va s p) = nd"
    by (simp add: get_rdfs_inode_numa_def nd rdfs_get_phys_numa_id_def)
  have ap: "apart (rdfs_va s p) 136 nd 128" by (rule slot_ok_apart(2) [OF ok u])
  let ?ni = "rdfs_va s p"
  define m2 where "m2 = st64 (st32 (mem s) (?ni + 40) now) (?ni + 72) 0"
  define m4 where "m4 = st64 (st64 m2 (?ni + 72) (ld64 m2 (nd + 16))) (nd + 16) p"
  have s': "s' = s\<lparr>mem := st64 m4 nd (ld64 m4 nd + 1)\<rparr>"
    by (simp add: s'_def inode_slot_give_def va n Let_def get_rdfs_inode_phy_addr_def m2_def m4_def)
  have ap': "apart nd 128 ?ni 136" using ap by (simp add: apart_commute)
  have m2: "ld64 m2 (nd + 16) = free_inode_phy s nd"
    by (simp add: m2_def load_store_disj apart_sub [OF ap])
  have m4: "ld64 m4 nd = free_inode_count s nd" "ld64 m4 (nd + 16) = p"
    "ld64 m4 (?ni + 72) = free_inode_phy s nd"
    by (simp_all add: m4_def m2 load_store_disj apart_sub [OF ap] apart_sub [OF ap'] region_simps)
      (simp add: m2_def load_store_disj apart_sub [OF ap])
  show "slot_change s nd p s'"
    unfolding slot_change_def
  proof (intro conjI allI impI)
    fix x assume "x \<notin> region nd 24 \<and> x \<notin> region (rdfs_va s p) 136"
    then show "mem s' x = mem s x"
      by (simp add: s' m4_def m2_def store_outside notin_region_sub [of x nd 24]
          notin_region_sub [of x ?ni 136])
  qed (use slots_inv_meta [OF inv] u ok in \<open>auto simp: s'\<close>)
  show "ld64 (mem s') (?ni + 72) = free_inode_phy s nd" "free_inode_phy s' nd = p"
    "free_inode_count s' nd = free_inode_count s nd + 1"
    using m4 by (simp_all add: s' load_store_disj region_simps apart_sub [OF ap'])
qed

lemma inode_slot_give_list:
  assumes "slot_give_call s ino p nd"
  shows "free_slot_list (inode_slot_give s ino now) nd = p # free_slot_list s nd"
proof -
  let ?s' = "inode_slot_give s ino now"
  note e = inode_slot_give_effect [OF assms, of now]
  have inv: "slots_inv s" and u: "in_use s nd" and p: "p \<notin> set (free_slot_list s nd)" "p \<noteq> 0"
    using assms in_use_phys by (auto simp: slot_give_call_def slot_ok_def)
  have "length (p # free_slot_list s nd) < 2 ^ 64"
    using slots_invD(1,2) [OF inv u] p by (intro page_list_length) (auto simp: slot_ok_def)
  then have c: "unat (free_inode_count s nd + 1) = Suc (unat (free_inode_count s nd))"
    by (simp add: free_slot_list_def unat_word_ariths)
  have "ld64 (mem ?s') (rdfs_va s q + 72) = ld64 (mem s) (rdfs_va s q + 72)"
    if "q \<in> set (free_slot_list s nd)" for q
    using that p slots_invD(2) [OF inv u that] by (intro slot_change_link [OF e(1)]) auto
  then have "follow (\<lambda>q. ld64 (mem ?s') (rdfs_va s q + 72)) (free_inode_phy s nd)
      (unat (free_inode_count s nd)) = free_slot_list s nd"
    unfolding free_slot_list_def by (intro follow_cong) simp
  then show ?thesis
    unfolding free_slot_list_def [of ?s'] e(3,4) c same_super_eqs(1) [OF slot_change_super [OF e(1)]]
    by (simp add: e(2))
qed

lemma inode_slot_give_inv:
  assumes "slot_give_call s ino p nd"
  shows "slots_inv (inode_slot_give s ino now)"
proof (rule slot_change_inv [OF inode_slot_give_effect(1) [OF assms]])
  have u: "in_use s nd" using assms in_use_phys by (auto simp: slot_give_call_def)
  show "slots_inv s" "s_numa_des s (rdfs_get_phys_numa_id s p) = nd"
    using assms by (auto simp: slot_give_call_def)
  then show "distinct (free_slot_list (inode_slot_give s ino now) nd)"
    "set (free_slot_list (inode_slot_give s ino now) nd) \<subseteq> insert p (set (free_slot_list s nd))"
    using assms inode_slot_give_list [OF assms] slots_invD(1) [OF _ u]
    by (auto simp: slot_give_call_def)
qed

section \<open>Inode numbers as a resource pool\<close>

text \<open>Allocation on the node a caller happens to get from \<open>get_a_numa\<close>.\<close>

definition numa_choice :: "'a nvm_scheme \<Rightarrow> bool \<Rightarrow> u64" where
  "numa_choice s b = s_numa_des s (if s_numa_flag s \<noteq> 0 \<and> b then 1 else 0)"

lemma get_a_numa_choice:
  "fst (get_a_numa s) = numa_choice s (odd (unat (next_numa_id s + 1)))"
proof -
  have "unat (w AND 1) = (if odd (unat w) then 1 else 0)" for w :: u32
    by (simp add: and_one_eq odd_iff_mod_2_eq_one unat_mod_distrib)
  then show ?thesis by (simp add: get_a_numa_def numa_choice_def)
qed

definition alloc_ino :: "bool \<Rightarrow> 'a nvm_scheme \<Rightarrow> (u64 \<times> 'a nvm_scheme) option" where
  "alloc_ino b s = map_option (\<lambda>(ino, ni, s'). (ino, s')) (inode_slot_take s (numa_choice s b))"

definition free_slot_set :: "'a nvm_scheme \<Rightarrow> u64 set" where
  "free_slot_set s = (\<Union>i \<in> set (node_ids s). set (free_slot_list s (s_numa_des s i)))"

definition free_ino_set :: "'a nvm_scheme \<Rightarrow> u64 set" where
  "free_ino_set s = get_rdfs_inodenr s ` free_slot_set s"

definition ino_ok :: "'a nvm_scheme \<Rightarrow> u64 \<Rightarrow> bool" where
  "ino_ok s ino \<longleftrightarrow> slot_ok s (get_rdfs_inode_phy_addr s ino) \<and>
     get_rdfs_inodenr s (get_rdfs_inode_phy_addr s ino) = ino"

lemma free_slot_set_in_use: "free_slot_set s = (\<Union>nd \<in> {nd. in_use s nd}. set (free_slot_list s nd))"
  by (auto simp: free_slot_set_def in_use_def)

lemma slot_phys [simp]: "slot_ok s p \<Longrightarrow> get_rdfs_inode_phy_addr s (get_rdfs_inodenr s p) = p"
  by (simp add: slot_ok_def get_rdfs_inode_phy_addr_def)

lemma free_slot_set_ok: "slots_inv s \<Longrightarrow> p \<in> free_slot_set s \<Longrightarrow> slot_ok s p"
  by (auto simp: free_slot_set_in_use dest: slots_invD(2))

lemma free_slot_inj: "slots_inv s \<Longrightarrow> inj_on (get_rdfs_inodenr s) (free_slot_set s)"
  by (rule inj_on_inverseI [where g = "get_rdfs_inode_phy_addr s"]) (simp add: free_slot_set_ok)

lemma in_use_choice: "in_use s (numa_choice s b)"
  by (auto simp: numa_choice_def in_use_def node_ids_def)

lemma slot_change_set:
  assumes "slot_change s nd p s'" and "slots_inv s" and "in_use s nd"
    and "s_numa_des s (rdfs_get_phys_numa_id s p) = nd"
  shows "free_slot_set s' = set (free_slot_list s' nd) \<union> (free_slot_set s - set (free_slot_list s nd))"
proof -
  note u = in_use_same_super [OF slot_change_super [OF assms(1)]]
  have o: "free_slot_list s' nd' = free_slot_list s nd'" if "in_use s nd'" "nd' \<noteq> nd" for nd'
    using slots_invD(3) [OF assms(2) that(1), of p] assms(4) that(2)
    by (intro slot_change_other_list [OF assms(1,2) that]) auto
  have d: "q \<notin> set (free_slot_list s nd)" if "in_use s nd'" "nd' \<noteq> nd" "q \<in> set (free_slot_list s nd')" for nd' q
    using slots_invD(3) [OF assms(2) that(1,3)] slots_invD(3) [OF assms(2,3), of q] that(2) by auto
  show ?thesis
    unfolding free_slot_set_in_use u using o d assms(3) by fastforce
qed

lemma alloc_ino_effect:
  assumes "slots_inv s" and "alloc_ino b s = Some (ino, s')"
  obtains p where "ino = get_rdfs_inodenr s p" "p \<in> free_slot_set s"
    "free_slot_set s' = free_slot_set s - {p}" "slots_inv s'" "same_super s s'"
proof -
  let ?nd = "numa_choice s b"
  obtain ni where t: "inode_slot_take s ?nd = Some (ino, ni, s')"
    using assms(2) by (auto simp: alloc_ino_def)
  note u = in_use_choice [of s b]
  note e = inode_slot_take_effect [OF assms(1) u t] and l = inode_slot_take_list [OF assms(1) u t]
  let ?p = "free_inode_phy s ?nd"
  have m: "?p \<in> set (free_slot_list s ?nd)" using l by simp
  then have f: "?p \<in> free_slot_set s" using u unfolding free_slot_set_in_use by blast
  have "set (free_slot_list s' ?nd) = set (free_slot_list s ?nd) - {?p}"
    using l slots_invD(1) [OF assms(1) u] by simp
  moreover have "set (free_slot_list s ?nd) \<subseteq> free_slot_set s"
    using u unfolding free_slot_set_in_use by blast
  ultimately have "free_slot_set s' = free_slot_set s - {?p}"
    using slot_change_set [OF e(4) assms(1) u slots_invD(3) [OF assms(1) u m]] m by auto
  with that [OF e(2) f] show ?thesis
    using inode_slot_take_inv [OF assms(1) u t] slot_change_super [OF e(4)] by blast
qed

lemma give_ino_effect:
  fixes now :: u32
  assumes "slots_inv s" and "ino_ok s ino" and "ino \<notin> free_ino_set s"
  defines "p \<equiv> get_rdfs_inode_phy_addr s ino" and "s' \<equiv> inode_slot_give s ino now"
  shows "free_slot_set s' = insert p (free_slot_set s)" "slots_inv s'" "same_super s s'"
proof -
  let ?nd = "s_numa_des s (rdfs_get_phys_numa_id s p)"
  note u = in_use_phys [of s p]
  have "p \<notin> free_slot_set s" using assms(2,3) by (metis free_ino_set_def imageI ino_ok_def p_def)
  then have "p \<notin> set (free_slot_list s ?nd)" using u unfolding free_slot_set_in_use by blast
  then have c: "slot_give_call s ino p ?nd"
    using assms(1,2) by (simp add: slot_give_call_def ino_ok_def p_def)
  note ch = inode_slot_give_effect(1) [OF c, of now, folded s'_def]
  have "set (free_slot_list s ?nd) \<subseteq> free_slot_set s" using u unfolding free_slot_set_in_use by blast
  then show "free_slot_set s' = insert p (free_slot_set s)"
    using slot_change_set [OF ch assms(1) u refl] inode_slot_give_list [OF c, of now]
    by (auto simp: s'_def)
  show "slots_inv s'" unfolding s'_def by (rule inode_slot_give_inv [OF c])
  show "same_super s s'" by (rule slot_change_super [OF ch])
qed

interpretation ino_pool: resource_pool alloc_ino "\<lambda>ino s. inode_slot_give s ino now"
  free_ino_set slots_inv ino_ok for now
proof
  fix s s' :: "'a nvm_scheme" and ino :: u64 and b
  assume inv: "slots_inv s"
  show "ino \<in> free_ino_set s \<Longrightarrow> ino_ok s ino"
    using free_slot_set_ok [OF inv] by (auto simp: free_ino_set_def ino_ok_def)
  { assume a: "alloc_ino b s = Some (ino, s')"
    obtain p where p: "ino = get_rdfs_inodenr s p" "p \<in> free_slot_set s"
      "free_slot_set s' = free_slot_set s - {p}" "slots_inv s'" "same_super s s'"
      using inv a by (rule alloc_ino_effect)
    note eqs = slot_ok_same_super [OF p(5)]
    show "ino \<in> free_ino_set s" using p(1,2) by (simp add: free_ino_set_def)
    show "free_ino_set s' = free_ino_set s - {ino}"
      using p(1-3) free_slot_inj [OF inv] by (auto simp: free_ino_set_def eqs inj_on_def)
    show "slots_inv s'" by (rule p(4))
    show "ino_ok s' = ino_ok s" by (simp add: fun_eq_iff ino_ok_def eqs) }
  { assume a: "ino_ok s ino" "ino \<notin> free_ino_set s"
    note g = give_ino_effect [OF inv a, of now] and eqs = slot_ok_same_super [OF g(3)]
    show "free_ino_set (inode_slot_give s ino now) = insert ino (free_ino_set s)"
      using g(1) a(1) by (simp add: free_ino_set_def eqs ino_ok_def)
    show "slots_inv (inode_slot_give s ino now)" by (rule g(2))
    show "ino_ok (inode_slot_give s ino now) = ino_ok s" by (simp add: fun_eq_iff ino_ok_def eqs) }
qed

section \<open>A concrete free list of slots\<close>

text \<open>The example image with the second and third slot of node 0 free.\<close>

definition example_slots :: nvm where
  "example_slots = example_pages\<lparr>mem :=
     st64 (st64 (st64 (mem example_pages)
       0xffffc90000004000 2) 0xffffc90000004010 0x1800004100) 0xffffc90000004148 0x1800004180\<rparr>"

lemma example_slots_eval [mem_eval]:
  "virt_addr (sbi example_slots) = 0xffffc90000000000"
  "phy_addr (sbi example_slots) = 0x1800000000"
  "s_numa_flag example_slots = 1"
  "s_numa_des example_slots 0 = 0xffffc90000004000"
  "s_numa_des example_slots (Suc 0) = 0xffffc90080000000"
  "ld64 (mem example_slots) 0xffffc90000004000 = 2"
  "ld64 (mem example_slots) 0xffffc90000004010 = 0x1800004100"
  "ld64 (mem example_slots) 0xffffc90000004148 = 0x1800004180"
  "ld64 (mem example_slots) 0xffffc90080000000 = 0"
  by (simp_all add: s_numa_des_def s_numa_flag_def rdfs_get_super_def example_slots_def
      example_pages_def example_nvm_def example_super_def example_sbi_def mem_eval load_zero)

lemma example_slots_lists [mem_eval]:
  "free_slot_list example_slots 0xffffc90000004000 = [0x1800004100, 0x1800004180]"
  "free_slot_list example_slots 0xffffc90080000000 = []"
  by (simp_all add: free_slot_list_def rdfs_va_def mem_eval)

lemma example_slots_inv: "slots_inv example_slots"
  by (simp add: slots_inv_def meta_ok_def node_ids_def slot_ok_def meta_areas_def
      rdfs_get_super_def rdfs_va_def rdfs_pa_def rdfs_get_phys_numa_id_def get_rdfs_inode_def
      get_rdfs_inodenr_def mem_eval consts_eval)

section \<open>Properties of the slot allocator\<close>



text \<open>C37. Creating an inode wipes its neighbour: the struct is 136 bytes long but slots are 128 bytes
  apart, so resetting \<open>i_cold_page_start\<close> and \<open>i_cold_page_num\<close> zeroes the checksum and the mode of the
  slot behind the new inode, whatever file lives there.\<close>

theorem new_inode_clobbers_next_slot:
  assumes "slots_inv s" and "in_use s nd" and "inode_slot_take s nd = Some (ino, ni, s')"
  shows "unat RDFS_INODE_SIZE < sizeof_rdfs_inode \<and> ld32 (mem s') (ni + RDFS_INODE_SIZE) = 0
       \<and> ld32 (mem s') (ni + RDFS_INODE_SIZE + 4) = 0"
proof -
  note e = inode_slot_take_effect [OF assms]
  have ok: "slot_ok s (free_inode_phy s nd)" using e(4) by (simp add: slot_change_def)
  have va: "get_rdfs_inode s (get_rdfs_inodenr s (free_inode_phy s nd)) = ni"
    using ok by (simp add: slot_ok_def e(3))
  have ap: "apart nd 128 ni 136"
    using slot_ok_apart(2) [OF ok assms(2)] by (simp add: e(3) apart_commute)
  have "\<exists>m c. mem s' = st64 (st32 (st32 m (ni + 128) 0) (ni + 132) 0) nd c"
    using assms(3) e(1) unfolding inode_slot_take_def Let_def va by (clarsimp, intro exI) (rule refl)
  then have "ld32 (mem s') (ni + 128) = 0" "ld32 (mem s') (ni + 132) = 0"
    by (auto simp: load_store_disj region_simps apart_sub [OF ap])
  moreover have "ni + 128 + 4 = ni + 132" by (simp add: add.assoc del: add.commute)
  ultimately show ?thesis by (simp add: RDFS_INODE_SIZE_def sizeof_rdfs_inode_def add.commute [of 132])
qed

theorem new_inode_clobbers_next_slot_witness:
  "\<exists>ino ni s'. inode_slot_take example_slots 0xffffc90000004000 = Some (ino, ni, s')
     \<and> ld32 (mem s') (ni + RDFS_INODE_SIZE + 4) = 0"
proof -
  have "inode_slot_take example_slots 0xffffc90000004000 \<noteq> None"
    by (simp add: inode_slot_take_def Let_def mem_eval)
  then obtain ino ni s' where t: "inode_slot_take example_slots 0xffffc90000004000 = Some (ino, ni, s')"
    by (metis not_None_eq prod_cases3)
  have "in_use example_slots 0xffffc90000004000" by (simp add: in_use_def node_ids_def mem_eval)
  from new_inode_clobbers_next_slot [OF example_slots_inv this t] t show ?thesis by blast
qed

end
