(* ===== verification/Page_Table.thy ===== *)
theory Page_Table
  imports Free_Inodes
begin

text \<open>
  The page table of a file, kept in NVM pages (\<open>rdfs_master/pgtable.c\<close>, \<open>rdfs.h\<close> and
  \<open>rdfs_find_data_block\<close> of \<open>inode.c\<close>): a PUD page pointing to PMD pages pointing to PTE pages of 512
  entries each. The operations allocate table pages from the page allocator.

  The lemmas describe a table by its shape, the partial functions from indices to PMD and PTE pages,
  and show how allocation and entry updates change it.
\<close>

section \<open>Entries of a table page\<close>

definition entry_addr :: "'a nvm_scheme \<Rightarrow> u64 \<Rightarrow> nat \<Rightarrow> u64" where
  "entry_addr s p i = rdfs_va s p + of_nat i * 8"

definition entry :: "'a nvm_scheme \<Rightarrow> u64 \<Rightarrow> nat \<Rightarrow> u64" where
  "entry s p i = ld64 (mem s) (entry_addr s p i)"

section \<open>Operations\<close>

definition PGFAILD :: int where [consts_eval]: "PGFAILD = 0x10003"
definition PRESENT :: u64 where [consts_eval]: "PRESENT = 1"

text \<open>\<open>rdfs_pud_alloc_one\<close>, \<open>rdfs_pmd_alloc_one\<close> and \<open>rdfs_pte_alloc_one\<close> are all a zeroed page; the three
  free functions return the page to the allocator.\<close>

definition rdfs_table_alloc_one :: "'a nvm_scheme \<Rightarrow> nat \<Rightarrow> u64 \<times> 'a nvm_scheme" where
  "rdfs_table_alloc_one s cpu = rdfs_get_zeroed_page s cpu"

definition rdfs_table_free :: "'a nvm_scheme \<Rightarrow> u64 \<Rightarrow> 'a nvm_scheme" where
  "rdfs_table_free s table = rdfs_free_block s (rdfs_pa s table)"

definition rdfs_pmd_alloc_slow :: "'a nvm_scheme \<Rightarrow> nat \<Rightarrow> u64 \<Rightarrow> int \<times> 'a nvm_scheme" where
  "rdfs_pmd_alloc_slow s cpu pud =
     (let (new, s1) = rdfs_table_alloc_one s cpu
      in if new = 0 then (- ENOMEM, s1)
         else if ld64 (mem s1) pud AND PRESENT \<noteq> 0 then (0, rdfs_table_free s1 new)
         else (0, rdfs_set_pud s1 pud new))"

definition rdfs_pte_alloc_slow :: "'a nvm_scheme \<Rightarrow> nat \<Rightarrow> u64 \<Rightarrow> int \<times> 'a nvm_scheme" where
  "rdfs_pte_alloc_slow s cpu pmd =
     (let (new, s1) = rdfs_table_alloc_one s cpu
      in if new = 0 then (- ENOMEM, s1)
         else if ld64 (mem s1) pmd AND PRESENT \<noteq> 0 then (0, rdfs_table_free s1 new)
         else (0, rdfs_set_pmd s1 pmd new))"

text \<open>\<open>int nr = offset >> PUD_SHIFT\<close>, then \<open>nr\<close> increments of the pointer.\<close>

definition rdfs_pud_alloc :: "'a nvm_scheme \<Rightarrow> u64 \<Rightarrow> u64 \<Rightarrow> u64" where
  "rdfs_pud_alloc s ino offset =
     rdfs_get_pud s ino + of_nat (nat (signed_take_bit 31 (uint (drop_bit 30 offset)))) * 8"

definition in_dir_area :: "u64 \<Rightarrow> bool" where
  "in_dir_area addr \<longleftrightarrow> RDFS_START \<le> addr \<and> addr + MAX_DIR_SIZE - 1 < RDFS_START + DIR_AREA_SIZE"

definition rdfs_pmd_alloc :: "'a nvm_scheme \<Rightarrow> nat \<Rightarrow> u64 \<Rightarrow> u64 \<Rightarrow> u64 \<times> 'a nvm_scheme" where
  "rdfs_pmd_alloc s cpu pud addr =
     (if in_dir_area addr then (rdfs_get_pmd s pud, s)
      else if ld64 (mem s) pud = 0 then
        (let (err, s1) = rdfs_pmd_alloc_slow s cpu pud
         in if err \<noteq> 0 then (0, s1) else (rdfs_pmd_offset s1 pud addr, s1))
      else (rdfs_pmd_offset s pud addr, s))"

definition rdfs_pte_alloc :: "'a nvm_scheme \<Rightarrow> nat \<Rightarrow> u64 \<Rightarrow> u64 \<Rightarrow> u64 \<times> 'a nvm_scheme" where
  "rdfs_pte_alloc s cpu pmd addr =
     (if ld64 (mem s) pmd = 0 then
        (let (err, s1) = rdfs_pte_alloc_slow s cpu pmd
         in if err \<noteq> 0 then (0, s1) else (rdfs_pte_offset s1 pmd addr, s1))
      else (rdfs_pte_offset s pmd addr, s))"

definition rdfs_init_pg_table :: "'a nvm_scheme \<Rightarrow> nat \<Rightarrow> u64 \<Rightarrow> int \<times> 'a nvm_scheme" where
  "rdfs_init_pg_table s cpu ino =
     (let ni = get_rdfs_inode s ino;
          (pud, s1) = rdfs_table_alloc_one s cpu;
          (pmd, s2) = rdfs_table_alloc_one s1 cpu;
          (pte, s3) = rdfs_table_alloc_one s2 cpu
      in if pud = 0 \<or> pmd = 0 \<or> pte = 0 then (- PGFAILD, s3)
         else
           let s4 = rdfs_set_pmd s3 pmd pte;
               s5 = rdfs_set_pud s4 pud pmd
           in (0, put64 s5 (ni + 72) (rdfs_pa s5 pud)))"

text \<open>The lookup of a file block. The null tests are on virtual addresses.\<close>

definition rdfs_find_data_block :: "'a nvm_scheme \<Rightarrow> u64 \<Rightarrow> u64 \<Rightarrow> u64" where
  "rdfs_find_data_block s ino file_blocknr =
     (let first_num = drop_bit 9 (drop_bit 9 file_blocknr) AND 511;
          second_num = drop_bit 9 file_blocknr AND 511;
          third_num = file_blocknr AND 511;
          ni = get_rdfs_inode s ino;
          first_lev = rdfs_va s (ld64 (mem s) (ni + 72))
      in if first_lev = 0 then 0
         else
           let second_lev = rdfs_va s (ld64 (mem s) (first_lev + first_num * 8) AND PAGE_MASK)
           in if second_lev = 0 then 0
              else
                let third_lev = rdfs_va s (ld64 (mem s) (second_lev + second_num * 8) AND PAGE_MASK)
                in if third_lev = 0 then 0 else ld64 (mem s) (third_lev + third_num * 8))"

section \<open>Updating entries\<close>

lemma entry_addr_sub: "i < 512 \<Longrightarrow> unat (of_nat i * 8 :: u64) = i * 8"
  by (simp add: unat_word_ariths unat_of_nat)

lemma entry_region:
  assumes "i < 512"
  shows "region (entry_addr s p i) 8 \<subseteq> region (rdfs_va s p) 4096"
  unfolding entry_addr_def using assms by (intro region_sub) (simp add: entry_addr_sub)

lemma entry_same_page:
  assumes "i < 512" and "j < 512" and "i \<noteq> j"
  shows "region (entry_addr s p i) 8 \<inter> region (entry_addr s p j) 8 = {}"
  unfolding entry_addr_def
  using assms entry_addr_sub [OF assms(1)] entry_addr_sub [OF assms(2)] by (intro field_disj) auto

lemma entry_put:
  assumes "i < 512" and "j < 512" and "page_ok s p" and "page_ok s q"
  shows "entry (put64 s (entry_addr s p i) v) q j = (if p = q \<and> i = j then v else entry s q j)"
proof (cases "p = q")
  case True
  then show ?thesis
    using entry_same_page [OF assms(1,2), of s p]
    by (auto simp: entry_def entry_addr_def load_store_disj)
next
  case False
  have "region (entry_addr s p i) 8 \<inter> region (entry_addr s q j) 8 = {}"
    using page_ok_pages_disjoint [OF assms(3,4) False] entry_region [OF assms(1), of s p]
      entry_region [OF assms(2), of s q] by blast
  then show ?thesis using False by (simp add: entry_def entry_addr_def load_store_disj)
qed

lemma entry_page_write:
  assumes "page_write s p s'" and "page_ok s q" and "q \<noteq> p" and "i < 512"
  shows "entry s' q i = entry s q i"
proof -
  have "region (rdfs_va s q) 4096 \<inter> region (rdfs_va s p) 4096 = {}"
    using assms by (intro page_ok_pages_disjoint) (auto simp: page_write_def)
  then have "region (entry_addr s q i) 8 \<inter> region (rdfs_va s p) 4096 = {}"
    using entry_region [OF assms(4), of s q] by blast
  then have "ld64 (mem s') (entry_addr s q i) = ld64 (mem s) (entry_addr s q i)"
    by (intro page_write_load [OF assms(1)]) simp_all
  moreover have "entry_addr s' q i = entry_addr s q i"
    using same_super_eqs(1) [OF page_write_super [OF assms(1)]] by (simp add: entry_addr_def)
  ultimately show ?thesis by (simp add: entry_def)
qed

lemma put_entry_page_write:
  assumes "pages_inv s" and "page_ok s p" and "p \<notin> free_page_set s" and "i < 512"
  shows "page_write s p (put64 s (entry_addr s p i) v)"
  using assms entry_region [OF assms(4), of s p]
  by (auto simp: page_write_def intro!: store_outside)

section \<open>The tree of table pages\<close>

text \<open>A table is described by the pages at each path of indices: the PUD page at \<open>[]\<close>, the PMD pages at \<open>[i]\<close>
  and the PTE pages at \<open>[i, j]\<close>. An entry above the last level is 0 or the link to the page below it.\<close>

type_synonym pg_tree = "nat list \<rightharpoonup> u64"

definition link_of :: "u64 option \<Rightarrow> u64" where
  "link_of q = (case q of None \<Rightarrow> 0 | Some p \<Rightarrow> table_of_phys p)"

definition node_ok :: "'a nvm_scheme \<Rightarrow> pg_tree \<Rightarrow> nat list \<Rightarrow> u64 \<Rightarrow> bool" where
  "node_ok s t path p \<longleftrightarrow> length path \<le> 2 \<and> (\<forall>i \<in> set path. i < 512) \<and> page_ok s p \<and> p \<notin> free_page_set s
     \<and> (length path < 2 \<longrightarrow> (\<forall>i < 512. entry s p i = link_of (t (path @ [i]))))"

definition tree_ok :: "'a nvm_scheme \<Rightarrow> pg_tree \<Rightarrow> bool" where
  "tree_ok s t \<longleftrightarrow> t [] \<noteq> None \<and> inj_on t (dom t) \<and> (\<forall>path i. t (path @ [i]) \<noteq> None \<longrightarrow> t path \<noteq> None)
     \<and> (\<forall>path p. t path = Some p \<longrightarrow> node_ok s t path p)"

lemma tree_okD:
  assumes "tree_ok s t" and "t path = Some p"
  shows "length path \<le> 2" "page_ok s p" "p \<notin> free_page_set s"
    "length path < 2 \<Longrightarrow> i < 512 \<Longrightarrow> entry s p i = link_of (t (path @ [i]))"
    "\<forall>k \<in> set path. k < 512"
  using assms by (auto simp: tree_ok_def node_ok_def)

lemma tree_inj:
  assumes "tree_ok s t" and "t path = Some p" and "t path' = Some p"
  shows "path = path'"
  using assms unfolding tree_ok_def inj_on_def by (metis domI)

lemma tree_parent: "tree_ok s t \<Longrightarrow> t (path @ [i]) = Some q \<Longrightarrow> \<exists>p. t path = Some p"
  unfolding tree_ok_def by (metis option.exhaust option.simps(3))

lemma entry_agree:
  assumes "same_super s s'" and "\<forall>x \<in> region (rdfs_va s p) 4096. mem s' x = mem s x" and "i < 512"
  shows "entry s' p i = entry s p i"
proof -
  have "ld64 (mem s') (entry_addr s p i) = ld64 (mem s) (entry_addr s p i)"
    using assms entry_region [OF assms(3), of s p] by (intro load_agree) auto
  then show ?thesis using same_super_eqs(1) [OF assms(1)] by (simp add: entry_def entry_addr_def)
qed

text \<open>A step that leaves the table pages alone and does not free them keeps the table.\<close>

lemma tree_frame:
  assumes "tree_ok s t" and "same_super s s'" and "free_page_set s' \<inter> ran t = {}"
    and "\<forall>p \<in> ran t. \<forall>x \<in> region (rdfs_va s p) 4096. mem s' x = mem s x"
  shows "tree_ok s' t"
proof -
  have "node_ok s' t path p" if "t path = Some p" for path p
  proof -
    have p: "p \<in> ran t" using that by (rule ranI)
    have "page_ok s' p"
      using tree_okD(2) [OF assms(1) that] same_super_eqs [OF assms(2)] by (simp add: page_ok_def)
    then show ?thesis
      using assms p that entry_agree [OF assms(2) bspec [OF assms(4) p]]
      by (auto simp: tree_ok_def node_ok_def)
  qed
  then show ?thesis using assms(1) by (simp add: tree_ok_def)
qed

lemma page_ok_same_super: "same_super s s' \<Longrightarrow> page_ok s' p \<longleftrightarrow> page_ok s p"
  by (frule same_super_eqs) (simp_all add: page_ok_def same_super_eqs)

lemma tree_page_write:
  assumes "tree_ok s t" and "page_write s p s'" and "p \<notin> ran t"
  shows "tree_ok s' t"
proof (rule tree_frame [OF assms(1) page_write_super [OF assms(2)]])
  show "free_page_set s' \<inter> ran t = {}"
    using page_write_free_set [OF assms(2)] tree_okD(3) [OF assms(1)] by (auto simp: ran_def)
  show "\<forall>q \<in> ran t. \<forall>x \<in> region (rdfs_va s q) 4096. mem s' x = mem s x"
  proof (intro ballI)
    fix q x
    assume q: "q \<in> ran t" and x: "x \<in> region (rdfs_va s q) 4096"
    have "region (rdfs_va s q) 4096 \<inter> region (rdfs_va s p) 4096 = {}"
      using q assms tree_okD(2) [OF assms(1)]
      by (intro page_ok_pages_disjoint) (auto simp: page_write_def ran_def)
    then show "mem s' x = mem s x" using x assms(2) by (auto simp: page_write_def)
  qed
qed

text \<open>A new zeroed page keeps the table, and belongs to none of its paths.\<close>

lemma tree_zeroed_page:
  assumes "tree_ok s t" and "zeroed_page_call s cpu z s'"
  shows "tree_ok s' t" "z \<notin> ran t"
proof -
  have zf: "z \<in> free_page_set s" using assms(2) by (simp add: zeroed_page_call_def)
  show zt: "z \<notin> ran t" using zf tree_okD(3) [OF assms(1)] by (auto simp: ran_def)
  have inv: "pages_inv s" using assms(2) by (simp add: zeroed_page_call_def)
  show "tree_ok s' t"
  proof (rule tree_frame [OF assms(1)])
    show "same_super s s'" using assms(2) by (simp add: zeroed_page_call_def)
    show "free_page_set s' \<inter> ran t = {}"
      using assms(2) tree_okD(3) [OF assms(1)] by (auto simp: zeroed_page_call_def ran_def)
    show "\<forall>q \<in> ran t. \<forall>x \<in> region (rdfs_va s q) 4096. mem s' x = mem s x"
    proof (intro ballI)
      fix q x
      assume q: "q \<in> ran t" and x: "x \<in> region (rdfs_va s q) 4096"
      have ok: "page_ok s q" using q tree_okD(2) [OF assms(1)] by (auto simp: ran_def)
      have "q \<noteq> z" using q zt by auto
      then have "x \<notin> region (rdfs_va s z) 4096"
        using page_ok_pages_disjoint [OF ok, of z] x assms(2) by (auto simp: zeroed_page_call_def)
      moreover have "x \<notin> region (get_cpu_numa s cpu) 128"
        using apart_disjoint [OF page_ok_apart(2) [OF ok in_use_cpu]] x by blast
      ultimately show "mem s' x = mem s x" using assms(2) by (simp add: zeroed_page_call_def)
    qed
  qed
qed

lemma inj_on_map_upd_fresh: "inj_on t (dom t) \<Longrightarrow> z \<notin> ran t \<Longrightarrow> inj_on (t(k \<mapsto> z)) (dom (t(k \<mapsto> z)))"
  unfolding inj_on_def ran_def by (auto simp: dom_def)

text \<open>Linking an empty page below a table page adds it at the new path.\<close>

lemma tree_attach:
  assumes "tree_ok s t" and "pages_inv s" and "t path = Some p" and "length path < 2" and "i < 512"
    and "t (path @ [i]) = None" and "z \<notin> ran t" and "page_ok s z" and "z \<notin> free_page_set s"
    and "\<forall>j < 512. entry s z j = 0"
  shows "tree_ok (put64 s (entry_addr s p i) (table_of_phys z)) (t(path @ [i] \<mapsto> z))"
    (is "tree_ok ?s ?t")
proof -
  note p = tree_okD [OF assms(1,3)]
  have w: "page_write s p ?s" using put_entry_page_write [OF assms(2) p(2,3) assms(5)] .
  note free = page_write_free_set [OF w]
  note ok = page_ok_same_super [OF page_write_super [OF w]]
  have below: "t (path @ [i, j]) = None" for j
    using tree_parent [OF assms(1), of "path @ [i]" j] assms(6) by (cases "t (path @ [i, j])") simp_all
  have "node_ok ?s ?t path' q" if q: "?t path' = Some q" for path' q
  proof (cases "path' = path @ [i]")
    case True
    then have qz: "q = z" using q by simp
    have "z \<noteq> p" using assms(3,7) by (auto simp: ran_def)
    then have "entry ?s z j = link_of (?t ((path @ [i]) @ [j]))" if "j < 512" for j
      using entry_put [OF assms(5) that p(2) assms(8)] assms(10) that below [of j] by (simp add: link_of_def)
    moreover have "\<forall>k \<in> set (path @ [i]). k < 512" using p(5) assms(5) by simp
    moreover have "length (path @ [i]) \<le> 2" using assms(4) by simp
    ultimately show ?thesis
      unfolding node_ok_def True qz ok free using assms(8,9) by blast
  next
    case False
    then have tq: "t path' = Some q" using q by simp
    have "entry ?s q j = link_of (?t (path' @ [j]))" if "length path' < 2" "j < 512" for j
    proof -
      have "p = q \<longleftrightarrow> path' = path" using tree_inj [OF assms(1) tq, of path] tq assms(3) by auto
      then show ?thesis
        unfolding entry_put [OF assms(5) that(2) p(2) tree_okD(2) [OF assms(1) tq]]
          tree_okD(4) [OF assms(1) tq that] by (simp add: link_of_def)
    qed
    moreover have "node_ok s t path' q" using assms(1) tq by (simp add: tree_ok_def)
    ultimately show ?thesis unfolding node_ok_def ok free by blast
  qed
  moreover have "inj_on ?t (dom ?t)"
    using assms(1,7) by (intro inj_on_map_upd_fresh) (simp_all add: tree_ok_def)
  moreover have "\<forall>path' j. ?t (path' @ [j]) \<noteq> None \<longrightarrow> ?t path' \<noteq> None"
    using assms(3) tree_parent [OF assms(1)] by (auto split: if_splits)
  moreover have "?t [] \<noteq> None" using assms(1) by (simp add: tree_ok_def)
  ultimately show ?thesis unfolding tree_ok_def by blast
qed

text \<open>Writing an entry of the last level keeps the tree.\<close>

lemma tree_leaf_put:
  assumes "tree_ok s t" and "pages_inv s" and "t path = Some p" and "length path = 2" and "k < 512"
  shows "tree_ok (put64 s (entry_addr s p k) v) t" (is "tree_ok ?s t")
proof -
  note p = tree_okD [OF assms(1,3)]
  have w: "page_write s p ?s" using put_entry_page_write [OF assms(2) p(2,3) assms(5)] .
  have "node_ok ?s t path' q" if tq: "t path' = Some q" for path' q
  proof -
    have "entry ?s q j = entry s q j" if "length path' < 2" "j < 512" for j
      using entry_put [OF assms(5) that(2) p(2) tree_okD(2) [OF assms(1) tq]]
        tree_inj [OF assms(1,3)] tq that(1) assms(4) by auto
    then show ?thesis
      using assms(1) tq page_write_free_set [OF w] page_ok_same_super [OF page_write_super [OF w]]
      by (simp add: tree_ok_def node_ok_def)
  qed
  then show ?thesis using assms(1) by (simp add: tree_ok_def)
qed

section \<open>Lookup\<close>

text \<open>The entry of a block in the table, where the table has the PTE page for it.\<close>

definition tree_lookup :: "'a nvm_scheme \<Rightarrow> pg_tree \<Rightarrow> nat \<Rightarrow> u64 option" where
  "tree_lookup s t b = map_option (\<lambda>q. entry s q (b mod 512)) (t [b div 262144 mod 512, b div 512 mod 512])"

definition i_pg_addr :: "'a nvm_scheme \<Rightarrow> u64 \<Rightarrow> u64" where
  "i_pg_addr s ino = ld64 (mem s) (get_rdfs_inode s ino + 72)"

lemma unat_and_511: "unat (w AND 511 :: u64) = unat w mod 512"
proof -
  have "w AND 511 = take_bit 9 w" by (simp only: take_bit_eq_mask mask_eq_exp_minus_1) simp
  then have "unat (w AND 511) = take_bit 9 (unat w)" by (simp only: unsigned_take_bit_eq)
  then show ?thesis by (simp add: take_bit_eq_mod)
qed

lemma unat_shift: "unat (drop_bit n w :: u64) = unat w div 2 ^ n"
proof -
  have "unat (drop_bit n w) = drop_bit n (unat w)"
    by (simp only: unsigned_drop_bit_eq take_bit_nat_eq_self [OF unsigned_less])
  then show ?thesis by (simp only: drop_bit_eq_div)
qed

lemma entry_word:
  "ld64 (mem s) (rdfs_va s p + (w AND 511) * 8) = entry s p (unat w mod 512)"
  unfolding entry_def entry_addr_def unat_and_511 [symmetric] of_nat_unat ucast_id ..

lemma find_data_block_tree:
  assumes "tree_ok s t" and "t [] = Some (i_pg_addr s ino)" and "tree_lookup s t (unat b) = Some v"
  shows "rdfs_find_data_block s ino b = v"
proof -
  define i j where "i = unat b div 262144 mod 512" and "j = unat b div 512 mod 512"
  have ij: "i < 512" "j < 512" by (simp_all add: i_def j_def)
  obtain q where q: "t [i, j] = Some q" and v: "v = entry s q (unat b mod 512)"
    using assms(3) unfolding tree_lookup_def i_def [symmetric] j_def [symmetric] map_option_eq_Some by blast
  have "t ([i] @ [j]) = Some q" using q by simp
  then obtain m where m: "t [i] = Some m" using tree_parent [OF assms(1)] by blast
  note P = tree_okD [OF assms(1,2)] and M = tree_okD [OF assms(1) m] and Q = tree_okD [OF assms(1) q]
  have e1: "entry s (i_pg_addr s ino) i = table_of_phys m" using P(4) [of i] ij m by (simp add: link_of_def)
  have e2: "entry s m j = table_of_phys q" using M(4) [of j] ij q by (simp add: link_of_def)
  have i': "unat (drop_bit 9 (drop_bit 9 b)) mod 512 = i"
    by (simp only: unat_shift i_def div_mult2_eq [symmetric]) simp
  have j': "unat (drop_bit 9 b) mod 512 = j" by (simp only: unat_shift j_def) simp
  have 3: "phys_page m" "phys_page q" "rdfs_va s (i_pg_addr s ino) \<noteq> 0" "rdfs_va s m \<noteq> 0" "rdfs_va s q \<noteq> 0"
    using P(2) M(2) Q(2) by (simp_all add: page_ok_def)
  show ?thesis
    unfolding rdfs_find_data_block_def Let_def i_pg_addr_def [symmetric] entry_word i' j' e1 e2 v
      table_of_phys_mask [OF 3(1)] table_of_phys_mask [OF 3(2)]
    using 3(3-) by simp
qed

section \<open>The table of a file\<close>

definition pg_word :: "'a nvm_scheme \<Rightarrow> u64 \<Rightarrow> u64 set" where
  "pg_word s ino = region (get_rdfs_inode s ino + 72) 8"

text \<open>A file's table: well formed, rooted in the inode slot, which lies outside the allocator and the table.\<close>

definition file_inv :: "'a nvm_scheme \<Rightarrow> u64 \<Rightarrow> pg_tree \<Rightarrow> bool" where
  "file_inv s ino t \<longleftrightarrow> pages_inv s \<and> tree_ok s t \<and> t [] = Some (i_pg_addr s ino) \<and> outside_pool s (pg_word s ino) \<and>
     (\<forall>p \<in> ran t. region (rdfs_va s p) 4096 \<inter> pg_word s ino = {})"

text \<open>A write outside the allocator, the table and the word that holds its root keeps the table and what it maps.\<close>

lemma file_frame:
  assumes "file_inv s ino t" and w: "foreign_write s R s'" and "pg_word s ino \<inter> R = {}"
    and "\<forall>p \<in> ran t. region (rdfs_va s p) 4096 \<inter> R = {}"
  shows "file_inv s' ino t" "tree_lookup s' t b = tree_lookup s t b" "i_pg_addr s' ino = i_pg_addr s ino"
proof -
  note inv = assms(1) [unfolded file_inv_def]
  note super = foreign_write_super [OF w] and free = foreign_write_free_set [OF w]
  note eqs = same_super_eqs(1) [OF super] same_super_eqs(11) [OF super]
  have keep: "mem s' x = mem s x" if "p \<in> ran t" "x \<in> region (rdfs_va s p) 4096" for p x
    using that assms(4) w unfolding foreign_write_def by blast
  have t: "tree_ok s' t"
  proof (rule tree_frame [OF _ super])
    show "free_page_set s' \<inter> ran t = {}" using inv tree_okD(3) unfolding free ran_def by blast
  qed (use inv keep in auto)
  show root: "i_pg_addr s' ino = i_pg_addr s ino"
    using foreign_write_load [OF w, of "get_rdfs_inode s ino + 72" 8] assms(3) by (simp add: i_pg_addr_def eqs pg_word_def)
  show "tree_lookup s' t b = tree_lookup s t b"
    unfolding tree_lookup_def
  proof (rule map_option_cong [OF refl])
    fix q assume "t [b div 262144 mod 512, b div 512 mod 512] = Some q"
    then have "q \<in> ran t" by (rule ranI)
    then show "entry s' q (b mod 512) = entry s q (b mod 512)" using keep by (intro entry_agree [OF super]) auto
  qed
  have "outside_pool s' (pg_word s' ino)" using inv outside_pool_same [OF super] free by (simp add: pg_word_def eqs)
  then show "file_inv s' ino t"
    using inv t root foreign_write_inv [OF w] by (auto simp: file_inv_def pg_word_def eqs)
qed

section \<open>The initial table\<close>

text \<open>A page fresh from the allocator is a table with no links.\<close>

lemma blank_tree:
  assumes "zeroed_page_call s cpu z s'"
  shows "tree_ok s' [[] \<mapsto> z]"
proof -
  have z: "page_ok s z" "z \<notin> free_page_set s'" "same_super s s'" and zero: "\<forall>x \<in> region (rdfs_va s z) 4096. mem s' x = 0"
    using assms by (auto simp: zeroed_page_call_def)
  have va: "rdfs_va s' z = rdfs_va s z" using same_super_eqs(1) [OF z(3)] by simp
  have "entry s' z i = 0" if "i < 512" for i
    unfolding entry_def entry_addr_def va
    using zero region_sub [of "of_nat i * 8" 8 4096 "rdfs_va s z"] that
    by (intro load_zero) (auto simp: entry_addr_sub)
  then show ?thesis using z page_ok_same_super [OF z(3)] by (simp add: tree_ok_def node_ok_def link_of_def)
qed

lemma blank_entries: "tree_ok s [[] \<mapsto> z] \<Longrightarrow> \<forall>j < 512. entry s z j = 0"
  by (auto simp: tree_ok_def node_ok_def link_of_def split: if_splits)

lemma blank_page: "tree_ok s [[] \<mapsto> z] \<Longrightarrow> page_ok s z" "tree_ok s [[] \<mapsto> z] \<Longrightarrow> z \<notin> free_page_set s"
  by (auto simp: tree_ok_def node_ok_def)

text \<open>Three blank pages linked into a table with one PMD page and one PTE page.\<close>

definition chain_tree :: "u64 \<Rightarrow> u64 \<Rightarrow> u64 \<Rightarrow> pg_tree" where
  "chain_tree pud pmd pte = [[] \<mapsto> pud, [0] \<mapsto> pmd, [0, 0] \<mapsto> pte]"

lemma link_chain:
  assumes "pages_inv s" and "tree_ok s [[] \<mapsto> pud]" and "tree_ok s [[] \<mapsto> pmd]" and "tree_ok s [[] \<mapsto> pte]"
    and "pud \<noteq> pmd" and "pud \<noteq> pte" and "pmd \<noteq> pte"
  defines "s1 \<equiv> put64 s (entry_addr s pud 0) (table_of_phys pmd)"
  defines "s2 \<equiv> put64 s1 (entry_addr s1 pmd 0) (table_of_phys pte)"
  shows "tree_ok s2 (chain_tree pud pmd pte)" and "page_write s pud s1" and "page_write s1 pmd s2"
    and "\<forall>k < 512. entry s2 pte k = 0"
proof -
  show w: "page_write s pud s1"
    unfolding s1_def by (rule put_entry_page_write [OF assms(1) blank_page [OF assms(2)]]) simp
  have t1: "tree_ok s1 [[] \<mapsto> pud, [0] \<mapsto> pmd]"
    using tree_attach [OF assms(2,1), of "[]" pud 0 pmd] blank_page [OF assms(3)] blank_entries [OF assms(3)] assms(5)
    by (simp add: s1_def)
  have b: "tree_ok s1 [[] \<mapsto> pte]" using tree_page_write [OF assms(4) w] assms(6) by simp
  have inv: "pages_inv s1" by (rule page_write_inv [OF w])
  show w2: "page_write s1 pmd s2"
    unfolding s2_def using tree_okD(2,3) [OF t1, of "[0]" pmd] by (intro put_entry_page_write [OF inv]) simp_all
  show "tree_ok s2 (chain_tree pud pmd pte)"
    using tree_attach [OF t1 inv, of "[0]" pmd 0 pte] blank_page [OF b] blank_entries [OF b] assms(6,7)
    by (simp add: s2_def chain_tree_def)
  show "\<forall>k < 512. entry s2 pte k = 0"
    using blank_entries [OF tree_page_write [OF b w2]] assms(7) by simp
qed

text \<open>Storing the address of the table in the inode slot does not disturb it.\<close>

lemma put_pg_addr:
  fixes v :: u64
  assumes "tree_ok s t" and "pages_inv s" and "outside_pool s (region (get_rdfs_inode s ino + 72) 8)"
    and "\<forall>p \<in> ran t. region (rdfs_va s p) 4096 \<inter> region (get_rdfs_inode s ino + 72) 8 = {}"
  defines "s' \<equiv> put64 s (get_rdfs_inode s ino + 72) v"
  shows "tree_ok s' t" "pages_inv s'" "free_page_set s' = free_page_set s" "i_pg_addr s' ino = v" "same_super s s'"
proof -
  have w: "foreign_write s (region (get_rdfs_inode s ino + 72) 8) s'"
    using assms(2,3) by (simp add: foreign_write_def s'_def store_outside)
  show ss: "same_super s s'" by (rule foreign_write_super [OF w])
  show f: "free_page_set s' = free_page_set s" by (rule foreign_write_free_set [OF w])
  show "pages_inv s'" by (rule foreign_write_inv [OF w])
  show "i_pg_addr s' ino = v" by (simp add: i_pg_addr_def same_super_eqs(11) [OF ss]) (simp add: s'_def)
  show "tree_ok s' t"
  proof (rule tree_frame [OF assms(1) ss])
    show "free_page_set s' \<inter> ran t = {}" using f tree_okD(3) [OF assms(1)] by (auto simp: ran_def)
    show "\<forall>p \<in> ran t. \<forall>x \<in> region (rdfs_va s p) 4096. mem s' x = mem s x"
    proof (intro ballI)
      fix p x
      assume "p \<in> ran t" and "x \<in> region (rdfs_va s p) 4096"
      then have "x \<notin> region (get_rdfs_inode s ino + 72) 8" using assms(4) by auto
      then show "mem s' x = mem s x" by (simp add: s'_def store_outside)
    qed
  qed
qed

lemma chain_lookup:
  assumes "\<forall>k < 512. entry s pte k = 0" and "b < 512"
  shows "tree_lookup s (chain_tree pud pmd pte) b = Some 0"
  using assms by (simp add: tree_lookup_def chain_tree_def)

lemma three_zeroed_pages:
  assumes "zeroed_page_call s cpu pud s1" and "zeroed_page_call s1 cpu pmd s2" and "zeroed_page_call s2 cpu pte s3"
  shows "tree_ok s3 [[] \<mapsto> pud]" "tree_ok s3 [[] \<mapsto> pmd]" "tree_ok s3 [[] \<mapsto> pte]"
    "pud \<noteq> pmd" "pud \<noteq> pte" "pmd \<noteq> pte" "{pud, pmd, pte} \<subseteq> free_page_set s"
    "free_page_set s3 = free_page_set s - {pud, pmd, pte}" "same_super s s3" "pages_inv s3"
    "3 \<le> length (free_page_list s (get_cpu_numa s cpu))"
proof -
  note a = assms [unfolded zeroed_page_call_def]
  show "tree_ok s3 [[] \<mapsto> pud]"
    by (rule tree_zeroed_page [OF tree_zeroed_page(1) [OF blank_tree [OF assms(1)] assms(2)] assms(3)])
  show "tree_ok s3 [[] \<mapsto> pmd]" by (rule tree_zeroed_page [OF blank_tree [OF assms(2)] assms(3)])
  show "tree_ok s3 [[] \<mapsto> pte]" by (rule blank_tree [OF assms(3)])
  show "pud \<noteq> pmd" "pud \<noteq> pte" "pmd \<noteq> pte" "{pud, pmd, pte} \<subseteq> free_page_set s"
    "free_page_set s3 = free_page_set s - {pud, pmd, pte}" "pages_inv s3" using a by auto
  show "same_super s s3" using a same_super_trans by metis
  have "get_cpu_numa s1 = get_cpu_numa s" "get_cpu_numa s2 = get_cpu_numa s"
    using a same_super_eqs(9) by metis+
  then show "3 \<le> length (free_page_list s (get_cpu_numa s cpu))" using a by simp
qed

lemma init_pg_table_success:
  assumes "pages_inv s" and "outside_pool s (region (get_rdfs_inode s ino + 72) 8)"
    and "zeroed_page_call s cpu pud s1" and "zeroed_page_call s1 cpu pmd s2" and "zeroed_page_call s2 cpu pte s3"
  defines "s4 \<equiv> put64 s3 (rdfs_va s pmd) (table_of_phys pte)"
  defines "s5 \<equiv> put64 s4 (rdfs_va s pud) (table_of_phys pmd)"
  defines "s6 \<equiv> put64 s5 (get_rdfs_inode s ino + 72) pud"
  shows "tree_ok s6 (chain_tree pud pmd pte)" "pages_inv s6" "free_page_set s6 = free_page_set s - {pud, pmd, pte}"
    "i_pg_addr s6 ino = pud" "b < 512 \<Longrightarrow> tree_lookup s6 (chain_tree pud pmd pte) b = Some 0" "same_super s s6"
proof -
  note z = three_zeroed_pages [OF assms(3-5)]
  note va = same_super_eqs(1) [OF z(9)] and gi = same_super_eqs(11) [OF z(9)]
  define u1 where "u1 = put64 s3 (entry_addr s3 pud 0) (table_of_phys pmd)"
  define u2 where "u2 = put64 u1 (entry_addr u1 pmd 0) (table_of_phys pte)"
  note c = link_chain [OF z(10,1,2,3,4,5,6), folded u1_def, folded u2_def]
  have "region (rdfs_va s3 pud) 4096 \<inter> region (rdfs_va s3 pmd) 4096 = {}"
    using page_ok_pages_disjoint blank_page(1) [OF z(1)] blank_page(1) [OF z(2)] z(4) by blast
  then have d: "region (rdfs_va s pud) 8 \<inter> region (rdfs_va s pmd) 8 = {}"
    using region_disj_mono0 [of "rdfs_va s pud" 4096 "rdfs_va s pmd" 4096 8 8] by (simp add: va)
  have u: "u2 = s5"
    unfolding u2_def u1_def s5_def s4_def by (simp add: entry_addr_def va store_commute [OF d])
  have ss: "same_super s3 u2" using same_super_trans page_write_super c(2,3) by blast
  have free: "free_page_set u2 = free_page_set s3" using page_write_free_set c(2,3) by blast
  have ss': "same_super s u2" by (rule same_super_trans [OF z(9) ss])
  have "outside_pool u2 (region (get_rdfs_inode s ino + 72) 8)"
    using outside_pool_same [OF ss'] assms(2) free z(8) by auto
  moreover have "region (rdfs_va s p) 4096 \<inter> region (get_rdfs_inode s ino + 72) 8 = {}"
    if "p \<in> ran (chain_tree pud pmd pte)" for p
  proof -
    have "p \<in> free_page_set s" using that z(7) by (auto simp: chain_tree_def ran_def split: if_splits)
    then show ?thesis using assms(2) unfolding outside_pool_def by blast
  qed
  ultimately have fin: "tree_ok s6 (chain_tree pud pmd pte)" "pages_inv s6" "free_page_set s6 = free_page_set u2"
      "i_pg_addr s6 ino = pud" "same_super u2 s6"
    using put_pg_addr [OF c(1) page_write_inv [OF c(3)], of ino pud] same_super_eqs(1,11) [OF ss'] u
    by (simp_all add: s6_def)
  show "tree_ok s6 (chain_tree pud pmd pte)" "pages_inv s6" "i_pg_addr s6 ino = pud"
    "free_page_set s6 = free_page_set s - {pud, pmd, pte}" using fin free z(8) by simp_all
  show "same_super s s6" by (rule same_super_trans [OF ss' fin(5)])
  have pte: "pte \<in> free_page_set s" using z(7) by simp
  have "entry s6 pte k = 0" if "k < 512" for k
  proof -
    have "mem s6 x = mem u2 x" if "x \<in> region (rdfs_va s pte) 4096" for x
      using assms(2) pte that u unfolding outside_pool_def s6_def by (auto intro!: store_outside)
    then show ?thesis
      using entry_agree [OF fin(5) _ that] c(4) that same_super_eqs(1) [OF ss'] by simp
  qed
  then show "tree_lookup s6 (chain_tree pud pmd pte) b = Some 0" if "b < 512"
    using chain_lookup that by blast
qed

lemma three_zeroed_fail:
  assumes "pages_inv s" and "rdfs_get_zeroed_page s cpu = (v1, s1)" and "rdfs_get_zeroed_page s1 cpu = (v2, s2)"
    and "rdfs_get_zeroed_page s2 cpu = (v3, s3)" and "v1 = 0 \<or> v2 = 0 \<or> v3 = 0"
  shows "length (free_page_list s (get_cpu_numa s cpu)) < 3"
proof (cases "v1 = 0")
  case True
  then show ?thesis using zeroed_page_cases [OF assms(1,2)] by auto
next
  case v1: False
  then obtain p where p: "zeroed_page_call s cpu p s1" using zeroed_page_cases [OF assms(1,2)] by blast
  then have i1: "pages_inv s1" and n1: "get_cpu_numa s1 = get_cpu_numa s"
    by (simp_all add: zeroed_page_call_def same_super_eqs(9))
  have l1: "free_page_list s (get_cpu_numa s cpu) = p # free_page_list s1 (get_cpu_numa s1 cpu)"
    using p n1 by (simp add: zeroed_page_call_def)
  show ?thesis
  proof (cases "v2 = 0")
    case True
    then show ?thesis using zeroed_page_cases [OF i1 assms(3)] l1 by auto
  next
    case False
    then obtain q where q: "zeroed_page_call s1 cpu q s2" using zeroed_page_cases [OF i1 assms(3)] by blast
    then have i2: "pages_inv s2" and n2: "get_cpu_numa s2 = get_cpu_numa s1"
      by (simp_all add: zeroed_page_call_def same_super_eqs(9))
    have "free_page_list s1 (get_cpu_numa s1 cpu) = q # free_page_list s2 (get_cpu_numa s2 cpu)"
      using q n2 by (simp add: zeroed_page_call_def)
    moreover have "free_page_list s2 (get_cpu_numa s2 cpu) = []"
      using zeroed_page_cases [OF i2 assms(4)] v1 False assms(5) by auto
    ultimately show ?thesis using l1 by simp
  qed
qed

lemma three_zeroed_ok:
  assumes "pages_inv s" and "rdfs_get_zeroed_page s cpu = (v1, s1)" and "rdfs_get_zeroed_page s1 cpu = (v2, s2)"
    and "rdfs_get_zeroed_page s2 cpu = (v3, s3)" and "\<not> (v1 = 0 \<or> v2 = 0 \<or> v3 = 0)"
  shows "\<exists>pud pmd pte. zeroed_page_call s cpu pud s1 \<and> v1 = rdfs_va s pud \<and>
     zeroed_page_call s1 cpu pmd s2 \<and> v2 = rdfs_va s1 pmd \<and> zeroed_page_call s2 cpu pte s3 \<and> v3 = rdfs_va s2 pte"
proof -
  obtain pud where 1: "zeroed_page_call s cpu pud s1" "v1 = rdfs_va s pud"
    using zeroed_page_cases [OF assms(1,2)] assms(5) by blast
  then have "pages_inv s1" by (simp add: zeroed_page_call_def)
  then obtain pmd where 2: "zeroed_page_call s1 cpu pmd s2" "v2 = rdfs_va s1 pmd"
    using zeroed_page_cases [OF _ assms(3)] assms(5) by blast
  then have "pages_inv s2" by (simp add: zeroed_page_call_def)
  then obtain pte where "zeroed_page_call s2 cpu pte s3" "v3 = rdfs_va s2 pte"
    using zeroed_page_cases [OF _ assms(4)] assms(5) by blast
  then show ?thesis using 1 2 by blast
qed

lemma init_pg_table_effect:
  assumes "pages_inv s" and "outside_pool s (pg_word s ino)"
  shows "case rdfs_init_pg_table s cpu ino of (err, s') \<Rightarrow>
     if 3 \<le> length (free_page_list s (get_cpu_numa s cpu)) then
       err = 0 \<and> pages_inv s' \<and> same_super s s' \<and>
       (\<exists>pud pmd pte. file_inv s' ino (chain_tree pud pmd pte) \<and> i_pg_addr s' ino = pud \<and>
          {pud, pmd, pte} \<subseteq> free_page_set s \<and> free_page_set s' = free_page_set s - {pud, pmd, pte}) \<and>
       (\<forall>b. unat b < 512 \<longrightarrow> rdfs_find_data_block s' ino b = 0)
     else err = - PGFAILD"
proof -
  obtain v1 s1 v2 s2 v3 s3 where r: "rdfs_get_zeroed_page s cpu = (v1, s1)"
      "rdfs_get_zeroed_page s1 cpu = (v2, s2)" "rdfs_get_zeroed_page s2 cpu = (v3, s3)"
    by (metis prod.exhaust)
  note d = rdfs_init_pg_table_def [of s cpu ino] rdfs_table_alloc_one_def r Let_def prod.case
  show ?thesis
  proof (cases "v1 = 0 \<or> v2 = 0 \<or> v3 = 0")
    case True
    then have "rdfs_init_pg_table s cpu ino = (- PGFAILD, s3)" unfolding d by simp
    moreover have "\<not> 3 \<le> length (free_page_list s (get_cpu_numa s cpu))"
      using three_zeroed_fail [OF assms(1) r True] by simp
    ultimately show ?thesis by simp
  next
    case False
    then obtain pud pmd pte where c: "zeroed_page_call s cpu pud s1" "v1 = rdfs_va s pud"
        "zeroed_page_call s1 cpu pmd s2" "v2 = rdfs_va s1 pmd" "zeroed_page_call s2 cpu pte s3" "v3 = rdfs_va s2 pte"
      using three_zeroed_ok [OF assms(1) r] by blast
    note z = three_zeroed_pages [OF c(1,3,5)]
    note i = init_pg_table_success [OF assms(1) assms(2) [unfolded pg_word_def] c(1,3,5)]
    have ss: "same_super s s1" "same_super s1 s2" using c(1,3) by (simp_all add: zeroed_page_call_def)
    note va = same_super_eqs(1) [OF ss(1)] same_super_eqs(1) [OF ss(2)] same_super_eqs(1,2) [OF z(9)]
    have eq: "rdfs_init_pg_table s cpu ino =
        (0, put64 (put64 (put64 s3 (rdfs_va s pmd) (table_of_phys pte)) (rdfs_va s pud) (table_of_phys pmd))
              (get_rdfs_inode s ino + 72) pud)" (is "_ = (0, ?s)")
      using False unfolding d rdfs_set_pmd_def rdfs_set_pud_def c(2,4,6) va by (simp add: va)
    define s6 where "s6 = ?s"
    note i = i [folded s6_def]
    have "rdfs_find_data_block s6 ino b = 0" if "unat b < 512" for b
      using i(4) by (intro find_data_block_tree [OF i(1) _ i(5) [OF that]]) (simp add: chain_tree_def)
    moreover have "file_inv s6 ino (chain_tree pud pmd pte)"
    proof -
      have ss': "same_super s s6" by (rule i(6))
      have pw: "pg_word s6 ino = pg_word s ino" by (simp add: pg_word_def same_super_eqs(11) [OF ss'])
      have "outside_pool s6 (pg_word s ino)" using outside_pool_same [OF ss' _ assms(2)] i(3) by auto
      moreover have "region (rdfs_va s p) 4096 \<inter> pg_word s ino = {}" if "p \<in> ran (chain_tree pud pmd pte)" for p
      proof -
        have "p \<in> free_page_set s" using that z(7) by (auto simp: chain_tree_def ran_def split: if_splits)
        then show ?thesis using assms(2) unfolding outside_pool_def by blast
      qed
      ultimately show ?thesis
        using i(1,2,4) by (simp add: file_inv_def pw same_super_eqs(1) [OF ss']) (simp add: chain_tree_def)
    qed
    ultimately show ?thesis unfolding eq prod.case s6_def [symmetric] using i(1-4,6) z(7,11) by auto
  qed
qed

text \<open>What building a table leaves alone, whether it succeeds or not.\<close>

lemma zeroed_page_frame:
  assumes "pages_inv s" and "rdfs_get_zeroed_page s cpu = (v, s')" and "outside_pool s R"
  shows "pages_inv s' \<and> same_super s s' \<and> outside_pool s' R \<and> (\<forall>x \<in> R. mem s' x = mem s x) \<and>
    (v \<noteq> 0 \<longrightarrow> region v 8 \<inter> R = {})"
  using zeroed_page_cases [OF assms(1,2)]
proof (elim disjE exE conjE)
  fix p assume p: "v = rdfs_va s p" "zeroed_page_call s cpu p s'"
  note z = p(2) [unfolded zeroed_page_call_def]
  have r: "region (rdfs_va s p) 4096 \<inter> R = {}" "region (get_cpu_numa s cpu) 128 \<inter> R = {}"
    using assms(3) z in_use_cpu [of s cpu] unfolding outside_pool_def by blast+
  then have "region v 8 \<inter> R = {}" using region_mono [of 8 4096 v] p(1) by auto
  moreover have "outside_pool s' R" using outside_pool_same [of s s' R] z assms(3) by blast
  moreover have "\<forall>x \<in> R. mem s' x = mem s x" using z r by blast
  ultimately show ?thesis using z by blast
qed (use assms(1,3) same_super_refl in simp)

lemma init_pg_table_frame:
  assumes "pages_inv s" and "rdfs_init_pg_table s cpu ino = (err, s')" and "outside_pool s R" and "pg_word s ino \<inter> R = {}"
    and "x \<in> R"
  shows "mem s' x = mem s x"
proof -
  obtain v1 s1 v2 s2 v3 s3 where r: "rdfs_get_zeroed_page s cpu = (v1, s1)"
      "rdfs_get_zeroed_page s1 cpu = (v2, s2)" "rdfs_get_zeroed_page s2 cpu = (v3, s3)"
    by (metis prod.exhaust)
  note f1 = zeroed_page_frame [OF assms(1) r(1) assms(3)]
  have f2: "pages_inv s2 \<and> same_super s1 s2 \<and> outside_pool s2 R \<and> (\<forall>x \<in> R. mem s2 x = mem s1 x) \<and> (v2 \<noteq> 0 \<longrightarrow> region v2 8 \<inter> R = {})"
    using f1 r(2) by (intro zeroed_page_frame) auto
  have f3: "pages_inv s3 \<and> same_super s2 s3 \<and> outside_pool s3 R \<and> (\<forall>x \<in> R. mem s3 x = mem s2 x) \<and> (v3 \<noteq> 0 \<longrightarrow> region v3 8 \<inter> R = {})"
    using f2 r(3) by (intro zeroed_page_frame) auto
  have m: "mem s3 x = mem s x" using f1 f2 f3 assms(5) by metis
  note d = assms(2) [unfolded rdfs_init_pg_table_def rdfs_table_alloc_one_def r Let_def prod.case]
  show ?thesis
  proof (cases "v1 = 0 \<or> v2 = 0 \<or> v3 = 0")
    case True
    then show ?thesis using d m by auto
  next
    case False
    then have n: "x \<notin> region v1 8" "x \<notin> region v2 8" "x \<notin> region (get_rdfs_inode s ino + 72) 8"
      using f1 f2 assms(4,5) unfolding pg_word_def by blast+
    have "s' = put64 (rdfs_set_pud (rdfs_set_pmd s3 v2 v3) v1 v2) (get_rdfs_inode s ino + 72)
        (rdfs_pa (rdfs_set_pud (rdfs_set_pmd s3 v2 v3) v1 v2) v1)"
      using d False by simp
    then show ?thesis using m n by (simp add: rdfs_set_pmd_def rdfs_set_pud_def store_outside)
  qed
qed

section \<open>A concrete image with five free pages\<close>

definition example_tables :: nvm where
  "example_tables = example_nvm\<lparr>mem :=
     st64 (st64 (st64 (st64 (st64 (st64 example_super
       0xffffc90000004008 5) 0xffffc90000004018 0x1800100000)
       0xffffc90000100000 0x1800101000) 0xffffc90000101000 0x1800102000)
       0xffffc90000102000 0x1800103000) 0xffffc90000103000 0x1800104000\<rparr>"

lemma example_tables_eval [mem_eval]:
  "virt_addr (sbi example_tables) = 0xffffc90000000000"
  "phy_addr (sbi example_tables) = 0x1800000000"
  "s_numa_flag example_tables = 1"
  "s_numa_des example_tables 0 = 0xffffc90000004000"
  "s_numa_des example_tables (Suc 0) = 0xffffc90080000000"
  "ld64 (mem example_tables) 0xffffc90000004008 = 5"
  "ld64 (mem example_tables) 0xffffc90000004018 = 0x1800100000"
  "ld64 (mem example_tables) 0xffffc90080000008 = 0"
  "ld64 (mem example_tables) 0xffffc90000100000 = 0x1800101000"
  "ld64 (mem example_tables) 0xffffc90000101000 = 0x1800102000"
  "ld64 (mem example_tables) 0xffffc90000102000 = 0x1800103000"
  "ld64 (mem example_tables) 0xffffc90000103000 = 0x1800104000"
  by (simp_all add: s_numa_des_def s_numa_flag_def rdfs_get_super_def example_tables_def
      example_nvm_def example_super_def example_sbi_def mem_eval)

lemma example_tables_lists [mem_eval]:
  "free_page_list example_tables 0xffffc90000004000 =
     [0x1800100000, 0x1800101000, 0x1800102000, 0x1800103000, 0x1800104000]"
  "free_page_list example_tables 0xffffc90080000000 = []"
  by (simp_all add: free_page_list_def rdfs_va_def mem_eval)

lemma example_tables_inv: "pages_inv example_tables"
  by (simp add: pages_inv_def meta_ok_def node_ids_def node_pages_ok_def page_ok_def meta_areas_def
      rdfs_get_super_def rdfs_va_def phys_page_def rdfs_get_phys_numa_id_def mem_eval consts_eval)

lemma example_tables_node [mem_eval]: "get_cpu_numa example_tables 0 = 0xffffc90000004000"
  by (simp add: get_cpu_numa_def mem_eval consts_eval)

lemma outside_pool_check:
  assumes "apart (rdfs_get_super s) 128 a n"
    and "list_all (\<lambda>i. apart (s_numa_des s i) 128 a n \<and>
           list_all (\<lambda>p. apart (rdfs_va s p) 4096 a n) (free_page_list s (s_numa_des s i))) (node_ids s)"
  shows "outside_pool s (region a n)"
  using assms unfolding outside_pool_def in_use_def free_page_set_def list_all_iff
  by (blast dest: apart_disjoint)

lemma example_tables_inode: "outside_pool example_tables (region (get_rdfs_inode example_tables 1 + 72) 8)"
  by (rule outside_pool_check)
    (simp_all add: node_ids_def get_rdfs_inode_def rdfs_get_super_def rdfs_va_def apart_def mem_eval consts_eval)

section \<open>Properties\<close>

text \<open>C24. \<open>rdfs_init_pg_table\<close> succeeds exactly when the CPU's node has three free pages. It then takes three
  pages, leaves them linked as a table with one PMD and one PTE page whose root is stored in the inode, and
  \<open>rdfs_find_data_block\<close> finds every one of the first 512 blocks empty; otherwise it returns \<open>-PGFAILD\<close>.\<close>

theorem rdfs_init_pg_table_spec:
  assumes "pages_inv s" and "outside_pool s (region (get_rdfs_inode s ino + 72) 8)"
  shows "case rdfs_init_pg_table s cpu ino of (err, s') \<Rightarrow>
     if 3 \<le> length (free_page_list s (get_cpu_numa s cpu)) then
       err = 0 \<and> pages_inv s' \<and>
       (\<exists>pud pmd pte. tree_ok s' (chain_tree pud pmd pte) \<and> i_pg_addr s' ino = pud \<and>
          {pud, pmd, pte} \<subseteq> free_page_set s \<and> free_page_set s' = free_page_set s - {pud, pmd, pte}) \<and>
       (\<forall>b. unat b < 512 \<longrightarrow> rdfs_find_data_block s' ino b = 0)
     else err = - PGFAILD"
proof -
  have "outside_pool s (pg_word s ino)" using assms(2) by (simp add: pg_word_def)
  from init_pg_table_effect [OF assms(1) this, of cpu] show ?thesis
    by (cases "rdfs_init_pg_table s cpu ino") (auto simp: file_inv_def split: if_splits)
qed

theorem rdfs_init_pg_table_spec_witness:
  "case rdfs_init_pg_table example_tables 0 1 of (err, s') \<Rightarrow>
       err = 0 \<and> pages_inv s' \<and>
       (\<exists>pud pmd pte. tree_ok s' (chain_tree pud pmd pte) \<and> i_pg_addr s' 1 = pud \<and>
          {pud, pmd, pte} \<subseteq> free_page_set example_tables \<and>
          free_page_set s' = free_page_set example_tables - {pud, pmd, pte}) \<and>
       rdfs_find_data_block s' 1 7 = 0"
  using rdfs_init_pg_table_spec [OF example_tables_inv example_tables_inode, of 0]
  by (auto simp: mem_eval split: prod.splits)

end
