(* ===== verification/Vfs.thy ===== *)
theory Vfs
  imports Prelude
begin

text \<open>
  The in-memory inode: the fields of the kernel's \<open>struct inode\<close> that the file system uses, and
  \<open>struct rdfs_inode_info\<close> of \<open>rdfs_master/rdfs.h\<close> with the slave blocks set aside for a file
  (\<open>rdfs_master/memory.h\<close>).
\<close>

section \<open>Blocks of slave memory held by a file\<close>

record mem_bitmap_block =
  slave_id :: u64
  start_block_id :: u64

record pre_alloc_bitmap =
  pre_bits :: u64
  pre_start_block_id :: u64
  pre_alloc_slave_id :: int
  pre_index :: int

section \<open>Inodes\<close>

record rdfs_inode_info =
  in_state :: u16
  in_file_acl :: u32
  in_flags :: u32
  in_dir_acl :: u32
  in_dtime :: u32
  i_virt_addr :: u64
  mapping_count :: int
  pre_bitmap :: "pre_alloc_bitmap option"
  used_bitmap_list :: "mem_bitmap_block list"

text \<open>Times are seconds. \<open>i_blocks\<close> is a \<open>blkcnt_t\<close>, \<open>i_size\<close> a \<open>loff_t\<close>.\<close>

record inode =
  i_ino :: u64
  i_mode :: u16
  i_nlink :: u32
  i_uid :: u32
  i_gid :: u32
  i_size :: int
  i_blocks :: u64
  i_atime :: u64
  i_mtime :: u64
  i_ctime :: u64
  i_generation :: u32
  i_vflags :: u32
  info :: rdfs_inode_info

section \<open>File types\<close>

definition S_IFMT :: u16 where [consts_eval]: "S_IFMT = 0xF000"
definition S_IFDIR :: u16 where [consts_eval]: "S_IFDIR = 0x4000"
definition S_IFREG :: u16 where [consts_eval]: "S_IFREG = 0x8000"
definition S_IFLNK :: u16 where [consts_eval]: "S_IFLNK = 0xA000"
definition S_ISGID :: u16 where [consts_eval]: "S_ISGID = 0x0400"

definition S_ISDIR :: "u16 \<Rightarrow> bool" where [consts_eval]: "S_ISDIR m \<longleftrightarrow> m AND S_IFMT = S_IFDIR"
definition S_ISREG :: "u16 \<Rightarrow> bool" where [consts_eval]: "S_ISREG m \<longleftrightarrow> m AND S_IFMT = S_IFREG"
definition S_ISLNK :: "u16 \<Rightarrow> bool" where [consts_eval]: "S_ISLNK m \<longleftrightarrow> m AND S_IFMT = S_IFLNK"

end
