(* ===== verification/Slave_Memory.thy ===== *)
theory Slave_Memory
  imports Page_Table Vfs
begin

text \<open>
  Memory of the slaves and the entries that name it (\<open>rdfs_master/memory.c\<close>). A slave's memory is
  handed out in groups of 64 blocks; a file takes blocks one by one from a group set aside for it. Each
  block is named by an entry of a page of the master's NVM: the slave in the top 12 bits, the block in
  the next 40.

  Kernel allocations of small structures (\<open>kmalloc\<close> with \<open>GFP_KERNEL\<close>) are taken to succeed. The linked
  list of groups is a list of its nodes.
\<close>

section \<open>Slaves\<close>

record slave_info =
  rem_block_nums :: int
  s_slave_id :: int
  s_status :: int
  free_block_nums :: int
  total_block_nums :: int
  bitmap_head :: "mem_bitmap_block list"

text \<open>The node of the \<open>i\<close>-th round of the loop.\<close>

definition bitmap_node :: "slave_info \<Rightarrow> nat \<Rightarrow> mem_bitmap_block" where
  "bitmap_node s i = \<lparr>slave_id = word_of_int (s_slave_id s), start_block_id = word_of_int (int i * 64)\<rparr>"

definition rdfs_init_slave_memory_bitmap_list :: "slave_info \<Rightarrow> slave_info" where
  "rdfs_init_slave_memory_bitmap_list s =
     (let block_nums = rem_block_nums s;
          bitmap_nums = nat (block_nums div 64)
      in s\<lparr>free_block_nums := block_nums, total_block_nums := block_nums,
           bitmap_head := map (bitmap_node s) [0 ..< bitmap_nums]\<rparr>)"

text \<open>The loop frees \<open>tmp\<close> and never advances it. \<open>None\<close> is a null dereference or a second \<open>kfree\<close> of
  the same node.\<close>

fun free_bitmap_loop :: "nat \<Rightarrow> mem_bitmap_block list \<Rightarrow> bool \<Rightarrow> unit option" where
  "free_bitmap_loop 0 tmp freed = Some ()"
| "free_bitmap_loop (Suc n) tmp freed =
     (if tmp = [] \<or> freed then None else free_bitmap_loop n tmp True)"

definition rdfs_free_slave_memory_bitmap_list :: "slave_info \<Rightarrow> slave_info option" where
  "rdfs_free_slave_memory_bitmap_list s =
     (case free_bitmap_loop (nat (free_block_nums s div 64)) (bitmap_head s) False of
        None \<Rightarrow> None
      | Some _ \<Rightarrow> Some (s\<lparr>bitmap_head := []\<rparr>))"

definition rdfs_alloc_slave_memory_bitmap :: "slave_info \<Rightarrow> u64 \<times> slave_info" where
  "rdfs_alloc_slave_memory_bitmap s =
     (case bitmap_head s of
        [] \<Rightarrow> (- 1, s)
      | use # tmp \<Rightarrow>
          if free_block_nums s = 0 then (- 1, s)
          else (start_block_id use, s\<lparr>bitmap_head := tmp, free_block_nums := free_block_nums s - 64\<rparr>))"

definition rdfs_free_slave_memoryt_bitmap :: "slave_info \<Rightarrow> mem_bitmap_block \<Rightarrow> slave_info" where
  "rdfs_free_slave_memoryt_bitmap s tmp = s\<lparr>bitmap_head := tmp # bitmap_head s\<rparr>"

definition rdfs_select_slave :: nat where
  "rdfs_select_slave = 0"

section \<open>Blocks of a file\<close>

text \<open>A group set aside for the file, from the selected slave.\<close>

definition refill_pre_bitmap :: "slave_info list \<Rightarrow> rdfs_inode_info \<Rightarrow> rdfs_inode_info \<times> slave_info list" where
  "refill_pre_bitmap sl ri =
     (let s_id = rdfs_select_slave;
          (start, s) = rdfs_alloc_slave_memory_bitmap (sl ! s_id)
      in (ri\<lparr>pre_bitmap := Some \<lparr>pre_bits = 0, pre_start_block_id = start,
              pre_alloc_slave_id = int s_id, pre_index = 0\<rparr>\<rparr>, sl[s_id := s]))"

definition retire_pre_bitmap :: "pre_alloc_bitmap \<Rightarrow> rdfs_inode_info \<Rightarrow> rdfs_inode_info" where
  "retire_pre_bitmap b ri =
     (if pre_alloc_slave_id b \<noteq> - 1 then
        ri\<lparr>used_bitmap_list := \<lparr>slave_id = word_of_int (pre_alloc_slave_id b),
             start_block_id = pre_start_block_id b\<rparr> # used_bitmap_list ri\<rparr>
      else ri)"

text \<open>Result: \<open>*block_id\<close>, \<open>*s_id\<close>, the file and the slaves.\<close>

definition rdfs_alloc_slave_bitmap_memory ::
  "slave_info list \<Rightarrow> rdfs_inode_info \<Rightarrow> u64 \<times> u64 \<times> rdfs_inode_info \<times> slave_info list" where
  "rdfs_alloc_slave_bitmap_memory sl ri =
     (let (ri1, sl1) = (case pre_bitmap ri of None \<Rightarrow> refill_pre_bitmap sl ri | Some _ \<Rightarrow> (ri, sl));
          b1 = the (pre_bitmap ri1);
          (ri2, sl2) = (if pre_index b1 = 64 then refill_pre_bitmap sl1 (retire_pre_bitmap b1 ri1) else (ri1, sl1));
          b = the (pre_bitmap ri2);
          b' = b\<lparr>pre_bits := set_bit (nat (pre_index b)) (pre_bits b), pre_index := pre_index b + 1\<rparr>
      in (word_of_int (pre_index b) + pre_start_block_id b, word_of_int (pre_alloc_slave_id b),
          ri2\<lparr>pre_bitmap := Some b'\<rparr>, sl2))"

section \<open>Entries that name slave blocks\<close>

definition SLAVE_ID_SHIFT :: nat where [consts_eval]: "SLAVE_ID_SHIFT = 52"
definition BLOCK_ID_SHIFT :: nat where [consts_eval]: "BLOCK_ID_SHIFT = 12"
definition SLAVE_ID_MASK :: u64 where [consts_eval]: "SLAVE_ID_MASK = 0xFFF0000000000000"
definition BLOCK_ID_MASK :: u64 where [consts_eval]: "BLOCK_ID_MASK = 0x000FFFFFFFFFF000"
definition PAGE_PTE_NUMS :: int where [consts_eval]: "PAGE_PTE_NUMS = 512"

definition slave_pte :: "u64 \<Rightarrow> u64 \<Rightarrow> u64" where
  "slave_pte s_id block_id = push_bit SLAVE_ID_SHIFT s_id OR push_bit BLOCK_ID_SHIFT block_id"

text \<open>What \<open>rdfs_search_metadata\<close> and \<open>rdfs_free_pte\<close> read back.\<close>

definition pte_slave :: "u64 \<Rightarrow> u64" where
  "pte_slave v = drop_bit SLAVE_ID_SHIFT (v AND SLAVE_ID_MASK)"

definition pte_block :: "u64 \<Rightarrow> u64" where
  "pte_block v = drop_bit BLOCK_ID_SHIFT (v AND BLOCK_ID_MASK)"

text \<open>\<open>pte_start_addr\<close> is an \<open>unsigned long\<close>, \<open>start_addr\<close> an \<open>int\<close>.\<close>

record pte_mem =
  pte_start_addr :: u64
  free_pte_nums :: int
  total_page_nums :: int
  start_addr :: "32 word"

record smem = fs +
  slave_infos :: "slave_info list"
  pte_cnt :: int
  pte_phy_addr :: u64
  pte_free_list :: pte_mem

text \<open>The result of \<open>rdfs_new_block\<close> is not tested: when it fails, the previous page is used again.\<close>

definition rdfs_new_page_pte ::
  "'a smem_scheme \<Rightarrow> nat \<Rightarrow> rdfs_inode_info \<Rightarrow> u64 \<Rightarrow> u64 \<times> rdfs_inode_info \<times> 'a smem_scheme" where
  "rdfs_new_page_pte s cpu ri ni =
     (let s1 = (if pte_cnt s = PAGE_PTE_NUMS then
                  (case rdfs_new_block s cpu 1 ni of
                     None \<Rightarrow> s\<lparr>pte_cnt := 0\<rparr>
                   | Some (p, s') \<Rightarrow> s'\<lparr>pte_phy_addr := p, pte_cnt := 0\<rparr>)
                else s);
          (block_id, s_id, ri', sl) = rdfs_alloc_slave_bitmap_memory (slave_infos s1) ri;
          s2 = s1\<lparr>slave_infos := sl\<rparr>;
          pte_addr = pte_phy_addr s2 + word_of_int (pte_cnt s2) * 8;
          s3 = put64 s2 (rdfs_va s2 pte_addr) (slave_pte s_id block_id)
      in (pte_phy_addr s3, ri', s3\<lparr>pte_cnt := pte_cnt s3 + 1\<rparr>))"

text \<open>Link \<open>n\<close> entries from \<open>tmp\<close> on.\<close>

primrec pte_link_loop :: "nat \<Rightarrow> u64 \<Rightarrow> u64 \<Rightarrow> 'a nvm_scheme \<Rightarrow> 'a nvm_scheme" where
  "pte_link_loop 0 tmp next_pte s = s"
| "pte_link_loop (Suc n) tmp next_pte s =
     (let s1 = put64 s tmp next_pte
      in pte_link_loop n (rdfs_va s1 next_pte) (next_pte + 8) s1)"

text \<open>\<open>phyaddr\<close> stays uninitialised when \<open>rdfs_new_block\<close> fails, which is the value \<open>None\<close>.\<close>

definition rdfs_init_pte_free_list :: "'a smem_scheme \<Rightarrow> nat \<Rightarrow> int \<Rightarrow> 'a smem_scheme option" where
  "rdfs_init_pte_free_list s cpu page_nums =
     (case rdfs_new_block s cpu page_nums 0 of
        None \<Rightarrow> None
      | Some (phyaddr, s1) \<Rightarrow>
          let pte_nums = page_nums * 4096 div 8;
              s2 = s1\<lparr>pte_free_list := \<lparr>pte_start_addr = phyaddr, free_pte_nums = pte_nums,
                     total_page_nums = page_nums, start_addr = ucast phyaddr\<rparr>\<rparr>
          in Some (pte_link_loop (nat pte_nums) (rdfs_va s2 phyaddr) (phyaddr + 8) s2))"

primrec free_pte_pages :: "nat \<Rightarrow> u64 \<Rightarrow> 'a nvm_scheme \<Rightarrow> 'a nvm_scheme" where
  "free_pte_pages 0 phyaddr s = s"
| "free_pte_pages (Suc n) phyaddr s = free_pte_pages n (phyaddr + PAGE_SIZE) (rdfs_free_block s phyaddr)"

definition rdfs_free_pte_free_list :: "'a smem_scheme \<Rightarrow> 'a smem_scheme" where
  "rdfs_free_pte_free_list s =
     free_pte_pages (nat (total_page_nums (pte_free_list s))) (scast (start_addr (pte_free_list s))) s"

definition rdfs_new_pte ::
  "'a smem_scheme \<Rightarrow> rdfs_inode_info \<Rightarrow> (u64 \<times> rdfs_inode_info \<times> 'a smem_scheme) option" where
  "rdfs_new_pte s ri =
     (if free_pte_nums (pte_free_list s) < 1 then None
      else
        let tmp = pte_start_addr (pte_free_list s);
            s1 = s\<lparr>pte_free_list := (pte_free_list s)\<lparr>pte_start_addr := ld64 (mem s) (rdfs_va s tmp)\<rparr>\<rparr>;
            (block_id, s_id, ri', sl) = rdfs_alloc_slave_bitmap_memory (slave_infos s1) ri;
            s2 = s1\<lparr>slave_infos := sl\<rparr>
        in Some (tmp, ri', put64 s2 (rdfs_va s2 tmp) (slave_pte s_id block_id)))"

definition rdfs_free_pte :: "'a smem_scheme \<Rightarrow> u64 \<Rightarrow> 'a smem_scheme" where
  "rdfs_free_pte s phyaddr =
     (let s1 = put64 s (rdfs_va s phyaddr) (pte_start_addr (pte_free_list s))
      in s1\<lparr>pte_free_list := (pte_free_list s1)\<lparr>pte_start_addr := phyaddr\<rparr>\<rparr>)"

section \<open>The entry codec\<close>

lemma unat_less_bit:
  assumes "unat (w :: u64) < 2 ^ n" and "bit w j"
  shows "j < n"
proof -
  have "bit (unat w) j" using assms(2) by (simp add: bit_unsigned_iff)
  moreover have "take_bit n (unat w) = unat w" using assms(1) by (simp add: take_bit_nat_eq_self)
  ultimately show ?thesis by (metis bit_take_bit_iff)
qed

lemma slave_masks: "SLAVE_ID_MASK = push_bit 52 (mask 12)" "BLOCK_ID_MASK = push_bit 12 (mask 40)"
  by (simp_all add: SLAVE_ID_MASK_def BLOCK_ID_MASK_def mask_eq_exp_minus_1 push_bit_eq_mult)

lemma slave_pte_decode:
  assumes "unat s_id < 2 ^ 12" and "unat block_id < 2 ^ 40"
  shows "pte_slave (slave_pte s_id block_id) = s_id" and "pte_block (slave_pte s_id block_id) = block_id"
proof -
  note small = unat_less_bit [OF assms(1)] unat_less_bit [OF assms(2)]
  note codec = pte_slave_def pte_block_def slave_pte_def slave_masks SLAVE_ID_SHIFT_def BLOCK_ID_SHIFT_def
  show "pte_slave (slave_pte s_id block_id) = s_id"
    by (rule bit_word_eqI) (auto simp: codec bit_simps dest: small)
  show "pte_block (slave_pte s_id block_id) = block_id"
    by (rule bit_word_eqI) (auto simp: codec bit_simps dest: small)
qed

section \<open>Blocks handed out by a sequence of requests\<close>

text \<open>Each request names a file; the result lists the blocks handed out, the latest first.\<close>

fun block_trace :: "'f list \<Rightarrow> slave_info list \<times> ('f \<Rightarrow> rdfs_inode_info) \<times> (u64 \<times> u64) list
    \<Rightarrow> slave_info list \<times> ('f \<Rightarrow> rdfs_inode_info) \<times> (u64 \<times> u64) list" where
  "block_trace [] st = st"
| "block_trace (f # fs) (sl, files, out) =
     (let (block_id, s_id, ri, sl') = rdfs_alloc_slave_bitmap_memory sl (files f)
      in block_trace fs (sl', files(f := ri), (s_id, block_id) # out))"

text \<open>The specification: \<open>k\<close> groups are taken, a file has a group and the number of blocks it has taken from
  it, and blocks are numbered. A file takes the next block of its group, or the first of group \<open>k\<close>.\<close>

type_synonym 'f block_spec = "nat \<times> ('f \<Rightarrow> (nat \<times> nat) option) \<times> nat list"

fun spec_block :: "'f \<Rightarrow> 'f block_spec \<Rightarrow> 'f block_spec" where
  "spec_block f (k, cur, out) =
     (case cur f of
        None \<Rightarrow> (Suc k, cur(f \<mapsto> (k, 1)), 64 * k # out)
      | Some (g, i) \<Rightarrow>
          if i < 64 then (k, cur(f \<mapsto> (g, Suc i)), (64 * g + i) # out)
          else (Suc k, cur(f \<mapsto> (k, 1)), 64 * k # out))"

fun spec_inv :: "'f block_spec \<Rightarrow> bool" where
  "spec_inv (k, cur, out) \<longleftrightarrow> distinct out \<and> (\<forall>x \<in> set out. x div 64 < k) \<and>
     (\<forall>f g i. cur f = Some (g, i) \<longrightarrow> g < k \<and> i \<le> 64 \<and> (\<forall>x \<in> set out. x div 64 = g \<longrightarrow> x mod 64 < i)) \<and>
     (\<forall>f f' g i i'. cur f = Some (g, i) \<and> cur f' = Some (g, i') \<longrightarrow> f = f')"

lemma spec_block_fresh:
  "spec_inv (k, cur, out) \<Longrightarrow> spec_inv (Suc k, cur(f \<mapsto> (k, 1)), 64 * k # out)"
  by (auto simp: less_Suc_eq split: if_splits)

lemma spec_block_next:
  assumes "spec_inv (k, cur, out)" and "cur f = Some (g, i)" and "i < 64"
  shows "spec_inv (k, cur(f \<mapsto> (g, Suc i)), (64 * g + i) # out)"
proof -
  have d: "(64 * g + i) div 64 = g" "(64 * g + i) mod 64 = i" using assms(3) by simp_all
  have g: "g < k" "\<forall>x \<in> set out. x div 64 = g \<longrightarrow> x mod 64 < i" using assms(1,2) by auto
  then have "64 * g + i \<notin> set out" using d by force
  moreover have "f' = f" if "cur f' = Some (g, j)" for f' j using assms(1,2) that by auto
  ultimately show ?thesis using assms g d by (auto simp: less_Suc_eq split: if_splits)
qed

lemma spec_block_inv: "spec_inv a \<Longrightarrow> spec_inv (spec_block f a)"
  by (cases a) (auto simp del: spec_inv.simps fun_upd_apply One_nat_def split: option.splits prod.splits
      intro: spec_block_next simp: spec_block_fresh)

lemma spec_run_inv: "spec_inv a \<Longrightarrow> spec_inv (fold spec_block fs a)"
  by (induction fs arbitrary: a) (simp_all add: spec_block_inv)

lemma spec_block_mono: "fst a \<le> fst (spec_block f a)"
  by (cases a) (auto split: option.splits prod.splits)

lemma spec_run_mono: "fst a \<le> fst (fold spec_block fs a)"
proof (induction fs arbitrary: a)
  case (Cons f fs)
  then show ?case using order_trans [OF spec_block_mono Cons.IH] by simp
qed simp

section \<open>The allocator implements the specification\<close>

text \<open>Slave 0 has \<open>n\<close> blocks, and groups from \<open>k\<close> on are still in its list.\<close>

fun pre_rel :: "pre_alloc_bitmap option \<Rightarrow> (nat \<times> nat) option \<Rightarrow> bool" where
  "pre_rel (Some b) (Some (g, i)) \<longleftrightarrow> pre_start_block_id b = of_nat (64 * g) \<and> pre_alloc_slave_id b = 0
     \<and> pre_index b = int i"
| "pre_rel None None \<longleftrightarrow> True"
| "pre_rel _ _ \<longleftrightarrow> False"

fun block_rel ::
  "int \<Rightarrow> slave_info list \<times> ('f \<Rightarrow> rdfs_inode_info) \<times> (u64 \<times> u64) list \<Rightarrow> 'f block_spec \<Rightarrow> bool" where
  "block_rel n (sl, files, out) (k, cur, outs) \<longleftrightarrow> sl \<noteq> [] \<and>
     map start_block_id (bitmap_head (sl ! 0)) = map (\<lambda>g. of_nat (64 * g)) [k ..< nat (n div 64)] \<and>
     free_block_nums (sl ! 0) = n - 64 * int k \<and> (\<forall>f. pre_rel (pre_bitmap (files f)) (cur f)) \<and>
     out = map (\<lambda>x. (0, of_nat x)) outs"

lemma alloc_from_group:
  assumes "pre_rel (pre_bitmap ri) (Some (g, i))" and "i < 64"
  shows "\<exists>ri'. rdfs_alloc_slave_bitmap_memory sl ri = (of_nat (64 * g + i), 0, ri', sl)
     \<and> pre_rel (pre_bitmap ri') (Some (g, Suc i))"
  using assms
  by (cases "pre_bitmap ri") (auto simp: rdfs_alloc_slave_bitmap_memory_def Let_def add.commute)

lemma alloc_from_fresh_group:
  assumes "pre_rel (pre_bitmap ri) None \<or> pre_rel (pre_bitmap ri) (Some (h, 64))" and "sl \<noteq> []"
    and "bitmap_head (sl ! 0) = b # bs" and "free_block_nums (sl ! 0) \<noteq> 0" and "start_block_id b = of_nat (64 * g)"
  shows "\<exists>ri' sl'. rdfs_alloc_slave_bitmap_memory sl ri = (of_nat (64 * g), 0, ri', sl')
     \<and> pre_rel (pre_bitmap ri') (Some (g, 1)) \<and> sl' \<noteq> [] \<and>
     bitmap_head (sl' ! 0) = bs \<and> free_block_nums (sl' ! 0) = free_block_nums (sl ! 0) - 64"
proof -
  define s' where "s' = (sl ! 0)\<lparr>bitmap_head := bs, free_block_nums := free_block_nums (sl ! 0) - 64\<rparr>"
  have refill: "refill_pre_bitmap sl r =
      (r\<lparr>pre_bitmap := Some \<lparr>pre_bits = 0, pre_start_block_id = of_nat (64 * g), pre_alloc_slave_id = 0, pre_index = 0\<rparr>\<rparr>,
       sl[0 := s'])" for r
    using assms(3-5)
    by (simp add: refill_pre_bitmap_def rdfs_select_slave_def rdfs_alloc_slave_memory_bitmap_def s'_def)
  have s': "bitmap_head (sl[0 := s'] ! 0) = bs" "free_block_nums (sl[0 := s'] ! 0) = free_block_nums (sl ! 0) - 64"
    using assms(2) by (simp_all add: s'_def)
  show ?thesis
  proof (cases "pre_bitmap ri")
    case None
    then show ?thesis using s' assms(2) by (simp add: rdfs_alloc_slave_bitmap_memory_def refill Let_def)
  next
    case (Some b0)
    then have "pre_index b0 = 64" using assms(1) by auto
    then show ?thesis using s' assms(2) Some by (simp add: rdfs_alloc_slave_bitmap_memory_def refill Let_def)
  qed
qed

lemma block_step:
  assumes rel: "block_rel n (sl, files, out) (k, cur, outs)" and inv: "spec_inv (k, cur, outs)"
    and enough: "fst (spec_block f (k, cur, outs)) \<le> nat (n div 64)" and n: "0 \<le> n"
  shows "\<exists>block_id ri sl'. rdfs_alloc_slave_bitmap_memory sl (files f) = (block_id, 0, ri, sl') \<and>
     block_rel n (sl', files(f := ri), (0, block_id) # out) (spec_block f (k, cur, outs))"
proof -
  have pf: "pre_rel (pre_bitmap (files f)) (cur f)" using rel by simp
  consider (same) g i where "cur f = Some (g, i)" "i < 64" | (fresh) "spec_block f (k, cur, outs) = (Suc k, cur(f \<mapsto> (k, 1)), 64 * k # outs)"
      "\<exists>h. cur f = None \<or> cur f = Some (h, 64)"
    using inv by (cases "cur f") (fastforce simp: le_less)+
  then show ?thesis
  proof cases
    case same
    then show ?thesis
      using alloc_from_group [of "files f" g i sl] pf rel by auto
  next
    case fresh
    have k: "k < nat (n div 64)" using enough fresh(1) by simp
    obtain b bs where bs: "bitmap_head (sl ! 0) = b # bs" "start_block_id b = of_nat (64 * k)"
        "map start_block_id bs = map (\<lambda>g. of_nat (64 * g)) [Suc k ..< nat (n div 64)]"
      using rel k by (auto simp: upt_conv_Cons map_eq_Cons_conv)
    have "free_block_nums (sl ! 0) \<noteq> 0" using rel k n by simp
    moreover obtain h where "pre_rel (pre_bitmap (files f)) None \<or> pre_rel (pre_bitmap (files f)) (Some (h, 64))"
      using fresh(2) pf by metis
    ultimately show ?thesis
      using alloc_from_fresh_group [of "files f" h sl b bs k] rel bs unfolding fresh(1) by fastforce
  qed
qed

lemma block_run:
  assumes "block_rel n (sl, files, out) (k, cur, outs)" and "spec_inv (k, cur, outs)" and "0 \<le> n"
    and "fst (fold spec_block fs (k, cur, outs)) \<le> nat (n div 64)"
  shows "block_rel n (block_trace fs (sl, files, out)) (fold spec_block fs (k, cur, outs))"
  using assms
proof (induction fs arbitrary: sl files out k cur outs)
  case Nil
  then show ?case by simp
next
  case (Cons f fs)
  obtain k' cur' outs' where a': "spec_block f (k, cur, outs) = (k', cur', outs')" by (metis prod.exhaust)
  have "k' \<le> nat (n div 64)"
    using order_trans [OF spec_run_mono [of "(k', cur', outs')" fs]] Cons.prems(4) a' by simp
  then obtain block_id ri sl' where step: "rdfs_alloc_slave_bitmap_memory sl (files f) = (block_id, 0, ri, sl')"
      "block_rel n (sl', files(f := ri), (0, block_id) # out) (k', cur', outs')"
    using block_step [OF Cons.prems(1,2), of f] Cons.prems(3) a' by auto
  have inv': "spec_inv (k', cur', outs')" using spec_block_inv [OF Cons.prems(2), of f] a' by simp
  show ?case using Cons.IH [OF step(2) inv' Cons.prems(3)] Cons.prems(4) step(1) a' by (simp del: fun_upd_apply spec_block.simps)
qed

lemma block_rel_init:
  assumes "sl \<noteq> []" and "\<forall>f. pre_bitmap (files f) = None"
  shows "block_rel (rem_block_nums (sl ! 0)) (sl[0 := rdfs_init_slave_memory_bitmap_list (sl ! 0)], files, [])
     (0, \<lambda>_. None, [])"
  using assms by (simp add: rdfs_init_slave_memory_bitmap_list_def bitmap_node_def Let_def)

section \<open>Properties\<close>



text \<open>C33. When the slave has no group left, the failure value \<open>-1\<close> of \<open>rdfs_alloc_slave_memory_bitmap\<close> is used as
  a block number: a new file's first block is block \<open>2^64 - 1\<close> and its second block is block 0, whoever
  owns that block already.\<close>

theorem slave_exhaustion_reuses_block_zero:
  assumes "sl \<noteq> []" and "bitmap_head (sl ! 0) = []" and "pre_bitmap ri = None"
  shows "case rdfs_alloc_slave_bitmap_memory sl ri of (b1, s1, ri1, sl1) \<Rightarrow>
     b1 = - 1 \<and> sl1 = sl \<and> (case rdfs_alloc_slave_bitmap_memory sl1 ri1 of (b2, s2, ri2, sl2) \<Rightarrow> b2 = 0 \<and> s2 = 0)"
  using assms
  by (cases sl) (auto simp: rdfs_alloc_slave_bitmap_memory_def refill_pre_bitmap_def rdfs_select_slave_def
      rdfs_alloc_slave_memory_bitmap_def)

theorem slave_exhaustion_reuses_block_zero_witness:
  "let sl = [\<lparr>rem_block_nums = 64, s_slave_id = 0, s_status = 1, free_block_nums = 0, total_block_nums = 64, bitmap_head = []\<rparr>];
       ri = \<lparr>in_state = 0, in_file_acl = 0, in_flags = 0, in_dir_acl = 0, in_dtime = 0, i_virt_addr = 0,
         mapping_count = 0, pre_bitmap = None, used_bitmap_list = []\<rparr>
   in case rdfs_alloc_slave_bitmap_memory sl ri of (b1, s1, ri1, sl1) \<Rightarrow>
     b1 = - 1 \<and> (case rdfs_alloc_slave_bitmap_memory sl1 ri1 of (b2, s2, ri2, sl2) \<Rightarrow> b2 = 0 \<and> s2 = 0)"
  using slave_exhaustion_reuses_block_zero [of "[\<lparr>rem_block_nums = 64, s_slave_id = 0, s_status = 1,
      free_block_nums = 0, total_block_nums = 64, bitmap_head = []\<rparr>]"
      "\<lparr>in_state = 0, in_file_acl = 0, in_flags = 0, in_dir_acl = 0, in_dtime = 0, i_virt_addr = 0,
         mapping_count = 0, pre_bitmap = None, used_bitmap_list = []\<rparr>"]
  by (auto simp: Let_def split: prod.splits)

text \<open>An entry written for slave \<open>s_id\<close> and block \<open>block_id\<close> is read back as the same slave and block, for the
  12 bits and 40 bits the format has room for.\<close>

theorem slave_pte_roundtrip:
  assumes "unat s_id < 4096" and "unat block_id < 2 ^ 40"
  shows "pte_slave (slave_pte s_id block_id) = s_id \<and> pte_block (slave_pte s_id block_id) = block_id"
  using slave_pte_decode assms by simp

theorem slave_pte_roundtrip_witness:
  "pte_slave (slave_pte 3 0xABCDEF) = 3 \<and> pte_block (slave_pte 3 0xABCDEF) = 0xABCDEF"
  by (rule slave_pte_roundtrip) simp_all

text \<open>The block number \<open>-1\<close> overflows into the slave field.\<close>

lemma slave_pte_overflow: "pte_slave (slave_pte 0 (- 1)) = 4095"
  by (simp add: pte_slave_def slave_pte_def consts_eval push_bit_eq_mult)

text \<open>While the current page of entries has room, \<open>rdfs_new_page_pte\<close> writes the entry of the block it allocates
  at index \<open>pte_cnt\<close> of that page, returns the page, changes no other entry of it and leaves the page
  allocator alone.\<close>

theorem rdfs_new_page_pte_spec:
  assumes "pages_inv s" and "page_ok s (pte_phy_addr s)" and "pte_phy_addr s \<notin> free_page_set s"
    and "0 \<le> pte_cnt s" and "pte_cnt s < PAGE_PTE_NUMS"
  shows "case rdfs_new_page_pte s cpu ri ni of (phy, ri', s') \<Rightarrow>
     case rdfs_alloc_slave_bitmap_memory (slave_infos s) ri of (block_id, s_id, ri2, sl) \<Rightarrow>
       phy = pte_phy_addr s \<and> ri' = ri2 \<and> slave_infos s' = sl \<and> pte_cnt s' = pte_cnt s + 1 \<and>
       pages_inv s' \<and> free_page_set s' = free_page_set s \<and>
       (\<forall>j < 512. entry s' phy j = (if int j = pte_cnt s then slave_pte s_id block_id else entry s phy j))"
proof -
  obtain block_id s_id ri2 sl where a: "rdfs_alloc_slave_bitmap_memory (slave_infos s) ri = (block_id, s_id, ri2, sl)"
    by (metis prod.exhaust)
  define p i where "p = pte_phy_addr s" and "i = nat (pte_cnt s)"
  have i: "i < 512" "int i = pte_cnt s" using assms(4,5) by (auto simp: i_def PAGE_PTE_NUMS_def)
  define s1 where "s1 = s\<lparr>slave_infos := sl\<rparr>"
  define s2 where "s2 = put64 s1 (entry_addr s1 p i) (slave_pte s_id block_id)"
  have addr: "rdfs_va s1 (p + word_of_int (pte_cnt s) * 8) = entry_addr s1 p i"
    using i(2) by (simp add: entry_addr_def rdfs_va_add flip: i(2))
  have r: "rdfs_new_page_pte s cpu ri ni = (p, ri2, s2\<lparr>pte_cnt := pte_cnt s + 1\<rparr>)"
    using assms(5) a addr by (simp add: rdfs_new_page_pte_def Let_def s1_def s2_def p_def)
  have w0: "foreign_write s {} s1" by (rule same_nvm_foreign) (simp_all add: assms(1) s1_def)
  note ss0 = foreign_write_super [OF w0]
  have frame: "pages_inv s1" "page_ok s1 p" "p \<notin> free_page_set s1"
    using foreign_write_inv [OF w0] foreign_write_free_set [OF w0] assms(2,3) page_ok_same_super [OF ss0]
    by (simp_all add: p_def)
  have w: "page_write s1 p s2" unfolding s2_def by (rule put_entry_page_write [OF frame i(1)])
  define s3 where "s3 = s2\<lparr>pte_cnt := pte_cnt s + 1\<rparr>"
  have w3: "foreign_write s2 {} s3" by (rule same_nvm_foreign) (simp_all add: page_write_inv [OF w] s3_def)
  have "entry s3 p j = (if int j = pte_cnt s then slave_pte s_id block_id else entry s p j)" if "j < 512" for j
  proof -
    have "entry s3 p j = entry s2 p j" by (simp add: entry_def entry_addr_def rdfs_va_def s3_def)
    also have "\<dots> = (if p = p \<and> i = j then slave_pte s_id block_id else entry s1 p j)"
      unfolding s2_def by (rule entry_put [OF i(1) that frame(2,2)])
    also have "entry s1 p j = entry s p j" by (simp add: entry_def entry_addr_def rdfs_va_def s1_def)
    finally show ?thesis using i(2) by auto
  qed
  moreover have "pages_inv s3" "free_page_set s3 = free_page_set s"
    using foreign_write_inv [OF w3] foreign_write_free_set [OF w3] page_write_free_set [OF w] foreign_write_free_set [OF w0]
    by simp_all
  ultimately show ?thesis unfolding r s3_def [symmetric] a by (simp add: s3_def s2_def s1_def p_def)
qed

text \<open>The page and the index are global: two files that allocate in turn get the same page of entries.\<close>

lemma entry_page_shared:
  assumes "pte_cnt s \<noteq> 512" and "pte_cnt s \<noteq> 511"
  shows "case rdfs_new_page_pte s cpu ri ni of (phy, ri', s') \<Rightarrow> fst (rdfs_new_page_pte s' cpu rj nj) = phy"
  using assms by (auto simp: rdfs_new_page_pte_def Let_def PAGE_PTE_NUMS_def split: prod.splits)

definition example_smem :: smem where
  "example_smem = \<lparr>sbi = sbi example_tables, mem = mem example_tables, next_numa_id = 0,
     slave_infos = [rdfs_init_slave_memory_bitmap_list \<lparr>rem_block_nums = 128, s_slave_id = 0, s_status = 1,
       free_block_nums = 0, total_block_nums = 0, bitmap_head = []\<rparr>],
     pte_cnt = 3, pte_phy_addr = 0x1800200000,
     pte_free_list = \<lparr>pte_start_addr = 0, free_pte_nums = 0, total_page_nums = 0, start_addr = 0\<rparr>\<rparr>"

definition example_info :: rdfs_inode_info where
  "example_info = \<lparr>in_state = 0, in_file_acl = 0, in_flags = 0, in_dir_acl = 0, in_dtime = 0, i_virt_addr = 0,
     mapping_count = 0, pre_bitmap = None, used_bitmap_list = []\<rparr>"

lemma example_smem_part: "sbi example_smem = sbi example_tables" "mem example_smem = mem example_tables"
  by (simp_all add: example_smem_def)

lemma example_smem_ok:
  "pages_inv example_smem" "page_ok example_smem (pte_phy_addr example_smem)"
  "pte_phy_addr example_smem \<notin> free_page_set example_smem"
proof -
  show "pages_inv example_smem" using example_tables_inv nvm_part(10) [OF example_smem_part] by simp
  show "page_ok example_smem (pte_phy_addr example_smem)"
    unfolding nvm_part(7) [OF example_smem_part]
    by (simp add: example_smem_def page_ok_def meta_areas_def node_ids_def phys_page_def rdfs_get_super_def
        rdfs_va_def mem_eval consts_eval)
  show "pte_phy_addr example_smem \<notin> free_page_set example_smem"
    unfolding nvm_part(9) [OF example_smem_part]
    by (simp add: example_smem_def free_page_set_def node_ids_def mem_eval)
qed

theorem rdfs_new_page_pte_spec_witness:
  "case rdfs_new_page_pte example_smem 0 example_info 0 of (phy, ri', s') \<Rightarrow>
     phy = 0x1800200000 \<and> pages_inv s' \<and> entry s' phy 3 = slave_pte 0 0"
  using rdfs_new_page_pte_spec [OF example_smem_ok, where cpu = 0 and ri = example_info and ni = 0]
  by (auto simp: example_smem_def example_info_def rdfs_init_slave_memory_bitmap_list_def bitmap_node_def
      rdfs_alloc_slave_bitmap_memory_def refill_pre_bitmap_def rdfs_alloc_slave_memory_bitmap_def
      rdfs_select_slave_def PAGE_PTE_NUMS_def Let_def numeral_2_eq_2 split: prod.splits)

section \<open>The chain of free entries\<close>

lemma pte_link_loop_sbi [simp]: "sbi (pte_link_loop n tmp q s) = sbi s"
  by (induction n arbitrary: tmp q s) (simp_all add: Let_def)

lemma pte_link_loop_free_list [simp]: "pte_free_list (pte_link_loop n tmp q s) = pte_free_list s"
  by (induction n arbitrary: tmp q s) (simp_all add: Let_def)

lemma pte_link_loop_outside:
  assumes "8 * n \<le> unat (x - rdfs_va s q)" and "n \<le> 2 ^ 32"
  shows "mem (pte_link_loop n (rdfs_va s q) (q + 8) s) x = mem s x"
  using assms
proof (induction n arbitrary: q s)
  case (Suc n)
  define s1 where "s1 = put64 s (rdfs_va s q) (q + 8)"
  have va: "rdfs_va s1 = rdfs_va s" by (simp add: s1_def rdfs_va_def fun_eq_iff)
  have d: "x - rdfs_va s1 (q + 8) = (x - rdfs_va s q) - 8" by (simp add: va rdfs_va_add)
  have "unat (x - rdfs_va s1 (q + 8)) = unat (x - rdfs_va s q) - 8"
    unfolding d using Suc.prems(1) by (simp add: unat_sub word_le_nat_alt)
  then have "8 * n \<le> unat (x - rdfs_va s1 (q + 8))" using Suc.prems(1) by simp
  then have "mem (pte_link_loop n (rdfs_va s1 (q + 8)) (q + 8 + 8) s1) x = mem s1 x"
    using Suc.IH [of s1 "q + 8"] Suc.prems(2) by simp
  moreover have "mem s1 x = mem s x" using Suc.prems(1) by (simp add: s1_def store_apart)
  ultimately show ?case by (simp add: Let_def s1_def)
qed simp

lemma pte_link_loop_chain:
  assumes "n \<le> 2 ^ 32" and "i < n"
  shows "ld64 (mem (pte_link_loop n (rdfs_va s q) (q + 8) s)) (rdfs_va s (q + of_nat (8 * i))) = q + of_nat (8 * Suc i)"
  using assms
proof (induction n arbitrary: q s i)
  case (Suc n)
  define s1 where "s1 = put64 s (rdfs_va s q) (q + 8)"
  have va: "rdfs_va s1 = rdfs_va s" by (simp add: s1_def rdfs_va_def fun_eq_iff)
  have step: "pte_link_loop (Suc n) (rdfs_va s q) (q + 8) s = pte_link_loop n (rdfs_va s1 (q + 8)) (q + 8 + 8) s1"
    by (simp add: Let_def s1_def)
  show ?case
  proof (cases i)
    case 0
    have "mem (pte_link_loop n (rdfs_va s1 (q + 8)) (q + 8 + 8) s1) x = mem s1 x" if "x \<in> region (rdfs_va s q) 8" for x
    proof (rule pte_link_loop_outside)
      define j where "j = unat (x - rdfs_va s q)"
      have j: "j < 8" "x - rdfs_va s q = of_nat j" using that by (auto simp: j_def region_iff)
      have "x - rdfs_va s1 (q + 8) = of_nat j - 8" using j(2) by (simp add: va rdfs_va_add algebra_simps)
      moreover have "2 ^ 64 - 8 \<le> unat (of_nat j - 8 :: u64)" using j(1) by (simp add: unat_sub_if' unat_of_nat)
      ultimately show "8 * n \<le> unat (x - rdfs_va s1 (q + 8))" using Suc.prems(1) by simp
    qed (use Suc.prems(1) in simp)
    then have "ld64 (mem (pte_link_loop (Suc n) (rdfs_va s q) (q + 8) s)) (rdfs_va s q) = ld64 (mem s1) (rdfs_va s q)"
      unfolding step by (intro load_agree) simp_all
    then show ?thesis using 0 by (simp add: s1_def)
  next
    case (Suc i')
    have "ld64 (mem (pte_link_loop n (rdfs_va s1 (q + 8)) (q + 8 + 8) s1)) (rdfs_va s1 (q + 8 + of_nat (8 * i'))) =
        q + 8 + of_nat (8 * Suc i')"
      using Suc.IH [of i' s1 "q + 8"] Suc.prems Suc by simp
    then show ?thesis unfolding step va using Suc by (simp add: algebra_simps)
  qed
qed simp

text \<open>After \<open>rdfs_init_pte_free_list\<close> the free entries form one chain of consecutive addresses from the
  first page on, \<open>512\<close> entries for every page asked for.\<close>

theorem pte_free_list_chain:
  assumes "rdfs_init_pte_free_list s cpu page_nums = Some s'" and "0 \<le> page_nums" and "page_nums \<le> 2 ^ 20"
  shows "follow (\<lambda>p. ld64 (mem s') (rdfs_va s' p)) (pte_start_addr (pte_free_list s')) (nat page_nums * 512) =
     map (\<lambda>i. pte_start_addr (pte_free_list s') + of_nat (8 * i)) [0 ..< nat page_nums * 512]"
proof -
  obtain phyaddr s1 where nb: "rdfs_new_block s cpu page_nums 0 = Some (phyaddr, s1)"
    using assms(1) by (auto simp: rdfs_init_pte_free_list_def split: option.splits)
  define s2 where "s2 = s1\<lparr>pte_free_list := \<lparr>pte_start_addr = phyaddr, free_pte_nums = page_nums * 4096 div 8,
    total_page_nums = page_nums, start_addr = ucast phyaddr\<rparr>\<rparr>"
  have s2: "pte_start_addr (pte_free_list s2) = phyaddr" by (simp add: s2_def)
  have "nat (page_nums * 4096 div 8) = nat page_nums * 512" using assms(2) by (simp add: nat_mult_distrib)
  then have s': "s' = pte_link_loop (nat page_nums * 512) (rdfs_va s2 phyaddr) (phyaddr + 8) s2"
    using assms(1) nb unfolding rdfs_init_pte_free_list_def Let_def s2_def by (simp del: nat_mult_distrib)
  define f where "f i = phyaddr + of_nat (8 * i)" for i :: nat
  have va: "rdfs_va s' = rdfs_va s2" by (simp add: s' rdfs_va_def fun_eq_iff)
  have start: "pte_start_addr (pte_free_list s') = f 0" using s2 by (simp add: s' f_def)
  have n: "nat page_nums * 512 \<le> 2 ^ 32" using assms(3) by simp
  have "follow (\<lambda>p. ld64 (mem s') (rdfs_va s' p)) (f 0) (nat page_nums * 512) = map f [0 ..< nat page_nums * 512]"
  proof (rule follow_chain)
    fix i assume "i < nat page_nums * 512"
    then show "ld64 (mem s') (rdfs_va s' (f i)) = f (Suc i)"
      unfolding va f_def unfolding s' by (rule pte_link_loop_chain [OF n])
  qed
  then show ?thesis unfolding start by (simp add: f_def)
qed

theorem pte_free_list_chain_witness:
  "\<exists>s'. rdfs_init_pte_free_list example_smem 0 2 = Some s' \<and>
     follow (\<lambda>p. ld64 (mem s') (rdfs_va s' p)) 0x1800100000 1024 = map (\<lambda>i. 0x1800100000 + of_nat (8 * i)) [0 ..< 1024]"
proof -
  have nd: "get_cpu_numa example_smem 0 = 0xffffc90000004000"
    unfolding nvm_part(12) [OF example_smem_part] by (rule example_tables_node)
  have "free_page_count example_smem (get_cpu_numa example_smem 0) = 5"
    "free_page_phy example_smem (get_cpu_numa example_smem 0) = 0x1800100000"
    by (simp_all add: nd example_smem_part mem_eval)
  then obtain s' where s': "rdfs_init_pte_free_list example_smem 0 2 = Some s'"
      "pte_start_addr (pte_free_list s') = 0x1800100000"
    by (simp add: rdfs_init_pte_free_list_def rdfs_new_block_def Let_def)
  then show ?thesis using pte_free_list_chain [OF s'(1)] by simp
qed

end
