(* ===== verification/Nvmalloc.thy ===== *)
theory Nvmalloc
  imports Layout Resource_Pool "HOL-Library.Multiset"
begin

text \<open>
  The allocator of kernel virtual areas (\<open>rdfs_master/nvmalloc.c\<close>): directory areas of 2 MiB and
  regular-file areas of 32 GiB, each kind with a free list, a used list and two counters. The list
  nodes move between the lists as they are, so a list is modelled by the sequence of its nodes. A
  dereference of a null list head is a kernel fault, the value \<open>None\<close>.
\<close>

section \<open>State\<close>

record nvm_struct =
  vaddr :: u64
  asize :: u64

record nv_lists =
  free_list :: "nvm_struct list"
  used_list :: "nvm_struct list"
  free_cnt :: int
  used_cnt :: int

record nvmalloc_state =
  dir_lists :: nv_lists
  reg_lists :: nv_lists

text \<open>Mode \<open>0\<close> is a regular file, mode \<open>1\<close> a directory.\<close>

definition lists_of :: "int \<Rightarrow> nvmalloc_state \<Rightarrow> nv_lists" where
  "lists_of mode st = (if mode = 0 then reg_lists st else dir_lists st)"

definition set_lists :: "int \<Rightarrow> nvmalloc_state \<Rightarrow> nv_lists \<Rightarrow> nvmalloc_state" where
  "set_lists mode st l = (if mode = 0 then st\<lparr>reg_lists := l\<rparr> else st\<lparr>dir_lists := l\<rparr>)"

section \<open>Operations\<close>

text \<open>Result \<open>0\<close> is the null pointer.\<close>

definition nvmalloc :: "int \<Rightarrow> nvmalloc_state \<Rightarrow> (u64 \<times> nvmalloc_state) option" where
  "nvmalloc mode st =
     (if mode \<noteq> 0 \<and> mode \<noteq> 1 then Some (0, st)
      else
        let l = lists_of mode st
        in if free_cnt l > 0 then
             (case free_list l of
                [] \<Rightarrow> None
              | p # ps \<Rightarrow> Some (vaddr p, set_lists mode st
                  \<lparr>free_list = ps, used_list = p # used_list l,
                   free_cnt = free_cnt l - 1, used_cnt = used_cnt l + 1\<rparr>))
           else Some (0, st))"

text \<open>The search of \<open>nvfree\<close> behind the head of the used list: the node and the list without it.\<close>

primrec unlink_area :: "u64 \<Rightarrow> nvm_struct list \<Rightarrow> (nvm_struct \<times> nvm_struct list) option" where
  "unlink_area a [] = None"
| "unlink_area a (p # ps) =
     (if vaddr p = a then Some (p, ps)
      else case unlink_area a ps of None \<Rightarrow> None | Some (q, qs) \<Rightarrow> Some (q, p # qs))"

definition nvfree_mode :: "u64 \<Rightarrow> int option" where
  "nvfree_mode addr =
     (if RDFS_START \<le> addr \<and> addr < RDFS_START + DIR_AREA_SIZE then Some 1
      else if RDFS_START + DIR_AREA_SIZE \<le> addr \<and> addr < RDFS_END then Some 0
      else None)"

definition nvfree :: "u64 \<Rightarrow> nvmalloc_state \<Rightarrow> nvmalloc_state option" where
  "nvfree addr st =
     (if addr = 0 then Some st
      else case nvfree_mode addr of
        None \<Rightarrow> Some st
      | Some mode \<Rightarrow>
          let l = lists_of mode st
          in case used_list l of
               [] \<Rightarrow> None
             | p # ps \<Rightarrow>
                 (case unlink_area addr (p # ps) of
                    None \<Rightarrow> Some st
                  | Some (q, qs) \<Rightarrow> Some (set_lists mode st
                      \<lparr>free_list = q # free_list l, used_list = qs,
                       free_cnt = free_cnt l + 1, used_cnt = used_cnt l - 1\<rparr>)))"

text \<open>Initialisation: one area is created unconditionally, then areas are appended while they fit. The
  loop condition is on wrapping 64-bit addresses, so the loop is a partial function; \<open>None\<close> is a loop
  that does not end.\<close>

partial_function (option) area_loop ::
  "u64 \<Rightarrow> u64 \<Rightarrow> u64 \<Rightarrow> nvm_struct list \<Rightarrow> (nvm_struct list) option" where
  "area_loop sz limit addr acc =
     (if addr + sz - 1 < limit
      then area_loop sz limit (addr + sz) (acc @ [\<lparr>vaddr = addr, asize = sz\<rparr>])
      else Some acc)"

definition init_lists :: "u64 \<Rightarrow> u64 \<Rightarrow> u64 \<Rightarrow> nv_lists option" where
  "init_lists base sz limit =
     (case area_loop sz limit (base + sz) [\<lparr>vaddr = base, asize = sz\<rparr>] of
        None \<Rightarrow> None
      | Some as \<Rightarrow> Some \<lparr>free_list = as, used_list = [], free_cnt = int (length as), used_cnt = 0\<rparr>)"

definition nvmalloc_init :: "nvmalloc_state option" where
  "nvmalloc_init =
     (case init_lists RDFS_START MAX_DIR_SIZE (RDFS_START + DIR_AREA_SIZE) of
        None \<Rightarrow> None
      | Some d \<Rightarrow>
          (case init_lists (RDFS_START + DIR_AREA_SIZE) MAX_FILE_SIZE RDFS_END of
             None \<Rightarrow> None
           | Some r \<Rightarrow> Some \<lparr>dir_lists = d, reg_lists = r\<rparr>))"

section \<open>Initialisation ends and covers the two areas\<close>

definition area_list :: "u64 \<Rightarrow> u64 \<Rightarrow> nat \<Rightarrow> nvm_struct list" where
  "area_list base sz n = map (\<lambda>i. \<lparr>vaddr = base + of_nat i * sz, asize = sz\<rparr>) [0..<n]"

lemma area_loop_runs:
  assumes "\<And>i. k \<le> i \<Longrightarrow> i < n \<Longrightarrow> base + of_nat i * sz + sz - 1 < limit"
    and "\<not> base + of_nat n * sz + sz - 1 < limit" and "k \<le> n"
  shows "area_loop sz limit (base + of_nat k * sz) (area_list base sz k)
       = Some (area_list base sz n)"
  using assms(1,3)
proof (induction "n - k" arbitrary: k)
  case 0
  then have "k = n" by simp
  then show ?case using assms(2) by (subst area_loop.simps) simp
next
  case (Suc d)
  then have k: "k < n" by simp
  have "area_list base sz k @ [\<lparr>vaddr = base + of_nat k * sz, asize = sz\<rparr>]
      = area_list base sz (Suc k)"
    by (simp add: area_list_def)
  moreover have "base + of_nat k * sz + sz = base + of_nat (Suc k) * sz"
    by (simp add: algebra_simps)
  moreover have "area_loop sz limit (base + of_nat (Suc k) * sz) (area_list base sz (Suc k))
      = Some (area_list base sz n)"
    using Suc by (intro Suc.hyps) auto
  ultimately show ?case
    using Suc.prems(1) [of k] k by (subst area_loop.simps) (simp only: le_refl simp_thms if_True)
qed

lemma area_loop_count:
  assumes "unat base + (n + 1) * unat sz \<le> unat limit + unat sz"
    and "unat limit < unat base + (n + 1) * unat sz" and "0 < n" and "0 < unat sz"
    and "unat base + (n + 1) * unat sz < 2 ^ 64"
  shows "area_loop sz limit (base + sz) [\<lparr>vaddr = base, asize = sz\<rparr>] = Some (area_list base sz n)"
proof -
  have u: "unat (base + of_nat i * sz + sz - 1) = unat base + i * unat sz + unat sz - 1"
    if "i \<le> n" for i
  proof -
    have le: "i * unat sz + unat sz \<le> (n + 1) * unat sz" using that by simp
    have lt: "unat base + i * unat sz + unat sz < 2 ^ 64" using le assms(5) by linarith
    then have "i * unat sz < 2 ^ 64" by linarith
    then have m: "unat (of_nat i * sz) = i * unat sz"
      by (simp add: unat_word_ariths unat_of_nat mod_mult_left_eq)
    have "unat (base + of_nat i * sz + sz) = unat base + i * unat sz + unat sz"
      using lt m by (simp add: unat_word_ariths mod_add_left_eq)
    moreover have "base + of_nat i * sz + sz \<noteq> 0"
      using calculation assms(4) by (auto simp: unat_eq_0 [symmetric] simp del: unat_eq_0)
    ultimately show ?thesis by (simp add: unat_minus_one)
  qed
  have "area_loop sz limit (base + of_nat 1 * sz) (area_list base sz 1) = Some (area_list base sz n)"
  proof (rule area_loop_runs)
    fix i assume i: "1 \<le> i" "i < n"
    then have "i * unat sz + unat sz \<le> n * unat sz"
      by (metis Suc_leI add.commute mult_Suc mult_le_mono1)
    then have "unat base + i * unat sz + unat sz \<le> unat limit" using assms(1) by simp
    then show "base + of_nat i * sz + sz - 1 < limit"
      using u [of i] i assms(4) by (simp add: word_less_nat_alt)
  next
    show "\<not> base + of_nat n * sz + sz - 1 < limit"
      using u [of n] assms(2) by (simp add: word_less_nat_alt)
  qed (use assms(3) in simp)
  then show ?thesis by (simp add: area_list_def)
qed

lemma init_dir_lists:
  "init_lists RDFS_START MAX_DIR_SIZE (RDFS_START + DIR_AREA_SIZE) = Some
     \<lparr>free_list = area_list RDFS_START MAX_DIR_SIZE 16384, used_list = [],
      free_cnt = 16384, used_cnt = 0\<rparr>"
proof -
  have "area_loop MAX_DIR_SIZE (RDFS_START + DIR_AREA_SIZE) (RDFS_START + MAX_DIR_SIZE)
      [\<lparr>vaddr = RDFS_START, asize = MAX_DIR_SIZE\<rparr>] = Some (area_list RDFS_START MAX_DIR_SIZE 16384)"
    by (rule area_loop_count) (simp_all add: consts_eval)
  then show ?thesis by (simp add: init_lists_def area_list_def)
qed

lemma init_reg_lists:
  "init_lists (RDFS_START + DIR_AREA_SIZE) MAX_FILE_SIZE RDFS_END = Some
     \<lparr>free_list = area_list (RDFS_START + DIR_AREA_SIZE) MAX_FILE_SIZE 958, used_list = [],
      free_cnt = 958, used_cnt = 0\<rparr>"
proof -
  have "area_loop MAX_FILE_SIZE RDFS_END (RDFS_START + DIR_AREA_SIZE + MAX_FILE_SIZE)
      [\<lparr>vaddr = RDFS_START + DIR_AREA_SIZE, asize = MAX_FILE_SIZE\<rparr>]
      = Some (area_list (RDFS_START + DIR_AREA_SIZE) MAX_FILE_SIZE 958)"
    by (rule area_loop_count) (simp_all add: consts_eval)
  then show ?thesis by (simp add: init_lists_def area_list_def)
qed

section \<open>The invariant\<close>

definition nodes :: "nv_lists \<Rightarrow> nvm_struct list" where
  "nodes l = free_list l @ used_list l"

definition lists_ok :: "int \<Rightarrow> nv_lists \<Rightarrow> bool" where
  "lists_ok mode l \<longleftrightarrow> free_cnt l = int (length (free_list l)) \<and> used_cnt l = int (length (used_list l)) \<and>
     distinct (map vaddr (nodes l)) \<and>
     list_all (\<lambda>p. vaddr p \<noteq> 0 \<and> nvfree_mode (vaddr p) = Some mode) (nodes l)"

definition nv_inv :: "nvmalloc_state \<Rightarrow> bool" where
  "nv_inv st \<longleftrightarrow> lists_ok 0 (reg_lists st) \<and> lists_ok 1 (dir_lists st)"

definition free_areas :: "nvmalloc_state \<Rightarrow> u64 set" where
  "free_areas st = vaddr ` (set (free_list (reg_lists st)) \<union> set (free_list (dir_lists st)))"

definition all_areas :: "nvmalloc_state \<Rightarrow> u64 set" where
  "all_areas st = vaddr ` (set (nodes (reg_lists st)) \<union> set (nodes (dir_lists st)))"

lemma nvfree_mode_cases: "nvfree_mode a = Some m \<Longrightarrow> m = 0 \<or> m = 1"
  by (auto simp: nvfree_mode_def split: if_splits)

lemma unlink_area_Some:
  assumes "unlink_area a ps = Some (q, qs)"
  shows "vaddr q = a" and "mset ps = add_mset q (mset qs)"
  using assms by (induction ps arbitrary: qs) (auto split: if_splits option.splits prod.splits)

lemma unlink_area_None: "unlink_area a ps = None \<longleftrightarrow> a \<notin> vaddr ` set ps"
  by (induction ps) (auto split: option.splits)

lemma distinct_mset: "mset xs = mset ys \<Longrightarrow> distinct xs = distinct ys"
  by (metis distinct_count_atmost_1 mset_eq_setD)

text \<open>Moving a node between the two lists of a kind keeps the kind's invariant.\<close>

lemma lists_ok_mset:
  assumes "lists_ok m l" and "mset (nodes l') = mset (nodes l)"
    and "free_cnt l' = int (length (free_list l'))" and "used_cnt l' = int (length (used_list l'))"
  shows "lists_ok m l'" and "set (nodes l') = set (nodes l)"
proof -
  have "mset (map vaddr (nodes l')) = mset (map vaddr (nodes l))" using assms(2) by (simp only: mset_map)
  then have "distinct (map vaddr (nodes l')) = distinct (map vaddr (nodes l))" by (rule distinct_mset)
  moreover show s: "set (nodes l') = set (nodes l)" using assms(2) by (rule mset_eq_setD)
  ultimately show "lists_ok m l'" using assms by (simp add: lists_ok_def list_all_iff)
qed

lemma nv_inv_lists: "nv_inv st \<Longrightarrow> m = 0 \<or> m = 1 \<Longrightarrow> lists_ok m (lists_of m st)"
  by (auto simp: nv_inv_def lists_of_def)

lemma nv_inv_set_lists:
  "nv_inv st \<Longrightarrow> m = 0 \<or> m = 1 \<Longrightarrow> lists_ok m l \<Longrightarrow> nv_inv (set_lists m st l)"
  by (auto simp: nv_inv_def set_lists_def)

lemma areas_set_lists:
  assumes "m = 0 \<or> m = 1"
  shows "free_areas (set_lists m st l)
       = vaddr ` (set (free_list l) \<union> set (free_list (lists_of (1 - m) st)))"
    and "all_areas (set_lists m st l) = vaddr ` (set (nodes l) \<union> set (nodes (lists_of (1 - m) st)))"
    and "free_areas st = vaddr ` (set (free_list (lists_of m st)) \<union> set (free_list (lists_of (1 - m) st)))"
    and "all_areas st = vaddr ` (set (nodes (lists_of m st)) \<union> set (nodes (lists_of (1 - m) st)))"
  using assms by (auto simp: free_areas_def all_areas_def set_lists_def lists_of_def)

text \<open>Nodes of the two kinds have different addresses, because their modes differ.\<close>

lemma other_kind:
  assumes "nv_inv st" and "m = 0 \<or> m = 1" and "p \<in> set (nodes (lists_of m st))"
    and "q \<in> set (nodes (lists_of (1 - m) st))"
  shows "vaddr p \<noteq> vaddr q"
proof -
  have "lists_ok m (lists_of m st)" "lists_ok (1 - m) (lists_of (1 - m) st)"
    using assms(1,2) by (auto intro!: nv_inv_lists)
  then have "nvfree_mode (vaddr p) = Some m" "nvfree_mode (vaddr q) = Some (1 - m)"
    using assms(3,4) by (auto simp: lists_ok_def list_all_iff)
  then show ?thesis using assms(2) by auto
qed

section \<open>What the operations do\<close>

lemma nvmalloc_takes:
  assumes "nv_inv st" and "m = 0 \<or> m = 1"
  shows "case free_list (lists_of m st) of
     [] \<Rightarrow> nvmalloc m st = Some (0, st)
   | p # ps \<Rightarrow> \<exists>st'. nvmalloc m st = Some (vaddr p, st') \<and> nv_inv st' \<and> vaddr p \<noteq> 0
       \<and> free_areas st' = free_areas st - {vaddr p} \<and> all_areas st' = all_areas st"
proof (cases "free_list (lists_of m st)")
  case Nil
  then have "free_cnt (lists_of m st) = 0" using nv_inv_lists [OF assms] by (simp add: lists_ok_def)
  then show ?thesis using Nil assms(2) by (auto simp: nvmalloc_def Let_def)
next
  case (Cons p ps)
  let ?l = "lists_of m st"
  define l' where "l' = \<lparr>free_list = ps, used_list = p # used_list ?l,
      free_cnt = free_cnt ?l - 1, used_cnt = used_cnt ?l + 1\<rparr>"
  note ok = nv_inv_lists [OF assms]
  have r: "nvmalloc m st = Some (vaddr p, set_lists m st l')"
    using Cons assms(2) ok by (auto simp: nvmalloc_def Let_def l'_def lists_ok_def)
  have ms: "mset (nodes l') = mset (nodes ?l)" using Cons by (simp add: nodes_def l'_def)
  have ok': "lists_ok m l'" "set (nodes l') = set (nodes ?l)"
    using lists_ok_mset [OF ok ms] ok Cons by (auto simp: l'_def lists_ok_def)
  have pn: "p \<in> set (nodes ?l)" using Cons by (simp add: nodes_def)
  have "vaddr p \<notin> vaddr ` set (free_list (lists_of (1 - m) st))"
    using other_kind [OF assms pn] by (auto simp: nodes_def)
  moreover have "vaddr p \<notin> vaddr ` set ps" using ok Cons by (auto simp: lists_ok_def nodes_def)
  ultimately have "free_areas (set_lists m st l') = free_areas st - {vaddr p}"
    unfolding areas_set_lists(1) [OF assms(2)] areas_set_lists(3) [OF assms(2), where st = st]
    using Cons by (auto simp: l'_def) (metis imageI)+
  moreover have "all_areas (set_lists m st l') = all_areas st"
    unfolding areas_set_lists(2) [OF assms(2)] areas_set_lists(4) [OF assms(2), where st = st] ok'(2) ..
  moreover have "vaddr p \<noteq> 0" using ok pn by (simp add: lists_ok_def list_all_iff)
  ultimately show ?thesis using Cons r nv_inv_set_lists [OF assms ok'(1)] by simp
qed

lemma nvfree_gives:
  assumes "nv_inv st" and "a \<in> all_areas st" and "a \<notin> free_areas st"
  shows "\<exists>st'. nvfree a st = Some st' \<and> nv_inv st' \<and> free_areas st' = insert a (free_areas st)
       \<and> all_areas st' = all_areas st"
proof -
  obtain m p where m: "m = 0 \<or> m = 1" and p: "p \<in> set (nodes (lists_of m st))" "vaddr p = a"
  proof -
    have "a \<in> vaddr ` set (nodes (lists_of 0 st)) \<or> a \<in> vaddr ` set (nodes (lists_of 1 st))"
      using assms(2) by (auto simp: all_areas_def lists_of_def)
    then show thesis using that by blast
  qed
  let ?l = "lists_of m st"
  note ok = nv_inv_lists [OF assms(1) m]
  have md: "nvfree_mode a = Some m" "a \<noteq> 0" using ok p by (auto simp: lists_ok_def list_all_iff)
  have u: "p \<in> set (used_list ?l)"
    using p assms(3) unfolding areas_set_lists(3) [OF m, where st = st] nodes_def by auto
  then obtain q qs where q: "unlink_area a (used_list ?l) = Some (q, qs)"
    using unlink_area_None [of a "used_list ?l"] p(2) by (cases "unlink_area a (used_list ?l)") auto
  define l' where "l' = \<lparr>free_list = q # free_list ?l, used_list = qs,
      free_cnt = free_cnt ?l + 1, used_cnt = used_cnt ?l - 1\<rparr>"
  have r: "nvfree a st = Some (set_lists m st l')"
    using md u q by (cases "used_list ?l") (auto simp: nvfree_def Let_def l'_def)
  have vq: "vaddr q = a" and mq: "mset (used_list ?l) = add_mset q (mset qs)"
    using unlink_area_Some [OF q] by auto
  have ms: "mset (nodes l') = mset (nodes ?l)" using mq by (simp add: nodes_def l'_def)
  have "length (used_list ?l) = Suc (length qs)" using mq by (metis size_add_mset size_mset)
  then have ok': "lists_ok m l'" "set (nodes l') = set (nodes ?l)"
    using lists_ok_mset [OF ok ms] ok by (auto simp: l'_def lists_ok_def)
  have "free_areas (set_lists m st l') = insert a (free_areas st)"
    unfolding areas_set_lists(1) [OF m] areas_set_lists(3) [OF m, where st = st] using vq by (auto simp: l'_def)
  moreover have "all_areas (set_lists m st l') = all_areas st"
    unfolding areas_set_lists(2) [OF m] areas_set_lists(4) [OF m, where st = st] ok'(2) ..
  ultimately show ?thesis using r nv_inv_set_lists [OF assms(1) m ok'(1)] by simp
qed

section \<open>Virtual areas as a resource pool\<close>

definition alloc_area :: "int \<Rightarrow> nvmalloc_state \<Rightarrow> (u64 \<times> nvmalloc_state) option" where
  "alloc_area m st = (case nvmalloc m st of
      Some (a, st') \<Rightarrow> if a = 0 then None else Some (a, st') | None \<Rightarrow> None)"

definition give_area :: "u64 \<Rightarrow> nvmalloc_state \<Rightarrow> nvmalloc_state" where
  "give_area a st = (case nvfree a st of Some st' \<Rightarrow> st' | None \<Rightarrow> st)"

lemma alloc_area_effect:
  assumes "nv_inv st" and "alloc_area m st = Some (a, st')"
  shows "a \<in> free_areas st" "free_areas st' = free_areas st - {a}" "nv_inv st'"
    "all_areas st' = all_areas st"
proof -
  have m: "m = 0 \<or> m = 1" using assms(2) by (auto simp: alloc_area_def nvmalloc_def split: if_splits)
  obtain p ps where l: "free_list (lists_of m st) = p # ps"
    using nvmalloc_takes [OF assms(1) m] assms(2)
    by (cases "free_list (lists_of m st)") (auto simp: alloc_area_def)
  then have r: "nvmalloc m st = Some (a, st')" "a = vaddr p" and e: "nv_inv st'"
    "free_areas st' = free_areas st - {vaddr p}" "all_areas st' = all_areas st"
    using nvmalloc_takes [OF assms(1) m] assms(2) by (auto simp: alloc_area_def)
  show "a \<in> free_areas st" using l r(2) by (simp add: areas_set_lists(3) [OF m])
  show "free_areas st' = free_areas st - {a}" "nv_inv st'" "all_areas st' = all_areas st"
    using e r(2) by simp_all
qed

lemma give_area_effect:
  assumes "nv_inv st" and "a \<in> all_areas st" and "a \<notin> free_areas st"
  shows "free_areas (give_area a st) = insert a (free_areas st)" "nv_inv (give_area a st)"
    "all_areas (give_area a st) = all_areas st"
  using nvfree_gives [OF assms] by (auto simp: give_area_def)

interpretation area_pool: resource_pool alloc_area give_area free_areas nv_inv "\<lambda>st a. a \<in> all_areas st"
proof
  fix st st' a m
  assume inv: "nv_inv st"
  show "a \<in> free_areas st \<Longrightarrow> a \<in> all_areas st"
    by (auto simp: free_areas_def all_areas_def nodes_def)
  { assume "alloc_area m st = Some (a, st')"
    note e = alloc_area_effect [OF inv this]
    show "a \<in> free_areas st" "free_areas st' = free_areas st - {a}" "nv_inv st'"
      "(\<lambda>a. a \<in> all_areas st') = (\<lambda>a. a \<in> all_areas st)"
      using e by simp_all }
  { assume "a \<in> all_areas st" "a \<notin> free_areas st"
    note e = give_area_effect [OF inv this]
    show "free_areas (give_area a st) = insert a (free_areas st)" "nv_inv (give_area a st)"
      "(\<lambda>x. x \<in> all_areas (give_area a st)) = (\<lambda>x. x \<in> all_areas st)"
      using e by simp_all }
qed

section \<open>Properties of the area allocator\<close>

lemma area_list_distinct:
  assumes "n * unat sz \<le> 2 ^ 64" and "0 < unat sz"
  shows "distinct (map vaddr (area_list base sz n))"
proof -
  have u: "unat (of_nat i * sz) = i * unat sz" if "i < n" for i
  proof -
    have "i * unat sz < n * unat sz" using that assms(2) by simp
    then have "i * unat sz < 2 ^ 64" using assms(1) by linarith
    then show ?thesis by (simp add: unat_word_ariths unat_of_nat mod_mult_left_eq)
  qed
  have "inj_on (\<lambda>i. base + of_nat i * sz) {0..<n}"
  proof (rule inj_onI)
    fix i j assume ij: "i \<in> {0..<n}" "j \<in> {0..<n}" "base + of_nat i * sz = base + of_nat j * sz"
    then have "unat (of_nat i * sz) = unat (of_nat j * sz)" by simp
    then have "i * unat sz = j * unat sz" using u [of i] u [of j] ij(1,2) by (metis atLeastLessThan_iff)
    then show "i = j" using assms(2) by simp
  qed
  then show ?thesis by (simp add: area_list_def comp_def distinct_map)
qed

lemma area_list_mode:
  assumes "p \<in> set (area_list base sz n)" and "unat base + n * unat sz < 2 ^ 64" and "0 < unat sz"
  obtains i where "i < n" "unat (vaddr p) = unat base + i * unat sz"
proof -
  obtain i where i: "i < n" "vaddr p = base + of_nat i * sz" using assms(1) by (auto simp: area_list_def)
  have "i * unat sz \<le> n * unat sz" using i(1) by simp
  then have lt: "unat base + i * unat sz < 2 ^ 64" using assms(2) by linarith
  then have "i * unat sz < 2 ^ 64" by linarith
  then have "unat (of_nat i * sz) = i * unat sz"
    by (simp add: unat_word_ariths unat_of_nat mod_mult_left_eq)
  then have "unat (vaddr p) = unat base + i * unat sz" using lt i(2) by (simp add: unat_word_ariths)
  with i(1) that show thesis by blast
qed

lemma dir_area_mode:
  assumes "p \<in> set (area_list RDFS_START MAX_DIR_SIZE 16384)"
  shows "vaddr p \<noteq> 0 \<and> nvfree_mode (vaddr p) = Some 1"
proof -
  obtain i where "i < 16384" "unat (vaddr p) = unat RDFS_START + i * unat MAX_DIR_SIZE"
    by (rule area_list_mode [OF assms]) (simp_all add: consts_eval)
  then show ?thesis
    by (auto simp: nvfree_mode_def word_le_nat_alt word_less_nat_alt consts_eval unat_eq_0 [symmetric]
        simp del: unat_eq_0)
qed

lemma reg_area_mode:
  assumes "p \<in> set (area_list (RDFS_START + DIR_AREA_SIZE) MAX_FILE_SIZE 958)"
  shows "vaddr p \<noteq> 0 \<and> nvfree_mode (vaddr p) = Some 0"
proof -
  obtain i where "i < 958" "unat (vaddr p) = unat (RDFS_START + DIR_AREA_SIZE) + i * unat MAX_FILE_SIZE"
    by (rule area_list_mode [OF assms]) (simp_all add: consts_eval)
  then show ?thesis
    by (auto simp: nvfree_mode_def word_le_nat_alt word_less_nat_alt consts_eval unat_eq_0 [symmetric]
        simp del: unat_eq_0)
qed

definition nv_start :: nvmalloc_state where
  "nv_start =
     \<lparr>dir_lists = \<lparr>free_list = area_list RDFS_START MAX_DIR_SIZE 16384, used_list = [],
                   free_cnt = 16384, used_cnt = 0\<rparr>,
      reg_lists = \<lparr>free_list = area_list (RDFS_START + DIR_AREA_SIZE) MAX_FILE_SIZE 958, used_list = [],
                   free_cnt = 958, used_cnt = 0\<rparr>\<rparr>"

lemma nv_start_inv: "nv_inv nv_start"
  using dir_area_mode reg_area_mode
    area_list_distinct [of 16384 MAX_DIR_SIZE RDFS_START]
    area_list_distinct [of 958 MAX_FILE_SIZE "RDFS_START + DIR_AREA_SIZE"]
  by (simp add: nv_inv_def lists_ok_def nodes_def nv_start_def list_all_iff consts_eval)
    (simp add: area_list_def)

text \<open>C29. \<open>nvmalloc_init\<close> terminates, with 16384 directory areas of 2 MiB and 958 file areas of 32 GiB, all
  distinct and each inside its region, and establishes the allocator's invariant.\<close>

theorem nvmalloc_init_spec:
  "nvmalloc_init = Some nv_start \<and> nv_inv nv_start"
  using init_dir_lists init_reg_lists nv_start_inv by (simp add: nvmalloc_init_def nv_start_def)


text \<open>Freeing an address of the directory region while no directory area is in use dereferences the
  null head of the used list.\<close>

theorem nvfree_faults_on_empty:
  assumes "nvfree_mode a = Some m" and "used_list (lists_of m st) = []"
  shows "nvfree a st = None"
proof -
  have "a \<noteq> 0" using assms(1) by (auto simp: nvfree_mode_def consts_eval split: if_splits)
  then show ?thesis using assms by (simp add: nvfree_def)
qed

end
