(* ===== verification/Disk_Pool.thy ===== *)
theory Disk_Pool
  imports Layout "HOL-Library.Signed_Division"
begin

text \<open>
  The sector allocator for block devices behind the NVM (\<open>rdfs_master/balloc.c\<close>): each device has a
  range of sectors never handed out, one stack of free sectors per CPU and a reserve stack. The
  stacks are arrays of sector numbers at fixed kernel addresses, modelled as a map from element
  addresses to sector numbers; the arithmetic on indices and on the \<open>int\<close> locals is that of the code.
  Opening a device is a call into the kernel and a parameter of the mount-option parser.
\<close>

section \<open>State\<close>

definition CPU_NR :: nat where [consts_eval]: "CPU_NR = 24"
definition COUNT_PER_ALLOC :: u64 where [consts_eval]: "COUNT_PER_ALLOC = 512"
definition DEFAYLT_CAPACITY :: int where [consts_eval]: "DEFAYLT_CAPACITY = 512"
definition MAX_CAPACITY :: u64 where [consts_eval]: "MAX_CAPACITY = 0x40000"
definition BDEV_VIRT_ADDR :: u64 where [consts_eval]: "BDEV_VIRT_ADDR = 0xffffe90000000000"
definition BDEV_VIRT_AERA :: u64 where [consts_eval]: "BDEV_VIRT_AERA = 0x400000000"

record block_pool_per_cpu =
  post :: int
  capacity :: int
  address :: u64

record bdev_des =
  bd_start :: u64
  bd_end :: u64
  block_pool :: "nat \<Rightarrow> block_pool_per_cpu"
  pool_mem :: "u64 \<Rightarrow> u64"

text \<open>Element \<open>i\<close> of an array of 8-byte elements; a negative index reads in front of the array.\<close>

definition elem :: "u64 \<Rightarrow> int \<Rightarrow> u64" where
  "elem a i = a + word_of_int (8 * i)"

abbreviation pool_upd :: "bdev_des \<Rightarrow> nat \<Rightarrow> block_pool_per_cpu \<Rightarrow> bdev_des" where
  "pool_upd d i bp \<equiv> d\<lparr>block_pool := (block_pool d)(i := bp)\<rparr>"

section \<open>Operations\<close>

text \<open>\<open>int start = bdev_des->start\<close> keeps the low 32 bits as a signed number.\<close>

definition to_int :: "u64 \<Rightarrow> int" where
  "to_int w = signed_take_bit 31 (uint w)"

primrec fill_pool :: "(u64 \<Rightarrow> u64) \<Rightarrow> u64 \<Rightarrow> nat \<Rightarrow> int \<Rightarrow> (u64 \<Rightarrow> u64)" where
  "fill_pool m a 0 start = m"
| "fill_pool m a (Suc n) start =
     (fill_pool m a n start)(elem a (int n) := word_of_int (start + int n))"

primrec copy_pool :: "(u64 \<Rightarrow> u64) \<Rightarrow> u64 \<Rightarrow> u64 \<Rightarrow> nat \<Rightarrow> (u64 \<Rightarrow> u64)" where
  "copy_pool m dst src 0 = m"
| "copy_pool m dst src (Suc n) =
     (copy_pool m dst src n)(elem dst (int n) := m (elem src (int n)))"

text \<open>The refill of an empty stack; \<open>None\<close> is the early return \<open>-1\<close>. The source of the copy from the
  reserve is \<open>address + sizeof(sector_t) * count\<close> elements, scaled by the element size once more.\<close>

definition refill_pool :: "bdev_des \<Rightarrow> nat \<Rightarrow> bdev_des option" where
  "refill_pool d cpu =
     (let bp = block_pool d cpu; rp = block_pool d CPU_NR
      in if post rp = 0 then
           if bd_start d = bd_end d then None
           else
             let start = to_int (bd_start d);
                 (count, d1) =
                   (if bd_start d + COUNT_PER_ALLOC - 1 \<le> bd_end d
                    then (512, d\<lparr>bd_start := bd_start d + COUNT_PER_ALLOC\<rparr>)
                    else (to_int (bd_end d - bd_start d + 1), d\<lparr>bd_start := bd_end d\<rparr>));
                 d2 = d1\<lparr>pool_mem := fill_pool (pool_mem d1) (address bp) (nat count) start\<rparr>
             in Some (pool_upd d2 cpu (bp\<lparr>post := count\<rparr>))
         else
           let count = (if post rp > 512 then 512 else post rp);
               d1 = pool_upd d CPU_NR (rp\<lparr>post := post rp - count\<rparr>);
               d2 = d1\<lparr>pool_mem := copy_pool (pool_mem d1) (address bp)
                          (elem (address rp) (8 * count)) (nat count)\<rparr>;
               bp2 = block_pool d2 cpu
           in Some (pool_upd d2 cpu (bp2\<lparr>post := post bp2 + count\<rparr>)))"

definition rdfs_alloc_a_disk_block :: "bdev_des \<Rightarrow> nat \<Rightarrow> u64 \<times> bdev_des" where
  "rdfs_alloc_a_disk_block d cpu =
     (case (if post (block_pool d cpu) = 0 then refill_pool d cpu else Some d) of
        None \<Rightarrow> (- 1, d)
      | Some d1 \<Rightarrow>
          let bp = block_pool d1 cpu; bp1 = bp\<lparr>post := post bp - 1\<rparr>
          in (pool_mem d1 (elem (address bp) (post bp1)), pool_upd d1 cpu bp1))"

text \<open>Growing a stack by one page of elements maps that page; the mapping itself is the page-table
  code of \<open>bdev_insert_a_page\<close>.\<close>

definition free_into_pool :: "bdev_des \<Rightarrow> nat \<Rightarrow> u64 \<Rightarrow> bdev_des" where
  "free_into_pool d i sn =
     (let bp = block_pool d i;
          bp1 = (if post bp \<ge> capacity bp then bp\<lparr>capacity := capacity bp + 512\<rparr> else bp);
          d1 = d\<lparr>pool_mem := (pool_mem d)(elem (address bp) (post bp1) := sn)\<rparr>
      in pool_upd d1 i (bp1\<lparr>post := post bp1 + 1\<rparr>))"

definition rdfs_free_a_disk_block :: "bdev_des \<Rightarrow> nat \<Rightarrow> u64 \<Rightarrow> bdev_des" where
  "rdfs_free_a_disk_block d cpu sn =
     (if post (block_pool d cpu) = capacity (block_pool d cpu) then free_into_pool d CPU_NR sn
      else free_into_pool d cpu sn)"

text \<open>Round-robin choice of a device, with C's truncating remainder on \<open>int\<close>; \<open>None\<close> is the division trap
  when no device is configured.\<close>

definition rdfs_alloc_bdev :: "'a nvm_scheme \<Rightarrow> (u64 \<times> u64 \<times> 'a nvm_scheme) option" where
  "rdfs_alloc_bdev s =
     (let c = atomic_bdev_post (sbi s) + 1;
          s1 = s\<lparr>sbi := (sbi s)\<lparr>atomic_bdev_post := c\<rparr>\<rparr>
      in if bdev_count (sbi s) = 0 then None
         else let bdev_id = word_of_int (sint c smod sint (bdev_count (sbi s)))
              in Some (bdev_id, virt_addr (sbi s1) + BDEV_DES_OFFSET + bdev_id * sizeof_bdev_des, s1))"

text \<open>The stacks right after mount: pools \<open>0\<close> to \<open>CPU_NR\<close>, \<open>MAX_CAPACITY\<close> elements apart.\<close>

definition init_bdev_pool :: "bdev_des \<Rightarrow> u64 \<Rightarrow> int \<Rightarrow> bdev_des" where
  "init_bdev_pool d a cap =
     d\<lparr>block_pool := (\<lambda>i. if i \<le> CPU_NR
        then \<lparr>post = 0, capacity = cap, address = a + of_nat i * (MAX_CAPACITY * 8)\<rparr>
        else block_pool d i)\<rparr>"

definition rdfs_get_bdev_size :: "u64 \<Rightarrow> u64" where
  "rdfs_get_bdev_size nr_sects = drop_bit 3 nr_sects"

section \<open>The device list of the mount options\<close>

text \<open>\<open>strncmp(options, prefix, n) == 0\<close> for a prefix of length \<open>n\<close> without NUL, and the cut at the first
  comma (or the end) that \<open>strchr\<close> finds.\<close>

definition starts_with :: "string \<Rightarrow> string \<Rightarrow> bool" where
  "starts_with pre xs \<longleftrightarrow> take (length pre) xs = pre"

definition cut :: "string \<Rightarrow> string \<times> string" where
  "cut xs = (takeWhile (\<lambda>c. c \<noteq> CHR '','') xs, dropWhile (\<lambda>c. c \<noteq> CHR '','') xs)"

text \<open>\<open>rdfs_init_bdev\<close>: \<open>open_bdev\<close> stands for \<open>blkdev_get_by_path\<close> and returns the size in 512-byte sectors.
  The descriptors are filled one behind the other; a device that cannot be opened is skipped.\<close>

record bdev_entry =
  be_start :: u64
  be_end :: u64

definition rdfs_init_bdev ::
  "(string \<Rightarrow> u64 option) \<Rightarrow> string \<Rightarrow> (bdev_entry list \<times> u64) \<Rightarrow> (bdev_entry list \<times> u64)" where
  "rdfs_init_bdev open_bdev path st =
     (case open_bdev path of
        None \<Rightarrow> st
      | Some nr_sects \<Rightarrow>
          (fst st @ [\<lparr>be_start = 1, be_end = rdfs_get_bdev_size nr_sects\<rparr>], snd st + sizeof_bdev_des))"

function get_bdev_loop ::
  "(string \<Rightarrow> u64 option) \<Rightarrow> string \<Rightarrow> (bdev_entry list \<times> u64) \<Rightarrow> (bdev_entry list \<times> u64) \<times> string" where
  "get_bdev_loop open_bdev options st =
     (if starts_with ''/dev'' options
      then let st1 = rdfs_init_bdev open_bdev (fst (cut options)) st;
               rest = (case snd (cut options) of [] \<Rightarrow> [] | c # cs \<Rightarrow> cs)
           in get_bdev_loop open_bdev rest st1
      else (st, options))"
  by pat_completeness auto

lemma starts_with_cut_shorter:
  assumes "starts_with ''/dev'' options"
  shows "length (case snd (cut options) of [] \<Rightarrow> [] | c # cs \<Rightarrow> cs) < length options"
proof -
  obtain xs where o: "options = ''/dev'' @ xs"
    using assms unfolding starts_with_def by (metis append_take_drop_id)
  have "length (dropWhile (\<lambda>c. c \<noteq> CHR '','') xs) \<le> length xs" by (rule length_dropWhile_le)
  then show ?thesis by (auto simp: o cut_def split: list.splits)
qed

termination get_bdev_loop
  by (relation "measure (\<lambda>(_, options, _). length options)") (auto dest: starts_with_cut_shorter)

declare get_bdev_loop.simps [simp del]

text \<open>\<open>rdfs_get_bdev\<close>: the descriptors found, the address behind them, and the rest of the options. The
  number of descriptors is \<open>sbi->bdev_count\<close>.\<close>

definition rdfs_get_bdev ::
  "(string \<Rightarrow> u64 option) \<Rightarrow> 'a nvm_scheme \<Rightarrow> string \<Rightarrow> (bdev_entry list \<times> u64) \<times> string" where
  "rdfs_get_bdev open_bdev s options =
     (let bdev_address = virt_addr (sbi s) + RDFS_SB_SPACE + ADDRESS_TO_INO_SPACE
      in if \<not> starts_with ''bdev='' options then (([], bdev_address), options)
         else get_bdev_loop open_bdev (drop 5 options) ([], bdev_address))"

section \<open>Lemmas on the stacks\<close>

text \<open>The free sectors of a stack, bottom first.\<close>

definition pool_list :: "bdev_des \<Rightarrow> nat \<Rightarrow> u64 list" where
  "pool_list d i = map (\<lambda>k. pool_mem d (elem (address (block_pool d i)) (int k)))
                     [0..<nat (post (block_pool d i))]"

text \<open>Stack sizes stay below \<open>MAX_CAPACITY\<close>, so the elements of a stack are distinct addresses.\<close>

lemma elem_inj:
  assumes "0 \<le> i" "i < 0x40000" "0 \<le> j" "j < 0x40000" "elem a i = elem a j"
  shows "i = j"
proof -
  have "(word_of_int (8 * i) :: u64) = word_of_int (8 * j)" using assms(5) by (simp add: elem_def)
  then have "uint (word_of_int (8 * i) :: u64) = uint (word_of_int (8 * j) :: u64)" by simp
  then have "8 * i mod 2 ^ 64 = 8 * j mod 2 ^ 64" unfolding uint_word_of_int by simp
  then show ?thesis using assms by simp
qed

lemma fill_pool_other:
  "(\<And>k. k < n \<Longrightarrow> x \<noteq> elem a (int k)) \<Longrightarrow> fill_pool m a n start x = m x"
  by (induction n) auto

lemma fill_pool_elem:
  assumes "k < n" and "n \<le> 0x40000"
  shows "fill_pool m a n start (elem a (int k)) = word_of_int (start + int k)"
  using assms
proof (induction n)
  case 0
  then show ?case by simp
next
  case (Suc n)
  then show ?case
    using elem_inj [of "int k" "int n" a] by (cases "k = n") auto
qed

text \<open>Stacks of different CPUs live in different areas.\<close>

definition pools_ok :: "bdev_des \<Rightarrow> bool" where
  "pools_ok d \<longleftrightarrow> (\<forall>i \<le> CPU_NR. 0 \<le> post (block_pool d i) \<and> post (block_pool d i) \<le> capacity (block_pool d i)
       \<and> capacity (block_pool d i) \<le> 0x40000) \<and>
     (\<forall>i \<le> CPU_NR. \<forall>j \<le> CPU_NR. i \<noteq> j \<longrightarrow>
        0x200000 \<le> unat (address (block_pool d i) - address (block_pool d j)))"

lemma elem_other_pool:
  assumes "pools_ok d" and "i \<le> CPU_NR" and "j \<le> CPU_NR" and "i \<noteq> j"
    and "0 \<le> k" "k < 0x40000" "0 \<le> l" "l < 0x40000"
  shows "elem (address (block_pool d i)) k \<noteq> elem (address (block_pool d j)) l"
proof
  let ?d = "address (block_pool d i) - address (block_pool d j)"
  assume "elem (address (block_pool d i)) k = elem (address (block_pool d j)) l"
  then have e: "?d = word_of_int (8 * (l - k))" by (simp add: elem_def algebra_simps)
  have far: "0x200000 \<le> unat ?d" "0x200000 \<le> unat (- ?d)"
    using assms(1-4) unfolding pools_ok_def by (auto simp: minus_diff_eq)
  show False
  proof (cases "k \<le> l")
    case True
    then have "uint ?d = 8 * (l - k)" unfolding e uint_word_of_int using assms(5-8) by simp
    then show False using far(1) assms(5-8) True by (simp add: unat_eq_nat_uint)
  next
    case False
    have m: "- ?d = word_of_int (8 * (k - l))" unfolding e by (simp add: algebra_simps)
    have "uint (- ?d) = 8 * (k - l)"
      unfolding m uint_word_of_int using assms(5-8) False by simp
    then show False using far(2) assms(5-8) False by (simp add: unat_eq_nat_uint)
  qed
qed

lemma pool_list_cong:
  assumes "block_pool d' i = block_pool d i"
    and "\<And>k. 0 \<le> k \<Longrightarrow> k < post (block_pool d i) \<Longrightarrow>
           pool_mem d' (elem (address (block_pool d i)) k) = pool_mem d (elem (address (block_pool d i)) k)"
  shows "pool_list d' i = pool_list d i"
  using assms by (auto simp: pool_list_def)

text \<open>Freeing pushes onto the CPU's own stack while it has room.\<close>

lemma free_pushes:
  assumes "pools_ok d" and "cpu \<le> CPU_NR" and "post (block_pool d cpu) < capacity (block_pool d cpu)"
  shows "pool_list (rdfs_free_a_disk_block d cpu sn) cpu = pool_list d cpu @ [sn]"
proof -
  let ?bp = "block_pool d cpu"
  have b: "0 \<le> post ?bp" "post ?bp < 0x40000" using assms by (fastforce simp: pools_ok_def)+
  then have n: "nat (post ?bp + 1) = Suc (nat (post ?bp))" "int (nat (post ?bp)) = post ?bp" by auto
  have o: "elem (address ?bp) (int k) \<noteq> elem (address ?bp) (post ?bp)" if "k < nat (post ?bp)" for k
    using elem_inj [of "int k" "post ?bp" "address ?bp"] that b by (auto simp: zless_nat_eq_int_zless)
  show ?thesis
    using assms(3) o n by (auto simp: rdfs_free_a_disk_block_def free_into_pool_def Let_def pool_list_def)
qed

text \<open>Allocating from a nonempty stack pops it.\<close>

lemma alloc_pops:
  assumes "0 < post (block_pool d cpu)"
  shows "case rdfs_alloc_a_disk_block d cpu of (sn, d') \<Rightarrow>
     pool_list d cpu = pool_list d' cpu @ [sn] \<and> pool_mem d' = pool_mem d
       \<and> bd_start d' = bd_start d \<and> (\<forall>i. i \<noteq> cpu \<longrightarrow> pool_list d' i = pool_list d i)"
proof -
  have "nat (post (block_pool d cpu)) = Suc (nat (post (block_pool d cpu) - 1))" using assms by simp
  then show ?thesis
    using assms by (simp add: rdfs_alloc_a_disk_block_def Let_def pool_list_def)
qed

section \<open>Refills\<close>

text \<open>The sectors a refill may still hand out. A range with \<open>bd_start = bd_end\<close> counts as used up.\<close>

definition fresh :: "bdev_des \<Rightarrow> u64 set" where
  "fresh d = (if bd_start d = bd_end d then {} else {sn. bd_start d \<le> sn \<and> sn \<le> bd_end d})"

lemma to_int_small:
  assumes "unat w < 2 ^ 31"
  shows "to_int w = int (unat w)"
proof -
  have "take_bit 31 (uint w) = uint w"
    using assms by (metis take_bit_nat_eq_self take_bit_of_nat uint_nat)
  moreover have "\<not> bit (uint w) 31"
  proof
    assume "bit (uint w) 31"
    then have "bit (unat w) 31" by (simp add: bit_unsigned_iff bit_uint_iff)
    then show False using assms by (metis bit_take_bit_iff less_irrefl take_bit_nat_eq_self)
  qed
  ultimately show ?thesis by (simp add: to_int_def signed_take_bit_def)
qed

text \<open>A stack filled with \<open>n\<close> consecutive sectors, and the pop that follows.\<close>

lemma refill_pop:
  fixes m0 :: "u64 \<Rightarrow> u64" and a :: u64 and start :: nat
  assumes "0 < n" and "n \<le> 0x40000"
  defines "m \<equiv> fill_pool m0 a n (int start)"
  shows "m (elem a (int n - 1)) = of_nat (start + n - 1)"
    and "map (\<lambda>k. m (elem a (int k))) [0..<nat (int n - 1)] = map of_nat [start..<start + n - 1]"
proof -
  obtain k where k: "n = Suc k" using assms(1) gr0_implies_Suc by blast
  have e: "m (elem a (int i)) = of_nat (start + i)" if "i < n" for i
  proof -
    have "word_of_int (int start + int i) = (of_nat (start + i) :: u64)" by simp
    then show ?thesis
      unfolding m_def using fill_pool_elem [OF that assms(2), of m0 a "int start"] by (simp only:)
  qed
  show "m (elem a (int n - 1)) = of_nat (start + n - 1)" using e [of k] by (simp add: k)
  have "map (\<lambda>i. m (elem a (int i))) [0..<k] = map (\<lambda>i. of_nat (start + i)) [0..<k]"
    using e by (intro map_cong) (auto simp: k)
  also have "\<dots> = map of_nat [start..<start + k]"
    by (intro nth_equalityI) auto
  finally show "map (\<lambda>k. m (elem a (int k))) [0..<nat (int n - 1)] = map of_nat [start..<start + n - 1]"
    by (simp add: k)
qed

definition batch_size :: "bdev_des \<Rightarrow> nat" where
  "batch_size d = min 512 (unat (bd_end d) - unat (bd_start d) + 1)"

definition range_ok :: "bdev_des \<Rightarrow> bool" where
  "range_ok d \<longleftrightarrow> 0 < bd_start d \<and> bd_start d < bd_end d \<and> bd_end d < 0x80000000"

lemma range_ok_unat:
  "range_ok d \<Longrightarrow> 0 < unat (bd_start d) \<and> unat (bd_start d) < unat (bd_end d)
     \<and> unat (bd_end d) < 0x80000000"
  by (simp add: range_ok_def word_less_nat_alt)

lemma full_batch:
  assumes "range_ok d"
  shows "bd_start d + COUNT_PER_ALLOC - 1 \<le> bd_end d \<longleftrightarrow> unat (bd_start d) + 511 \<le> unat (bd_end d)"
    and "unat (bd_start d + COUNT_PER_ALLOC) = unat (bd_start d) + 512"
proof -
  note b = range_ok_unat [OF assms]
  have "bd_start d + COUNT_PER_ALLOC - 1 = bd_start d + 511" by (simp add: COUNT_PER_ALLOC_def)
  moreover have "unat (bd_start d + 511) = unat (bd_start d) + 511" using b by (simp add: unat_word_ariths)
  ultimately show "bd_start d + COUNT_PER_ALLOC - 1 \<le> bd_end d \<longleftrightarrow> unat (bd_start d) + 511 \<le> unat (bd_end d)"
    by (simp only: word_le_nat_alt)
  show "unat (bd_start d + COUNT_PER_ALLOC) = unat (bd_start d) + 512"
    using b by (simp add: COUNT_PER_ALLOC_def unat_word_ariths)
qed

lemma partial_batch:
  assumes "range_ok d"
  shows "to_int (bd_end d - bd_start d + 1) = int (unat (bd_end d) - unat (bd_start d) + 1)"
proof -
  note b = range_ok_unat [OF assms]
  have s: "unat (bd_end d - bd_start d) = unat (bd_end d) - unat (bd_start d)"
    using b by (simp add: unat_sub word_le_nat_alt)
  have "unat (bd_end d) - unat (bd_start d) + 1 < 0x80000000" using b by linarith
  then have lt: "unat (bd_end d) - unat (bd_start d) + 1 < 2 ^ 31" by simp
  then have "unat (bd_end d - bd_start d + 1) = unat (bd_end d) - unat (bd_start d) + 1"
    by (simp add: unat_word_ariths s)
  then show ?thesis using lt by (simp only: to_int_small)
qed

definition after_refill :: "bdev_des \<Rightarrow> nat \<Rightarrow> bdev_des" where
  "after_refill d cpu =
     (let bp = block_pool d cpu;
          next = (if unat (bd_start d) + 511 \<le> unat (bd_end d) then bd_start d + COUNT_PER_ALLOC else bd_end d)
      in pool_upd (d\<lparr>bd_start := next,
           pool_mem := fill_pool (pool_mem d) (address bp) (batch_size d) (int (unat (bd_start d)))\<rparr>)
           cpu (bp\<lparr>post := int (batch_size d)\<rparr>))"

lemma refill_pool_fresh:
  assumes "range_ok d" and "post (block_pool d CPU_NR) = 0"
  shows "refill_pool d cpu = Some (after_refill d cpu)"
proof -
  note b = range_ok_unat [OF assms(1)]
  have ne: "bd_start d \<noteq> bd_end d" using assms(1) by (auto simp: range_ok_def)
  have st: "to_int (bd_start d) = int (unat (bd_start d))" using b by (simp add: to_int_small)
  show ?thesis
  proof (cases "unat (bd_start d) + 511 \<le> unat (bd_end d)")
    case True
    then have "batch_size d = 512" by (simp add: batch_size_def)
    then show ?thesis
      using True ne assms(2) full_batch(1) [OF assms(1)]
      by (simp add: refill_pool_def after_refill_def Let_def st)
  next
    case False
    then have "batch_size d = unat (bd_end d) - unat (bd_start d) + 1" by (simp add: batch_size_def)
    then have "to_int (bd_end d - bd_start d + 1) = int (batch_size d)"
      using partial_batch [OF assms(1)] by (simp only:)
    then show ?thesis
      using False ne assms(2) full_batch(1) [OF assms(1)]
      by (simp add: refill_pool_def after_refill_def Let_def st)
  qed
qed

lemma after_refill_fresh:
  assumes "range_ok d" and "x \<in> fresh (after_refill d cpu)"
  shows "unat (bd_start d) + batch_size d \<le> unat x"
  using assms(2) full_batch(2) [OF assms(1)]
  by (cases "unat (bd_start d) + 511 \<le> unat (bd_end d)")
    (auto simp: fresh_def after_refill_def Let_def batch_size_def word_le_nat_alt split: if_splits)


text \<open>A device with 4000 sectors right after mount.\<close>

definition example_bdev :: bdev_des where
  "example_bdev = init_bdev_pool \<lparr>bd_start = 1, bd_end = 4000, block_pool = (\<lambda>_. undefined),
     pool_mem = (\<lambda>_. 0)\<rparr> BDEV_VIRT_ADDR DEFAYLT_CAPACITY"

lemma example_bdev_pools: "i \<le> CPU_NR \<Longrightarrow> post (block_pool example_bdev i) = 0"
  "i \<le> CPU_NR \<Longrightarrow> capacity (block_pool example_bdev i) = 512"
  by (simp_all add: example_bdev_def init_bdev_pool_def consts_eval)


text \<open>The stacks right after mount satisfy the separation the stack lemmas assume.\<close>

lemma init_bdev_pool_ok:
  assumes "0 \<le> cap" and "cap \<le> 0x40000"
  shows "pools_ok (init_bdev_pool d a cap)"
proof -
  have "0x200000 \<le> unat (of_nat i * 0x200000 - of_nat j * 0x200000 :: u64)"
    if "i \<le> 24" "j \<le> 24" "i \<noteq> j" for i j :: nat
  proof -
    have u: "unat (of_nat k * 0x200000 :: u64) = k * 0x200000" if "k \<le> 24" for k
      using that by (simp add: unat_word_ariths unat_of_nat)
    show ?thesis
      using that u by (auto simp: unat_sub_if' nat_neq_iff split: if_splits)
  qed
  then show ?thesis
    using assms by (simp add: pools_ok_def init_bdev_pool_def consts_eval)
qed

text \<open>A sector freed on a CPU whose stack has room is the next one that CPU allocates, and the
  stack is then as it was.\<close>

theorem disk_free_alloc_roundtrip:
  assumes "pools_ok d" and "cpu \<le> CPU_NR" and "post (block_pool d cpu) < capacity (block_pool d cpu)"
  shows "case rdfs_alloc_a_disk_block (rdfs_free_a_disk_block d cpu sn) cpu of (sn', d') \<Rightarrow>
     sn' = sn \<and> pool_list d' cpu = pool_list d cpu"
proof -
  let ?d = "rdfs_free_a_disk_block d cpu sn"
  note l = free_pushes [OF assms, of sn]
  have "0 \<le> post (block_pool d cpu)" using assms(1,2) by (simp add: pools_ok_def)
  then have "0 < post (block_pool ?d cpu)"
    using assms(3) by (simp add: rdfs_free_a_disk_block_def free_into_pool_def Let_def)
  from alloc_pops [OF this] l show ?thesis by auto
qed

theorem disk_free_alloc_roundtrip_witness:
  "case rdfs_alloc_a_disk_block (rdfs_free_a_disk_block example_bdev 3 77) 3 of (sn', d') \<Rightarrow>
     sn' = 77 \<and> pool_list d' 3 = pool_list example_bdev 3"
proof (rule disk_free_alloc_roundtrip)
  show "pools_ok example_bdev"
    unfolding example_bdev_def by (rule init_bdev_pool_ok) (simp_all add: DEFAYLT_CAPACITY_def)
  show "(3 :: nat) \<le> CPU_NR" by (simp add: CPU_NR_def)
  then show "post (block_pool example_bdev 3) < capacity (block_pool example_bdev 3)"
    by (simp add: example_bdev_pools)
qed

text \<open>C40. Running off the end of a device: when the last full batch ended exactly at the last sector, the
  next allocation is not refused. It fills nothing, returns the element in front of the CPU's stack
  and leaves the stack with size \<open>-1\<close>.\<close>

theorem disk_exhaustion_underflow:
  assumes "cpu < CPU_NR" and "post (block_pool d cpu) = 0" and "post (block_pool d CPU_NR) = 0"
    and "bd_start d = bd_end d + 1" and "bd_end d < 0xffffffffffff0000"
  shows "case rdfs_alloc_a_disk_block d cpu of (sn, d') \<Rightarrow>
     sn = pool_mem d (elem (address (block_pool d cpu)) (- 1)) \<and> post (block_pool d' cpu) = - 1"
proof -
  have "\<not> bd_start d + COUNT_PER_ALLOC - 1 \<le> bd_end d"
  proof -
    have "bd_start d + COUNT_PER_ALLOC - 1 = bd_end d + 512" by (simp add: assms(4) COUNT_PER_ALLOC_def)
    moreover have "unat (bd_end d + 512) = unat (bd_end d) + 512"
      using assms(5) by (simp add: unat_word_ariths word_less_nat_alt)
    ultimately have "unat (bd_start d + COUNT_PER_ALLOC - 1) = unat (bd_end d) + 512" by (simp only:)
    then show ?thesis unfolding word_le_nat_alt by linarith
  qed
  moreover have "bd_start d \<noteq> bd_end d" by (simp add: assms(4))
  moreover have "to_int (bd_end d - bd_start d + 1) = 0" by (simp add: assms(4) to_int_def)
  ultimately show ?thesis
    using assms(1-3) by (simp add: rdfs_alloc_a_disk_block_def refill_pool_def Let_def)
qed

theorem disk_exhaustion_underflow_witness:
  "case rdfs_alloc_a_disk_block (example_bdev\<lparr>bd_start := 513, bd_end := 512\<rparr>) 3 of (sn, d') \<Rightarrow>
     sn = pool_mem example_bdev (elem (address (block_pool example_bdev 3)) (- 1))
       \<and> post (block_pool d' 3) = - 1"
  using disk_exhaustion_underflow [of 3 "example_bdev\<lparr>bd_start := 513, bd_end := 512\<rparr>"]
  by (simp add: example_bdev_pools CPU_NR_def)

text \<open>Refilling from the reserve copies from the wrong place: with a single sector in the reserve, the
  allocation returns element 8 of the reserve array, which is above its top.\<close>

theorem disk_reserve_wrong_element:
  assumes "cpu < CPU_NR" and "post (block_pool d cpu) = 0" and "post (block_pool d CPU_NR) = 1"
  shows "fst (rdfs_alloc_a_disk_block d cpu) = pool_mem d (elem (address (block_pool d CPU_NR)) 8)"
  using assms by (simp add: rdfs_alloc_a_disk_block_def refill_pool_def Let_def elem_def)

section \<open>Parsing the device list\<close>

text \<open>How a list of paths is written in the options.\<close>

definition device_list :: "string list \<Rightarrow> string" where
  "device_list paths = concat (map (\<lambda>p. p @ '','') paths)"

definition path_ok :: "string \<Rightarrow> bool" where
  "path_ok p \<longleftrightarrow> starts_with ''/dev'' p \<and> CHR '','' \<notin> set p"

lemma cut_at: "CHR '','' \<notin> set p \<Longrightarrow> cut (p @ CHR '','' # xs) = (p, CHR '','' # xs)"
  unfolding cut_def by (induction p) auto

lemma get_bdev_loop_list:
  assumes "list_all path_ok paths" and "\<not> starts_with ''/dev'' rest"
  shows "get_bdev_loop open_bdev (device_list paths @ rest) st =
     (fold (rdfs_init_bdev open_bdev) paths st, rest)"
  using assms(1)
proof (induction paths arbitrary: st)
  case Nil
  then show ?case
    using assms(2) by (subst get_bdev_loop.simps) (simp add: device_list_def)
next
  case (Cons p ps)
  have p: "starts_with ''/dev'' p" "CHR '','' \<notin> set p" using Cons.prems by (auto simp: path_ok_def)
  have o: "device_list (p # ps) @ rest = p @ CHR '','' # (device_list ps @ rest)"
    by (simp add: device_list_def)
  have c: "cut (p @ CHR '','' # xs) = (p, CHR '','' # xs)" for xs
    using p(2) by (rule cut_at)
  have s: "starts_with ''/dev'' (p @ xs)" for xs
  proof -
    obtain q where "p = ''/dev'' @ q"
      using p(1) unfolding starts_with_def by (metis append_take_drop_id)
    then show ?thesis by (simp add: starts_with_def)
  qed
  show ?case
    unfolding o by (subst get_bdev_loop.simps) (use Cons in \<open>simp add: s c\<close>)
qed

text \<open>The device list of the mount options is read exactly: for any list of device paths, each opened
  device becomes one descriptor, in order, with sectors 1 to size/8; devices that cannot be opened
  are skipped; and parsing stops at the first word that is not a device path.\<close>

theorem rdfs_get_bdev_parses:
  assumes "list_all path_ok paths" and "\<not> starts_with ''/dev'' rest"
  shows "rdfs_get_bdev open_bdev s (''bdev='' @ device_list paths @ rest) =
     (let sizes = List.map_filter open_bdev paths
      in ((map (\<lambda>n. \<lparr>be_start = 1, be_end = rdfs_get_bdev_size n\<rparr>) sizes,
           virt_addr (sbi s) + BDEV_DES_OFFSET + of_nat (length sizes) * sizeof_bdev_des), rest))"
proof -
  have "fold (rdfs_init_bdev open_bdev) paths st =
      (fst st @ map (\<lambda>n. \<lparr>be_start = 1, be_end = rdfs_get_bdev_size n\<rparr>) (List.map_filter open_bdev paths),
       snd st + of_nat (length (List.map_filter open_bdev paths)) * sizeof_bdev_des)" for st
    by (induction paths arbitrary: st)
      (auto simp: rdfs_init_bdev_def map_filter_simps algebra_simps split: option.splits)
  then show ?thesis
    using get_bdev_loop_list [OF assms]
    by (simp add: rdfs_get_bdev_def starts_with_def Let_def BDEV_DES_OFFSET_def add.assoc)
qed

theorem rdfs_get_bdev_parses_witness:
  "rdfs_get_bdev (\<lambda>p. if p = ''/dev/sda'' then Some 8000 else None) example_nvm
       (''bdev='' @ device_list [''/dev/sda'', ''/dev/sdb''] @ ''init=4G'') =
     (let sizes = List.map_filter (\<lambda>p. if p = ''/dev/sda'' then Some 8000 else None)
                    [''/dev/sda'', ''/dev/sdb'']
      in ((map (\<lambda>n. \<lparr>be_start = 1, be_end = rdfs_get_bdev_size n\<rparr>) sizes,
           virt_addr (sbi example_nvm) + BDEV_DES_OFFSET + of_nat (length sizes) * sizeof_bdev_des),
          ''init=4G''))"
  by (rule rdfs_get_bdev_parses) (simp_all add: path_ok_def starts_with_def)

end
