(* ===== verification/Mapping_Tables.thy ===== *)
theory Mapping_Tables
  imports Slave_Memory Nvmalloc Disk_Pool
begin

text \<open>
  Mapping a file's page table into the kernel's address space, adding pages to the table and removing it
  (\<open>rdfs_master/pgtable.c\<close> and the mapping functions of \<open>nvmalloc.c\<close>).

  The kernel's own tables are the entries for 1 GiB (\<open>kpud\<close>, indexed by the address shifted right by 30) and
  for 2 MiB (\<open>kpmd\<close>, by 21) of the two address spaces the code names, \<open>init_mm\<close> and \<open>current->mm\<close>. The
  kernel's \<open>pud_alloc\<close> and \<open>pmd_alloc\<close> are parameters that say whether it can provide the entry for an address;
  what is read through a mapped address is found by \<open>translate\<close>, the walk of the MMU.
\<close>

datatype mm = Init_mm | Current_mm

record kern = smem +
  nv :: nvmalloc_state
  kpud :: "mm \<Rightarrow> u64 \<Rightarrow> u64"
  kpmd :: "mm \<Rightarrow> u64 \<Rightarrow> u64"
  bdevs :: "u64 \<Rightarrow> bdev_des"

type_synonym table_alloc = "mm \<Rightarrow> u64 \<Rightarrow> bool"

section \<open>Kernel entries\<close>

definition set_kpud :: "'a kern_scheme \<Rightarrow> mm \<Rightarrow> u64 \<Rightarrow> u64 \<Rightarrow> 'a kern_scheme" where
  "set_kpud s mm addr v = s\<lparr>kpud := (kpud s)(mm := (kpud s mm)(drop_bit 30 addr := v))\<rparr>"

definition set_kpmd :: "'a kern_scheme \<Rightarrow> mm \<Rightarrow> u64 \<Rightarrow> u64 \<Rightarrow> 'a kern_scheme" where
  "set_kpmd s mm addr v = s\<lparr>kpmd := (kpmd s)(mm := (kpmd s mm)(drop_bit 21 addr := v))\<rparr>"

definition rdfs_pud_populate :: "'a kern_scheme \<Rightarrow> mm \<Rightarrow> u64 \<Rightarrow> u64 \<Rightarrow> 'a kern_scheme" where
  "rdfs_pud_populate s mm addr pmd = set_kpud s mm addr (table_of_phys (rdfs_pa s pmd))"

text \<open>\<open>pud_addr_end\<close>: the next multiple of 1 GiB, or \<open>end\<close> when that comes first.\<close>

definition pud_addr_end :: "u64 \<Rightarrow> u64 \<Rightarrow> u64" where
  "pud_addr_end addr lim =
     (let boundary = (addr + 0x40000000) AND NOT 0x3fffffff
      in if boundary - 1 < lim - 1 then boundary else lim)"

section \<open>Mapping\<close>

definition nvmap_pmd :: "table_alloc \<Rightarrow> 'a kern_scheme \<Rightarrow> u64 \<Rightarrow> u64 \<Rightarrow> mm \<Rightarrow> int \<times> 'a kern_scheme" where
  "nvmap_pmd pud_alloc s addr ppmd mm =
     (if addr = 0 then (- 1, s)
      else if \<not> pud_alloc mm addr then (- ENOMEM, s)
      else (0, rdfs_pud_populate s mm addr ppmd))"

text \<open>The entry returned by \<open>pmd_alloc\<close> is written without a test: \<open>None\<close> is the null dereference.\<close>

definition nvmap_dir ::
  "table_alloc \<Rightarrow> table_alloc \<Rightarrow> 'a kern_scheme \<Rightarrow> u64 \<Rightarrow> u64 \<Rightarrow> mm \<Rightarrow> (int \<times> 'a kern_scheme) option" where
  "nvmap_dir pud_alloc pmd_alloc s addr ppud mm =
     (if \<not> (pud_alloc mm addr \<and> pmd_alloc mm addr) then None
      else
        let pte = rdfs_get_pte s (rdfs_get_pmd s ppud)
        in Some (0, set_kpmd s mm addr (table_of_phys (rdfs_pa s pte))))"

text \<open>The \<open>do while\<close> loop ends at the first empty entry after the first one; it has no other bound.\<close>

partial_function (option) nvmap_file_loop ::
  "table_alloc \<Rightarrow> 'a kern_scheme \<Rightarrow> u64 \<Rightarrow> u64 \<Rightarrow> u64 \<Rightarrow> mm \<Rightarrow> (int \<times> 'a kern_scheme) option" where
  "nvmap_file_loop pud_alloc s addr lim ppud mm =
     (if \<not> pud_alloc mm addr then Some (- ENOMEM, s)
      else
        let s1 = rdfs_pud_populate s mm addr (rdfs_get_pmd s ppud);
            addr1 = pud_addr_end addr lim;
            ppud1 = ppud + 8
        in if ld64 (mem s1) ppud1 \<noteq> 0 then nvmap_file_loop pud_alloc s1 addr1 lim ppud1 mm
           else Some (0, s1))"

definition nvmap_file ::
  "table_alloc \<Rightarrow> 'a kern_scheme \<Rightarrow> u64 \<Rightarrow> u64 \<Rightarrow> mm \<Rightarrow> (int \<times> 'a kern_scheme) option" where
  "nvmap_file pud_alloc s addr ppud mm =
     (let lim = addr + MAX_FILE_SIZE - 1
      in if addr = 0 \<or> ppud = 0 then Some (- EINVAL, s)
         else nvmap_file_loop pud_alloc s addr lim ppud mm)"

definition in_file_area :: "u64 \<Rightarrow> bool" where
  "in_file_area addr \<longleftrightarrow> RDFS_START + DIR_AREA_SIZE \<le> addr \<and> addr < RDFS_END"

definition nvmap ::
  "table_alloc \<Rightarrow> table_alloc \<Rightarrow> 'a kern_scheme \<Rightarrow> u64 \<Rightarrow> u64 \<Rightarrow> mm \<Rightarrow> (int \<times> 'a kern_scheme) option" where
  "nvmap pud_alloc pmd_alloc s addr ppud mm =
     (if addr = 0 \<or> ppud = 0 then Some (- 1, s)
      else if in_dir_area addr then nvmap_dir pud_alloc pmd_alloc s addr ppud mm
      else if in_file_area addr then nvmap_file pud_alloc s addr ppud mm
      else Some (- 1, s))"

partial_function (option) unnvmap_file_loop ::
  "'a kern_scheme \<Rightarrow> u64 \<Rightarrow> u64 \<Rightarrow> u64 \<Rightarrow> mm \<Rightarrow> 'a kern_scheme option" where
  "unnvmap_file_loop s addr lim ppud mm =
     (if ld64 (mem s) ppud \<noteq> 0
      then unnvmap_file_loop (set_kpud s mm addr 0) (pud_addr_end addr lim) lim (ppud + 8) mm
      else Some s)"

definition unnvmap_file :: "'a kern_scheme \<Rightarrow> u64 \<Rightarrow> u64 \<Rightarrow> mm \<Rightarrow> (int \<times> 'a kern_scheme) option" where
  "unnvmap_file s addr ppud mm =
     (let lim = addr + MAX_FILE_SIZE - 1
      in if ppud = 0 then Some (0, s)
         else if addr = 0 then Some (- 1, s)
         else (case unnvmap_file_loop s addr lim ppud mm of None \<Rightarrow> None | Some s' \<Rightarrow> Some (0, s')))"

definition unnvmap_dir :: "'a kern_scheme \<Rightarrow> u64 \<Rightarrow> mm \<Rightarrow> int \<times> 'a kern_scheme" where
  "unnvmap_dir s addr mm = (0, set_kpmd s mm addr 0)"

definition unnvmap :: "'a kern_scheme \<Rightarrow> u64 \<Rightarrow> u64 \<Rightarrow> mm \<Rightarrow> (int \<times> 'a kern_scheme) option" where
  "unnvmap s addr ppud mm =
     (if ppud = 0 then Some (0, s)
      else if addr = 0 then Some (- 1, s)
      else if in_dir_area addr then Some (unnvmap_dir s addr mm)
      else if in_file_area addr then unnvmap_file s addr ppud mm
      else Some (- 1, s))"

text \<open>What the MMU reads through \<open>init_mm\<close>.\<close>

definition translate :: "'a kern_scheme \<Rightarrow> u64 \<Rightarrow> u64 option" where
  "translate s a =
     (let pmd = (if RDFS_START \<le> a \<and> a < RDFS_START + DIR_AREA_SIZE then kpmd s Init_mm (drop_bit 21 a)
                 else if kpud s Init_mm (drop_bit 30 a) = 0 then 0
                 else ld64 (mem s) (rdfs_va s (kpud s Init_mm (drop_bit 30 a) AND PAGE_MASK) + pmd_index a * 8))
      in if pmd = 0 then None
         else
           let pte = ld64 (mem s) (rdfs_va s (pmd AND PAGE_MASK) + pte_index a * 8)
           in if pte = 0 then None else Some (get_phys_from_pte_val pte + (a AND 4095)))"

section \<open>Adding a page to a file\<close>

definition rdfs_insert_page ::
  "table_alloc \<Rightarrow> 'a kern_scheme \<Rightarrow> nat \<Rightarrow> inode \<Rightarrow> u64 \<Rightarrow> int \<times> 'a kern_scheme" where
  "rdfs_insert_page pud_alloc s cpu vi phys =
     (let ino = i_ino vi;
          addr = i_virt_addr (info vi);
          offset = push_bit 12 (i_blocks vi - 1);
          new_addr = addr + offset;
          pud = rdfs_pud_alloc s ino offset
      in if pud = 0 then (- 1, s)
         else
           let (pmd, s1) = rdfs_pmd_alloc s cpu pud new_addr;
               s2 = (if ld64 (mem s) pud = 0 then snd (nvmap_pmd pud_alloc s1 new_addr (rdfs_get_pmd s1 pud) Current_mm)
                     else s1)
           in if pmd = 0 then (- 1, s2)
              else
                let (pte, s3) = rdfs_pte_alloc s2 cpu pmd new_addr
                in if pte = 0 then (- 1, s3) else (0, rdfs_set_pte s3 pte phys))"

section \<open>Removing the table of a file\<close>

text \<open>At most 512 entries are visited at each level; the walk stops at the first empty one.\<close>

primrec rm_pte_loop :: "nat \<Rightarrow> nat \<Rightarrow> u64 \<Rightarrow> 'a kern_scheme \<Rightarrow> 'a kern_scheme" where
  "rm_pte_loop cpu 0 pte s = s"
| "rm_pte_loop cpu (Suc n) pte s =
     (let v = ld64 (mem s) pte
      in if v = 0 then s
         else rm_pte_loop cpu n (pte + 8)
           (if pte_is_sn v
            then s\<lparr>bdevs := (bdevs s)(get_bdev_id_from_pte_v v :=
                   rdfs_free_a_disk_block (bdevs s (get_bdev_id_from_pte_v v)) cpu (get_sn_from_pte_v v))\<rparr>
            else rdfs_free_block s (get_phys_from_pte_val v)))"

definition rdfs_rm_pte_range :: "nat \<Rightarrow> 'a kern_scheme \<Rightarrow> u64 \<Rightarrow> 'a kern_scheme" where
  "rdfs_rm_pte_range cpu s pmd =
     (let p = rdfs_get_pte s pmd
      in rdfs_table_free (rm_pte_loop cpu 512 p s) p)"

primrec rm_pmd_loop :: "nat \<Rightarrow> nat \<Rightarrow> u64 \<Rightarrow> 'a kern_scheme \<Rightarrow> 'a kern_scheme" where
  "rm_pmd_loop cpu 0 pmd s = s"
| "rm_pmd_loop cpu (Suc n) pmd s =
     (if ld64 (mem s) pmd = 0 then s else rm_pmd_loop cpu n (pmd + 8) (rdfs_rm_pte_range cpu s pmd))"

definition rdfs_rm_pmd_range :: "nat \<Rightarrow> 'a kern_scheme \<Rightarrow> u64 \<Rightarrow> 'a kern_scheme" where
  "rdfs_rm_pmd_range cpu s pud =
     (let p = rdfs_get_pmd s pud
      in rdfs_table_free (rm_pmd_loop cpu 512 p s) p)"

primrec rm_pud_loop :: "nat \<Rightarrow> nat \<Rightarrow> u64 \<Rightarrow> 'a kern_scheme \<Rightarrow> 'a kern_scheme" where
  "rm_pud_loop cpu 0 pud s = s"
| "rm_pud_loop cpu (Suc n) pud s =
     (if ld64 (mem s) pud = 0 then s else rm_pud_loop cpu n (pud + 8) (rdfs_rm_pmd_range cpu s pud))"

text \<open>A file without a table is a null dereference: \<open>None\<close>.\<close>

definition rdfs_rm_pg_table :: "nat \<Rightarrow> 'a kern_scheme \<Rightarrow> u64 \<Rightarrow> 'a kern_scheme option" where
  "rdfs_rm_pg_table cpu s ino =
     (let ni = get_rdfs_inode s ino;
          p = rdfs_get_pud s ino
      in if p = 0 then None
         else Some (put64 (rdfs_table_free (rm_pud_loop cpu 512 p s) p) (ni + 72) 0))"

section \<open>Attaching a file to its virtual area\<close>

text \<open>\<open>ptr\<close> is the address of the in-memory inode, stored in the table of files by area.\<close>

definition take_virt_addr :: "'a kern_scheme \<Rightarrow> u64 \<Rightarrow> inode \<Rightarrow> (inode \<times> 'a kern_scheme) option" where
  "take_virt_addr s ptr inode =
     (if i_virt_addr (info inode) \<noteq> 0 then Some (inode, s)
      else if S_ISDIR (i_mode inode) \<or> S_ISLNK (i_mode inode) then
        (case nvmalloc 1 (nv s) of
           None \<Rightarrow> None
         | Some (a, nv') \<Rightarrow> Some (inode\<lparr>info := (info inode)\<lparr>i_virt_addr := a\<rparr>\<rparr>, s\<lparr>nv := nv'\<rparr>))
      else if S_ISREG (i_mode inode) then
        (case nvmalloc 0 (nv s) of
           None \<Rightarrow> None
         | Some (a, nv') \<Rightarrow>
             let s1 = s\<lparr>nv := nv'\<rparr>
             in Some (inode\<lparr>info := (info inode)\<lparr>i_virt_addr := a\<rparr>\<rparr>, put64 s1 (rdfs_address_to_ino s1 a) ptr))
      else Some (inode, s))"

definition rdfs_establish_mapping ::
  "table_alloc \<Rightarrow> table_alloc \<Rightarrow> 'a kern_scheme \<Rightarrow> u64 \<Rightarrow> inode \<Rightarrow> (int \<times> inode \<times> 'a kern_scheme) option" where
  "rdfs_establish_mapping pud_alloc pmd_alloc s ptr inode =
     (let pud = rdfs_get_pud s (i_ino inode);
          inode1 = inode\<lparr>info := (info inode)\<lparr>mapping_count := mapping_count (info inode) + 1\<rparr>\<rparr>
      in case take_virt_addr s ptr inode1 of
           None \<Rightarrow> None
         | Some (inode2, s1) \<Rightarrow>
             let a = i_virt_addr (info inode2)
             in if in_dir_area a \<or> in_file_area a
                then (case nvmap pud_alloc pmd_alloc s1 a pud Init_mm of
                        None \<Rightarrow> None
                      | Some (err, s2) \<Rightarrow> Some (err, inode2, s2))
                else Some (- 1, inode2, s1))"

definition rdfs_destroy_mapping :: "'a kern_scheme \<Rightarrow> inode \<Rightarrow> (int \<times> inode \<times> 'a kern_scheme) option" where
  "rdfs_destroy_mapping s inode =
     (let a = i_virt_addr (info inode);
          pud = rdfs_get_pud s (i_ino inode);
          inode1 = inode\<lparr>info := (info inode)\<lparr>mapping_count := mapping_count (info inode) - 1\<rparr>\<rparr>
      in if a = 0 then Some (0, inode, s)
         else if mapping_count (info inode1) > 0 then Some (0, inode1, s)
         else
           (case unnvmap s a pud Init_mm of
              None \<Rightarrow> None
            | Some (err, s1) \<Rightarrow>
                (case nvfree a (nv s1) of
                   None \<Rightarrow> None
                 | Some nv' \<Rightarrow> Some (err, inode1\<lparr>info := (info inode1)\<lparr>i_virt_addr := 0\<rparr>\<rparr>, s1\<lparr>nv := nv'\<rparr>))))"

text \<open>The entry of the block at \<open>offset\<close>, read through the file's virtual area: slave and block; \<open>None\<close> is a
  page fault.\<close>

definition rdfs_search_metadata :: "'a kern_scheme \<Rightarrow> rdfs_inode_info \<Rightarrow> u64 \<Rightarrow> (u64 \<times> u64) option" where
  "rdfs_search_metadata s ri offset =
     (case translate s (i_virt_addr ri + offset div 4096 * 8) of
        None \<Rightarrow> None
      | Some p \<Rightarrow> let v = ld64 (mem s) (rdfs_va s p) in Some (pte_slave v, pte_block v))"

section \<open>Growing a table by one page\<close>

lemma slow_same: "rdfs_pte_alloc_slow = rdfs_pmd_alloc_slow"
  by (simp add: fun_eq_iff rdfs_pte_alloc_slow_def rdfs_pmd_alloc_slow_def rdfs_set_pmd_def rdfs_set_pud_def
      split: prod.split)

text \<open>The effect of a successful \<open>rdfs_pmd_alloc_slow\<close> or \<open>rdfs_pte_alloc_slow\<close> on the table: page \<open>z\<close> is linked
  below \<open>path\<close>.\<close>

definition grown ::
  "'a nvm_scheme \<Rightarrow> pg_tree \<Rightarrow> nat list \<Rightarrow> nat \<Rightarrow> u64 \<Rightarrow> 'a nvm_scheme \<Rightarrow> bool" where
  "grown s t path i z s' \<longleftrightarrow> z \<in> free_page_set s \<and> free_page_set s' = free_page_set s - {z} \<and> pages_inv s' \<and>
     same_super s s' \<and> tree_ok s' (t(path @ [i] \<mapsto> z)) \<and> (\<forall>j < 512. entry s' z j = 0) \<and>
     (\<forall>q. page_ok s q \<and> q \<notin> free_page_set s \<and> t path \<noteq> Some q \<longrightarrow> (\<forall>j < 512. entry s' q j = entry s q j)) \<and>
     (\<forall>a. outside_pool s (region a 8) \<and> region (rdfs_va s (the (t path))) 4096 \<inter> region a 8 = {} \<longrightarrow>
        ld64 (mem s') a = ld64 (mem s) a)"

lemma zeroed_page_outside:
  assumes "zeroed_page_call s cpu z s'" and "outside_pool s (region a 8)"
  shows "ld64 (mem s') a = ld64 (mem s) a"
proof (rule load_agree)
  fix x assume x: "x \<in> region a 8"
  have "z \<in> free_page_set s" "in_use s (get_cpu_numa s cpu)" using assms(1) in_use_cpu by (auto simp: zeroed_page_call_def)
  then have "x \<notin> region (rdfs_va s z) 4096" "x \<notin> region (get_cpu_numa s cpu) 128"
    using assms(2) x unfolding outside_pool_def by blast+
  then show "mem s' x = mem s x" using assms(1) by (simp add: zeroed_page_call_def)
qed simp

lemma alloc_slow_grows:
  assumes "tree_ok s t" and "pages_inv s" and "t path = Some p" and "length path < 2" and "i < 512"
    and "t (path @ [i]) = None" and "rdfs_pmd_alloc_slow s cpu (entry_addr s p i) = (err, s')"
  shows "err \<noteq> 0 \<and> s' = s \<and> free_page_list s (get_cpu_numa s cpu) = [] \<or>
     err = 0 \<and> (\<exists>z. grown s t path i z s' \<and> free_page_list s (get_cpu_numa s cpu) = z # free_page_list s' (get_cpu_numa s cpu))"
proof -
  obtain v s1 where v: "rdfs_get_zeroed_page s cpu = (v, s1)" by (cases "rdfs_get_zeroed_page s cpu")
  from zeroed_page_cases [OF assms(2) v] show ?thesis
  proof
    assume "v = 0 \<and> s1 = s \<and> free_page_list s (get_cpu_numa s cpu) = []"
    then show ?thesis using assms(7) v by (auto simp: rdfs_pmd_alloc_slow_def rdfs_table_alloc_one_def ENOMEM_def)
  next
    assume "\<exists>z. v = rdfs_va s z \<and> v \<noteq> 0 \<and> zeroed_page_call s cpu z s1"
    then obtain z where z: "v = rdfs_va s z" "v \<noteq> 0" "zeroed_page_call s cpu z s1" by blast
    note zc = z(3) [unfolded zeroed_page_call_def]
    note t1 = tree_zeroed_page [OF assms(1) z(3)]
    note p1 = tree_okD [OF t1(1) assms(3)]
    have ss: "same_super s s1" using zc by simp
    note va = same_super_eqs(1,2) [OF ss]
    have e0: "entry s1 p i = 0" using p1(4) [OF assms(4,5)] assms(6) by (simp add: link_of_def)
    have ea: "entry_addr s1 p i = entry_addr s p i" by (simp add: entry_addr_def va)
    have r: "err = 0" "s' = put64 s1 (entry_addr s1 p i) (table_of_phys z)"
      using assms(7) v z(1,2) e0 ea unfolding rdfs_pmd_alloc_slow_def rdfs_table_alloc_one_def entry_def
      by (simp_all add: rdfs_set_pud_def va PRESENT_def)
    note b = blank_tree [OF z(3)]
    have inv1: "pages_inv s1" using zc by simp
    have w: "page_write s1 p s'" unfolding r(2) by (rule put_entry_page_write [OF inv1 p1(2,3) assms(5)])
    have zp: "z \<noteq> p" using t1(2) assms(3) by (auto simp: ran_def)
    have "tree_ok s' (t(path @ [i] \<mapsto> z))"
      unfolding r(2) by (rule tree_attach [OF t1(1) inv1 assms(3-6) t1(2) blank_page [OF b] blank_entries [OF b]])
    moreover have "\<forall>j < 512. entry s' z j = 0"
      using entry_page_write [OF w blank_page(1) [OF b] zp] blank_entries [OF b] by simp
    moreover have "entry s' q j = entry s q j" if "page_ok s q" "q \<notin> free_page_set s" "q \<noteq> p" "j < 512" for q j
    proof -
      have okq: "page_ok s1 q" using that(1) page_ok_same_super [OF ss] by simp
      have "q \<noteq> z" using that(2) zc by auto
      have "entry s1 q j = entry s q j"
      proof (rule entry_agree [OF ss _ that(4)], rule ballI)
        fix x assume x: "x \<in> region (rdfs_va s q) 4096"
        have "x \<notin> region (rdfs_va s z) 4096"
          using page_ok_pages_disjoint [OF that(1), of z] \<open>q \<noteq> z\<close> x zc by auto
        moreover have "x \<notin> region (get_cpu_numa s cpu) 128"
          using apart_disjoint [OF page_ok_apart(2) [OF that(1) in_use_cpu]] x by blast
        ultimately show "mem s1 x = mem s x" using zc by simp
      qed
      then show ?thesis using entry_page_write [OF w okq that(3,4)] by simp
    qed
    moreover have "ld64 (mem s') a = ld64 (mem s) a"
      if "outside_pool s (region a 8)" "region (rdfs_va s p) 4096 \<inter> region a 8 = {}" for a
    proof -
      have "ld64 (mem s') a = ld64 (mem s1) a"
        by (rule page_write_load [OF w]) (use that(2) va in \<open>simp_all add: Int_commute\<close>)
      then show ?thesis using zeroed_page_outside [OF z(3) that(1)] by simp
    qed
    moreover have "free_page_list s' (get_cpu_numa s cpu) = free_page_list s1 (get_cpu_numa s cpu)"
      using page_write_list [OF w] in_use_same_super [OF ss] in_use_cpu [of s cpu] by simp
    ultimately have "grown s t path i z s' \<and>
        free_page_list s (get_cpu_numa s cpu) = z # free_page_list s' (get_cpu_numa s cpu)"
      unfolding grown_def using zc page_write_free_set [OF w] page_write_inv [OF w] assms(3)
        same_super_trans [OF ss page_write_super [OF w]] by auto
    then show ?thesis using r(1) by blast
  qed
qed

section \<open>The table of a file\<close>

lemma tree_part:
  fixes s :: "'a nvm_scheme" and s' :: "'b nvm_scheme"
  assumes "sbi s' = sbi s" and "mem s' = mem s"
  shows "entry s' = entry s" "tree_ok s' = tree_ok s" "tree_lookup s' = tree_lookup s" "i_pg_addr s' = i_pg_addr s"
    "file_inv s' = file_inv s"
proof -
  note n = nvm_part [OF assms]
  show e: "entry s' = entry s" by (intro ext) (simp add: entry_def entry_addr_def n assms)
  show t: "tree_ok s' = tree_ok s" by (intro ext) (simp add: tree_ok_def node_ok_def n e)
  show "tree_lookup s' = tree_lookup s" by (intro ext) (simp add: tree_lookup_def e)
  show i: "i_pg_addr s' = i_pg_addr s" by (intro ext) (simp add: i_pg_addr_def n assms)
  show "file_inv s' = file_inv s"
    by (intro ext) (simp add: file_inv_def outside_pool_def pg_word_def in_use_def n t i)
qed

lemma grown_file_inv:
  assumes "file_inv s ino t" and "grown s t path i z s'" and "t path = Some p"
  shows "file_inv s' ino (t(path @ [i] \<mapsto> z))"
proof -
  have ss: "same_super s s'" and f: "free_page_set s' = free_page_set s - {z}" and z: "z \<in> free_page_set s"
    using assms(2) by (simp_all add: grown_def)
  note eqs = same_super_eqs [OF ss]
  have w: "pg_word s' ino = pg_word s ino" by (simp add: pg_word_def eqs)
  have out: "outside_pool s (pg_word s ino)" using assms(1) by (simp add: file_inv_def)
  have "p \<in> ran t" using assms(3) by (rule ranI)
  then have "region (rdfs_va s p) 4096 \<inter> pg_word s ino = {}" using assms(1) by (simp add: file_inv_def)
  then have "i_pg_addr s' ino = i_pg_addr s ino"
    using assms(2,3) out unfolding grown_def i_pg_addr_def eqs pg_word_def by simp
  moreover have "outside_pool s' (pg_word s ino)" using outside_pool_same [OF ss _ out] f by simp
  moreover have "region (rdfs_va s z) 4096 \<inter> pg_word s ino = {}" using out z by (simp add: outside_pool_def)
  ultimately show ?thesis
    using assms(1,2) unfolding file_inv_def w eqs by (auto simp: grown_def ran_def)
qed

lemma grown_lookup:
  assumes "tree_ok s t" and "grown s t path i z s'" and "t path = Some p" and "length path < 2"
    and "t (path @ [i]) = None" and "tree_lookup s t b = Some v"
  shows "tree_lookup s' (t(path @ [i] \<mapsto> z)) b = Some v"
proof -
  define k where "k = [b div 262144 mod 512, b div 512 mod 512]"
  obtain q where q: "t k = Some q" "v = entry s q (b mod 512)"
    using assms(6) unfolding tree_lookup_def k_def by auto
  note okq = tree_okD [OF assms(1) q(1)]
  have "q \<noteq> p" using tree_inj [OF assms(1,3), of k] q(1) assms(4) by (auto simp: k_def)
  then have "entry s' q (b mod 512) = entry s q (b mod 512)"
    using assms(2,3) okq(2,3) by (simp add: grown_def)
  moreover have "k \<noteq> path @ [i]" using assms(5) q(1) by auto
  ultimately show ?thesis using q by (simp add: tree_lookup_def flip: k_def)
qed

lemma entry_addr_nonzero: "page_ok s p \<Longrightarrow> i < 512 \<Longrightarrow> entry_addr s p i \<noteq> 0"
proof
  assume p: "page_ok s p" and i: "i < 512" and z: "entry_addr s p i = 0"
  have "unat (entry_addr s p i) = unat (rdfs_va s p) + i * 8"
    unfolding entry_addr_def using p i entry_addr_sub [OF i]
    by (subst unat_add_lem [THEN iffD1]) (simp_all add: page_ok_def)
  then show False using z p by (simp add: page_ok_def unat_eq_0)
qed

section \<open>Addresses and indices\<close>

lemma unat_mod_30:
  fixes base off :: u64
  assumes "base AND 0x3fffffff = 0"
  shows "unat (base + off) mod 2 ^ 30 = unat off mod 2 ^ 30"
proof -
  have "base AND 0x3fffffff = take_bit 30 base" by (simp only: take_bit_eq_mask mask_eq_exp_minus_1) simp
  then have "take_bit 30 (unat base) = 0" using assms by (metis unsigned_take_bit_eq unsigned_0)
  then have b: "unat base mod 2 ^ 30 = 0" by (simp only: take_bit_eq_mod)
  have "unat (base + off) mod 2 ^ 30 = (unat base + unat off) mod 2 ^ 64 mod 2 ^ 30" by (simp add: unat_word_ariths)
  also have "\<dots> = (unat base + unat off) mod 2 ^ 30" by (rule mod_mod_cancel) simp
  also have "\<dots> = unat off mod 2 ^ 30" using b by (metis add_0 mod_add_left_eq)
  finally show ?thesis .
qed

lemma div_mod_30: "(y :: nat) div 2 ^ 21 mod 512 = y mod 2 ^ 30 div 2 ^ 21" "y div 2 ^ 12 mod 512 = y mod 2 ^ 30 div 2 ^ 12 mod 512"
proof -
  have d: "y mod 2 ^ 30 div 2 ^ k = y div 2 ^ k mod 2 ^ (30 - k)" for k
    using drop_bit_take_bit [of k 30 y] by (simp add: drop_bit_eq_div take_bit_eq_mod)
  show "y div 2 ^ 21 mod 512 = y mod 2 ^ 30 div 2 ^ 21" unfolding d by simp
  show "y div 2 ^ 12 mod 512 = y mod 2 ^ 30 div 2 ^ 12 mod 512" unfolding d by (simp add: mod_mod_cancel)
qed

lemma unat_block_offset: "unat (b :: u64) < 2 ^ 27 \<Longrightarrow> unat (push_bit 12 b) = unat b * 2 ^ 12"
  by (simp add: push_bit_eq_mult unat_word_ariths)

lemma block_indices:
  fixes base b :: u64
  assumes "base AND 0x3fffffff = 0" and "unat b < 2 ^ 27"
  shows "unat (pmd_index (base + push_bit 12 b)) = unat b div 512 mod 512"
    "unat (pte_index (base + push_bit 12 b)) = unat b mod 512"
proof -
  note o = unat_mod_30 [OF assms(1), of "push_bit 12 b", unfolded unat_block_offset [OF assms(2)]]
  have "unat (pmd_index (base + push_bit 12 b)) = unat b * 2 ^ 12 div 2 ^ 21 mod 512"
    unfolding pmd_index_def unat_and_511 unat_shift div_mod_30(1) o ..
  also have "unat b * 2 ^ 12 div 2 ^ 21 = unat b div 512" by (simp add: div_mult2_eq [of _ 4096 512, simplified])
  finally show "unat (pmd_index (base + push_bit 12 b)) = unat b div 512 mod 512" .
  have "unat (pte_index (base + push_bit 12 b)) = unat b * 2 ^ 12 div 2 ^ 12 mod 512"
    unfolding pte_index_def unat_and_511 unat_shift div_mod_30(2) [of "unat (base + push_bit 12 b)"]
      div_mod_30(2) [of "unat b * 2 ^ 12"] o ..
  then show "unat (pte_index (base + push_bit 12 b)) = unat b mod 512" by simp
qed

lemma pud_alloc_entry:
  assumes "i_pg_addr s ino \<noteq> 0" and "unat b < 2 ^ 27"
  shows "rdfs_pud_alloc s ino (push_bit 12 b) = entry_addr s (i_pg_addr s ino) (unat b div 262144)"
proof -
  have u: "unat (drop_bit 30 (push_bit 12 b)) = unat b div 262144"
    unfolding unat_shift unat_block_offset [OF assms(2)] by (simp add: div_mult2_eq [of _ 4096 262144, simplified])
  have "uint (drop_bit 30 (push_bit 12 b)) = int (unat b div 262144)"
    using u by (metis uint_nat)
  moreover have "signed_take_bit 31 (int (unat b div 262144)) = int (unat b div 262144)"
    using assms(2) by (intro signed_take_bit_int_eq_self) (auto simp: less_mult_imp_div_less)
  ultimately show ?thesis
    using assms(1) unfolding rdfs_pud_alloc_def rdfs_get_pud_def entry_addr_def i_pg_addr_def by (simp add: Let_def)
qed

section \<open>One level down\<close>

text \<open>The page below \<open>path\<close> at index \<open>i\<close>, allocated if it was missing: page \<open>q\<close> in the table \<open>t'\<close>.\<close>

definition descended ::
  "'a nvm_scheme \<Rightarrow> u64 \<Rightarrow> pg_tree \<Rightarrow> nat list \<Rightarrow> nat \<Rightarrow> u64 \<Rightarrow> 'a nvm_scheme \<Rightarrow> pg_tree \<Rightarrow> bool" where
  "descended s ino t path i q s' t' \<longleftrightarrow> file_inv s' ino t' \<and> t \<subseteq>\<^sub>m t' \<and> t' (path @ [i]) = Some q \<and> same_super s s' \<and>
     free_page_set s' \<subseteq> free_page_set s \<and> (\<forall>b v. tree_lookup s t b = Some v \<longrightarrow> tree_lookup s' t' b = Some v)"

lemma descend_step:
  assumes inv: "file_inv s ino t" and "t path = Some p" and "length path < 2" and "i < 512"
    and slow: "rdfs_pmd_alloc_slow s cpu (entry_addr s p i) = (err, s')"
  shows "entry s p i \<noteq> 0 \<Longrightarrow> \<exists>q. entry s p i = table_of_phys q \<and> descended s ino t path i q s t"
    and "entry s p i = 0 \<Longrightarrow> err \<noteq> 0 \<Longrightarrow> s' = s \<and> free_page_list s (get_cpu_numa s cpu) = []"
    and "entry s p i = 0 \<Longrightarrow> err = 0 \<Longrightarrow> \<exists>q t'. descended s ino t path i q s' t' \<and> entry s' p i = table_of_phys q \<and>
       free_page_list s (get_cpu_numa s cpu) = q # free_page_list s' (get_cpu_numa s cpu)"
proof -
  have tok: "tree_ok s t" and pinv: "pages_inv s" using inv by (simp_all add: file_inv_def)
  have e: "entry s p i = link_of (t (path @ [i]))" using tree_okD(4) [OF tok assms(2-4)] .
  show "\<exists>q. entry s p i = table_of_phys q \<and> descended s ino t path i q s t" if "entry s p i \<noteq> 0"
    using e that inv
    by (cases "t (path @ [i])") (auto simp: descended_def link_of_def same_super_refl)
  assume z: "entry s p i = 0"
  then have n: "t (path @ [i]) = None" using e by (cases "t (path @ [i])") (simp_all add: link_of_def)
  note g = alloc_slow_grows [OF tok pinv assms(2-4) n slow]
  show "s' = s \<and> free_page_list s (get_cpu_numa s cpu) = []" if "err \<noteq> 0" using g that by blast
  assume "err = 0"
  then obtain q where q: "grown s t path i q s'"
      "free_page_list s (get_cpu_numa s cpu) = q # free_page_list s' (get_cpu_numa s cpu)"
    using g by blast
  note fi = grown_file_inv [OF inv q(1) assms(2)]
  have "entry s' p i = table_of_phys q"
    using tree_okD(4) [of s' "t(path @ [i] \<mapsto> q)" path p i] fi assms(2-4)
    by (simp add: file_inv_def link_of_def)
  moreover have "t \<subseteq>\<^sub>m t(path @ [i] \<mapsto> q)" using n by (auto simp: map_le_def dom_def)
  moreover have "\<forall>b v. tree_lookup s t b = Some v \<longrightarrow> tree_lookup s' (t(path @ [i] \<mapsto> q)) b = Some v"
    using grown_lookup [OF tok q(1) assms(2,3) n] by blast
  ultimately have "descended s ino t path i q s' (t(path @ [i] \<mapsto> q)) \<and> entry s' p i = table_of_phys q"
    using fi q(1) unfolding descended_def grown_def by auto
  then show "\<exists>q t'. descended s ino t path i q s' t' \<and> entry s' p i = table_of_phys q \<and>
      free_page_list s (get_cpu_numa s cpu) = q # free_page_list s' (get_cpu_numa s cpu)"
    using q(2) by blast
qed

lemma offset_entry:
  assumes "entry s p i = table_of_phys q" and "phys_page q"
  shows "rdfs_pmd_offset s (entry_addr s p i) a = entry_addr s q (unat (pmd_index a))"
    "rdfs_pte_offset s (entry_addr s p i) a = entry_addr s q (unat (pte_index a))"
  using assms unfolding rdfs_pmd_offset_def rdfs_pte_offset_def entry_def by (simp_all add: entry_addr_def)

lemma descended_page_ok: "descended s ino t path i q s' t' \<Longrightarrow> page_ok s' q"
  unfolding descended_def file_inv_def using tree_okD(2) by blast

lemma file_root: "file_inv s ino t \<Longrightarrow> page_ok s (i_pg_addr s ino)"
  unfolding file_inv_def using tree_okD(2) by blast

lemma descended_trans:
  assumes "descended s ino t path i q s1 t1" and "descended s1 ino t1 path' j r s2 t2"
  shows "file_inv s2 ino t2" "t \<subseteq>\<^sub>m t2" "t2 (path' @ [j]) = Some r" "same_super s s2"
    "\<forall>b v. tree_lookup s t b = Some v \<longrightarrow> tree_lookup s2 t2 b = Some v" "free_page_set s2 \<subseteq> free_page_set s"
  using assms same_super_trans map_le_trans unfolding descended_def by blast+

text \<open>Both allocating walks: a null result with nothing changed when the node has no free page, else the entry
  one level down.\<close>

lemma alloc_descends:
  assumes inv: "file_inv s ino t" and "t path = Some p" and "length path < 2" and "i < 512" and "k < 512"
    and slow: "rdfs_pmd_alloc_slow s cpu (entry_addr s p i) = (err, s1)"
    and res: "(v, s') = (if entry s p i = 0 then if err \<noteq> 0 then (0, s1) else (off s1, s1) else (off s, s))"
    and off: "\<And>u q. same_super s u \<Longrightarrow> entry u p i = table_of_phys q \<Longrightarrow> phys_page q \<Longrightarrow> off u = entry_addr u q k"
  shows "v = 0 \<and> s' = s \<and> free_page_list s (get_cpu_numa s cpu) = [] \<or>
     (\<exists>q t'. descended s ino t path i q s' t' \<and> v = entry_addr s' q k \<and> v \<noteq> 0 \<and>
        length (free_page_list s (get_cpu_numa s cpu)) \<le> Suc (length (free_page_list s' (get_cpu_numa s cpu))))"
proof -
  note d = descend_step [OF inv assms(2-4) slow]
  have fin: "off s' = entry_addr s' q k \<and> off s' \<noteq> 0"
    if "descended s ino t path i q s' t'" "entry s' p i = table_of_phys q" for q t'
  proof -
    have ok: "page_ok s' q" by (rule descended_page_ok [OF that(1)])
    have "same_super s s'" using that(1) by (simp add: descended_def)
    then show ?thesis using off [OF _ that(2)] ok entry_addr_nonzero [OF ok assms(5)] by (simp add: page_ok_def)
  qed
  show ?thesis
  proof (cases "entry s p i = 0")
    case False
    then have r: "v = off s'" "s' = s" using res by simp_all
    then show ?thesis using d(1) [OF False] fin by fastforce
  next
    case z: True
    show ?thesis
    proof (cases "err = 0")
      case False
      then show ?thesis using res d(2) [OF z] z by simp
    next
      case True
      then have r: "v = off s'" "s' = s1" using res z by simp_all
      then show ?thesis using d(3) [OF z True] fin by fastforce
    qed
  qed
qed

lemma pmd_alloc_descends:
  assumes "file_inv s ino t" and "t [] = Some p" and "i < 512" and "\<not> in_dir_area a"
    and call: "rdfs_pmd_alloc s cpu (entry_addr s p i) a = (pmd, s')"
  shows "pmd = 0 \<and> s' = s \<and> free_page_list s (get_cpu_numa s cpu) = [] \<or>
     (\<exists>q t'. descended s ino t [] i q s' t' \<and> pmd = entry_addr s' q (unat (pmd_index a)) \<and> pmd \<noteq> 0 \<and>
        length (free_page_list s (get_cpu_numa s cpu)) \<le> Suc (length (free_page_list s' (get_cpu_numa s cpu))))"
proof -
  obtain err s1 where slow: "rdfs_pmd_alloc_slow s cpu (entry_addr s p i) = (err, s1)"
    by (cases "rdfs_pmd_alloc_slow s cpu (entry_addr s p i)")
  have same: "entry_addr u p i = entry_addr s p i" if "same_super s u" for u
    using same_super_eqs(1) [OF that] by (simp add: entry_addr_def)
  show ?thesis
    by (rule alloc_descends [OF assms(1,2) _ assms(3) _ slow, where off = "\<lambda>u. rdfs_pmd_offset u (entry_addr s p i) a"])
      (use call assms(4) slow offset_entry(1) [of _ p i] in
        \<open>auto simp: pmd_index_def unat_and_511 rdfs_pmd_alloc_def entry_def simp flip: same\<close>)
qed

lemma pte_alloc_descends:
  assumes "file_inv s ino t" and "t path = Some p" and "length path < 2" and "i < 512"
    and call: "rdfs_pte_alloc s cpu (entry_addr s p i) a = (pte, s')"
  shows "pte = 0 \<and> s' = s \<and> free_page_list s (get_cpu_numa s cpu) = [] \<or>
     (\<exists>q t'. descended s ino t path i q s' t' \<and> pte = entry_addr s' q (unat (pte_index a)) \<and> pte \<noteq> 0 \<and>
        length (free_page_list s (get_cpu_numa s cpu)) \<le> Suc (length (free_page_list s' (get_cpu_numa s cpu))))"
proof -
  obtain err s1 where slow: "rdfs_pmd_alloc_slow s cpu (entry_addr s p i) = (err, s1)"
    by (cases "rdfs_pmd_alloc_slow s cpu (entry_addr s p i)")
  have same: "entry_addr u p i = entry_addr s p i" if "same_super s u" for u
    using same_super_eqs(1) [OF that] by (simp add: entry_addr_def)
  show ?thesis
    by (rule alloc_descends [OF assms(1-4) _ slow, where off = "\<lambda>u. rdfs_pte_offset u (entry_addr s p i) a"])
      (use call slow offset_entry(2) [of _ p i] in
        \<open>auto simp: pte_index_def unat_and_511 rdfs_pte_alloc_def entry_def slow_same simp flip: same\<close>)
qed

section \<open>Setting the entry of a block\<close>

definition block_path :: "nat \<Rightarrow> nat list" where
  "block_path b = [b div 262144 mod 512, b div 512 mod 512]"

lemma block_path_inj:
  assumes "b < 2 ^ 27" and "c < 2 ^ 27" and "block_path b = block_path c" and "b mod 512 = c mod 512"
  shows "b = c"
proof -
  have small: "x div 262144 mod 512 = x div 262144" if "x < 2 ^ 27" for x :: nat
    using that by (simp add: div_less_iff_less_mult)
  have d: "x div 512 div 512 = x div 262144" for x :: nat by (simp add: div_mult2_eq [symmetric])
  have "b div 262144 = c div 262144" "b div 512 mod 512 = c div 512 mod 512"
    using assms(3) small [OF assms(1)] small [OF assms(2)] by (simp_all add: block_path_def)
  then have "b div 512 = c div 512"
    using div_mult_mod_eq [of "b div 512" 512] div_mult_mod_eq [of "c div 512" 512] unfolding d by metis
  then show ?thesis using assms(4) div_mult_mod_eq [of b 512] div_mult_mod_eq [of c 512] by metis
qed

lemma leaf_put:
  fixes v :: u64
  assumes inv: "file_inv s ino t" and "t path = Some q" and "length path = 2" and "k < 512"
  defines "s' \<equiv> put64 s (entry_addr s q k) v"
  shows "file_inv s' ino t"
    and "tree_lookup s' t c = (if block_path c = path \<and> c mod 512 = k then Some v else tree_lookup s t c)"
proof -
  have tok: "tree_ok s t" and pinv: "pages_inv s" using inv by (simp_all add: file_inv_def)
  note q = tree_okD [OF tok assms(2)]
  have w: "page_write s q s'" unfolding s'_def by (rule put_entry_page_write [OF pinv q(2,3) assms(4)])
  note ss = page_write_super [OF w]
  note eqs = same_super_eqs [OF ss]
  have pw: "pg_word s' ino = pg_word s ino" by (simp add: pg_word_def eqs)
  have dis: "region (rdfs_va s q) 4096 \<inter> pg_word s ino = {}" using inv assms(2) by (auto simp: file_inv_def ran_def)
  have "i_pg_addr s' ino = i_pg_addr s ino"
    unfolding i_pg_addr_def eqs
    by (rule page_write_load [OF w]) (use dis in \<open>auto simp: pg_word_def\<close>)
  moreover have "outside_pool s' (pg_word s ino)"
    using inv outside_pool_same [OF ss] page_write_free_set [OF w] by (simp add: file_inv_def)
  ultimately show "file_inv s' ino t"
    using inv tree_leaf_put [OF tok pinv assms(2-4), of v, folded s'_def] page_write_inv [OF w]
    unfolding file_inv_def pw eqs by simp
  show "tree_lookup s' t c = (if block_path c = path \<and> c mod 512 = k then Some v else tree_lookup s t c)"
  proof (cases "t (block_path c)")
    case None
    then show ?thesis using assms(2) by (auto simp: tree_lookup_def block_path_def)
  next
    case (Some r)
    have "entry s' r (c mod 512) = (if q = r \<and> k = c mod 512 then v else entry s r (c mod 512))"
      unfolding s'_def by (rule entry_put [OF assms(4) _ q(2) tree_okD(2) [OF tok Some]]) simp
    moreover have "q = r \<longleftrightarrow> block_path c = path" using tree_inj [OF tok Some, of path] assms(2) Some by auto
    ultimately show ?thesis using Some by (auto simp: tree_lookup_def block_path_def)
  qed
qed

lemma nvmap_pmd_part [simp]:
  "sbi (snd (nvmap_pmd pa s a p mm)) = sbi s" "mem (snd (nvmap_pmd pa s a p mm)) = mem s"
  by (simp_all add: nvmap_pmd_def rdfs_pud_populate_def set_kpud_def)

lemma free_list_part:
  fixes s :: "'a nvm_scheme" and s' :: "'b nvm_scheme"
  assumes "sbi s' = sbi s" and "mem s' = mem s"
  shows "free_page_list s' (get_cpu_numa s' cpu) = free_page_list s (get_cpu_numa s cpu)"
  using nvm_part [OF assms] by simp

lemma descended_part:
  assumes "descended s ino t path i q s1 t1" and "sbi s2 = sbi s1" and "mem s2 = mem s1"
  shows "descended s ino t path i q s2 t1"
proof -
  have "same_super s1 s2" using nvm_part [OF assms(2,3)] assms(2) by (simp add: same_super_def)
  then show ?thesis
    using assms(1) tree_part [OF assms(2,3)] nvm_part(9) [OF assms(2,3)] same_super_trans
    unfolding descended_def by auto
qed

text \<open>The last step: the entry of block \<open>b\<close> in the PTE page below \<open>block_path b\<close>.\<close>

lemma insert_page_leaf:
  fixes phys :: u64
  assumes "file_inv s3 ino t2" and "t \<subseteq>\<^sub>m t2" and "t2 ([i] @ [j]) = Some p"
    and "\<forall>c v. tree_lookup s t c = Some v \<longrightarrow> tree_lookup s3 t2 c = Some v"
    and "block_path (unat b) = [i, j]" and "unat b < 2 ^ 27"
  defines "s4 \<equiv> rdfs_set_pte s3 (entry_addr s3 p (unat b mod 512)) phys"
  shows "file_inv s4 ino t2 \<and> t \<subseteq>\<^sub>m t2 \<and> rdfs_find_data_block s4 ino b = pte_of_phys phys \<and>
     (\<forall>c v. c < 2 ^ 27 \<and> c \<noteq> unat b \<and> tree_lookup s t c = Some v \<longrightarrow> tree_lookup s4 t2 c = Some v)"
proof -
  have pt: "t2 [i, j] = Some p" using assms(3) by simp
  note lp = leaf_put [OF assms(1) pt, of "unat b mod 512" "pte_of_phys phys", folded rdfs_set_pte_def, folded s4_def, simplified]
  have "tree_lookup s4 t2 (unat b) = Some (pte_of_phys phys)" using lp(2) assms(5) by simp
  then have "rdfs_find_data_block s4 ino b = pte_of_phys phys"
    using find_data_block_tree [of s4 t2 ino b] lp(1) by (simp add: file_inv_def)
  moreover have "tree_lookup s4 t2 c = Some v" if "c < 2 ^ 27" "c \<noteq> unat b" "tree_lookup s t c = Some v" for c v
  proof -
    have "\<not> (block_path c = [i, j] \<and> c mod 512 = unat b mod 512)"
      using block_path_inj [OF that(1) assms(6)] that(2) assms(5) by metis
    then show ?thesis unfolding lp(2) if_not_P using assms(4) that(3) by auto
  qed
  ultimately show ?thesis using lp(1) assms(2) by blast
qed

section \<open>Properties\<close>

text \<open>C19. Appending a page to a regular file: if \<open>rdfs_insert_page\<close> returns 0, the file's table is still well formed,
  has only grown, \<open>rdfs_find_data_block\<close> finds the new page at block \<open>i_blocks - 1\<close>, and every other block is
  mapped as before. It fails only with \<open>-1\<close>, and only when fewer than two free pages are left.\<close>

theorem rdfs_insert_page_spec:
  assumes "file_inv s (i_ino vi) t" and "unat (i_blocks vi - 1) < 2 ^ 27"
    and "i_virt_addr (info vi) AND 0x3fffffff = 0"
    and "\<not> in_dir_area (i_virt_addr (info vi) + push_bit 12 (i_blocks vi - 1))"
  shows "case rdfs_insert_page pud_alloc s cpu vi phys of (err, s') \<Rightarrow>
     if err = 0 then
       (\<exists>t'. file_inv s' (i_ino vi) t' \<and> t \<subseteq>\<^sub>m t' \<and>
          (\<forall>c v. c < 2 ^ 27 \<and> c \<noteq> unat (i_blocks vi - 1) \<and> tree_lookup s t c = Some v \<longrightarrow> tree_lookup s' t' c = Some v)) \<and>
       rdfs_find_data_block s' (i_ino vi) (i_blocks vi - 1) = pte_of_phys phys
     else err = - 1 \<and> length (free_page_list s (get_cpu_numa s cpu)) < 2"
proof -
  define b where "b = i_blocks vi - 1"
  define a where "a = i_virt_addr (info vi) + push_bit 12 b"
  define i where "i = unat b div 262144"
  let ?ino = "i_ino vi" and ?P = "i_pg_addr s (i_ino vi)"
  have b: "unat b < 2 ^ 27" using assms(2) by (simp add: b_def)
  note idx = block_indices [OF assms(3) b, folded a_def]
  have i: "i < 512" using b by (simp add: i_def div_less_iff_less_mult)
  have root: "t [] = Some ?P" using assms(1) by (simp add: file_inv_def)
  note okP = file_root [OF assms(1)]
  have pud: "rdfs_pud_alloc s ?ino (push_bit 12 b) = entry_addr s ?P i"
    unfolding i_def using okP b by (intro pud_alloc_entry) (simp_all add: page_ok_def)
  have pud0: "entry_addr s ?P i \<noteq> 0" by (rule entry_addr_nonzero [OF okP i])
  obtain pmd s1 where c1: "rdfs_pmd_alloc s cpu (entry_addr s ?P i) a = (pmd, s1)" by (cases "rdfs_pmd_alloc s cpu (entry_addr s ?P i) a")
  define s2 where "s2 = (if ld64 (mem s) (entry_addr s ?P i) = 0
    then snd (nvmap_pmd pud_alloc s1 a (rdfs_get_pmd s1 (entry_addr s ?P i)) Current_mm) else s1)"
  have part: "sbi s2 = sbi s1" "mem s2 = mem s1" by (simp_all add: s2_def)
  obtain pte s3 where c2: "rdfs_pte_alloc s2 cpu pmd a = (pte, s3)" by (cases "rdfs_pte_alloc s2 cpu pmd a")
  have r: "rdfs_insert_page pud_alloc s cpu vi phys =
      (if pmd = 0 then (- 1, s2) else if pte = 0 then (- 1, s3) else (0, rdfs_set_pte s3 pte phys))"
    using c2 pud0 unfolding rdfs_insert_page_def Let_def b_def [symmetric] a_def [symmetric] pud c1 prod.case
      s2_def [symmetric] by simp
  have nd: "\<not> in_dir_area a" using assms(4) by (simp add: a_def b_def)
  from pmd_alloc_descends [OF assms(1) root i nd c1] show ?thesis
  proof
    assume "pmd = 0 \<and> s1 = s \<and> free_page_list s (get_cpu_numa s cpu) = []"
    then show ?thesis by (simp add: r)
  next
    assume "\<exists>q t'. descended s ?ino t [] i q s1 t' \<and> pmd = entry_addr s1 q (unat (pmd_index a)) \<and> pmd \<noteq> 0 \<and>
        length (free_page_list s (get_cpu_numa s cpu)) \<le> Suc (length (free_page_list s1 (get_cpu_numa s cpu)))"
    then obtain q t1 where d1: "descended s ?ino t [] i q s1 t1" and pmd: "pmd = entry_addr s1 q (unat (pmd_index a))" "pmd \<noteq> 0"
        and len: "length (free_page_list s (get_cpu_numa s cpu)) \<le> Suc (length (free_page_list s1 (get_cpu_numa s cpu)))"
      by blast
    note d2 = descended_part [OF d1 part]
    define j where "j = unat b div 512 mod 512"
    have pmd2: "pmd = entry_addr s2 q j" unfolding pmd(1) idx(1) j_def entry_addr_def nvm_part(1) [OF part] ..
    have f2: "file_inv s2 ?ino t1" "t1 [i] = Some q" using d2 by (simp_all add: descended_def)
    have j: "j < 512" by (simp add: j_def)
    have ss: "same_super s s2" using d2 by (simp add: descended_def)
    have l: "length [i] < 2" by simp
    from pte_alloc_descends [OF f2 l j c2 [unfolded pmd2]] show ?thesis
    proof
      assume "pte = 0 \<and> s3 = s2 \<and> free_page_list s2 (get_cpu_numa s2 cpu) = []"
      then show ?thesis using len free_list_part [OF part, of cpu] same_super_eqs(9) [OF ss] nvm_part(12) [OF part] pmd(2)
        by (simp add: r)
    next
      assume "\<exists>p t'. descended s2 ?ino t1 [i] j p s3 t' \<and> pte = entry_addr s3 p (unat (pte_index a)) \<and> pte \<noteq> 0 \<and>
        length (free_page_list s2 (get_cpu_numa s2 cpu)) \<le> Suc (length (free_page_list s3 (get_cpu_numa s2 cpu)))"
      then obtain p t2 where d3: "descended s2 ?ino t1 [i] j p s3 t2" and pte: "pte = entry_addr s3 p (unat (pte_index a))" "pte \<noteq> 0"
        by blast
      show ?thesis
        using insert_page_leaf [OF descended_trans(1-3,5) [OF d2 d3] _ b, of phys] r pmd(2) pte(2) i
        unfolding pte(1) idx(2) by (auto simp: b_def [symmetric] i_def j_def block_path_def)
    qed
  qed
qed

definition example_kern :: kern where
  "example_kern = \<lparr>sbi = sbi example_tables, mem = mem example_tables, next_numa_id = 0,
     slave_infos = slave_infos example_smem, pte_cnt = 512, pte_phy_addr = 0, pte_free_list = pte_free_list example_smem,
     nv = \<lparr>dir_lists = \<lparr>free_list = [], used_list = [], free_cnt = 0, used_cnt = 0\<rparr>,
       reg_lists = \<lparr>free_list = [], used_list = [], free_cnt = 0, used_cnt = 0\<rparr>\<rparr>,
     kpud = (\<lambda>_ _. 0), kpmd = (\<lambda>_ _. 0), bdevs = (\<lambda>_. example_bdev)\<rparr>"

definition example_file :: inode where
  "example_file = \<lparr>i_ino = 1, i_mode = S_IFREG, i_nlink = 1, i_uid = 0, i_gid = 0, i_size = 0, i_blocks = 1,
     i_atime = 0, i_mtime = 0, i_ctime = 0, i_generation = 0, i_vflags = 0,
     info = example_info\<lparr>i_virt_addr := RDFS_START + DIR_AREA_SIZE\<rparr>\<rparr>"

text \<open>Inode 1 with a fresh table.\<close>

definition example_mapped :: kern where
  "example_mapped = snd (rdfs_init_pg_table example_kern 0 1)"

lemma example_kern_part: "sbi example_kern = sbi example_tables" "mem example_kern = mem example_tables"
  by (simp_all add: example_kern_def)

lemma example_mapped_inv: "\<exists>pud pmd pte. file_inv example_mapped 1 (chain_tree pud pmd pte)"
proof -
  note part = nvm_part [OF example_kern_part]
  have "pages_inv example_kern" using example_tables_inv part(10) by simp
  moreover have "outside_pool example_kern (pg_word example_kern 1)"
    using example_tables_inode unfolding outside_pool_def pg_word_def in_use_def part .
  ultimately show ?thesis
    using init_pg_table_effect [of example_kern 1 0] example_tables_node example_tables_lists(1)
    unfolding part(8) part(12) example_mapped_def by (auto split: prod.splits)
qed

theorem rdfs_insert_page_spec_witness:
  "case rdfs_insert_page (\<lambda>_ _. True) example_mapped 0 example_file 0x1800300000 of (err, s') \<Rightarrow>
     if err = 0 then rdfs_find_data_block s' 1 0 = pte_of_phys 0x1800300000 \<and> pages_inv s'
     else err = - 1 \<and> length (free_page_list example_mapped (get_cpu_numa example_mapped 0)) < 2"
proof -
  obtain t where t: "file_inv example_mapped (i_ino example_file) t"
    using example_mapped_inv by (auto simp: example_file_def)
  have "unat (i_blocks example_file - 1) < 2 ^ 27" "i_virt_addr (info example_file) AND 0x3fffffff = 0"
    "\<not> in_dir_area (i_virt_addr (info example_file) + push_bit 12 (i_blocks example_file - 1))"
    by (simp_all add: example_file_def in_dir_area_def consts_eval)
  from rdfs_insert_page_spec [OF t this, where pud_alloc = "\<lambda>_ _. True" and cpu = 0 and phys = "0x1800300000"] show ?thesis
    by (auto simp: example_file_def file_inv_def split: prod.splits if_splits)
qed

end
