(* ===== verification/Mmu.thy ===== *)
theory Mmu
  imports Mapping_Tables
begin

text \<open>
  The kernel's view of a mapped file (\<open>nvmap\<close>, \<open>unnvmap\<close> of \<open>rdfs_master/nvmalloc.c\<close>,
  \<open>rdfs_establish_mapping\<close> and \<open>rdfs_destroy_mapping\<close> of \<open>pgtable.c\<close>): after mapping, the MMU's walk from a
  virtual address of the file's area reaches the page that the file's table holds for that block.
\<close>

section \<open>What the MMU sees after mapping a file\<close>

text \<open>The area of a regular file: 32 GiB aligned, so that it never wraps around.\<close>

definition file_area :: "u64 \<Rightarrow> bool" where
  "file_area a \<longleftrightarrow> in_file_area a \<and> a AND 0x7ffffffff = 0"

lemma file_area_unat:
  assumes "file_area a"
  shows "unat a mod 2 ^ 35 = 0" "unat a + 2 ^ 35 < 2 ^ 64" "a \<noteq> 0" "a AND 0x3fffffff = 0"
proof -
  have "a AND 0x7ffffffff = take_bit 35 a" by (simp only: take_bit_eq_mask mask_eq_exp_minus_1) simp
  then have "take_bit 35 (unat a) = 0" using assms by (metis file_area_def unsigned_take_bit_eq unsigned_0)
  then show m: "unat a mod 2 ^ 35 = 0" by (simp only: take_bit_eq_mod)
  have "unat a < unat RDFS_END" "unat (RDFS_START + DIR_AREA_SIZE) \<le> unat a"
    using assms by (simp_all add: file_area_def in_file_area_def word_less_nat_alt word_le_nat_alt)
  then have l: "unat a < 0xffffe8ffffffffff" "0xffffcb0800000000 \<le> unat a" by (simp_all add: consts_eval)
  then show "unat a + 2 ^ 35 < 2 ^ 64" by simp
  show "a \<noteq> 0" using l by auto
  have "a AND 0x3fffffff = (a AND 0x7ffffffff) AND 0x3fffffff" by (simp add: and.assoc)
  then show "a AND 0x3fffffff = 0" using assms by (simp add: file_area_def)
qed

text \<open>Address and kernel index of the \<open>i\<close>-th GiB of an area.\<close>

definition gib :: "u64 \<Rightarrow> nat \<Rightarrow> u64" where
  "gib a i = a + of_nat i * 0x40000000"

lemma unat_gib: "file_area a \<Longrightarrow> i \<le> 32 \<Longrightarrow> unat (gib a i) = unat a + i * 2 ^ 30"
proof -
  assume a: "file_area a" and i: "i \<le> 32"
  have "unat (of_nat i * 0x40000000 :: u64) = i * 2 ^ 30" using i by (simp add: unat_word_ariths unat_of_nat)
  then show ?thesis unfolding gib_def using file_area_unat(2) [OF a] i by (simp add: unat_word_ariths)
qed

lemma gib_index:
  assumes "file_area a" and "i < 32"
  shows "drop_bit 30 (gib a i) = drop_bit 30 a + of_nat i"
proof (rule word_eq_unatI)
  have "unat (drop_bit 30 (gib a i)) = (unat a + i * 2 ^ 30) div 2 ^ 30"
    unfolding unat_shift using unat_gib [OF assms(1)] assms(2) by simp
  also have "\<dots> = unat a div 2 ^ 30 + i" by simp
  finally have "unat (drop_bit 30 (gib a i)) = unat a div 2 ^ 30 + i" .
  moreover have "unat (drop_bit 30 a + of_nat i) = unat a div 2 ^ 30 + i"
  proof -
    have "unat a div 2 ^ 30 < 2 ^ 34" using unsigned_less [of a] by (simp add: div_less_iff_less_mult)
    then show ?thesis using assms(2) unat_shift [of 30 a] by (simp add: unat_word_ariths unat_of_nat)
  qed
  ultimately show "unat (drop_bit 30 (gib a i)) = unat (drop_bit 30 a + of_nat i)" by simp
qed

lemma gib_index_inj:
  assumes "i < 32" and "j < 32" and "(drop_bit 30 a + of_nat i :: u64) = drop_bit 30 a + of_nat j"
  shows "i = j"
proof -
  have "(of_nat i :: u64) = of_nat j" using assms(3) by simp
  then have "unat (of_nat i :: u64) = unat (of_nat j :: u64)" by simp
  then show ?thesis using assms(1,2) by (simp add: unat_of_nat)
qed

lemma aligned_and_not_mask:
  fixes x :: u64
  assumes "unat x mod 2 ^ 30 = 0"
  shows "x AND NOT 0x3fffffff = x"
proof -
  have "take_bit 30 (unat x) = 0" using assms by (simp only: take_bit_eq_mod)
  then have t: "take_bit 30 x = 0" by (simp only: unsigned_take_bit_eq [symmetric] unsigned_eq_0_iff)
  have m: "(0x3fffffff :: u64) = mask 30" by (simp only: mask_eq_exp_minus_1) simp
  show ?thesis
  proof (rule bit_word_eqI)
    fix j assume "j < LENGTH(64)"
    have "\<not> (j < 30 \<and> bit x j)" using t by (metis bit_0_eq bit_take_bit_iff bot_apply bot_bool_def)
    then show "bit (x AND NOT 0x3fffffff) j = bit x j"
      using \<open>j < LENGTH(64)\<close> unfolding m by (auto simp: bit_simps)
  qed
qed

lemma gib_next:
  assumes "file_area a" and "Suc i < 32"
  shows "pud_addr_end (gib a i) (a + MAX_FILE_SIZE - 1) = gib a (Suc i)"
proof -
  have al: "gib a (Suc i) AND NOT 0x3fffffff = gib a (Suc i)"
  proof (rule aligned_and_not_mask)
    have "(2 :: nat) ^ 30 dvd 2 ^ 35" by (rule le_imp_power_dvd) simp
    then have "2 ^ 30 dvd unat a" using file_area_unat(1) [OF assms(1)] dvd_trans by blast
    then show "unat (gib a (Suc i)) mod 2 ^ 30 = 0"
      using unat_gib [OF assms(1), of "Suc i"] assms(2) by (simp add: dvd_eq_mod_eq_0 mod_add_eq [symmetric])
  qed
  have step: "gib a i + 0x40000000 = gib a (Suc i)" by (simp add: gib_def algebra_simps)
  have "unat (a + MAX_FILE_SIZE - 1 - 1) = unat a + 2 ^ 35 - 2" 
    using file_area_unat(2) [OF assms(1)] by (simp add: MAX_FILE_SIZE_def unat_word_ariths unat_sub_if')
  moreover have "unat (gib a (Suc i) - 1) = unat a + Suc i * 2 ^ 30 - 1"
    using unat_gib [OF assms(1), of "Suc i"] assms(2) by (simp add: unat_sub_if')
  ultimately have "gib a (Suc i) - 1 < a + MAX_FILE_SIZE - 1 - 1" using assms(2) by (simp add: word_less_nat_alt)
  then show ?thesis unfolding pud_addr_end_def Let_def step al by simp
qed

lemma gib_last:
  assumes "file_area a"
  shows "pud_addr_end (gib a 31) (a + MAX_FILE_SIZE - 1) = a + MAX_FILE_SIZE - 1"
proof -
  have "(2 :: nat) ^ 30 dvd 2 ^ 35" by (rule le_imp_power_dvd) simp
  then have "2 ^ 30 dvd unat a" using file_area_unat(1) [OF assms] dvd_trans by blast
  then have "unat (gib a 32) mod 2 ^ 30 = 0"
    using unat_gib [OF assms, of 32] by (simp add: dvd_eq_mod_eq_0 mod_add_eq [symmetric])
  then have al: "gib a 32 AND NOT 0x3fffffff = gib a 32" by (rule aligned_and_not_mask)
  have step: "gib a 31 + 0x40000000 = gib a 32" by (simp add: gib_def)
  have "unat (a + MAX_FILE_SIZE - 1 - 1) = unat a + 2 ^ 35 - 2"
    using file_area_unat(2) [OF assms] by (simp add: MAX_FILE_SIZE_def unat_word_ariths unat_sub_if')
  moreover have "unat (gib a 32 - 1) = unat a + 2 ^ 35 - 1"
    using unat_gib [OF assms, of 32] by (simp add: unat_sub_if')
  ultimately have "\<not> gib a 32 - 1 < a + MAX_FILE_SIZE - 1 - 1" by (simp add: word_less_nat_alt)
  then show ?thesis unfolding pud_addr_end_def Let_def step al by simp
qed

text \<open>A table whose first \<open>m\<close> PMD pages are present and whose next entry is empty.\<close>

definition dense :: "pg_tree \<Rightarrow> nat \<Rightarrow> bool" where
  "dense t m \<longleftrightarrow> 0 < m \<and> m \<le> 32 \<and> (\<forall>i < m. t [i] \<noteq> None) \<and> t [m] = None"

lemma pud_entry:
  assumes "file_inv s ino t" and "i < 512"
  shows "ld64 (mem s) (entry_addr s (i_pg_addr s ino) i) = link_of (t [i])"
  using tree_okD(4) [of s t "[]" "i_pg_addr s ino" i] assms by (simp add: file_inv_def entry_def)

lemma pmd_page_ok: "file_inv s ino t \<Longrightarrow> t [i] = Some p \<Longrightarrow> page_ok s p"
  using tree_okD(2) by (auto simp: file_inv_def)

text \<open>Kernel entries with GiB \<open>i\<close> to \<open>m - 1\<close> of the area set to the PMD pages of the table.\<close>

definition kmap :: "pg_tree \<Rightarrow> u64 \<Rightarrow> nat \<Rightarrow> nat \<Rightarrow> (u64 \<Rightarrow> u64) \<Rightarrow> (u64 \<Rightarrow> u64)" where
  "kmap t a i m K = (\<lambda>j. if \<exists>k. i \<le> k \<and> k < m \<and> j = drop_bit 30 a + of_nat k
     then link_of (t [unat (j - drop_bit 30 a)]) else K j)"

lemma kmap_empty [simp]: "kmap t a m m K = K"
  by (rule ext) (auto simp: kmap_def)

lemma kmap_at: "k < 32 \<Longrightarrow> i \<le> k \<Longrightarrow> k < m \<Longrightarrow> kmap t a i m K (drop_bit 30 a + of_nat k) = link_of (t [k])"
  by (auto simp: kmap_def unat_of_nat)

lemma kmap_step:
  assumes "i < m" and "m \<le> 32"
  shows "kmap t a (Suc i) m (K(drop_bit 30 a + of_nat i := link_of (t [i]))) = kmap t a i m K"
proof
  fix j
  show "kmap t a (Suc i) m (K(drop_bit 30 a + of_nat i := link_of (t [i]))) j = kmap t a i m K j"
  proof (cases "j = drop_bit 30 a + of_nat i")
    case True
    have "\<not> (\<exists>k. Suc i \<le> k \<and> k < m \<and> j = drop_bit 30 a + of_nat k)"
    proof
      assume "\<exists>k. Suc i \<le> k \<and> k < m \<and> j = drop_bit 30 a + of_nat k"
      then obtain k where k: "Suc i \<le> k" "k < m" "j = drop_bit 30 a + of_nat k" by blast
      then have "i = k" using gib_index_inj [of i k a] True assms by simp
      then show False using k(1) by simp
    qed
    then have "kmap t a (Suc i) m (K(drop_bit 30 a + of_nat i := link_of (t [i]))) j = link_of (t [i])"
      using True unfolding kmap_def by (simp only: if_False fun_upd_same)
    then show ?thesis using True kmap_at [of i i m t a K] assms by simp
  next
    case False
    have "(\<exists>k. i \<le> k \<and> k < m \<and> j = drop_bit 30 a + of_nat k) \<longleftrightarrow> (\<exists>k. Suc i \<le> k \<and> k < m \<and> j = drop_bit 30 a + of_nat k)"
      using False by (metis Suc_leI Suc_leD le_neq_implies_less)
    then show ?thesis using False unfolding kmap_def by (simp only: fun_upd_apply if_False)
  qed
qed

lemma nvmap_file_loop_maps:
  assumes "file_inv s ino t" and "dense t m" and "file_area a" and "\<And>x. pa mm x" and "i < m"
  shows "nvmap_file_loop pa s (gib a i) (a + MAX_FILE_SIZE - 1) (entry_addr s (i_pg_addr s ino) i) mm =
     Some (0, s\<lparr>kpud := (kpud s)(mm := kmap t a i m (kpud s mm))\<rparr>)"
  using assms(1,5)
proof (induction "m - i" arbitrary: i s)
  case 0
  then show ?case by simp
next
  case (Suc d)
  let ?P = "i_pg_addr s ino"
  have m: "m \<le> 32" "i < 32" using assms(2) Suc.prems by (simp_all add: dense_def)
  obtain p where p: "t [i] = Some p" using assms(2) Suc.prems(2) by (auto simp: dense_def)
  have pp: "phys_page p" using pmd_page_ok [OF Suc.prems(1) p] by (simp add: page_ok_def)
  have e: "ld64 (mem s) (entry_addr s ?P i) = table_of_phys p"
    using pud_entry [OF Suc.prems(1), of i] m p by (simp add: link_of_def)
  define s1 where "s1 = set_kpud s mm (gib a i) (table_of_phys p)"
  have part: "sbi s1 = sbi s" "mem s1 = mem s" by (simp_all add: s1_def set_kpud_def)
  have s1: "s1 = s\<lparr>kpud := (kpud s)(mm := (kpud s mm)(drop_bit 30 a + of_nat i := link_of (t [i])))\<rparr>"
    using gib_index [OF assms(3) m(2)] p by (simp add: s1_def set_kpud_def link_of_def)
  have k1: "s1\<lparr>kpud := (kpud s1)(mm := kmap t a (Suc i) m (kpud s1 mm))\<rparr> = s\<lparr>kpud := (kpud s)(mm := kmap t a i m (kpud s mm))\<rparr>"
    using kmap_step [OF Suc.prems(2) m(1), of t a "kpud s mm"] by (simp add: s1)
  have ea: "entry_addr s ?P i + 8 = entry_addr s ?P (Suc i)" by (simp add: entry_addr_def algebra_simps)
  have pop: "rdfs_pud_populate s mm (gib a i) (rdfs_get_pmd s (entry_addr s ?P i)) = s1"
    using e pp by (simp add: rdfs_pud_populate_def rdfs_get_pmd_def s1_def)
  have e': "ld64 (mem s) (entry_addr s ?P (Suc i)) = link_of (t [Suc i])" using pud_entry [OF Suc.prems(1)] m by simp
  have unfold: "nvmap_file_loop pa s (gib a i) (a + MAX_FILE_SIZE - 1) (entry_addr s ?P i) mm =
      (if link_of (t [Suc i]) \<noteq> 0
       then nvmap_file_loop pa s1 (pud_addr_end (gib a i) (a + MAX_FILE_SIZE - 1)) (a + MAX_FILE_SIZE - 1) (entry_addr s ?P (Suc i)) mm
       else Some (0, s1))"
    by (subst nvmap_file_loop.simps) (simp add: assms(4) pop ea Let_def part e')
  show ?case
  proof (cases "Suc i < m")
    case True
    have n0: "link_of (t [Suc i]) \<noteq> 0" using True assms(2) by (auto simp: dense_def link_of_def)
    have inv1: "file_inv s1 ino t" using Suc.prems(1) tree_part(5) [OF part] by simp
    have root: "entry_addr s1 (i_pg_addr s1 ino) (Suc i) = entry_addr s ?P (Suc i)"
      using tree_part(4) [OF part] nvm_part(1) [OF part] by (simp add: entry_addr_def)
    have d: "d = m - Suc i" using Suc.hyps(2) by simp
    show ?thesis
      using Suc.hyps(1) [OF d inv1 True] n0 gib_next [OF assms(3), of i] True m k1 unfolding root unfold by simp
  next
    case False
    then have im: "Suc i = m" using Suc.prems(2) by simp
    then have "link_of (t [Suc i]) = 0" using assms(2) by (simp add: dense_def link_of_def)
    then show ?thesis using k1 im unfolding unfold by simp
  qed
qed

section \<open>Unmapping\<close>

lemma kmap_zero: "k < 32 \<Longrightarrow> i \<le> k \<Longrightarrow> k < m \<Longrightarrow> kmap Map.empty a i m K (drop_bit 30 a + of_nat k) = 0"
  by (simp add: kmap_at link_of_def)

lemma unnvmap_file_loop_clears:
  assumes "file_inv s ino t" and "dense t m" and "file_area a" and "i \<le> m"
  shows "unnvmap_file_loop s (if i < 32 then gib a i else a + MAX_FILE_SIZE - 1) (a + MAX_FILE_SIZE - 1) (entry_addr s (i_pg_addr s ino) i) mm =
     Some (s\<lparr>kpud := (kpud s)(mm := kmap Map.empty a i m (kpud s mm))\<rparr>)"
  using assms(1,4)
proof (induction "m - i" arbitrary: i s)
  case 0
  then have i: "i = m" by simp
  then have "ld64 (mem s) (entry_addr s (i_pg_addr s ino) i) = 0"
    using pud_entry [OF 0(2), of i] assms(2) by (simp add: dense_def link_of_def)
  then show ?case using i by (subst unnvmap_file_loop.simps) simp
next
  case (Suc d)
  let ?P = "i_pg_addr s ino"
  have m: "m \<le> 32" "i < m" "i < 32" using assms(2) Suc.hyps(2) unfolding dense_def by linarith+
  have e: "ld64 (mem s) (entry_addr s ?P i) \<noteq> 0"
    using pud_entry [OF Suc.prems(1), of i] m assms(2) by (auto simp: dense_def link_of_def)
  define s1 where "s1 = set_kpud s mm (gib a i) 0"
  have part: "sbi s1 = sbi s" "mem s1 = mem s" by (simp_all add: s1_def set_kpud_def)
  have s1: "s1 = s\<lparr>kpud := (kpud s)(mm := (kpud s mm)(drop_bit 30 a + of_nat i := link_of (Map.empty [i])))\<rparr>"
    using gib_index [OF assms(3) m(3)] by (simp add: s1_def set_kpud_def link_of_def)
  have k1: "s1\<lparr>kpud := (kpud s1)(mm := kmap Map.empty a (Suc i) m (kpud s1 mm))\<rparr> = s\<lparr>kpud := (kpud s)(mm := kmap Map.empty a i m (kpud s mm))\<rparr>"
    using kmap_step [OF m(2,1), of Map.empty a "kpud s mm"] by (simp add: s1)
  have ea: "entry_addr s ?P i + 8 = entry_addr s ?P (Suc i)" by (simp add: entry_addr_def algebra_simps)
  have inv1: "file_inv s1 ino t" using Suc.prems(1) tree_part(5) [OF part] by simp
  have root: "entry_addr s1 (i_pg_addr s1 ino) (Suc i) = entry_addr s ?P (Suc i)"
    using tree_part(4) [OF part] nvm_part(1) [OF part] by (simp add: entry_addr_def)
  have step: "pud_addr_end (gib a i) (a + MAX_FILE_SIZE - 1) = (if Suc i < 32 then gib a (Suc i) else a + MAX_FILE_SIZE - 1)"
  proof (cases "Suc i < 32")
    case False
    then have "i = 31" using m(3) by simp
    then show ?thesis using gib_last [OF assms(3)] by simp
  qed (use gib_next [OF assms(3)] in simp)
  have d: "d = m - Suc i" "Suc i \<le> m" using Suc.hyps(2) m by simp_all
  show ?case
    using Suc.hyps(1) [OF d(1) inv1 d(2)] e m k1 unfolding root
    by (subst unnvmap_file_loop.simps) (simp add: ea step s1_def)
qed

section \<open>Addresses of a file's area\<close>

lemma area_address:
  assumes "file_area a" and "b < 2 ^ 23" and "off < 4096"
  defines "x \<equiv> a + of_nat (b * 4096 + off)"
  shows "\<not> x < RDFS_START + DIR_AREA_SIZE" "drop_bit 30 x = drop_bit 30 a + of_nat (b div 262144)"
    "unat (pmd_index x) = b div 512 mod 512" "unat (pte_index x) = b mod 512" "x AND 4095 = of_nat off"
proof -
  define o' where "o' = b * 4096 + off"
  have o: "o' < 2 ^ 35" using assms(2,3) by (simp add: o'_def)
  have u: "unat (of_nat o' :: u64) = o'" using o by (simp add: unat_of_nat)
  have ux: "unat x = unat a + o'"
    using file_area_unat(2) [OF assms(1)] o u by (simp add: x_def o'_def [symmetric] unat_word_ariths)
  have "unat (RDFS_START + DIR_AREA_SIZE) \<le> unat a"
    using assms(1) by (simp add: file_area_def in_file_area_def word_le_nat_alt)
  then show "\<not> x < RDFS_START + DIR_AREA_SIZE" using ux by (simp add: word_less_nat_alt)
  have d: "o' div 2 ^ 12 = b" using assms(3) by (simp add: o'_def)
  have dd: "o' div 2 ^ (12 + k) = b div 2 ^ k" for k unfolding power_add div_mult2_eq d ..
  have al: "a AND 0x3fffffff = 0" by (rule file_area_unat(4) [OF assms(1)])
  note m30 = unat_mod_30 [OF al, of "of_nat o'", unfolded u]
  have x': "x = a + of_nat o'" by (simp add: x_def o'_def)
  have "unat (pmd_index x) = o' div 2 ^ 21 mod 512"
    unfolding pmd_index_def unat_and_511 unat_shift div_mod_30(1) x' m30 ..
  then show "unat (pmd_index x) = b div 512 mod 512" using dd [of 9] by simp
  have "unat (pte_index x) = o' div 2 ^ 12 mod 512"
    unfolding pte_index_def unat_and_511 unat_shift x' div_mod_30(2) [of "unat (a + of_nat o')"] div_mod_30(2) [of o'] m30 ..
  then show "unat (pte_index x) = b mod 512" using d by simp
  have a30: "unat a mod 2 ^ 30 = 0" using unat_mod_30 [OF al, of 0] by simp
  show "drop_bit 30 x = drop_bit 30 a + of_nat (b div 262144)"
  proof (rule word_eq_unatI)
    have "unat (drop_bit 30 x) = (unat a + o') div 2 ^ 30" unfolding unat_shift ux ..
    also have "\<dots> = unat a div 2 ^ 30 + o' div 2 ^ 30" using a30 by (simp add: div_plus_div_distrib_dvd_left dvd_eq_mod_eq_0)
    also have "o' div 2 ^ 30 = b div 262144" using dd [of 18] by simp
    finally have l: "unat (drop_bit 30 x) = unat a div 2 ^ 30 + b div 262144" .
    have "b div 262144 < 32" using assms(2) by (simp add: div_less_iff_less_mult)
    moreover have "unat a div 2 ^ 30 < 2 ^ 34" using unsigned_less [of a] by (simp add: div_less_iff_less_mult)
    ultimately have "unat (drop_bit 30 a + of_nat (b div 262144)) = unat a div 2 ^ 30 + b div 262144"
      using unat_shift [of 30 a] by (simp add: unat_word_ariths unat_of_nat)
    then show "unat (drop_bit 30 x) = unat (drop_bit 30 a + of_nat (b div 262144))" using l by simp
  qed
  show "x AND 4095 = of_nat off"
  proof (rule word_eq_unatI)
    have "(2 :: nat) ^ 12 dvd 2 ^ 30" by (rule le_imp_power_dvd) simp
    then have "unat a mod 2 ^ 12 = 0" using a30 by (meson dvd_trans mod_eq_0_iff_dvd)
    then have "unat (x AND 4095) = o' mod 4096" unfolding and_4095_mod ux by (simp add: mod_add_eq [symmetric])
    then show "unat (x AND 4095) = unat (of_nat off :: u64)" using assms(3) by (simp add: o'_def unat_of_nat)
  qed
qed

section \<open>Properties\<close>

lemma root_entry:
  assumes "file_inv s ino t"
  shows "rdfs_get_pud s ino = entry_addr s (i_pg_addr s ino) 0" "entry_addr s (i_pg_addr s ino) 0 \<noteq> 0"
  using file_root [OF assms]
  by (auto simp: rdfs_get_pud_def Let_def entry_addr_def i_pg_addr_def page_ok_def)

lemma not_dir_area:
  assumes "file_area a"
  shows "\<not> in_dir_area a"
proof -
  have "0xffffcb0800000000 \<le> unat a" using assms
    by (simp add: file_area_def in_file_area_def word_le_nat_alt consts_eval)
  moreover have "unat (a + MAX_DIR_SIZE - 1) = unat a + 0x1fffff"
    using file_area_unat(2) [OF assms] by (simp add: MAX_DIR_SIZE_def unat_word_ariths unat_sub_if')
  ultimately show ?thesis by (simp add: in_dir_area_def word_less_nat_alt consts_eval)
qed

text \<open>Building a table does not touch the kernel's entries.\<close>

lemma zeroed_page_kpud: "rdfs_get_zeroed_page s cpu = (v, s') \<Longrightarrow> kpud s' = kpud s"
  by (auto simp: rdfs_get_zeroed_page_def rdfs_new_block_def Let_def split: option.splits if_splits)

lemma init_pg_table_kpud: "kpud (snd (rdfs_init_pg_table s cpu ino)) = kpud s"
proof -
  obtain v1 s1 v2 s2 v3 s3 where r: "rdfs_get_zeroed_page s cpu = (v1, s1)"
      "rdfs_get_zeroed_page s1 cpu = (v2, s2)" "rdfs_get_zeroed_page s2 cpu = (v3, s3)"
    by (metis prod.exhaust)
  then show ?thesis
    using zeroed_page_kpud [OF r(1)] zeroed_page_kpud [OF r(2)] zeroed_page_kpud [OF r(3)]
    by (simp add: rdfs_init_pg_table_def rdfs_table_alloc_one_def rdfs_set_pmd_def rdfs_set_pud_def Let_def)
qed

lemma nvmap_file_maps:
  assumes "file_inv s ino t" and "dense t m" and "file_area a" and "\<And>x. pa Init_mm x"
  shows "nvmap pa ma s a (rdfs_get_pud s ino) Init_mm =
     Some (0, s\<lparr>kpud := (kpud s)(Init_mm := kmap t a 0 m (kpud s Init_mm))\<rparr>)"
proof -
  note pud = root_entry [OF assms(1)] and dir = not_dir_area [OF assms(3)]
  have "0 < m" using assms(2) by (simp add: dense_def)
  then show ?thesis
    using nvmap_file_loop_maps [OF assms(1-3), of pa Init_mm 0] assms(3,4) file_area_unat(3) [OF assms(3)] pud dir
    by (simp add: nvmap_def nvmap_file_def Let_def file_area_def gib_def)
qed

text \<open>C6. After \<open>nvmap\<close> of a regular file with \<open>m\<close> PMD pages, the MMU translates every address of a mapped block in
  the file's area to the same offset of the page the file's table has for the block.\<close>

theorem nvmap_translates:
  assumes "file_inv s ino t" and "dense t m" and "file_area a" and "\<And>x. pud_alloc Init_mm x"
    and "b < m * 262144" and "tree_lookup s t b = Some v" and "v \<noteq> 0" and "off < 4096"
  shows "\<exists>s'. nvmap pud_alloc pmd_alloc s a (rdfs_get_pud s ino) Init_mm = Some (0, s') \<and>
     translate s' (a + of_nat (b * 4096 + off)) = Some (get_phys_from_pte_val v + of_nat off)"
proof -
  define i j where "i = b div 262144" and "j = b div 512 mod 512"
  define s' where "s' = s\<lparr>kpud := (kpud s)(Init_mm := kmap t a 0 m (kpud s Init_mm))\<rparr>"
  have m: "m \<le> 32" using assms(2) by (simp add: dense_def)
  have i: "i < m" "i < 32" using assms(5) m by (simp_all add: i_def div_less_iff_less_mult)
  have b: "b < 2 ^ 23" using assms(5) m by simp
  obtain q where q: "t [i, j] = Some q" "v = entry s q (b mod 512)"
    using assms(6) i by (auto simp: tree_lookup_def i_def j_def)
  obtain p where p: "t [i] = Some p" using assms(2) i(1) by (auto simp: dense_def)
  have tok: "tree_ok s t" using assms(1) by (simp add: file_inv_def)
  have pq: "phys_page p" "phys_page q" using tree_okD(2) [OF tok p] tree_okD(2) [OF tok q(1)] by (simp_all add: page_ok_def)
  have e: "entry s p j = table_of_phys q" using tree_okD(4) [OF tok p, of j] q(1) by (simp add: j_def link_of_def)
  note x = area_address [OF assms(3) b assms(8)]
  have k: "kpud s' Init_mm (drop_bit 30 (a + of_nat (b * 4096 + off))) = table_of_phys p"
    unfolding x(2) using kmap_at [of i 0 m t a "kpud s Init_mm"] i p by (simp add: s'_def i_def link_of_def)
  have part: "sbi s' = sbi s" "mem s' = mem s" by (simp_all add: s'_def)
  have ld: "ld64 (mem s') (rdfs_va s' r + w * 8) = entry s r (unat w)" for r w
    using part nvm_part(1) [OF part] by (simp add: entry_def entry_addr_def)
  have "translate s' (a + of_nat (b * 4096 + off)) = Some (get_phys_from_pte_val v + of_nat off)"
    unfolding translate_def Let_def k ld x(3-5)
    using x(1) pq e q(2) assms(7) by (simp add: j_def)
  then show ?thesis
    using nvmap_file_maps [OF assms(1-3), of pud_alloc pmd_alloc] assms(4) by (auto simp: s'_def)
qed

lemma chain_dense: "dense (chain_tree pud pmd pte) 1"
  by (simp add: dense_def chain_tree_def)

theorem nvmap_translates_witness:
  "\<exists>s s' :: kern. nvmap (\<lambda>_ _. True) (\<lambda>_ _. True) s 0xffffcb0800000000 (rdfs_get_pud s 1) Init_mm = Some (0, s') \<and>
     translate s' 0xffffcb0800000005 = Some 0x1800300005"
proof -
  obtain pud pmd pte where inv: "file_inv example_mapped 1 (chain_tree pud pmd pte)" using example_mapped_inv by blast
  define s where "s = put64 example_mapped (entry_addr example_mapped pte 0) (pte_of_phys 0x1800300000)"
  have pt: "chain_tree pud pmd pte [0, 0] = Some pte" by (simp add: chain_tree_def)
  note lp = leaf_put [OF inv pt, of 0 "pte_of_phys 0x1800300000", folded s_def]
  have "tree_lookup s (chain_tree pud pmd pte) 0 = Some (pte_of_phys 0x1800300000)"
    using lp(2) [of 0] by (simp add: block_path_def)
  moreover have "file_area 0xffffcb0800000000" by (simp add: file_area_def in_file_area_def consts_eval)
  ultimately show ?thesis
    using nvmap_translates [OF lp(1) chain_dense, of "0xffffcb0800000000" "\<lambda>_ _. True" 0 _ 5 "\<lambda>_ _. True"]
    by (auto simp: get_phys_from_pte_val_def pte_of_phys_def PAGE_KERNEL_FLAGS_def)
qed

text \<open>C14. Unmapping a file right after mapping it gives back the kernel's tables, when the area was unmapped before;
  both loops end, at the first empty entry of the file's PUD page.\<close>

theorem nvmap_unnvmap_roundtrip:
  assumes "file_inv s ino t" and "dense t m" and "file_area a" and "\<And>x. pud_alloc Init_mm x"
    and "\<And>k. k < m \<Longrightarrow> kpud s Init_mm (drop_bit 30 a + of_nat k) = 0"
  shows "\<exists>s'. nvmap pud_alloc pmd_alloc s a (rdfs_get_pud s ino) Init_mm = Some (0, s') \<and>
     unnvmap s' a (rdfs_get_pud s' ino) Init_mm = Some (0, s)"
proof -
  define s' where "s' = s\<lparr>kpud := (kpud s)(Init_mm := kmap t a 0 m (kpud s Init_mm))\<rparr>"
  have part: "sbi s' = sbi s" "mem s' = mem s" by (simp_all add: s'_def)
  have inv': "file_inv s' ino t" using assms(1) tree_part(5) [OF part] by simp
  have m: "m \<le> 32" using assms(2) by (simp add: dense_def)
  have "kmap Map.empty a 0 m (kmap t a 0 m (kpud s Init_mm)) = kpud s Init_mm"
    using assms(5) m by (auto simp: kmap_def fun_eq_iff link_of_def)
  then have restored: "s'\<lparr>kpud := (kpud s')(Init_mm := kmap Map.empty a 0 m (kpud s' Init_mm))\<rparr> = s" by (simp add: s'_def)
  have "unnvmap s' a (rdfs_get_pud s' ino) Init_mm = Some (0, s)"
    using unnvmap_file_loop_clears [OF inv' assms(2,3), of 0 Init_mm] restored root_entry [OF inv'] not_dir_area [OF assms(3)]
      file_area_unat(3) [OF assms(3)] assms(3)
    by (simp add: unnvmap_def unnvmap_file_def Let_def file_area_def gib_def)
  then show ?thesis using nvmap_file_maps [OF assms(1-3), of pud_alloc pmd_alloc] assms(4) by (auto simp: s'_def)
qed

theorem nvmap_unnvmap_roundtrip_witness:
  "\<exists>s'. nvmap (\<lambda>_ _. True) (\<lambda>_ _. True) example_mapped 0xffffcb0800000000 (rdfs_get_pud example_mapped 1) Init_mm = Some (0, s') \<and>
     unnvmap s' 0xffffcb0800000000 (rdfs_get_pud s' 1) Init_mm = Some (0, example_mapped)"
proof -
  obtain pud pmd pte where inv: "file_inv example_mapped 1 (chain_tree pud pmd pte)" using example_mapped_inv by blast
  have "kpud example_mapped = (\<lambda>_ _. 0)" by (simp add: example_mapped_def init_pg_table_kpud) (simp add: example_kern_def)
  then show ?thesis
    by (intro nvmap_unnvmap_roundtrip [OF inv chain_dense]) (simp_all add: file_area_def in_file_area_def consts_eval)
qed

end
