(* ===== verification/Remove_Table.thy ===== *)
theory Remove_Table
  imports Mapping_Tables
begin

text \<open>
  Removing the page table of a file (\<open>rdfs_rm_pg_table\<close> of \<open>rdfs_master/pgtable.c\<close>): the three nested loops
  give every page they reach back to the allocator, the data pages before the page of entries that names
  them, and each table page after the tables below it.

  The three loops have the same shape, a walk over the entries of a page that stops at the first empty one;
  \<open>table_walk\<close> is that shape and \<open>visits\<close> what the body of the loop has to do.
\<close>

section \<open>One level of the walk\<close>

primrec table_walk :: "('a kern_scheme \<Rightarrow> u64 \<Rightarrow> 'a kern_scheme) \<Rightarrow> nat \<Rightarrow> u64 \<Rightarrow> 'a kern_scheme \<Rightarrow> 'a kern_scheme" where
  "table_walk f 0 a s = s"
| "table_walk f (Suc n) a s = (if ld64 (mem s) a = 0 then s else table_walk f n (a + 8) (f s a))"

text \<open>The entries of a page from index \<open>i\<close> up to the first empty one, and the addresses they hold.\<close>

definition links_from :: "'a nvm_scheme \<Rightarrow> u64 \<Rightarrow> nat \<Rightarrow> u64 list" where
  "links_from s p i = takeWhile (\<lambda>v. v \<noteq> 0) (map (entry s p) [i ..< 512])"

definition kids :: "(u64 \<Rightarrow> u64) \<Rightarrow> 'a nvm_scheme \<Rightarrow> u64 \<Rightarrow> u64 list" where
  "kids dec s p = map dec (links_from s p 0)"

lemma links_from_simps:
  "links_from s p 512 = []"
  "i < 512 \<Longrightarrow> links_from s p i = (if entry s p i = 0 then [] else entry s p i # links_from s p (Suc i))"
  by (simp_all add: links_from_def upt_conv_Cons)

text \<open>\<open>f\<close>, called on an entry of a page of kind \<open>P\<close> after the pages \<open>qs\<close> have been freed, frees \<open>pages\<close> of what the
  entry names.\<close>

definition visits ::
  "'a kern_scheme \<Rightarrow> (u64 \<Rightarrow> u64) \<Rightarrow> (u64 \<Rightarrow> bool) \<Rightarrow> ('a kern_scheme \<Rightarrow> u64 \<Rightarrow> 'a kern_scheme) \<Rightarrow> (u64 \<Rightarrow> u64 list) \<Rightarrow> bool" where
  "visits s dec P f pages \<longleftrightarrow>
     (\<forall>qs p i. i < 512 \<longrightarrow> P p \<longrightarrow> page_ok s p \<longrightarrow> entry s p i \<noteq> 0 \<longrightarrow> entry s p i \<in> set (links_from s p 0) \<longrightarrow>
        p \<notin> set qs \<longrightarrow> releasable s (qs @ pages (dec (entry s p i))) \<longrightarrow>
        f (free_all s qs) (entry_addr s p i) = free_all s (qs @ pages (dec (entry s p i))))"

lemma free_all_snoc: "free_all s (qs @ [p]) = rdfs_free_block (free_all s qs) p"
  by (simp add: free_all_def)

lemma free_block_outside:
  assumes "free_block_call s p" and "page_ok s q" and "q \<noteq> p" and "x \<in> region (rdfs_va s q) 4096"
  shows "mem (rdfs_free_block s p) x = mem s x"
proof -
  let ?nd = "s_numa_des s (rdfs_get_phys_numa_id s p)"
  have ok: "page_ok s p" using assms(1) by (simp add: free_block_call_def)
  have "x \<notin> region ?nd 128" using apart_disjoint [OF page_ok_apart(2) [OF assms(2) in_use_phys [of s p]]] assms(4) by auto
  moreover have "x \<notin> region (rdfs_va s p) 8"
    using page_ok_pages_disjoint [OF assms(2) ok assms(3)] assms(4) region_mono [of 8 4096 "rdfs_va s p"] by auto
  ultimately show ?thesis by (simp add: rdfs_free_block_eq Let_def set_free_pages_outside store_outside)
qed

lemma free_all_set:
  assumes "releasable s ps"
  shows "free_page_set (free_all s ps) = free_page_set s \<union> set ps"
proof -
  note l = free_all_lists [OF assms]
  have super: "same_super s (free_all s ps)" using l by simp
  have "set (free_page_list (free_all s ps) (s_numa_des s i)) =
      {p \<in> set ps. rdfs_get_phys_numa_id s p = i} \<union> set (free_page_list s (s_numa_des s i))"
    if "i \<in> set (node_ids s)" for i
    using l that by auto
  moreover have "s_numa_des (free_all s ps) = s_numa_des s" using super by (simp add: same_super_def)
  ultimately show ?thesis
    using phys_numa_id_in_use [of s] by (auto simp: free_page_set_def same_super_eqs(4) [OF super])
qed

lemma free_all_outside:
  assumes "releasable s qs" and "page_ok s p" and "p \<notin> set qs" and "x \<in> region (rdfs_va s p) 4096"
  shows "mem (free_all s qs) x = mem s x"
  using assms(1,3)
proof (induction qs rule: rev_induct)
  case Nil
  then show ?case by (simp add: free_all_def)
next
  case (snoc q qs)
  note r = releasable_prefix [OF snoc.prems(1)]
  note l = free_all_lists [OF r]
  have super: "same_super s (free_all s qs)" using l by simp
  have q: "page_ok s q" "q \<notin> free_page_set s" "q \<notin> set qs" using snoc.prems(1) by (auto simp: releasable_def)
  have "q \<notin> free_page_set (free_all s qs)" using q(2,3) by (simp add: free_all_set [OF r])
  then have "free_block_call (free_all s qs) q"
    using l q(1) same_super_eqs(7) [OF super] by (simp add: free_block_call_def)
  then have "mem (rdfs_free_block (free_all s qs) q) x = mem (free_all s qs) x"
    using assms(2,4) snoc.prems(2) same_super_eqs(1,7) [OF super] by (intro free_block_outside) auto
  then show ?case using snoc.IH [OF r] snoc.prems(2) by (simp add: free_all_snoc)
qed

lemma free_all_entry:
  assumes "releasable s qs" and "page_ok s p" and "p \<notin> set qs" and "i < 512"
  shows "entry (free_all s qs) p i = entry s p i" "entry_addr (free_all s qs) p i = entry_addr s p i"
proof -
  have super: "same_super s (free_all s qs)" using free_all_lists [OF assms(1)] by simp
  show "entry (free_all s qs) p i = entry s p i"
    using free_all_outside [OF assms(1-3)] by (intro entry_agree [OF super _ assms(4)]) auto
  show "entry_addr (free_all s qs) p i = entry_addr s p i"
    using same_super_eqs(1) [OF super] by (simp add: entry_addr_def)
qed

lemma entry_addr_Suc: "entry_addr s p i + 8 = entry_addr s p (Suc i)"
  by (simp add: entry_addr_def algebra_simps)

lemma table_walk_from:
  assumes "visits s dec P f pages" and "P p" and "page_ok s p"
    and "i + n = 512" and "set (links_from s p i) \<subseteq> set (links_from s p 0)" and "p \<notin> set qs"
    and "releasable s (qs @ concat (map (pages \<circ> dec) (links_from s p i)))"
    and "p \<notin> set (concat (map (pages \<circ> dec) (links_from s p i)))"
  shows "table_walk f n (entry_addr s p i) (free_all s qs) = free_all s (qs @ concat (map (pages \<circ> dec) (links_from s p i)))"
  using assms(4-)
proof (induction n arbitrary: i qs)
  case 0
  then show ?case by (simp add: links_from_simps)
next
  case (Suc n)
  have i: "i < 512" using Suc.prems(1) by simp
  have r: "releasable s qs" using Suc.prems(4) by (rule releasable_prefix)
  have e: "ld64 (mem (free_all s qs)) (entry_addr s p i) = entry s p i"
    using free_all_entry [OF r assms(3) Suc.prems(3) i] by (simp add: entry_def)
  show ?case
  proof (cases "entry s p i = 0")
    case True
    then show ?thesis using i e by (simp add: links_from_simps)
  next
    case False
    let ?q = "dec (entry s p i)"
    have k: "links_from s p i = entry s p i # links_from s p (Suc i)" using False i by (simp add: links_from_simps)
    have rq: "releasable s (qs @ pages ?q)" using releasable_prefix [of s "qs @ pages ?q"] Suc.prems(4) by (simp add: k)
    have "f (free_all s qs) (entry_addr s p i) = free_all s (qs @ pages ?q)"
      using assms(1-3) i False Suc.prems(2,3) rq unfolding visits_def k by auto
    moreover have "table_walk f n (entry_addr s p (Suc i)) (free_all s (qs @ pages ?q)) =
        free_all s ((qs @ pages ?q) @ concat (map (pages \<circ> dec) (links_from s p (Suc i))))"
      using Suc.prems by (intro Suc.IH) (auto simp: k)
    ultimately show ?thesis using False e by (simp add: k entry_addr_Suc comp_def)
  qed
qed

lemma table_walk_frees:
  assumes "visits s dec P f pages" and "P p" and "page_ok s p" and "p \<notin> set qs"
    and "releasable s (qs @ concat (map pages (kids dec s p)))" and "p \<notin> set (concat (map pages (kids dec s p)))"
  shows "table_walk f 512 (rdfs_va s p) (free_all s qs) = free_all s (qs @ concat (map pages (kids dec s p)))"
proof -
  have k: "map (pages \<circ> dec) (links_from s p 0) = map pages (kids dec s p)" by (simp add: kids_def)
  have a: "entry_addr s p 0 = rdfs_va s p" by (simp add: entry_addr_def)
  show ?thesis using table_walk_from [OF assms(1-3), of 0 512 qs] assms(4-6) unfolding k a by simp
qed

section \<open>The three levels\<close>

definition leaf_step :: "nat \<Rightarrow> 'a kern_scheme \<Rightarrow> u64 \<Rightarrow> 'a kern_scheme" where
  "leaf_step cpu s pte =
     (let v = ld64 (mem s) pte
      in if pte_is_sn v
         then s\<lparr>bdevs := (bdevs s)(get_bdev_id_from_pte_v v :=
                rdfs_free_a_disk_block (bdevs s (get_bdev_id_from_pte_v v)) cpu (get_sn_from_pte_v v))\<rparr>
         else rdfs_free_block s (get_phys_from_pte_val v))"

definition range_step :: "('a kern_scheme \<Rightarrow> u64 \<Rightarrow> 'a kern_scheme) \<Rightarrow> 'a kern_scheme \<Rightarrow> u64 \<Rightarrow> 'a kern_scheme" where
  "range_step f s a =
     (let p = rdfs_va s (ld64 (mem s) a AND PAGE_MASK) in rdfs_table_free (table_walk f 512 p s) p)"

lemma rm_pte_walk: "rm_pte_loop cpu n pte s = table_walk (leaf_step cpu) n pte s"
  by (induction n arbitrary: pte s) (simp_all add: leaf_step_def Let_def)

lemma rm_pte_range_step: "rdfs_rm_pte_range cpu = range_step (leaf_step cpu)"
  by (intro ext) (simp add: rdfs_rm_pte_range_def range_step_def rdfs_get_pte_def rm_pte_walk Let_def)

lemma rm_pmd_walk: "rm_pmd_loop cpu n pmd s = table_walk (rdfs_rm_pte_range cpu) n pmd s"
  by (induction n arbitrary: pmd s) simp_all

lemma rm_pmd_range_step: "rdfs_rm_pmd_range cpu = range_step (rdfs_rm_pte_range cpu)"
  by (intro ext) (simp add: rdfs_rm_pmd_range_def range_step_def rdfs_get_pmd_def rm_pmd_walk Let_def)

lemma rm_pud_walk: "rm_pud_loop cpu n pud s = table_walk (rdfs_rm_pmd_range cpu) n pud s"
  by (induction n arbitrary: pud s) simp_all

abbreviation table_addr :: "u64 \<Rightarrow> u64" where
  "table_addr v \<equiv> v AND PAGE_MASK"

text \<open>A page of entries that name pages of NVM, not sectors of a block device.\<close>

definition nvm_leaf :: "'a nvm_scheme \<Rightarrow> u64 \<Rightarrow> bool" where
  "nvm_leaf s q \<longleftrightarrow> list_all (\<lambda>v. \<not> pte_is_sn v) (links_from s q 0)"

lemma visits_leaf: "visits s get_phys_from_pte_val (nvm_leaf s) (leaf_step cpu) (\<lambda>x. [x])"
  unfolding visits_def
proof (intro allI impI)
  fix qs p i
  assume a: "i < 512" "nvm_leaf s p" "page_ok s p" "entry s p i \<in> set (links_from s p 0)" "p \<notin> set qs"
    "releasable s (qs @ [get_phys_from_pte_val (entry s p i)])"
  then have "ld64 (mem (free_all s qs)) (entry_addr s p i) = entry s p i"
    using free_all_entry [OF releasable_prefix [OF a(6)] a(3,5,1)] by (simp add: entry_def)
  moreover have "\<not> pte_is_sn (entry s p i)" using a(1,2,4) by (simp add: nvm_leaf_def list_all_iff)
  ultimately show "leaf_step cpu (free_all s qs) (entry_addr s p i) =
      free_all s (qs @ [get_phys_from_pte_val (entry s p i)])"
    by (simp add: leaf_step_def free_all_snoc)
qed

lemma visits_range:
  assumes "visits s dec P f pages"
  shows "visits s table_addr (\<lambda>p. \<forall>q \<in> set (kids table_addr s p). P q) (range_step f)
    (\<lambda>q. concat (map pages (kids dec s q)) @ [q])"
  unfolding visits_def
proof (intro allI impI)
  fix qs p i
  define q where "q = table_addr (entry s p i)"
  define ks where "ks = concat (map pages (kids dec s q))"
  assume a: "i < 512" "\<forall>q \<in> set (kids table_addr s p). P q" "page_ok s p" "entry s p i \<noteq> 0"
    "entry s p i \<in> set (links_from s p 0)" "p \<notin> set qs"
    "releasable s (qs @ concat (map pages (kids dec s (table_addr (entry s p i)))) @ [table_addr (entry s p i)])"
  then have rel: "releasable s ((qs @ ks) @ [q])" by (simp add: q_def ks_def)
  have P: "P q" using a(2,5) by (simp add: q_def kids_def)
  have q: "page_ok s q" "q \<notin> set qs" "q \<notin> set ks" using rel by (auto simp: releasable_def)
  have r: "releasable s (qs @ ks)" "releasable s qs"
    using releasable_prefix [OF rel] releasable_prefix [of s qs ks] by auto
  have va: "rdfs_va (free_all s qs) = rdfs_va s" "rdfs_pa (free_all s (qs @ ks)) = rdfs_pa s"
    using free_all_lists [OF r(1)] free_all_lists [OF r(2)] same_super_eqs(1,2) by blast+
  have e: "ld64 (mem (free_all s qs)) (entry_addr s p i) = entry s p i"
    using free_all_entry [OF r(2) a(3,6,1)] by (simp add: entry_def)
  have "table_walk f 512 (rdfs_va s q) (free_all s qs) = free_all s (qs @ ks)"
    using table_walk_frees [OF assms P q(1,2)] r(1) q(3) by (simp add: ks_def)
  then show "range_step f (free_all s qs) (entry_addr s p i) =
      free_all s (qs @ concat (map pages (kids dec s (table_addr (entry s p i)))) @ [table_addr (entry s p i)])"
    unfolding range_step_def Let_def e va q_def [symmetric] ks_def [symmetric] rdfs_table_free_def
    by (simp add: va free_all_snoc [of s "qs @ ks", simplified])
qed

section \<open>The whole table\<close>

text \<open>The pages of a file in the order the loops give them back.\<close>

definition pte_pages :: "'a nvm_scheme \<Rightarrow> u64 \<Rightarrow> u64 list" where
  "pte_pages s q = concat (map (\<lambda>x. [x]) (kids get_phys_from_pte_val s q)) @ [q]"

definition pmd_pages :: "'a nvm_scheme \<Rightarrow> u64 \<Rightarrow> u64 list" where
  "pmd_pages s p = concat (map (pte_pages s) (kids table_addr s p)) @ [p]"

definition table_pages :: "'a nvm_scheme \<Rightarrow> u64 \<Rightarrow> u64 list" where
  "table_pages s r = concat (map (pmd_pages s) (kids table_addr s r)) @ [r]"

definition nvm_file :: "'a nvm_scheme \<Rightarrow> u64 \<Rightarrow> bool" where
  "nvm_file s r \<longleftrightarrow> list_all (\<lambda>p. list_all (nvm_leaf s) (kids table_addr s p)) (kids table_addr s r)"

lemma visits_pmd:
  "visits s table_addr (\<lambda>r. nvm_file s r) (rdfs_rm_pmd_range cpu) (pmd_pages s)"
proof -
  have "visits s table_addr (\<lambda>p. \<forall>q \<in> set (kids table_addr s p). nvm_leaf s q) (rdfs_rm_pte_range cpu) (pte_pages s)"
    using visits_range [OF visits_leaf [of s cpu]] unfolding rm_pte_range_step pte_pages_def .
  from visits_range [OF this] show ?thesis
    unfolding rm_pmd_range_step pmd_pages_def nvm_file_def list_all_iff .
qed

lemma rm_pg_table_frees:
  assumes "releasable s (table_pages s r)" and "r = i_pg_addr s ino" and "nvm_file s r"
  shows "rdfs_rm_pg_table cpu s ino =
    Some (put64 (free_all s (table_pages s r)) (get_rdfs_inode s ino + 72) 0)"
proof -
  define ks where "ks = concat (map (pmd_pages s) (kids table_addr s r))"
  have rel: "releasable s (ks @ [r])" using assms(1) by (simp add: table_pages_def ks_def)
  have r: "page_ok s r" "r \<notin> set ks" "releasable s ks" using rel releasable_prefix [OF rel] by (auto simp: releasable_def)
  have "table_walk (rdfs_rm_pmd_range cpu) 512 (rdfs_va s r) (free_all s []) = free_all s ([] @ ks)"
    using table_walk_frees [OF visits_pmd assms(3) r(1), of "[]" cpu] r(2,3) by (simp add: ks_def)
  then have w: "rm_pud_loop cpu 512 (rdfs_va s r) s = free_all s ks" by (simp add: rm_pud_walk free_all_def)
  have pud: "rdfs_get_pud s ino = rdfs_va s r" "rdfs_va s r \<noteq> 0"
    using r(1) assms(2) by (auto simp: rdfs_get_pud_def i_pg_addr_def page_ok_def)
  have "rdfs_pa (free_all s ks) = rdfs_pa s" using free_all_lists [OF r(3)] same_super_eqs(2) by blast
  then show ?thesis
    unfolding rdfs_rm_pg_table_def pud Let_def w rdfs_table_free_def table_pages_def ks_def [symmetric]
    using pud(2) by (simp add: free_all_snoc)
qed

lemma rm_pg_table_effect:
  assumes "releasable s (table_pages s r)" and "r = i_pg_addr s ino" and "nvm_file s r"
    and "outside_pool s (pg_word s ino)"
    and "\<forall>p \<in> set (table_pages s r). region (rdfs_va s p) 4096 \<inter> pg_word s ino = {}"
  shows "\<exists>s'. rdfs_rm_pg_table cpu s ino = Some s' \<and> pages_inv s' \<and>
    free_page_set s' = free_page_set s \<union> set (table_pages s r) \<and> i_pg_addr s' ino = 0 \<and> same_super s s'"
proof -
  define s1 where "s1 = free_all s (table_pages s r)"
  define s2 where "s2 = put64 s1 (get_rdfs_inode s ino + 72) 0"
  have l: "pages_inv s1" "same_super s s1" using free_all_lists [OF assms(1)] by (simp_all add: s1_def)
  note free = free_all_set [OF assms(1), folded s1_def]
  note ni = same_super_eqs(11) [OF l(2)]
  have "outside_pool s1 (pg_word s ino)"
    using assms(4,5) unfolding outside_pool_def free by (auto simp: same_super_eqs [OF l(2)] in_use_same_super [OF l(2)])
  then have w: "foreign_write s1 (pg_word s ino) s2"
    using l(1) by (auto simp: foreign_write_def s2_def pg_word_def store_outside)
  have "i_pg_addr s2 ino = 0"
    using same_super_eqs(11) [OF foreign_write_super [OF w]] ni by (simp add: i_pg_addr_def s2_def)
  moreover have "same_super s s2" using same_super_trans [OF l(2) foreign_write_super [OF w]] .
  ultimately show ?thesis
    using rm_pg_table_frees [OF assms(1-3), of cpu] foreign_write_inv [OF w] foreign_write_free_set [OF w] free
    by (simp add: s1_def s2_def)
qed


section \<open>A file of one block\<close>

text \<open>Inode 1 with one page at each level of its table and one data page.\<close>

definition example_table :: kern where
  "example_table = example_kern\<lparr>mem :=
     st64 (st64 (st64 (st64 (mem example_tables) 0xffffc900000040c8 0x1800200000)
       0xffffc90000200000 0x1800201067) 0xffffc90000201000 0x1800202067)
       0xffffc90000202000 0x8000001800203163\<rparr>"

lemma example_table_eval [mem_eval]:
  "virt_addr (sbi example_table) = 0xffffc90000000000" "phy_addr (sbi example_table) = 0x1800000000"
  "s_numa_flag example_table = 1" "s_numa_des example_table 0 = 0xffffc90000004000"
  "s_numa_des example_table (Suc 0) = 0xffffc90080000000"
  "get_rdfs_inode example_table 1 = 0xffffc90000004080"
  by (simp_all add: s_numa_des_def s_numa_flag_def rdfs_get_super_def get_rdfs_inode_def example_table_def
      example_kern_def example_tables_def example_nvm_def example_super_def example_sbi_def mem_eval consts_eval)

lemma example_table_mem: "mem example_table = st64 (st64 (st64 (st64 (mem example_tables) 0xffffc900000040c8 0x1800200000)
       0xffffc90000200000 0x1800201067) 0xffffc90000201000 0x1800202067) 0xffffc90000202000 0x8000001800203163"
  by (simp add: example_table_def)

lemma example_table_lists [mem_eval]:
  "free_page_list example_table 0xffffc90000004000 =
     [0x1800100000, 0x1800101000, 0x1800102000, 0x1800103000, 0x1800104000]"
  "free_page_list example_table 0xffffc90080000000 = []"
  by (simp_all add: free_page_list_def rdfs_va_def example_table_mem mem_eval)

lemma example_table_inv: "pages_inv example_table"
  by (simp add: pages_inv_def meta_ok_def node_ids_def node_pages_ok_def page_ok_def meta_areas_def
      rdfs_get_super_def rdfs_va_def phys_page_def rdfs_get_phys_numa_id_def mem_eval consts_eval)

lemma example_table_entries:
  "entry example_table 0x1800200000 0 = 0x1800201067" "entry example_table 0x1800200000 (Suc 0) = 0"
  "entry example_table 0x1800201000 0 = 0x1800202067" "entry example_table 0x1800201000 (Suc 0) = 0"
  "entry example_table 0x1800202000 0 = 0x8000001800203163" "entry example_table 0x1800202000 (Suc 0) = 0"
  by (simp_all add: entry_def entry_addr_def rdfs_va_def example_table_mem example_tables_def example_nvm_def
      example_super_def mem_eval)

lemma example_table_links:
  "links_from example_table 0x1800200000 0 = [0x1800201067]" "links_from example_table 0x1800201000 0 = [0x1800202067]"
  "links_from example_table 0x1800202000 0 = [0x8000001800203163]"
  by (simp_all add: links_from_simps example_table_entries)

lemma example_table_pages:
  "table_pages example_table 0x1800200000 = [0x1800203000, 0x1800202000, 0x1800201000, 0x1800200000]"
  by (simp add: table_pages_def pmd_pages_def pte_pages_def kids_def example_table_links get_phys_from_pte_val_def consts_eval)

lemma example_table_ok:
  "releasable example_table (table_pages example_table 0x1800200000)" "0x1800200000 = i_pg_addr example_table 1"
  "nvm_file example_table 0x1800200000"
proof -
  show "releasable example_table (table_pages example_table 0x1800200000)"
    by (simp add: releasable_def example_table_inv example_table_pages page_ok_def meta_areas_def node_ids_def free_page_set_def
        rdfs_get_super_def rdfs_va_def phys_page_def apart_def mem_eval consts_eval)
  show "0x1800200000 = i_pg_addr example_table 1" by (simp add: i_pg_addr_def example_table_mem mem_eval)
  show "nvm_file example_table 0x1800200000"
    by (simp add: nvm_file_def nvm_leaf_def kids_def example_table_links pte_is_sn_def consts_eval)
qed

lemma example_table_word: "outside_pool example_table (pg_word example_table 1)"
  unfolding pg_word_def
  by (rule outside_pool_check) (simp_all add: node_ids_def rdfs_get_super_def rdfs_va_def apart_def mem_eval)


end
