(* ===== verification/Acl.thy ===== *)
theory Acl
  imports Vfs
begin

text \<open>
  Access control lists (\<open>rdfs_master/acl.c\<close>): their external form, the two halves of its translation, and
  the operations that read and set the list of an inode.

  Extended attributes are the inline functions of \<open>xattr.h\<close> for a kernel without \<open>CONFIG_RDFS_XATTR\<close>. The
  kernel's list operations (\<open>posix_acl_equiv_mode\<close>, \<open>posix_acl_valid\<close>, the cache of lists) are
  parameters. A pointer to a list is \<open>Inl\<close> of an error number, or \<open>Inr\<close> of a list or of \<open>NULL\<close>.
\<close>

record acl_entry =
  e_tag :: u16
  e_perm :: u16
  e_id :: u32

type_synonym posix_acl = "acl_entry list"
type_synonym acl_ptr = "int + posix_acl option"

definition ACL_USER_OBJ :: u16 where [consts_eval]: "ACL_USER_OBJ = 1"
definition ACL_USER :: u16 where [consts_eval]: "ACL_USER = 2"
definition ACL_GROUP_OBJ :: u16 where [consts_eval]: "ACL_GROUP_OBJ = 4"
definition ACL_GROUP :: u16 where [consts_eval]: "ACL_GROUP = 8"
definition ACL_MASK :: u16 where [consts_eval]: "ACL_MASK = 16"
definition ACL_OTHER :: u16 where [consts_eval]: "ACL_OTHER = 32"

definition short_tag :: "u16 \<Rightarrow> bool" where
  "short_tag t \<longleftrightarrow> t \<in> {ACL_USER_OBJ, ACL_GROUP_OBJ, ACL_MASK, ACL_OTHER}"

definition long_tag :: "u16 \<Rightarrow> bool" where
  "long_tag t \<longleftrightarrow> t \<in> {ACL_USER, ACL_GROUP}"


section \<open>External form\<close>

definition be16 :: "u8 \<Rightarrow> u8 \<Rightarrow> u16" where
  "be16 a b = push_bit 8 (ucast a) OR ucast b"

definition be32 :: "u8 \<Rightarrow> u8 \<Rightarrow> u8 \<Rightarrow> u8 \<Rightarrow> u32" where
  "be32 a b c d = push_bit 16 (ucast (be16 a b)) OR ucast (be16 c d)"

definition be16_bytes :: "u16 \<Rightarrow> u8 list" where
  "be16_bytes w = [ucast (drop_bit 8 w), ucast w]"

definition le16_bytes :: "u16 \<Rightarrow> u8 list" where
  "le16_bytes w = [ucast w, ucast (drop_bit 8 w)]"

definition be32_bytes :: "u32 \<Rightarrow> u8 list" where
  "be32_bytes w = be16_bytes (ucast (drop_bit 16 w)) @ be16_bytes (ucast w)"

definition rdfs_ACL_VERSION :: u32 where [consts_eval]: "rdfs_ACL_VERSION = 1"

text \<open>Sizes are \<open>size_t\<close>; the results are C \<open>int\<close>.\<close>

definition rdfs_acl_count :: "u64 \<Rightarrow> int" where
  "rdfs_acl_count sz =
     (let size1 = sz - 4;
          s = sint (size1 - 16)
      in if s < 0 then
           (if size1 mod 4 \<noteq> 0 then - 1 else sint (ucast (size1 div 4) :: u32))
         else
           (if s mod 8 \<noteq> 0 then - 1 else sint (word_of_int (s div 8 + 4) :: u32)))"

definition rdfs_acl_size :: "int \<Rightarrow> u64" where
  "rdfs_acl_size count =
     (if count \<le> 4 then 4 + word_of_int count * 4 else 4 + 4 * 4 + word_of_int (count - 4) * 8)"

text \<open>The loop of \<open>rdfs_acl_load\<close>: \<open>k\<close> entries left, the next one is \<open>n\<close>; \<open>blank n\<close> is what
  \<open>posix_acl_alloc\<close> left in it. \<open>None\<close> is the label \<open>fail\<close>.\<close>

primrec acl_load_loop :: "(nat \<Rightarrow> acl_entry) \<Rightarrow> nat \<Rightarrow> nat \<Rightarrow> u8 list \<Rightarrow> (posix_acl \<times> u8 list) option" where
  "acl_load_loop blank 0 n bs = Some ([], bs)"
| "acl_load_loop blank (Suc k) n bs =
     (if length bs < 4 then None
      else
        let tag = be16 (bs ! 0) (bs ! 1);
            ent = (blank n)\<lparr>e_tag := tag, e_perm := be16 (bs ! 2) (bs ! 3)\<rparr>
        in if short_tag tag then
             map_option (\<lambda>(es, r). (ent # es, r)) (acl_load_loop blank k (Suc n) (drop 4 bs))
           else if long_tag tag then
             (if length bs < 8 then None
              else map_option
                (\<lambda>(es, r). (ent\<lparr>e_id := be32 (bs ! 4) (bs ! 5) (bs ! 6) (bs ! 7)\<rparr> # es, r))
                (acl_load_loop blank k (Suc n) (drop 8 bs)))
           else None)"

definition rdfs_acl_load :: "(nat \<Rightarrow> acl_entry) option \<Rightarrow> u8 list option \<Rightarrow> acl_ptr" where
  "rdfs_acl_load posix_acl_alloc value =
     (case value of
        None \<Rightarrow> Inr None
      | Some bs \<Rightarrow>
          if length bs < 4 then Inl (- EINVAL)
          else if be32 (bs ! 0) (bs ! 1) (bs ! 2) (bs ! 3) \<noteq> rdfs_ACL_VERSION then Inl (- EINVAL)
          else
            let count = rdfs_acl_count (of_nat (length bs))
            in if count < 0 then Inl (- EINVAL)
               else if count = 0 then Inr None
               else (case posix_acl_alloc of
                       None \<Rightarrow> Inl (- ENOMEM)
                     | Some blank \<Rightarrow>
                         (case acl_load_loop blank (nat count) 0 (drop 4 bs) of
                            Some (acl, []) \<Rightarrow> Inr (Some acl)
                          | _ \<Rightarrow> Inl (- EINVAL))))"

text \<open>The bytes that the loop of \<open>rdfs_acl_save\<close> writes.\<close>

fun acl_save_loop :: "posix_acl \<Rightarrow> u8 list option" where
  "acl_save_loop [] = Some []"
| "acl_save_loop (x # xs) =
     (let hd = le16_bytes (e_tag x) @ le16_bytes (e_perm x)
      in if long_tag (e_tag x) then map_option ((@) (hd @ be32_bytes (e_id x))) (acl_save_loop xs)
         else if short_tag (e_tag x) then map_option ((@) hd) (acl_save_loop xs)
         else None)"

text \<open>The result is what was written into the buffer, and \<open>*size\<close>.\<close>

definition rdfs_acl_save :: "bool \<Rightarrow> posix_acl \<Rightarrow> int + u8 list \<times> u64" where
  "rdfs_acl_save kmalloc_ok acl =
     (let sz = rdfs_acl_size (int (length acl))
      in if \<not> kmalloc_ok then Inl (- ENOMEM)
         else (case acl_save_loop acl of
                 None \<Rightarrow> Inl (- EINVAL)
               | Some bs \<Rightarrow> Inr (be32_bytes rdfs_ACL_VERSION @ bs, sz)))"

section \<open>The list of an inode\<close>

definition RDFS_MOUNT_POSIX_ACL :: u64 where [consts_eval]: "RDFS_MOUNT_POSIX_ACL = 4"

text \<open>What the kernel provides. \<open>get_cached_acl\<close> is \<open>None\<close> for \<open>ACL_NOT_CACHED\<close>.\<close>

datatype acl_type = ACL_TYPE_ACCESS | ACL_TYPE_DEFAULT | ACL_TYPE_BAD

record acl_env =
  s_opts :: u64
  get_cached_acl :: "u64 \<Rightarrow> acl_type \<Rightarrow> posix_acl option option"
  posix_acl_alloc :: "(nat \<Rightarrow> acl_entry) option"
  kmalloc_ok :: bool
  posix_acl_equiv_mode :: "posix_acl \<Rightarrow> u16 \<Rightarrow> int \<times> u16"
  current_umask :: u16
  current_time :: u64

abbreviation test_posix_acl :: "'a acl_env_scheme \<Rightarrow> bool" where
  "test_posix_acl k \<equiv> s_opts k AND RDFS_MOUNT_POSIX_ACL \<noteq> 0"

definition rdfs_xattr_get :: "int" where
  "rdfs_xattr_get = - EOPNOTSUPP"

definition rdfs_xattr_set :: "int" where
  "rdfs_xattr_set = - EOPNOTSUPP"

text \<open>The value is read in two calls: the first returns the length. \<open>None\<close> is \<open>BUG()\<close>.\<close>

definition rdfs_get_acl :: "'a acl_env_scheme \<Rightarrow> inode \<Rightarrow> acl_type \<Rightarrow> acl_ptr option" where
  "rdfs_get_acl k inode type =
     (if \<not> test_posix_acl k then Some (Inr None)
      else (case get_cached_acl k (i_ino inode) type of
              Some acl \<Rightarrow> Some (Inr acl)
            | None \<Rightarrow>
                if type = ACL_TYPE_BAD then None
                else
                  let retval = rdfs_xattr_get;
                      (value, retval1) =
                        (if retval > 0 then (Some (replicate (nat retval) 0), rdfs_xattr_get) else (None, retval))
                  in if retval > 0 \<and> \<not> kmalloc_ok k then Some (Inl (- ENOMEM))
                     else if retval1 > 0 then Some (rdfs_acl_load (posix_acl_alloc k) value)
                     else if retval1 = - ENODATA \<or> retval1 = - ENOSYS then Some (Inr None)
                     else Some (Inl retval1)))"

text \<open>Result: the error, the inode, and whether \<open>mark_inode_dirty\<close> was called. The cache is set only
  when \<open>rdfs_xattr_set\<close> succeeds, which it never does.\<close>

definition acl_store :: "'a acl_env_scheme \<Rightarrow> posix_acl option \<Rightarrow> int" where
  "acl_store k acl =
     (case acl of
        None \<Rightarrow> rdfs_xattr_set
      | Some a \<Rightarrow> (case rdfs_acl_save (kmalloc_ok k) a of Inl e \<Rightarrow> e | Inr _ \<Rightarrow> rdfs_xattr_set))"

definition rdfs_set_acl ::
  "'a acl_env_scheme \<Rightarrow> inode \<Rightarrow> acl_type \<Rightarrow> posix_acl option \<Rightarrow> int \<times> inode \<times> bool" where
  "rdfs_set_acl k inode type acl =
     (if S_ISLNK (i_mode inode) then (- EOPNOTSUPP, inode, False)
      else if \<not> test_posix_acl k then (0, inode, False)
      else (case type of
              ACL_TYPE_ACCESS \<Rightarrow>
                (case acl of
                   None \<Rightarrow> (acl_store k None, inode, False)
                 | Some a \<Rightarrow>
                     let (error, mode) = posix_acl_equiv_mode k a (i_mode inode);
                         inode1 = inode\<lparr>i_mode := mode\<rparr>
                     in if error < 0 then (error, inode1, False)
                        else (acl_store k (if error = 0 then None else Some a),
                              inode1\<lparr>i_ctime := current_time k\<rparr>, True))
            | ACL_TYPE_DEFAULT \<Rightarrow>
                if \<not> S_ISDIR (i_mode inode) then (if acl \<noteq> None then - EACCES else 0, inode, False)
                else (acl_store k acl, inode, False)
            | ACL_TYPE_BAD \<Rightarrow> (- EINVAL, inode, False)))"

definition rdfs_init_acl :: "'a acl_env_scheme \<Rightarrow> inode \<Rightarrow> inode \<Rightarrow> int \<times> inode \<times> bool" where
  "rdfs_init_acl k inode dir =
     (let got = (if \<not> S_ISLNK (i_mode inode) \<and> test_posix_acl k then the (rdfs_get_acl k dir ACL_TYPE_DEFAULT)
                 else Inr None)
      in case got of
           Inl e \<Rightarrow> (e, inode, False)
         | Inr acl \<Rightarrow>
             let inode1 = (if \<not> S_ISLNK (i_mode inode) \<and> acl = None
                           then inode\<lparr>i_mode := i_mode inode AND NOT (current_umask k)\<rparr> else inode)
             in if test_posix_acl k \<and> acl \<noteq> None then
                  let mode = i_mode inode1;
                      (error, inode2, d) =
                        (if S_ISDIR (i_mode inode1) then rdfs_set_acl k inode1 ACL_TYPE_DEFAULT acl
                         else (0, inode1, False))
                  in if error \<noteq> 0 then (error, inode2, d)
                     else (0, inode2\<lparr>i_mode := mode\<rparr>, d)
                else (0, inode1, False))"

text \<open>\<open>PTR_ERR\<close> of a null pointer is 0.\<close>

definition rdfs_acl_chmod :: "'a acl_env_scheme \<Rightarrow> inode \<Rightarrow> int \<times> inode \<times> bool" where
  "rdfs_acl_chmod k inode =
     (if \<not> test_posix_acl k then (0, inode, False)
      else if S_ISLNK (i_mode inode) then (- EOPNOTSUPP, inode, False)
      else (case the (rdfs_get_acl k inode ACL_TYPE_ACCESS) of
              Inl e \<Rightarrow> (e, inode, False)
            | Inr None \<Rightarrow> (0, inode, False)
            | Inr (Some acl) \<Rightarrow> rdfs_set_acl k inode ACL_TYPE_ACCESS (Some acl)))"

section \<open>Attribute handlers\<close>

text \<open>\<open>list\<close> is the destination buffer, with its length, or \<open>NULL\<close>. Result: the size and the bytes copied.\<close>

definition POSIX_ACL_XATTR_ACCESS :: string where
  "POSIX_ACL_XATTR_ACCESS = ''system.posix_acl_access''"

definition POSIX_ACL_XATTR_DEFAULT :: string where
  "POSIX_ACL_XATTR_DEFAULT = ''system.posix_acl_default''"

definition xattr_list :: "'a acl_env_scheme \<Rightarrow> string \<Rightarrow> nat option \<Rightarrow> nat \<times> string option" where
  "xattr_list k name list =
     (let n = length name + 1
      in if \<not> test_posix_acl k then (0, None)
         else (n, case list of None \<Rightarrow> None | Some list_size \<Rightarrow> if n \<le> list_size then Some name else None))"

definition rdfs_xattr_list_acl_access :: "'a acl_env_scheme \<Rightarrow> nat option \<Rightarrow> nat \<times> string option" where
  "rdfs_xattr_list_acl_access k list = xattr_list k POSIX_ACL_XATTR_ACCESS list"

definition rdfs_xattr_list_acl_default :: "'a acl_env_scheme \<Rightarrow> nat option \<Rightarrow> nat \<times> string option" where
  "rdfs_xattr_list_acl_default k list = xattr_list k POSIX_ACL_XATTR_DEFAULT list"

definition rdfs_xattr_get_acl ::
  "(posix_acl \<Rightarrow> int) \<Rightarrow> 'a acl_env_scheme \<Rightarrow> inode \<Rightarrow> string \<Rightarrow> acl_type \<Rightarrow> int option" where
  "rdfs_xattr_get_acl posix_acl_to_xattr k inode name type =
     (if name \<noteq> '''' then Some (- EINVAL)
      else if \<not> test_posix_acl k then Some (- EOPNOTSUPP)
      else (case rdfs_get_acl k inode type of
              None \<Rightarrow> None
            | Some (Inl e) \<Rightarrow> Some e
            | Some (Inr None) \<Rightarrow> Some (- ENODATA)
            | Some (Inr (Some acl)) \<Rightarrow> Some (posix_acl_to_xattr acl)))"

definition rdfs_xattr_set_acl ::
  "(u8 list \<Rightarrow> acl_ptr) \<Rightarrow> (posix_acl \<Rightarrow> int) \<Rightarrow> bool \<Rightarrow> 'a acl_env_scheme \<Rightarrow> inode \<Rightarrow> string \<Rightarrow>
     u8 list option \<Rightarrow> acl_type \<Rightarrow> int \<times> inode \<times> bool" where
  "rdfs_xattr_set_acl posix_acl_from_xattr posix_acl_valid owner_or_capable k inode name value type =
     (if name \<noteq> '''' then (- EINVAL, inode, False)
      else if \<not> test_posix_acl k then (- EOPNOTSUPP, inode, False)
      else if \<not> owner_or_capable then (- EPERM, inode, False)
      else (case value of
              None \<Rightarrow> rdfs_set_acl k inode type None
            | Some v \<Rightarrow>
                (case posix_acl_from_xattr v of
                   Inl e \<Rightarrow> (e, inode, False)
                 | Inr None \<Rightarrow> rdfs_set_acl k inode type None
                 | Inr (Some acl) \<Rightarrow>
                     if posix_acl_valid acl \<noteq> 0 then (posix_acl_valid acl, inode, False)
                     else rdfs_set_acl k inode type (Some acl))))"

section \<open>Sizes and bytes\<close>

lemma count_of_size:
  assumes "0 \<le> n" and "n < 2 ^ 28"
  shows "rdfs_acl_count (rdfs_acl_size n) = n"
proof (cases "n \<le> 4")
  case True
  then have "n \<in> {0, 1, 2, 3, 4}" using assms by auto
  then show ?thesis by (auto simp: rdfs_acl_count_def rdfs_acl_size_def)
next
  case False
  define k where "k = n - 4"
  have k: "0 \<le> k" "k < 2 ^ 28" using False assms by (auto simp: k_def)
  have w: "rdfs_acl_size n - 4 - 16 = word_of_int (k * 8)" using False by (simp add: rdfs_acl_size_def k_def)
  have "sint (word_of_int (k * 8) :: u64) = k * 8" using k by (intro sint64) auto
  moreover have "sint (word_of_int (k + 4) :: u32) = k + 4" using k by (intro sint32) auto
  ultimately show ?thesis using k by (simp add: rdfs_acl_count_def w k_def del: diff_diff_eq of_int_mult)
qed

lemma be16_of_bytes: "be16 (ucast (drop_bit 8 w)) (ucast w) = w"
  by (rule bit_word_eqI) (auto simp: be16_def bit_or_iff bit_push_bit_iff bit_unsigned_iff bit_drop_bit_eq dest: bit_imp_le_length)

lemma be32_of_bytes: 
  "be32 (ucast (drop_bit 8 (ucast (drop_bit 16 w) :: u16))) (ucast (ucast (drop_bit 16 w) :: u16))
     (ucast (drop_bit 8 (ucast w :: u16))) (ucast (ucast w :: u16)) = w"
  unfolding be32_def be16_of_bytes
  by (rule bit_word_eqI) (auto simp: bit_or_iff bit_push_bit_iff bit_unsigned_iff bit_drop_bit_eq dest: bit_imp_le_length)

lemma version_bytes: "be32_bytes rdfs_ACL_VERSION = [0, 0, 0, 1]"
  by (simp add: be32_bytes_def be16_bytes_def rdfs_ACL_VERSION_def)

lemma be32_version: "be32 0 0 0 1 = rdfs_ACL_VERSION"
  by (simp add: be32_def be16_def rdfs_ACL_VERSION_def)

section \<open>Loading a list in the declared form\<close>

text \<open>The form \<open>acl.h\<close> declares: a big-endian version, then for each entry a big-endian tag and permission
  and, for a named user or group, a big-endian id.\<close>

definition encode_entry :: "acl_entry \<Rightarrow> u8 list" where
  "encode_entry x = be16_bytes (e_tag x) @ be16_bytes (e_perm x) @ (if long_tag (e_tag x) then be32_bytes (e_id x) else [])"

definition acl_encode :: "posix_acl \<Rightarrow> u8 list" where
  "acl_encode acl = be32_bytes rdfs_ACL_VERSION @ concat (map encode_entry acl)"

definition known_tags :: "posix_acl \<Rightarrow> bool" where
  "known_tags acl \<longleftrightarrow> list_all (\<lambda>x. short_tag (e_tag x) \<or> long_tag (e_tag x)) acl"

text \<open>A minimal list has only unnamed entries; any other has four of them.\<close>

definition acl_shape :: "posix_acl \<Rightarrow> bool" where
  "acl_shape acl \<longleftrightarrow> length (filter (\<lambda>x. long_tag (e_tag x)) acl) = length acl - 4"

definition same_entry :: "acl_entry \<Rightarrow> acl_entry \<Rightarrow> bool" where
  "same_entry x y \<longleftrightarrow> e_tag x = e_tag y \<and> e_perm x = e_perm y \<and> (long_tag (e_tag x) \<longrightarrow> e_id x = e_id y)"

lemma short_not_long: "short_tag t \<Longrightarrow> \<not> long_tag t"
  by (auto simp: short_tag_def long_tag_def consts_eval)

lemma load_loop_decodes:
  assumes "known_tags acl"
  shows "\<exists>acl'. acl_load_loop blank (length acl) n (concat (map encode_entry acl)) = Some (acl', []) \<and>
    list_all2 same_entry acl acl'"
  using assms
proof (induction acl arbitrary: n)
  case Nil
  then show ?case by simp
next
  case (Cons x xs)
  obtain ys where ys: "acl_load_loop blank (length xs) (Suc n) (concat (map encode_entry xs)) = Some (ys, [])"
      "list_all2 same_entry xs ys"
    using Cons by (auto simp: known_tags_def)
  consider "short_tag (e_tag x)" "\<not> long_tag (e_tag x)" | "long_tag (e_tag x)" "\<not> short_tag (e_tag x)"
    using Cons.prems short_not_long by (auto simp: known_tags_def)
  then show ?case
    using ys by cases (auto simp: encode_entry_def [of x] be16_bytes_def be32_bytes_def be16_of_bytes be32_of_bytes
        same_entry_def [of x])
qed

lemma length_encoded:
  "length (concat (map encode_entry acl)) = 4 * length acl + 4 * length (filter (\<lambda>x. long_tag (e_tag x)) acl)"
  by (induction acl) (auto simp: encode_entry_def be16_bytes_def be32_bytes_def)

lemma size_of_encoded:
  assumes "acl_shape acl"
  shows "of_nat (length (acl_encode acl)) = rdfs_acl_size (int (length acl))"
proof (cases "length acl \<le> 4")
  case True
  then show ?thesis using assms
    by (simp add: acl_encode_def length_encoded acl_shape_def version_bytes rdfs_acl_size_def algebra_simps)
next
  case False
  then have "length (concat (map encode_entry acl)) = 16 + 8 * (length acl - 4)"
    using assms by (simp add: length_encoded acl_shape_def)
  moreover have "int (length acl) - 4 = int (length acl - 4)" using False by simp
  ultimately show ?thesis using False by (simp add: acl_encode_def version_bytes rdfs_acl_size_def)
qed

text \<open>C25. \<open>rdfs_acl_load\<close> reads the form that \<open>acl.h\<close> declares: from the big-endian encoding of any list of
  known tags with four unnamed entries (or only unnamed ones) it returns the same tags, permissions and
  ids in the same order.\<close>

theorem rdfs_acl_load_decodes:
  assumes "known_tags acl" and "acl_shape acl" and "acl \<noteq> []" and "length acl < 2 ^ 28"
  shows "\<exists>acl'. rdfs_acl_load (Some blank) (Some (acl_encode acl)) = Inr (Some acl') \<and> list_all2 same_entry acl acl'"
proof -
  have c: "rdfs_acl_count (of_nat (length (acl_encode acl))) = int (length acl)"
    unfolding size_of_encoded [OF assms(2)] by (rule count_of_size) (use assms(4) in auto)
  obtain acl' where "acl_load_loop blank (length acl) 0 (concat (map encode_entry acl)) = Some (acl', [])"
      and "list_all2 same_entry acl acl'" using load_loop_decodes [OF assms(1)] by blast
  then show ?thesis using c assms(3)
    by (auto simp: rdfs_acl_load_def acl_encode_def version_bytes be32_version Let_def)
qed

definition example_acl :: posix_acl where
  "example_acl = [\<lparr>e_tag = 1, e_perm = 6, e_id = 0\<rparr>, \<lparr>e_tag = 2, e_perm = 7, e_id = 1000\<rparr>, \<lparr>e_tag = 4, e_perm = 4, e_id = 0\<rparr>,
     \<lparr>e_tag = 16, e_perm = 7, e_id = 0\<rparr>, \<lparr>e_tag = 32, e_perm = 4, e_id = 0\<rparr>]"

lemma example_acl_ok: "known_tags example_acl" "acl_shape example_acl" "example_acl \<noteq> []" "length example_acl < 2 ^ 28"
  by (simp_all add: example_acl_def known_tags_def acl_shape_def short_tag_def long_tag_def consts_eval)

theorem rdfs_acl_load_decodes_witness:
  "\<exists>acl'. rdfs_acl_load (Some (\<lambda>_. \<lparr>e_tag = 0, e_perm = 0, e_id = 0\<rparr>)) (Some (acl_encode example_acl)) = Inr (Some acl') \<and>
     list_all2 same_entry example_acl acl'"
  by (rule rdfs_acl_load_decodes [OF example_acl_ok])

section \<open>Saving a list\<close>

lemma swapped_tag:
  assumes "short_tag t \<or> long_tag t"
  shows "\<not> short_tag (be16 (ucast t) (ucast (drop_bit 8 t)))" "\<not> long_tag (be16 (ucast t) (ucast (drop_bit 8 t)))"
  using assms by (auto simp: short_tag_def long_tag_def be16_def consts_eval)

lemma load_swapped:
  assumes "short_tag t \<or> long_tag t" and "4 \<le> length bs"
    and "bs ! 0 = ucast t" and "bs ! 1 = ucast (drop_bit 8 t)"
  shows "acl_load_loop blank (Suc k) n bs = None"
  using assms by (simp add: swapped_tag Let_def)

text \<open>C38. What \<open>rdfs_acl_save\<close> writes, \<open>rdfs_acl_load\<close> refuses: the tags are written little-endian and read
  big-endian, so loading the saved form of any non-empty list fails with \<open>-EINVAL\<close>, whatever fills the
  rest of the buffer.\<close>

theorem acl_save_load_mismatch:
  assumes "rdfs_acl_save True acl = Inr (bs, sz)" and "acl \<noteq> []" and "length acl < 2 ^ 28"
    and "length junk = 8 * length acl"
  shows "rdfs_acl_load (Some blank) (Some (take (unat sz) (bs @ junk))) = Inl (- EINVAL)"
proof -
  define m where "m = (if length acl \<le> 4 then 4 + length acl * 4 else 20 + (length acl - 4) * 8)"
  have sz: "sz = rdfs_acl_size (int (length acl))" using assms(1) by (auto simp: rdfs_acl_save_def Let_def split: option.splits)
  have "sz = of_nat m" unfolding sz m_def rdfs_acl_size_def by (auto simp: of_nat_diff)
  then have m: "unat sz = m" using assms(3) by (simp add: unat_of_nat m_def take_bit_nat_eq_self)
  obtain x xs where acl: "acl = x # xs" using assms(2) by (cases acl) auto
  then obtain tl where bs: "bs = [0, 0, 0, 1] @ le16_bytes (e_tag x) @ le16_bytes (e_perm x) @ tl"
      and tag: "short_tag (e_tag x) \<or> long_tag (e_tag x)"
    using assms(1) by (auto simp: rdfs_acl_save_def Let_def version_bytes split: option.splits if_splits)
  define v where "v = take m (bs @ junk)"
  have len: "8 \<le> length v" using assms(4) acl by (auto simp: v_def bs m_def le16_bytes_def)
  have v: "take 8 v = [0, 0, 0, 1] @ le16_bytes (e_tag x) @ le16_bytes (e_perm x)"
    using acl by (auto simp: v_def bs m_def le16_bytes_def)
  have nth: "v ! i = take 8 v ! i" if "i < 8" for i using that by simp
  have loop: "acl_load_loop blank c 0 (drop 4 v) = None" if "0 < c" for c
    using load_swapped [OF tag, of "drop 4 v" blank "c - 1" 0] len that nth [of 4] nth [of 5]
    by (simp add: v le16_bytes_def del: acl_load_loop.simps)
  have "length v = m" using assms(4) by (auto simp: v_def bs m_def le16_bytes_def)
  then have "rdfs_acl_count (of_nat (length v)) = int (length acl)"
    using count_of_size [of "int (length acl)"] assms(3) \<open>sz = of_nat m\<close> sz by simp
  then show ?thesis unfolding m v_def [symmetric] using assms(2) len nth [of 0] nth [of 1] nth [of 2] nth [of 3]
    by (auto simp: rdfs_acl_load_def Let_def v be32_version loop)
qed

theorem acl_save_load_mismatch_witness:
  "rdfs_acl_load (Some (\<lambda>_. \<lparr>e_tag = 0, e_perm = 0, e_id = 0\<rparr>))
     (Some (take 28 (the (map_option ((@) [0, 0, 0, 1]) (acl_save_loop example_acl)) @ replicate 40 0))) = Inl (- EINVAL)"
proof -
  have e: "rdfs_acl_save True example_acl = Inr ([0, 0, 0, 1] @ the (acl_save_loop example_acl), 28)"
    and s: "acl_save_loop example_acl \<noteq> None"
    by (simp_all add: rdfs_acl_save_def version_bytes [unfolded rdfs_ACL_VERSION_def] rdfs_acl_size_def example_acl_def long_tag_def short_tag_def consts_eval)
  show ?thesis
    using acl_save_load_mismatch [OF e example_acl_ok(3,4), of "replicate 40 0"] s by (auto simp: example_acl_def)
qed

section \<open>Mode of a new inode\<close>

text \<open>Without the mount option \<open>POSIX_ACL\<close>, \<open>rdfs_init_acl\<close> succeeds and only clears the bits of the umask
  in the mode of the new inode, which it leaves alone for a symbolic link; with the option and no cached
  default list, creation fails with \<open>-EOPNOTSUPP\<close> for everything but a symbolic link.\<close>

theorem rdfs_init_acl_spec:
  "rdfs_init_acl k inode dir =
     (if S_ISLNK (i_mode inode) then (0, inode, False)
      else if \<not> test_posix_acl k then (0, inode\<lparr>i_mode := i_mode inode AND NOT (current_umask k)\<rparr>, False)
      else (case get_cached_acl k (i_ino dir) ACL_TYPE_DEFAULT of
              None \<Rightarrow> (- EOPNOTSUPP, inode, False)
            | Some None \<Rightarrow> (0, inode\<lparr>i_mode := i_mode inode AND NOT (current_umask k)\<rparr>, False)
            | Some (Some acl) \<Rightarrow>
                if S_ISDIR (i_mode inode) then (acl_store k (Some acl), inode, False) else (0, inode, False)))"
proof -
  have "acl_store k (Some acl) \<noteq> 0" for acl
    by (auto simp: acl_store_def rdfs_acl_save_def rdfs_xattr_set_def consts_eval Let_def split: option.splits)
  then show ?thesis
    by (auto simp: rdfs_init_acl_def rdfs_get_acl_def rdfs_set_acl_def rdfs_xattr_get_def consts_eval Let_def
        split: option.splits sum.splits)
qed

end
