(* ===== verification/Inode_Store.thy ===== *)
theory Inode_Store
  imports Mmu Remove_Table Acl "HOL-Library.Monad_Syntax"
begin

text \<open>
  Inodes (\<open>rdfs_master/inode.c\<close> and the inode operations of \<open>super.c\<close>): the slot of an inode in NVM and its
  copy in memory, creation and eviction, the blocks of a file, reading a page, changing the size.

  The functions of the kernel are the fields of \<open>kenv\<close>. \<open>mark_inode_dirty\<close> calls \<open>rdfs_dirty_inode\<close>, so it
  writes the slot. Tables of operations, locks that are released on every path, and the page cache are
  left out.
\<close>

record iattr =
  ia_valid :: u32
  ia_mode :: u16
  ia_uid :: u32
  ia_gid :: u32
  ia_size :: int
  ia_mtime :: u64

text \<open>\<open>new_inode\<close> is the blank inode the kernel hands out, if any; \<open>inode_addr\<close> the address of the copy of an inode
  in memory.\<close>

record kenv = acl_env +
  s_blocksize_bits :: nat
  crc32 :: "u32 \<Rightarrow> u8 list \<Rightarrow> u32"
  this_cpu :: nat
  pud_alloc :: table_alloc
  pmd_alloc :: table_alloc
  new_inode :: "inode option"
  inode_addr :: "u64 \<Rightarrow> u64"
  inode_init_owner :: "inode \<Rightarrow> inode \<Rightarrow> u16 \<Rightarrow> inode"
  insert_inode_locked :: "inode \<Rightarrow> int"
  make_bad_inode :: "inode \<Rightarrow> inode"
  inode_change_ok :: "inode \<Rightarrow> iattr \<Rightarrow> int"
  setattr_copy :: "inode \<Rightarrow> iattr \<Rightarrow> inode"

section \<open>Flags\<close>

definition S_SYNC :: u32 where [consts_eval]: "S_SYNC = 1"
definition S_NOATIME :: u32 where [consts_eval]: "S_NOATIME = 2"
definition S_APPEND :: u32 where [consts_eval]: "S_APPEND = 4"
definition S_IMMUTABLE :: u32 where [consts_eval]: "S_IMMUTABLE = 8"
definition S_DIRSYNC :: u32 where [consts_eval]: "S_DIRSYNC = 64"

definition RDFS_SYNC_FL :: u32 where [consts_eval]: "RDFS_SYNC_FL = 0x8"
definition RDFS_IMMUTABLE_FL :: u32 where [consts_eval]: "RDFS_IMMUTABLE_FL = 0x10"
definition RDFS_APPEND_FL :: u32 where [consts_eval]: "RDFS_APPEND_FL = 0x20"
definition RDFS_NOATIME_FL :: u32 where [consts_eval]: "RDFS_NOATIME_FL = 0x80"
definition RDFS_BTREE_FL :: u32 where [consts_eval]: "RDFS_BTREE_FL = 0x1000"
definition RDFS_DIRSYNC_FL :: u32 where [consts_eval]: "RDFS_DIRSYNC_FL = 0x10000"
definition RDFS_EOFBLOCKS_FL :: u32 where [consts_eval]: "RDFS_EOFBLOCKS_FL = 0x20000000"

definition RDFS_FL_INHERITED :: u32 where [consts_eval]:
  "RDFS_FL_INHERITED = 0x1 OR 0x2 OR 0x4 OR 0x8 OR 0x40 OR 0x80 OR 0x200 OR 0x400 OR 0x4000 OR 0x8000 OR 0x10000"
definition RDFS_REG_FLMASK :: u32 where [consts_eval]: "RDFS_REG_FLMASK = NOT (0x10000 OR 0x20000)"
definition RDFS_OTHER_FLMASK :: u32 where [consts_eval]: "RDFS_OTHER_FLMASK = 0x40 OR 0x80"

definition flag_if :: "u32 \<Rightarrow> u32 \<Rightarrow> u32 \<Rightarrow> u32" where
  "flag_if flags test flag = (if flags AND test \<noteq> 0 then flag else 0)"

definition rdfs_set_inode_flags :: "inode \<Rightarrow> inode" where
  "rdfs_set_inode_flags inode =
     (let flags = in_flags (info inode)
      in inode\<lparr>i_vflags :=
           (i_vflags inode AND NOT (S_SYNC OR S_APPEND OR S_IMMUTABLE OR S_NOATIME OR S_DIRSYNC))
           OR flag_if flags RDFS_SYNC_FL S_SYNC OR flag_if flags RDFS_APPEND_FL S_APPEND
           OR flag_if flags RDFS_IMMUTABLE_FL S_IMMUTABLE OR flag_if flags RDFS_NOATIME_FL S_NOATIME
           OR flag_if flags RDFS_DIRSYNC_FL S_DIRSYNC\<rparr>)"

definition get_rdfs_inode_flags :: "inode \<Rightarrow> inode" where
  "get_rdfs_inode_flags inode =
     (let flags = i_vflags inode
      in inode\<lparr>info := (info inode)\<lparr>in_flags :=
           (in_flags (info inode) AND
              NOT (RDFS_SYNC_FL OR RDFS_APPEND_FL OR RDFS_IMMUTABLE_FL OR RDFS_NOATIME_FL OR RDFS_DIRSYNC_FL))
           OR flag_if flags S_SYNC RDFS_SYNC_FL OR flag_if flags S_APPEND RDFS_APPEND_FL
           OR flag_if flags S_IMMUTABLE RDFS_IMMUTABLE_FL OR flag_if flags S_NOATIME RDFS_NOATIME_FL
           OR flag_if flags S_DIRSYNC RDFS_DIRSYNC_FL\<rparr>\<rparr>)"

definition rdfs_mask_flags :: "u16 \<Rightarrow> u32 \<Rightarrow> u32" where
  "rdfs_mask_flags mode flags =
     (let flags1 = flags AND RDFS_FL_INHERITED
      in if S_ISDIR mode then flags1
         else if S_ISREG mode then flags1 AND RDFS_REG_FLMASK
         else flags1 AND RDFS_OTHER_FLMASK)"

section \<open>The slot and its copy\<close>

definition rdfs_calc_checksum :: "(u32 \<Rightarrow> u8 list \<Rightarrow> u32) \<Rightarrow> mem \<Rightarrow> u64 \<Rightarrow> nat \<Rightarrow> int" where
  "rdfs_calc_checksum crc m data n =
     (if ld32 m data = crc (- 1) (load_bytes m (data + 4) (n - 4)) then 0 else 1)"

text \<open>Fields that \<open>rdfs_read_inode\<close> copies before it tests whether the inode is active, and after.\<close>

definition read_attrs :: "mem \<Rightarrow> u64 \<Rightarrow> inode \<Rightarrow> inode" where
  "read_attrs m ni inode = inode\<lparr>
     i_mode := ucast (ld32 m (ni + 4) :: u32), i_uid := ld32 m (ni + 44), i_gid := ld32 m (ni + 48),
     i_nlink := ld32 m (ni + 8), i_size := sint (ld64 m (ni + 64)),
     i_atime := ucast (ld32 m (ni + 28) :: u32), i_ctime := ucast (ld32 m (ni + 32) :: u32),
     i_mtime := ucast (ld32 m (ni + 36) :: u32), i_generation := ld32 m (ni + 52)\<rparr>"

definition read_info :: "mem \<Rightarrow> u64 \<Rightarrow> inode \<Rightarrow> inode" where
  "read_info m ni inode = inode\<lparr>i_blocks := ld64 m (ni + 56),
     info := (info inode)\<lparr>in_flags := ld32 m (ni + 16), in_file_acl := ld32 m (ni + 20),
       in_dir_acl := 0, in_dtime := 0, in_state := 0\<rparr>\<rparr>"

text \<open>Result: the error, the inode and whether \<open>read_inode_lock\<close> is still held on return.\<close>

definition rdfs_read_inode ::
  "'k kenv_scheme \<Rightarrow> 'a nvm_scheme \<Rightarrow> inode \<Rightarrow> u64 \<Rightarrow> int \<times> inode \<times> bool" where
  "rdfs_read_inode k s inode ni =
     (if rdfs_calc_checksum (crc32 k) (mem s) ni 128 \<noteq> 0 then (- EIO, make_bad_inode k inode, True)
      else
        let inode1 = rdfs_set_inode_flags (read_attrs (mem s) ni inode)
        in if i_nlink inode1 = 0 \<and> (i_mode inode1 = 0 \<or> ld32 (mem s) (ni + 40) \<noteq> (0 :: u32))
           then (- EINVAL, make_bad_inode k inode1, True)
           else
             let inode2 = (read_info (mem s) ni inode1)\<lparr>i_ino := get_rdfs_inodenr s (rdfs_pa s ni)\<rparr>;
                 t = i_mode inode2 AND S_IFMT
             in (0, if t = S_IFREG \<or> t = S_IFDIR \<or> t = S_IFLNK then inode2 else inode2\<lparr>i_size := 0\<rparr>, False))"

definition rdfs_update_inode :: "'a nvm_scheme \<Rightarrow> inode \<Rightarrow> int \<times> 'a nvm_scheme" where
  "rdfs_update_inode s inode =
     (let ni = get_rdfs_inode s (i_ino inode)
      in if ni = 0 then (- EACCES, s)
         else
           let s1 = put32 s (ni + 4) (ucast (i_mode inode) :: u32);
               s2 = put32 s1 (ni + 44) (i_uid inode);
               s3 = put32 s2 (ni + 48) (i_gid inode);
               s4 = put32 s3 (ni + 8) (i_nlink inode);
               s5 = put64 s4 (ni + 64) (word_of_int (i_size inode));
               s6 = put64 s5 (ni + 56) (i_blocks inode);
               s7 = put32 s6 (ni + 28) (ucast (i_atime inode) :: u32);
               s8 = put32 s7 (ni + 32) (ucast (i_ctime inode) :: u32);
               s9 = put32 s8 (ni + 36) (ucast (i_mtime inode) :: u32)
           in (0, put32 s9 (ni + 52) (i_generation inode)))"

definition rdfs_write_inode :: "'a nvm_scheme \<Rightarrow> inode \<Rightarrow> int \<times> 'a nvm_scheme" where
  "rdfs_write_inode s inode = rdfs_update_inode s inode"

definition rdfs_dirty_inode :: "'a nvm_scheme \<Rightarrow> inode \<Rightarrow> 'a nvm_scheme" where
  "rdfs_dirty_inode s inode = snd (rdfs_update_inode s inode)"

definition RDFS_STATE_NEW :: u16 where [consts_eval]: "RDFS_STATE_NEW = 1"

text \<open>\<open>__rdfs_write_inode\<close>. An address is an error pointer when it is one of the last 4095.\<close>

definition write_inode_slot :: "'a nvm_scheme \<Rightarrow> inode \<Rightarrow> int \<times> inode \<times> 'a nvm_scheme" where
  "write_inode_slot s inode0 =
     (let ni = get_rdfs_inode s (i_ino inode0)
      in if - 4095 \<le> ni then (- EIO, inode0, s)
         else
           let s0 = (if in_state (info inode0) AND RDFS_STATE_NEW \<noteq> 0
                     then s\<lparr>mem := memset (mem s) ni 0 (unat (sbi_inode_size (sbi s)))\<rparr> else s);
               inode = get_rdfs_inode_flags inode0;
               s1 = put32 s0 (ni + 4) (ucast (i_mode inode) :: u32);
               s2 = put32 s1 (ni + 44) (i_uid inode);
               s3 = put32 s2 (ni + 48) (i_gid inode);
               s4 = put32 s3 (ni + 8) (i_nlink inode);
               s5 = put64 s4 (ni + 64) (word_of_int (i_size inode));
               s6 = put32 s5 (ni + 28) (ucast (i_atime inode) :: u32);
               s7 = put32 s6 (ni + 32) (ucast (i_ctime inode) :: u32);
               s8 = put32 s7 (ni + 36) (ucast (i_mtime inode) :: u32);
               s9 = put64 s8 (ni + 56) (ucast (ucast (i_blocks inode) :: u32));
               s10 = put32 s9 (ni + 40) (in_dtime (info inode));
               s11 = put32 s10 (ni + 16) (in_flags (info inode));
               s12 = put32 s11 (ni + 20) (in_file_acl (info inode));
               s13 = (if \<not> S_ISREG (i_mode inode) then put32 s12 (ni + 24) (in_dir_acl (info inode)) else s12);
               s14 = put32 s13 (ni + 52) (i_generation inode)
           in (0, inode\<lparr>info := (info inode)\<lparr>in_state := in_state (info inode) AND NOT RDFS_STATE_NEW\<rparr>\<rparr>, s14))"

definition rdfs_free_inode :: "'a nvm_scheme \<Rightarrow> inode \<Rightarrow> u64 \<Rightarrow> 'a nvm_scheme" where
  "rdfs_free_inode s inode get_seconds = inode_slot_give s (i_ino inode) (ucast get_seconds)"

text \<open>The result of \<open>iget_locked\<close>; a null pointer is dereferenced before it is tested: \<open>None\<close>. The boolean
  says that \<open>read_inode_lock\<close> is still held.\<close>

datatype iget_locked = Iget_null | Iget_cached inode | Iget_new inode

definition rdfs_iget ::
  "'k kenv_scheme \<Rightarrow> 'a nvm_scheme \<Rightarrow> iget_locked \<Rightarrow> u64 \<Rightarrow> ((int + inode) \<times> bool) option" where
  "rdfs_iget k s got ino =
     (case got of
        Iget_null \<Rightarrow> None
      | Iget_cached inode \<Rightarrow> Some (Inr (inode\<lparr>i_ino := ino\<rparr>), False)
      | Iget_new inode \<Rightarrow>
          let ni = get_rdfs_inode s ino
          in if ni = 0 then Some (Inl (- EACCES), False)
             else
               let (err, inode1, locked) = rdfs_read_inode k s (inode\<lparr>i_ino := ino\<rparr>) ni
               in if err \<noteq> 0 then Some (Inl err, locked) else Some (Inr inode1, locked))"

section \<open>Blocks of a file\<close>

text \<open>Virtual memory, byte by byte: \<open>None\<close> is a page fault.\<close>

primrec vstore :: "'a kern_scheme \<Rightarrow> u64 \<Rightarrow> u8 list \<Rightarrow> 'a kern_scheme option" where
  "vstore s a [] = Some s"
| "vstore s a (b # bs) =
     (case translate s a of None \<Rightarrow> None | Some p \<Rightarrow> vstore (put8 s (rdfs_va s p) b) (a + 1) bs)"

definition s_blocksize :: "'k kenv_scheme \<Rightarrow> u64" where
  "s_blocksize k = push_bit (s_blocksize_bits k) 1"

text \<open>\<open>__rdfs_truncate_blocks\<close>.\<close>

definition truncate_table ::
  "'k kenv_scheme \<Rightarrow> 'a kern_scheme \<Rightarrow> inode \<Rightarrow> int \<Rightarrow> int \<Rightarrow> (inode \<times> 'a kern_scheme) option" where
  "truncate_table k s inode start lim =
     (let vaddr = i_virt_addr (info inode);
          ino = i_ino inode;
          pud = rdfs_get_pud s ino;
          ni = get_rdfs_inode s ino;
          first_blocknr = drop_bit (s_blocksize_bits k) (word_of_int start + s_blocksize k - 1);
          last_blocknr = (if ld32 (mem s) (ni + 16) AND RDFS_EOFBLOCKS_FL \<noteq> 0
                          then push_bit (2 * s_blocksize_bits k - 6) 1 - 1
                          else word_of_int (lim div 2 ^ s_blocksize_bits k))
      in if ld64 (mem s) (ni + 72) = 0 then Some (inode, s)
         else if last_blocknr < first_blocknr then Some (inode, s)
         else do {
           (_, s1) \<leftarrow> unnvmap s vaddr pud Current_mm;
           s2 \<leftarrow> rdfs_rm_pg_table (this_cpu k) s1 ino;
           Some (inode\<lparr>i_blocks := 0\<rparr>, s2)
         })"

definition rdfs_truncate_blocks ::
  "'k kenv_scheme \<Rightarrow> 'a kern_scheme \<Rightarrow> inode \<Rightarrow> int \<Rightarrow> int \<Rightarrow> (inode \<times> 'a kern_scheme) option" where
  "rdfs_truncate_blocks k s inode start lim =
     (if \<not> (S_ISREG (i_mode inode) \<or> S_ISDIR (i_mode inode) \<or> S_ISLNK (i_mode inode)) then Some (inode, s)
      else do {
        (inode1, s1) \<leftarrow> truncate_table k s inode start lim;
        let inode2 = inode1\<lparr>i_mtime := current_time k, i_ctime := current_time k\<rparr>;
        Some (inode2, snd (rdfs_update_inode s1 inode2))
      })"

definition ALLOC_PAGE :: int where [consts_eval]: "ALLOC_PAGE = 1"
definition ALLOC_PTE :: int where [consts_eval]: "ALLOC_PTE = 2"

text \<open>The loop of \<open>rdfs_alloc_blocks\<close> with \<open>n\<close> rounds left: take the page \<open>phys\<close> and follow its link, or take an
  entry of slave memory, and insert it into the table.\<close>

definition alloc_source ::
  "'k kenv_scheme \<Rightarrow> 'a kern_scheme \<Rightarrow> inode \<Rightarrow> u64 \<Rightarrow> int \<Rightarrow> int \<Rightarrow> u64 \<Rightarrow> u64 \<times> u64 \<times> inode \<times> 'a kern_scheme" where
  "alloc_source k s inode ni zero type phys =
     (if type = ALLOC_PAGE then
        let temp = rdfs_va s phys
        in (rdfs_pa s temp, ld64 (mem s) temp, inode,
            if zero = 0 then s\<lparr>mem := memset (mem s) temp 0 4096\<rparr> else s)
      else
        let (pte_addr, ri, s1) = rdfs_new_page_pte s (this_cpu k) (info inode) ni
        in (pte_addr, phys, inode\<lparr>info := ri\<rparr>, s1))"

primrec alloc_loop ::
  "'k kenv_scheme \<Rightarrow> u64 \<Rightarrow> int \<Rightarrow> int \<Rightarrow> nat \<Rightarrow> 'a kern_scheme \<Rightarrow> inode \<Rightarrow> u64 \<Rightarrow> int \<times> inode \<times> 'a kern_scheme" where
  "alloc_loop k ni zero type 0 s inode phys = (0, inode, s)"
| "alloc_loop k ni zero type (Suc n) s inode phys =
     (let (page, phys1, inode1, s1) = alloc_source k s inode ni zero type phys;
          inode2 = inode1\<lparr>i_blocks := i_blocks inode1 + 1\<rparr>;
          s2 = put64 s1 (ni + 56) (ucast (ucast (i_blocks inode2) :: u32));
          (err, s3) = rdfs_insert_page (pud_alloc k) s2 (this_cpu k) inode2 page
      in if err \<noteq> 0 then (err, inode2, s3)
         else alloc_loop k ni zero type n s3 inode2 phys1)"

text \<open>The inode number is held in an \<open>int\<close>. The result of \<open>rdfs_new_block\<close> is overwritten by 0: when there are not
  enough pages, \<open>phys\<close> is what its stack slot held, \<open>junk\<close>.\<close>

definition rdfs_alloc_blocks ::
  "'k kenv_scheme \<Rightarrow> 'a kern_scheme \<Rightarrow> inode \<Rightarrow> int \<Rightarrow> int \<Rightarrow> int \<Rightarrow> u64 \<Rightarrow> (int \<times> inode \<times> 'a kern_scheme) option" where
  "rdfs_alloc_blocks k s inode num zero type junk =
     (let ino = scast (ucast (i_ino inode) :: u32) :: u64;
          ni = get_rdfs_inode s ino;
          vaddr = i_virt_addr (info inode)
      in do {
        s1 \<leftarrow> (if ld64 (mem s) (ni + 72) = 0 then do {
                  let s' = snd (rdfs_init_pg_table s (this_cpu k) ino);
                  (_, s'') \<leftarrow> nvmap (pud_alloc k) (pmd_alloc k) s' vaddr (rdfs_get_pud s' ino) Current_mm;
                  Some s''
                } else Some s);
        let (phys, s2) = (if type = ALLOC_PAGE then
                            (case rdfs_new_block s1 (this_cpu k) num ni of
                               None \<Rightarrow> (junk, s1)
                             | Some (p, s') \<Rightarrow> (p, s'))
                          else (junk, s1));
        Some (alloc_loop k ni zero type (nat num) s2 inode phys)
      })"

section \<open>Eviction and creation\<close>

text \<open>\<open>bad\<close> is \<open>is_bad_inode\<close>.\<close>

definition rdfs_evict_inode ::
  "'k kenv_scheme \<Rightarrow> 'a kern_scheme \<Rightarrow> bool \<Rightarrow> inode \<Rightarrow> (inode \<times> 'a kern_scheme) option" where
  "rdfs_evict_inode k s bad inode = do {
     (_, inode1, s1) \<leftarrow> rdfs_establish_mapping (pud_alloc k) (pmd_alloc k) s (inode_addr k (i_ino inode)) inode;
     let want_delete = (i_nlink inode1 = 0 \<and> \<not> bad);
     (inode2, s2) \<leftarrow> (if want_delete then do {
         let inode' = inode1\<lparr>info := (info inode1)\<lparr>in_dtime := ucast (current_time k)\<rparr>\<rparr>;
         let s' = rdfs_dirty_inode s1 inode';
         let (_, inode'', s'') = write_inode_slot s' inode';
         (inode3, s3) \<leftarrow> rdfs_truncate_blocks k s'' inode'' 0 (i_size inode'');
         Some (inode3\<lparr>i_size := 0\<rparr>, s3)
       } else Some (inode1, s1));
     (_, inode4, s4) \<leftarrow> rdfs_destroy_mapping s2 inode2;
     Some (inode4, if want_delete then rdfs_free_inode s4 inode4 (current_time k) else s4)
   }"

definition rdfs_inode_info_init :: "rdfs_inode_info \<Rightarrow> rdfs_inode_info" where
  "rdfs_inode_info_init ri = ri\<lparr>in_state := RDFS_STATE_NEW, in_file_acl := 0, in_dir_acl := 0,
     i_virt_addr := 0, mapping_count := 0, pre_bitmap := None, used_bitmap_list := []\<rparr>"

text \<open>Both failure labels drop the last reference, so the kernel evicts the inode: at \<open>fail1\<close> it is bad, at
  \<open>fail2\<close> its link count is 0.\<close>

definition new_inode_fail1 ::
  "'k kenv_scheme \<Rightarrow> 'a kern_scheme \<Rightarrow> inode \<Rightarrow> int \<Rightarrow> ((int + inode) \<times> 'a kern_scheme) option" where
  "new_inode_fail1 k s inode errval = do {
     (_, s1) \<leftarrow> rdfs_evict_inode k s True (make_bad_inode k inode);
     Some (Inl errval, s1)
   }"

definition new_inode_fail2 ::
  "'k kenv_scheme \<Rightarrow> 'a kern_scheme \<Rightarrow> inode \<Rightarrow> int \<Rightarrow> ((int + inode) \<times> 'a kern_scheme) option" where
  "new_inode_fail2 k s inode errval = do {
     (_, s1) \<leftarrow> rdfs_evict_inode k s False (inode\<lparr>i_nlink := 0\<rparr>);
     Some (Inl errval, s1)
   }"

text \<open>The inode as the code fills it in before it is inserted and written.\<close>

definition fill_new_inode :: "'k kenv_scheme \<Rightarrow> inode \<Rightarrow> inode \<Rightarrow> u16 \<Rightarrow> u64 \<Rightarrow> u32 \<Rightarrow> inode" where
  "fill_new_inode k inode dir mode ino gen =
     (let inode1 = inode_init_owner k (inode\<lparr>i_ino := ino\<rparr>) dir mode;
          ri = (rdfs_inode_info_init (info inode1))\<lparr>in_flags :=
                  rdfs_mask_flags mode (in_flags (info dir) AND RDFS_FL_INHERITED)\<rparr>
      in rdfs_set_inode_flags (inode1\<lparr>i_blocks := 0, i_size := 0, i_mtime := current_time k,
           i_atime := current_time k, i_ctime := current_time k, info := ri, i_generation := gen\<rparr>))"

definition rdfs_new_inode ::
  "'k kenv_scheme \<Rightarrow> 'a kern_scheme \<Rightarrow> inode \<Rightarrow> u16 \<Rightarrow> ((int + inode) \<times> 'a kern_scheme) option" where
  "rdfs_new_inode k s dir mode =
     (case new_inode k of
        None \<Rightarrow> Some (Inl (- ENOMEM), s)
      | Some blank \<Rightarrow>
          let (nd, s1) = get_a_numa s
          in case inode_slot_take s1 nd of
               None \<Rightarrow> new_inode_fail1 k s1 blank (- ENOSPC)
             | Some (ino, ni, s2) \<Rightarrow>
                 if get_rdfs_inode s2 (i_ino dir) = 0 then new_inode_fail1 k s2 blank (- EACCES)
                 else
                   let gen = next_generation (sbi s2) + 1;
                       s3 = s2\<lparr>sbi := (sbi s2)\<lparr>next_generation := gen\<rparr>\<rparr>;
                       inode = fill_new_inode k blank dir mode ino gen
                   in if insert_inode_locked k inode < 0 then new_inode_fail1 k s3 inode (- EINVAL)
                      else
                        let (err, s4) = rdfs_write_inode s3 inode
                        in if err \<noteq> 0 then new_inode_fail2 k s4 inode err
                           else
                             let (err1, inode1, dirty) = rdfs_init_acl k inode dir;
                                 s5 = (if dirty then rdfs_dirty_inode s4 inode1 else s4)
                             in if err1 \<noteq> 0 then new_inode_fail2 k s5 inode1 err1
                                else Some (Inr inode1, snd (rdfs_init_pg_table s5 (this_cpu k) ino)))"

section \<open>Reading a page\<close>

text \<open>The loop of \<open>rdfs_readpage\<close>: the bytes it copies into the page, \<open>None\<close> for the null address.\<close>

function readpage_loop :: "'a nvm_scheme \<Rightarrow> nat \<Rightarrow> u64 \<Rightarrow> nat \<Rightarrow> u64 \<Rightarrow> u8 list option" where
  "readpage_loop s bits ino fillsize blocknr =
     (if fillsize = 0 then Some []
      else
        let count = (if 2 ^ bits < fillsize then 2 ^ bits else fillsize);
            block = rdfs_find_data_block s ino blocknr;
            bp = rdfs_va s (block AND 0x7ffffffffffff000)
        in if block \<noteq> 0 \<and> bp = 0 then None
           else map_option ((@) (if block \<noteq> 0 then load_bytes (mem s) bp count else replicate count 0))
                  (readpage_loop s bits ino (fillsize - count) (blocknr + 1)))"
  by pat_completeness auto
termination readpage_loop
  by (relation "measure (\<lambda>(s, bits, ino, fillsize, blocknr). fillsize)") auto

declare readpage_loop.simps [simp del]

text \<open>Result: the return value and the contents of the page; the page cache could not map the page when
  \<open>kmap_ok\<close> is false.\<close>

definition rdfs_readpage :: "'k kenv_scheme \<Rightarrow> bool \<Rightarrow> 'a nvm_scheme \<Rightarrow> inode \<Rightarrow> u64 \<Rightarrow> int \<times> u8 list option" where
  "rdfs_readpage k kmap_ok s inode index =
     (let offset = sint (push_bit 12 index);
          blocknr = push_bit (12 - s_blocksize_bits k) index;
          fillsize = (if offset < i_size inode
                      then nat (if 4096 < i_size inode - offset then 4096 else i_size inode - offset) else 0)
      in if \<not> kmap_ok then (- ENOMEM, None)
         else (case readpage_loop s (s_blocksize_bits k) (i_ino inode) fillsize blocknr of
                 None \<Rightarrow> (- EIO, Some (replicate 4096 0))
               | Some bs \<Rightarrow> (0, Some (bs @ replicate (4096 - length bs) 0))))"

section \<open>Changing the size\<close>

definition check_eof_blocks :: "'k kenv_scheme \<Rightarrow> 'a nvm_scheme \<Rightarrow> inode \<Rightarrow> int \<Rightarrow> 'a nvm_scheme" where
  "check_eof_blocks k s inode sz =
     (let ni = get_rdfs_inode s (i_ino inode);
          flags = ld32 (mem s) (ni + 16)
      in if ni = 0 then s
         else if flags AND RDFS_EOFBLOCKS_FL \<noteq> 0 \<and>
             push_bit (s_blocksize_bits k) (i_blocks inode) \<le> word_of_int sz + s_blocksize k
         then put32 s (ni + 16) (flags AND NOT RDFS_EOFBLOCKS_FL)
         else s)"

definition rdfs_block_truncate_page ::
  "'k kenv_scheme \<Rightarrow> 'a kern_scheme \<Rightarrow> inode \<Rightarrow> int \<Rightarrow> (int \<times> 'a kern_scheme) option" where
  "rdfs_block_truncate_page k s inode newsize =
     (let offset = word_of_int newsize AND (s_blocksize k - 1);
          len = s_blocksize k - offset;
          bp = i_virt_addr (info inode)
      in if offset = 0 \<or> i_size inode < newsize then Some (0, s)
         else if bp = 0 then Some (- EACCES, s)
         else map_option (Pair 0) (vstore s (bp + offset) (replicate (unat len) 0)))"

definition IS_APPEND :: "inode \<Rightarrow> bool" where
  "IS_APPEND inode \<longleftrightarrow> i_vflags inode AND S_APPEND \<noteq> 0"

definition IS_IMMUTABLE :: "inode \<Rightarrow> bool" where
  "IS_IMMUTABLE inode \<longleftrightarrow> i_vflags inode AND S_IMMUTABLE \<noteq> 0"

definition rdfs_setsize ::
  "'k kenv_scheme \<Rightarrow> 'a kern_scheme \<Rightarrow> inode \<Rightarrow> int \<Rightarrow> (int \<times> inode \<times> 'a kern_scheme) option" where
  "rdfs_setsize k s inode newsize =
     (let oldsize = i_size inode
      in if \<not> (S_ISREG (i_mode inode) \<or> S_ISDIR (i_mode inode) \<or> S_ISLNK (i_mode inode)) then Some (- EINVAL, inode, s)
         else if IS_APPEND inode \<or> IS_IMMUTABLE inode then Some (- EPERM, inode, s)
         else do {
           (ret, s1) \<leftarrow> (if newsize \<noteq> oldsize then rdfs_block_truncate_page k s inode newsize else Some (0, s));
           if ret \<noteq> 0 then Some (ret, inode, s1)
           else do {
             (inode1, s2) \<leftarrow> truncate_table k s1 (inode\<lparr>i_size := newsize\<rparr>) newsize oldsize;
             let s3 = check_eof_blocks k s2 inode1 newsize;
             let inode2 = inode1\<lparr>i_mtime := current_time k, i_ctime := current_time k\<rparr>;
             Some (ret, inode2, snd (rdfs_update_inode s3 inode2))
           }
         })"

definition ATTR_MODE :: u32 where [consts_eval]: "ATTR_MODE = 1"
definition ATTR_SIZE :: u32 where [consts_eval]: "ATTR_SIZE = 8"

definition rdfs_notify_change ::
  "'k kenv_scheme \<Rightarrow> 'a kern_scheme \<Rightarrow> inode \<Rightarrow> iattr \<Rightarrow> (int \<times> inode \<times> 'a kern_scheme) option" where
  "rdfs_notify_change k s inode attr =
     (let ni = get_rdfs_inode s (i_ino inode);
          error = inode_change_ok k inode attr
      in if ni = 0 then Some (- EACCES, inode, s)
         else if error \<noteq> 0 then Some (error, inode, s)
         else do {
           (error1, inode1, s1) \<leftarrow>
             (if ia_valid attr AND ATTR_SIZE \<noteq> 0 \<and>
                 (ia_size attr \<noteq> i_size inode \<or> ld32 (mem s) (ni + 16) AND RDFS_EOFBLOCKS_FL \<noteq> 0)
              then rdfs_setsize k s inode (ia_size attr) else Some (0, inode, s));
           if error1 \<noteq> 0 then Some (error1, inode1, s1)
           else do {
             let inode2 = setattr_copy k inode1 attr;
             let (_, inode3, dirty) = (if ia_valid attr AND ATTR_MODE \<noteq> 0 then rdfs_acl_chmod k inode2 else (0, inode2, False));
             let s2 = (if dirty then rdfs_dirty_inode s1 inode3 else s1);
             let (error2, s3) = rdfs_update_inode s2 inode3;
             Some (error2, inode3, s3)
           }
         })"

section \<open>Flags in both directions\<close>

lemma flag_tests:
  fixes w :: u32
  shows "w AND 1 = 0 \<longleftrightarrow> \<not> bit w 0" "w AND 2 = 0 \<longleftrightarrow> \<not> bit w 1" "w AND 4 = 0 \<longleftrightarrow> \<not> bit w 2" "w AND 8 = 0 \<longleftrightarrow> \<not> bit w 3"
    "w AND 0x40 = 0 \<longleftrightarrow> \<not> bit w 6" "w AND 0x10 = 0 \<longleftrightarrow> \<not> bit w 4" "w AND 0x20 = 0 \<longleftrightarrow> \<not> bit w 5"
    "w AND 0x80 = 0 \<longleftrightarrow> \<not> bit w 7" "w AND 0x10000 = 0 \<longleftrightarrow> \<not> bit w 16"
  using and_exp_eq_0_iff_not_bit [of w 0] and_exp_eq_0_iff_not_bit [of w 1] and_exp_eq_0_iff_not_bit [of w 2]
    and_exp_eq_0_iff_not_bit [of w 3] and_exp_eq_0_iff_not_bit [of w 6] and_exp_eq_0_iff_not_bit [of w 4]
    and_exp_eq_0_iff_not_bit [of w 5] and_exp_eq_0_iff_not_bit [of w 7] and_exp_eq_0_iff_not_bit [of w 16]
  by simp_all

lemma bit_flag_if:
  "bit (flag_if flags test f) i \<longleftrightarrow> flags AND test \<noteq> 0 \<and> bit f i"
  by (simp add: flag_if_def)

lemmas flag_bits = bit_flag_if flag_tests bit_or_iff bit_and_iff bit_not_iff

lemma flag_if_self: "f \<in> {1, 2, 4, 8, 0x40} \<Longrightarrow> flag_if v f f = v AND f" for v :: u32
proof -
  have "flag_if v (2 ^ n) (2 ^ n) = v AND 2 ^ n" for n
  proof (rule bit_word_eqI)
    fix i assume "i < LENGTH(32)"
    then show "bit (flag_if v (2 ^ n) (2 ^ n)) i = bit (v AND 2 ^ n) i"
      by (auto simp: bit_flag_if and_exp_eq_0_iff_not_bit bit_and_iff bit_exp_iff)
  qed
  from this [of 0] this [of 1] this [of 2] this [of 3] this [of 6]
  show "f \<in> {1, 2, 4, 8, 0x40} \<Longrightarrow> flag_if v f f = v AND f" by auto
qed

lemma mask_partition:
  "(v AND NOT (a OR b OR c OR d OR e)) OR (v AND a) OR (v AND b) OR (v AND c) OR (v AND d) OR (v AND e) = v" for v :: u32
  by (rule bit_word_eqI) (auto simp: bit_or_iff bit_and_iff bit_not_iff)

lemma set_get_flags: "rdfs_set_inode_flags (get_rdfs_inode_flags inode) = get_rdfs_inode_flags inode"
proof -
  let ?f = "in_flags (info (get_rdfs_inode_flags inode))"
  let ?v = "i_vflags inode"
  have "flag_if ?f RDFS_SYNC_FL S_SYNC = flag_if ?v S_SYNC S_SYNC"
    "flag_if ?f RDFS_APPEND_FL S_APPEND = flag_if ?v S_APPEND S_APPEND"
    "flag_if ?f RDFS_IMMUTABLE_FL S_IMMUTABLE = flag_if ?v S_IMMUTABLE S_IMMUTABLE"
    "flag_if ?f RDFS_NOATIME_FL S_NOATIME = flag_if ?v S_NOATIME S_NOATIME"
    "flag_if ?f RDFS_DIRSYNC_FL S_DIRSYNC = flag_if ?v S_DIRSYNC S_DIRSYNC"
    unfolding get_rdfs_inode_flags_def Let_def
    by (simp_all add: flag_if_def [of _ _ 1] flag_if_def [of _ _ 2] flag_if_def [of _ _ 4] flag_if_def [of _ _ 8]
        flag_if_def [of _ _ 64] consts_eval flag_bits)
  note tests = this
  have self: "flag_if ?v g g = ?v AND g" if "g \<in> {S_SYNC, S_APPEND, S_IMMUTABLE, S_NOATIME, S_DIRSYNC}" for g
    using that by (intro flag_if_self) (auto simp: consts_eval)
  have v: "i_vflags (get_rdfs_inode_flags inode) = ?v" by (simp add: get_rdfs_inode_flags_def Let_def)
  have "i_vflags (rdfs_set_inode_flags (get_rdfs_inode_flags inode)) = ?v"
    unfolding rdfs_set_inode_flags_def Let_def
    by (simp only: inode.simps v tests self [of S_SYNC] self [of S_APPEND] self [of S_IMMUTABLE] self [of S_NOATIME]
        self [of S_DIRSYNC] insert_iff simp_thms mask_partition) simp
  then show ?thesis by (simp add: rdfs_set_inode_flags_def get_rdfs_inode_flags_def Let_def)
qed

section \<open>Writing and reading a slot\<close>

text \<open>The bytes of a slot that hold the attributes: all but the checksum and the table address.\<close>

definition attr_bytes :: "u64 \<Rightarrow> u64 set" where
  "attr_bytes ni = region (ni + 4) 68"

lemma attr_field: "4 \<le> unat k \<Longrightarrow> unat k + n \<le> 72 \<Longrightarrow> x \<notin> attr_bytes ni \<Longrightarrow> x \<notin> region (ni + k) n"
proof -
  assume k: "4 \<le> unat k" "unat k + n \<le> 72" and x: "x \<notin> attr_bytes ni"
  have "unat (k - 4) = unat k - 4" using k(1) by (simp add: unat_sub word_le_nat_alt)
  then have "region (ni + 4 + (k - 4)) n \<subseteq> region (ni + 4) 68" using k by (intro region_sub) simp
  then show ?thesis using x by (auto simp: attr_bytes_def)
qed

lemma update_inode_frame:
  assumes "rdfs_update_inode s inode = (err, s')"
  shows "sbi s' = sbi s" and "x \<notin> attr_bytes (get_rdfs_inode s (i_ino inode)) \<Longrightarrow> mem s' x = mem s x"
  using assms
  by (auto simp: rdfs_update_inode_def Let_def store_outside attr_field split: if_splits)

lemma update_inode_fields:
  assumes "rdfs_update_inode s inode = (0, s')" and "ni = get_rdfs_inode s (i_ino inode)"
  shows "ld32 (mem s') (ni + 4) = (ucast (i_mode inode) :: u32)" "ld32 (mem s') (ni + 44) = i_uid inode"
    "ld32 (mem s') (ni + 48) = i_gid inode" "ld32 (mem s') (ni + 8) = i_nlink inode"
    "ld64 (mem s') (ni + 64) = (word_of_int (i_size inode) :: u64)" "ld64 (mem s') (ni + 56) = i_blocks inode"
    "ld32 (mem s') (ni + 28) = (ucast (i_atime inode) :: u32)" "ld32 (mem s') (ni + 32) = (ucast (i_ctime inode) :: u32)"
    "ld32 (mem s') (ni + 36) = (ucast (i_mtime inode) :: u32)" "ld32 (mem s') (ni + 52) = i_generation inode"
  using assms
  by (auto simp: rdfs_update_inode_def Let_def load_store_disj region_simps EACCES_def split: if_splits)

definition same_attrs :: "inode \<Rightarrow> inode \<Rightarrow> bool" where
  "same_attrs a b \<longleftrightarrow> i_ino a = i_ino b \<and> i_mode a = i_mode b \<and> i_nlink a = i_nlink b \<and> i_uid a = i_uid b \<and>
     i_gid a = i_gid b \<and> i_size a = i_size b \<and> i_blocks a = i_blocks b \<and> i_atime a = i_atime b \<and>
     i_mtime a = i_mtime b \<and> i_ctime a = i_ctime b \<and> i_generation a = i_generation b"

lemma short_time: "unat (t :: u64) < 2 ^ 32 \<Longrightarrow> ucast (ucast t :: u32) = t"
  by (intro word_eq_unatI) (simp add: unsigned_ucast_eq unsigned_take_bit_eq take_bit_nat_eq_self)

lemma mode_word: "ucast (ucast (m :: u16) :: u32) = m"
  by (rule bit_word_eqI) (auto simp: bit_unsigned_iff dest: bit_imp_le_length)

lemma inodenr_same_super:
  assumes "same_super s s'"
  shows "get_rdfs_inodenr s' = get_rdfs_inodenr s"
proof -
  have "s_numa_flag s' = s_numa_flag s" "s_numa_des s' = s_numa_des s" using assms by (simp_all add: same_super_def)
  then show ?thesis by (intro ext) (simp only: get_rdfs_inodenr_def same_super_eqs(2) [OF assms])
qed


text \<open>C39. \<open>rdfs_update_inode\<close> does not refresh the checksum of the slot: if the new contents have another
  checksum than the old ones, reading a slot that was valid before the update fails with \<open>-EIO\<close>, and
  \<open>read_inode_lock\<close> is left held.\<close>

theorem update_inode_stale_checksum:
  assumes "rdfs_update_inode s inode = (0, s')" and "ni = get_rdfs_inode s (i_ino inode)"
    and "rdfs_calc_checksum (crc32 k) (mem s) ni 128 = 0"
    and "crc32 k (- 1) (load_bytes (mem s') (ni + 4) 124) \<noteq> crc32 k (- 1) (load_bytes (mem s) (ni + 4) 124)"
  shows "rdfs_read_inode k s' blank ni = (- EIO, make_bad_inode k blank, True)"
proof -
  have "region ni 4 \<inter> attr_bytes ni = {}" unfolding attr_bytes_def by (rule field_disj0) simp_all
  then have "ld32 (mem s') ni = (ld32 (mem s) ni :: u32)"
    using update_inode_frame(2) [OF assms(1)] unfolding assms(2) [symmetric] by (intro load_agree) auto
  then show ?thesis using assms(3,4) by (auto simp: rdfs_read_inode_def rdfs_calc_checksum_def split: if_splits)
qed

text \<open>C21. Writing an inode back disturbs neither the page allocator nor any file: the free pages, the table of every
  file and what \<open>rdfs_find_data_block\<close> finds in it stay the same.\<close>

theorem update_inode_keeps_files:
  assumes "file_inv s ino t" and "rdfs_update_inode s inode = (err, s')"
    and "outside_pool s (attr_bytes (get_rdfs_inode s (i_ino inode)))"
    and "pg_word s ino \<inter> attr_bytes (get_rdfs_inode s (i_ino inode)) = {}"
    and "\<forall>p \<in> ran t. region (rdfs_va s p) 4096 \<inter> attr_bytes (get_rdfs_inode s (i_ino inode)) = {}"
  shows "file_inv s' ino t \<and> free_page_set s' = free_page_set s \<and>
    (\<forall>b v. tree_lookup s t (unat b) = Some v \<longrightarrow> rdfs_find_data_block s' ino b = v)"
proof -
  let ?R = "attr_bytes (get_rdfs_inode s (i_ino inode))"
  have w: "foreign_write s ?R s'"
    using assms(1,3) update_inode_frame [OF assms(2)] by (simp add: foreign_write_def file_inv_def)
  note f = file_frame [OF assms(1) w assms(4,5)]
  have "tree_ok s' t" "t [] = Some (i_pg_addr s' ino)" using f(1) by (simp_all add: file_inv_def)
  then have "rdfs_find_data_block s' ino b = v" if "tree_lookup s t (unat b) = Some v" for b v
    using that f(2) by (intro find_data_block_tree [of s' t ino b v]) auto
  then show ?thesis using f(1) foreign_write_free_set [OF w] by blast
qed

section \<open>Reading a page of a file\<close>

text \<open>Byte \<open>i\<close> of block \<open>b\<close> of a file: 0 where the file has no block.\<close>

definition file_byte :: "'a nvm_scheme \<Rightarrow> u64 \<Rightarrow> u64 \<Rightarrow> nat \<Rightarrow> u8" where
  "file_byte s ino b i =
     (let block = rdfs_find_data_block s ino b
      in if block = 0 then 0 else mem s (rdfs_va s (block AND 0x7ffffffffffff000) + of_nat i))"

lemma nth_load_bytes: "i < n \<Longrightarrow> load_bytes m a n ! i = m (a + of_nat i)"
  by (simp add: load_bytes_def)

lemma readpage_once:
  assumes "n \<le> 4096"
    and "rdfs_find_data_block s ino b \<noteq> 0 \<longrightarrow> rdfs_va s (rdfs_find_data_block s ino b AND 0x7ffffffffffff000) \<noteq> 0"
  shows "readpage_loop s 12 ino n b = Some (map (file_byte s ino b) [0 ..< n])"
proof -
  have stop: "readpage_loop s 12 ino 0 b' = Some []" for b' by (simp add: readpage_loop.simps)
  have chunk: "(if rdfs_find_data_block s ino b \<noteq> 0
        then load_bytes (mem s) (rdfs_va s (rdfs_find_data_block s ino b AND 0x7ffffffffffff000)) n else replicate n 0) =
      map (file_byte s ino b) [0 ..< n]"
    by (rule nth_equalityI) (auto simp: nth_load_bytes file_byte_def Let_def)
  show ?thesis
  proof (cases "n = 0")
    case False
    have "readpage_loop s 12 ino n b = map_option ((@) (if rdfs_find_data_block s ino b \<noteq> 0
        then load_bytes (mem s) (rdfs_va s (rdfs_find_data_block s ino b AND 0x7ffffffffffff000)) n else replicate n 0))
        (readpage_loop s 12 ino 0 (b + 1))"
      unfolding readpage_loop.simps [of s 12 ino n b] Let_def using False assms by simp
    then show ?thesis unfolding chunk by (simp add: stop)
  qed (simp add: stop)
qed

lemma page_bytes:
  assumes "n = (if base < len then nat (if 4096 < len - base then 4096 else len - base) else 0)"
  shows "map f [0 ..< n] @ replicate (4096 - n) 0 = map (\<lambda>i. if base + int i < len then f i else 0) [0 ..< 4096]"
proof (rule nth_equalityI)
  fix i assume "i < length (map f [0 ..< n] @ replicate (4096 - n) 0)"
  moreover have "base + int i < len \<longleftrightarrow> i < n" if "i < 4096" using that assms by auto
  moreover have "n \<le> 4096" using assms by auto
  ultimately show "(map f [0 ..< n] @ replicate (4096 - n) 0) ! i =
      map (\<lambda>i. if base + int i < len then f i else 0) [0 ..< 4096] ! i" by (auto simp: nth_append)
qed (use assms in auto)

text \<open>C28. \<open>rdfs_readpage\<close> on a file system of 4096-byte blocks fills the page with the bytes of the file's block up to the
  end of the file, with zeros in a hole and with zeros after the end, and returns 0.\<close>

theorem rdfs_readpage_spec:
  assumes "s_blocksize_bits k = 12" and "i_size inode < 2 ^ 62" and "unat index < 2 ^ 50"
    and "rdfs_find_data_block s (i_ino inode) index \<noteq> 0 \<longrightarrow>
       rdfs_va s (rdfs_find_data_block s (i_ino inode) index AND 0x7ffffffffffff000) \<noteq> 0"
  shows "rdfs_readpage k True s inode index =
    (0, Some (map (\<lambda>i. if int (unat index) * 4096 + int i < i_size inode then file_byte s (i_ino inode) index i else 0)
              [0 ..< 4096]))"
proof -
  have u: "int (unat index) < 2 ^ 50" using assms(3) by (metis of_nat_less_iff of_nat_numeral of_nat_power)
  have scaled: "sint (word_of_int (x * 4096) :: u64) = x * 4096" if "0 \<le> x" "x < 2 ^ 50" for x :: int
    using that by (intro sint64) auto
  have "push_bit 12 index = (word_of_int (int (unat index * 4096)) :: u64)" by (simp add: push_bit_eq_mult)
  also have "int (unat index * 4096) = int (unat index) * 4096" by simp
  finally have off: "sint (push_bit 12 index) = int (unat index) * 4096"
    using scaled [OF of_nat_0_le_iff u] by (simp only:)
  define n where "n = (if int (unat index) * 4096 < i_size inode
     then nat (if 4096 < i_size inode - int (unat index) * 4096 then 4096 else i_size inode - int (unat index) * 4096) else 0)"
  have n: "n \<le> 4096" by (auto simp: n_def)
  note page_bytes [OF n_def, where f = "file_byte s (i_ino inode) index"]
  then show ?thesis
    unfolding rdfs_readpage_def Let_def off n_def [symmetric] assms(1) using readpage_once [OF n assms(4)] by simp
qed

section \<open>Truncation\<close>

lemma unnvmap_regular:
  assumes "file_inv s ino t" and "dense t m" and "file_area a"
  shows "\<exists>s1. unnvmap s a (rdfs_get_pud s ino) mm = Some (0, s1) \<and> sbi s1 = sbi s \<and> mem s1 = mem s"
  using unnvmap_file_loop_clears [OF assms, of 0 mm] root_entry [OF assms(1)] not_dir_area [OF assms(3)]
    file_area_unat(3) [OF assms(3)] assms(3)
  by (simp add: unnvmap_def unnvmap_file_def Let_def file_area_def gib_def)

text \<open>A regular file whose table and data pages can be given back, and whose slot lies outside them.\<close>

definition removable :: "'a kern_scheme \<Rightarrow> inode \<Rightarrow> bool" where
  "removable s inode \<longleftrightarrow> (\<exists>t m. file_inv s (i_ino inode) t \<and> dense t m) \<and> file_area (i_virt_addr (info inode)) \<and>
     releasable s (table_pages s (i_pg_addr s (i_ino inode))) \<and> nvm_file s (i_pg_addr s (i_ino inode)) \<and>
     outside_pool s (region (get_rdfs_inode s (i_ino inode)) 80) \<and>
     (\<forall>p \<in> set (table_pages s (i_pg_addr s (i_ino inode))).
        region (rdfs_va s p) 4096 \<inter> region (get_rdfs_inode s (i_ino inode)) 80 = {})"

lemma table_part:
  fixes s :: "'a nvm_scheme" and s' :: "'b nvm_scheme"
  assumes "sbi s' = sbi s" and "mem s' = mem s"
  shows "table_pages s' r = table_pages s r" "nvm_file s' r = nvm_file s r" "i_pg_addr s' ino = i_pg_addr s ino"
    "releasable s' ps = releasable s ps"
proof -
  have e: "entry s' = entry s" using assms by (intro ext) (simp add: entry_def entry_addr_def rdfs_va_def)
  then have l: "links_from s' = links_from s" by (intro ext) (simp add: links_from_def)
  then have k: "kids dec s' = kids dec s" for dec by (intro ext) (simp add: kids_def)
  then have "pte_pages s' = pte_pages s" by (intro ext) (simp add: pte_pages_def k)
  then have "pmd_pages s' = pmd_pages s" by (intro ext) (simp add: pmd_pages_def k)
  then show "table_pages s' r = table_pages s r" by (simp add: table_pages_def k)
  have "nvm_leaf s' = nvm_leaf s" by (intro ext) (simp add: nvm_leaf_def l)
  then show "nvm_file s' r = nvm_file s r" by (simp add: nvm_file_def k)
  show "i_pg_addr s' ino = i_pg_addr s ino" using nvm_part(11) [OF assms] assms(2) by (simp add: i_pg_addr_def)
  show "releasable s' ps = releasable s ps"
    using nvm_part(7,9,10) [OF assms] by (simp add: releasable_def)
qed

lemma outside_pool_mono: "outside_pool s R \<Longrightarrow> S \<subseteq> R \<Longrightarrow> outside_pool s S"
  unfolding outside_pool_def by blast

lemma truncate_table_frees:
  assumes "removable s inode"
    and "drop_bit (s_blocksize_bits k) (word_of_int start + s_blocksize k - 1) \<le> (word_of_int (lim div 2 ^ s_blocksize_bits k) :: u64)"
    and "ld32 (mem s) (get_rdfs_inode s (i_ino inode) + 16) AND RDFS_EOFBLOCKS_FL = 0"
  shows "\<exists>s'. truncate_table k s inode start lim = Some (inode\<lparr>i_blocks := 0\<rparr>, s') \<and> pages_inv s' \<and>
    free_page_set s' = free_page_set s \<union> set (table_pages s (i_pg_addr s (i_ino inode))) \<and>
    i_pg_addr s' (i_ino inode) = 0 \<and> same_super s s'"
proof -
  let ?ino = "i_ino inode" and ?r = "i_pg_addr s (i_ino inode)"
  let ?ni = "get_rdfs_inode s (i_ino inode)"
  obtain t m where t: "file_inv s ?ino t" "dense t m" "file_area (i_virt_addr (info inode))"
      and rel: "releasable s (table_pages s ?r)" "nvm_file s ?r" and slot: "outside_pool s (region ?ni 80)"
        "\<forall>p \<in> set (table_pages s ?r). region (rdfs_va s p) 4096 \<inter> region ?ni 80 = {}"
    using assms(1) unfolding removable_def by blast
  obtain s1 where s1: "unnvmap s (i_virt_addr (info inode)) (rdfs_get_pud s ?ino) Current_mm = Some (0, s1)"
      "sbi s1 = sbi s" "mem s1 = mem s" using unnvmap_regular [OF t] by blast
  note part = nvm_part [OF s1(2,3)] table_part [OF s1(2,3)]
  have pg: "pg_word s1 ?ino \<subseteq> region ?ni 80" using region_sub [of 72 8 80 ?ni] by (simp add: pg_word_def part)
  have "outside_pool s1 (region ?ni 80)"
    using slot(1) by (simp add: outside_pool_def part in_use_def rdfs_get_super_def s1(2))
  then have "outside_pool s1 (pg_word s1 ?ino)" by (rule outside_pool_mono [OF _ pg])
  moreover have "releasable s1 (table_pages s1 ?r)" "?r = i_pg_addr s1 ?ino" "nvm_file s1 ?r" using rel by (simp_all add: part)
  moreover have "\<forall>p \<in> set (table_pages s1 ?r). region (rdfs_va s1 p) 4096 \<inter> pg_word s1 ?ino = {}"
    using slot(2) pg unfolding part by blast
  ultimately obtain s2 where s2: "rdfs_rm_pg_table (this_cpu k) s1 ?ino = Some s2" "pages_inv s2"
      "free_page_set s2 = free_page_set s1 \<union> set (table_pages s1 ?r)" "i_pg_addr s2 ?ino = 0" "same_super s1 s2"
    using rm_pg_table_effect by blast
  have "same_super s s1" using foreign_write_super [OF same_nvm_foreign [OF _ s1(2,3)]] t(1) by (simp add: file_inv_def)
  note super = same_super_trans [OF this s2(5)]
  have "i_pg_addr s ?ino \<noteq> 0" using file_root [OF t(1)] by (auto simp: page_ok_def)
  then have "truncate_table k s inode start lim = Some (inode\<lparr>i_blocks := 0\<rparr>, s2)"
    using s1(1) s2(1) assms(2,3) by (simp add: truncate_table_def Let_def i_pg_addr_def)
  then show ?thesis using s2 super by (simp add: part)
qed

text \<open>Writes to the attributes of a slot outside the allocator's pages.\<close>

definition attr_write :: "'a nvm_scheme \<Rightarrow> u64 \<Rightarrow> 'a nvm_scheme \<Rightarrow> bool" where
  "attr_write s ino s' \<longleftrightarrow> foreign_write s (attr_bytes (get_rdfs_inode s ino)) s'"

lemma attr_write_effect:
  assumes "attr_write s ino s'"
  shows "pages_inv s'" "free_page_set s' = free_page_set s" "i_pg_addr s' ino = i_pg_addr s ino"
    "outside_pool s' (attr_bytes (get_rdfs_inode s' ino))"
proof -
  note w = assms [unfolded attr_write_def]
  note super = foreign_write_super [OF w]
  show "pages_inv s'" by (rule foreign_write_inv [OF w])
  show free: "free_page_set s' = free_page_set s" by (rule foreign_write_free_set [OF w])
  have "region (get_rdfs_inode s ino + 72) 8 \<inter> attr_bytes (get_rdfs_inode s ino) = {}"
    unfolding attr_bytes_def by (rule field_disj) simp
  then show "i_pg_addr s' ino = i_pg_addr s ino"
    using foreign_write_load [OF w, of _ 8] same_super_eqs(11) [OF super] by (simp add: i_pg_addr_def)
  show "outside_pool s' (attr_bytes (get_rdfs_inode s' ino))"
    using w outside_pool_same [OF super] free same_super_eqs(11) [OF super] by (simp add: foreign_write_def)
qed

lemma update_inode_attr_write:
  assumes "pages_inv s" and "outside_pool s (attr_bytes (get_rdfs_inode s (i_ino inode)))"
  shows "attr_write s (i_ino inode) (snd (rdfs_update_inode s inode))"
  using assms update_inode_frame [of s inode] by (cases "rdfs_update_inode s inode") (auto simp: attr_write_def foreign_write_def)

lemma check_eof_attr_write:
  assumes "pages_inv s" and "outside_pool s (attr_bytes (get_rdfs_inode s (i_ino inode)))"
  shows "attr_write s (i_ino inode) (check_eof_blocks k s inode sz)"
  using assms by (auto simp: attr_write_def foreign_write_def check_eof_blocks_def Let_def store_outside attr_field)

lemma int_bound: "a < (2 :: int) ^ 62 \<Longrightarrow> a = int n \<Longrightarrow> n < 2 ^ 62"
  by (metis of_nat_less_iff of_nat_numeral of_nat_power)

lemma int_block: "a mod (4096 :: int) = 0 \<Longrightarrow> a = int n \<Longrightarrow> n mod 4096 = 0"
  by (metis of_nat_eq_0_iff of_nat_numeral zmod_int)

lemma aligned_size:
  assumes "0 \<le> a" and "a mod 4096 = 0" and "a < (2 :: int) ^ 62"
  shows "word_of_int a AND 4095 = (0 :: u64)"
proof -
  obtain n where n: "a = int n" using assms(1) nonneg_int_cases by blast
  have d: "n mod 4096 = 0" "n < 2 ^ 62" using int_block [OF assms(2) n] int_bound [OF assms(3) n] by simp_all
  then show ?thesis
    by (intro word_eq_unatI) (simp add: and_4095_mod n unat_of_nat take_bit_nat_eq_self)
qed

lemma first_last_block:
  assumes "0 \<le> a" and "a mod 4096 = 0" and "a < b" and "b < (2 :: int) ^ 62"
  shows "drop_bit 12 (word_of_int a + 4096 - 1) \<le> (word_of_int (b div 4096) :: u64)"
proof -
  obtain n where n: "a = int n" using assms(1) nonneg_int_cases by blast
  obtain l where l: "b = int l" using assms(1,3) nonneg_int_cases [of b] by auto
  have d: "n mod 4096 = 0" "n < l" "l < 2 ^ 62"
    using int_block [OF assms(2) n] int_bound [OF assms(4) l] assms(3) n l by simp_all
  have w: "word_of_int a + 4096 - 1 = (of_nat (n + 4095) :: u64)" by (simp add: n)
  have u: "unat (of_nat (n + 4095) :: u64) = n + 4095" using d by (subst unat_of_nat) (simp add: take_bit_nat_eq_self)
  have "unat (drop_bit 12 (word_of_int a + 4096 - 1 :: u64)) = (n + 4095) div 4096" unfolding w unat_shift u by simp
  moreover have "unat (word_of_int (b div 4096) :: u64) = l div 4096"
  proof -
    have "b div 4096 = int (l div 4096)" unfolding l zdiv_int by simp
    then have "word_of_int (b div 4096) = (of_nat (l div 4096) :: u64)" by (simp only: of_int_of_nat_eq)
    moreover have "l div 4096 < 2 ^ 64" using d(3) div_le_dividend [of l 4096] by (rule_tac le_less_trans) auto
    ultimately show ?thesis by (simp only: unat_of_nat) (simp add: take_bit_nat_eq_self)
  qed
  moreover have "(n + 4095) div 4096 = n div 4096" using d(1) by (simp add: div_add1_eq [of n])
  moreover have "n div 4096 \<le> l div 4096" using d(2) by (intro div_le_mono) simp
  ultimately show ?thesis by (simp only: word_le_nat_alt)
qed


text \<open>A file with a fresh table is removable.\<close>

lemma links_first: "i < 512 \<Longrightarrow> entry s p i = 0 \<Longrightarrow> links_from s p i = []"
  by (simp add: links_from_simps)

lemma chain_links:
  assumes "file_inv s ino (chain_tree pud pmd pte)" and "rdfs_find_data_block s ino 0 = 0"
  shows "links_from s pud 0 = [table_of_phys pmd]" "links_from s pmd 0 = [table_of_phys pte]" "links_from s pte 0 = []"
proof -
  let ?t = "chain_tree pud pmd pte"
  have t: "tree_ok s ?t" "?t [] = Some (i_pg_addr s ino)" using assms(1) by (simp_all add: file_inv_def)
  have e1: "entry s pud i = link_of (?t [i])" if "i < 512" for i using tree_okD(4) [OF t(1), of "[]" pud i] that by (simp add: chain_tree_def)
  have e2: "entry s pmd i = link_of (?t [0, i])" if "i < 512" for i using tree_okD(4) [OF t(1), of "[0]" pmd i] that by (simp add: chain_tree_def)
  have "tree_lookup s ?t (unat 0) = Some (entry s pte 0)" by (simp add: tree_lookup_def chain_tree_def)
  then have "entry s pte 0 = 0" using find_data_block_tree [OF t, of 0] assms(2) by simp
  then show "links_from s pte 0 = []" by (simp add: links_first)
  show "links_from s pud 0 = [table_of_phys pmd]" "links_from s pmd 0 = [table_of_phys pte]"
    using e1 [of 0] e1 [of "Suc 0"] e2 [of 0] e2 [of "Suc 0"]
    by (simp_all add: links_from_simps(2) [of 0] links_first chain_tree_def link_of_def)
qed

lemma fresh_file_removable:
  assumes "pages_inv s" and "outside_pool s (region (get_rdfs_inode s (i_ino inode)) 80)"
    and "3 \<le> length (free_page_list s (get_cpu_numa s cpu))" and "file_area (i_virt_addr (info inode))"
    and "rdfs_init_pg_table s cpu (i_ino inode) = (err, s')"
  shows "removable s' inode"
proof -
  let ?ino = "i_ino inode" and ?R = "region (get_rdfs_inode s (i_ino inode)) 80"
  have "pg_word s ?ino \<subseteq> ?R" using region_sub [of 72 8 80] by (simp add: pg_word_def)
  then have o: "outside_pool s (pg_word s ?ino)" by (rule outside_pool_mono [OF assms(2)])
  obtain pud pmd pte where inv: "file_inv s' ?ino (chain_tree pud pmd pte)" "i_pg_addr s' ?ino = pud"
      "{pud, pmd, pte} \<subseteq> free_page_set s" "free_page_set s' = free_page_set s - {pud, pmd, pte}"
      "rdfs_find_data_block s' ?ino 0 = 0" and super: "same_super s s'"
    using init_pg_table_effect [OF assms(1) o, of cpu] assms(3,5) by auto
  note eqs = same_super_eqs [OF super]
  have t: "tree_ok s' (chain_tree pud pmd pte)" "pages_inv s'" using inv(1) by (simp_all add: file_inv_def)
  have ok: "page_ok s' pud" "page_ok s' pmd" "page_ok s' pte"
    using tree_okD(2) [OF t(1), of "[]"] tree_okD(2) [OF t(1), of "[0]"] tree_okD(2) [OF t(1), of "[0, 0]"] by (simp_all add: chain_tree_def)
  have d: "distinct [pte, pmd, pud]"
    using tree_inj [OF t(1), of "[]" pud "[0]"] tree_inj [OF t(1), of "[0]" pmd "[0, 0]"] tree_inj [OF t(1), of "[]" pud "[0, 0]"]
    by (auto simp: chain_tree_def)
  have ph: "phys_page pmd" "phys_page pte" using ok by (simp_all add: page_ok_def)
  note l = chain_links [OF inv(1,5)] and m = table_of_phys_mask [OF ph(1)] table_of_phys_mask [OF ph(2)]
  have ps: "table_pages s' pud = [pte, pmd, pud]" by (simp add: table_pages_def pmd_pages_def pte_pages_def kids_def l m)
  have "releasable s' [pte, pmd, pud]" using ok d t(2) inv(4) by (simp add: releasable_def)
  moreover have "nvm_file s' pud" by (simp add: nvm_file_def nvm_leaf_def kids_def l m)
  moreover have "outside_pool s' ?R" by (rule outside_pool_same [OF super _ assms(2)]) (use inv(4) in auto)
  moreover have "\<forall>p \<in> {pud, pmd, pte}. region (rdfs_va s p) 4096 \<inter> ?R = {}"
    using assms(2) inv(3) unfolding outside_pool_def by blast
  moreover have "\<exists>t m. file_inv s' ?ino t \<and> dense t m" using inv(1) chain_dense by blast
  ultimately show ?thesis unfolding removable_def using inv(2) assms(4) by (auto simp: ps eqs)
qed

section \<open>Examples\<close>

definition example_kenv :: kenv where
  "example_kenv = \<lparr>s_opts = 0x10, get_cached_acl = (\<lambda>_ _. None), posix_acl_alloc = None, kmalloc_ok = True,
     posix_acl_equiv_mode = (\<lambda>_ m. (0, m)), current_umask = 0x12, current_time = 0x5a000000,
     s_blocksize_bits = 12, crc32 = (\<lambda>_ bs. ucast (bs ! 0)), this_cpu = 0, pud_alloc = (\<lambda>_ _. True), pmd_alloc = (\<lambda>_ _. True),
     new_inode = None, inode_addr = (\<lambda>i. i), inode_init_owner = (\<lambda>i _ m. i\<lparr>i_mode := m\<rparr>), insert_inode_locked = (\<lambda>_. 0),
     make_bad_inode = (\<lambda>i. i\<lparr>i_mode := S_IFREG\<rparr>), inode_change_ok = (\<lambda>_ _. 0), setattr_copy = (\<lambda>i _. i)\<rparr>"

lemma example_slot [mem_eval]: "get_rdfs_inode example_tables 1 = 0xffffc90000004080"
  by (simp add: get_rdfs_inode_def mem_eval consts_eval)

lemma example_slot_zero: "\<lbrakk>unat a < 0xffffc90000100000; 0xffffc90000004080 \<le> unat a\<rbrakk> \<Longrightarrow> mem example_tables a = 0" for a :: u64
  by (simp add: example_tables_def example_nvm_def example_super_def store_apart unat_sub_if_size word_size)

definition example_inode :: inode where
  "example_inode = example_file\<lparr>i_mode := 0x81a4, i_size := 8192, i_atime := 7, i_mtime := 8, i_ctime := 9\<rparr>"

lemma example_inode_eval [mem_eval]:
  "i_ino example_inode = 1" "i_mode example_inode = 0x81a4" "i_nlink example_inode = 1" "i_size example_inode = 8192"
  "i_vflags example_inode = 0" "i_atime example_inode = 7" "i_mtime example_inode = 8" "i_ctime example_inode = 9"
  "i_virt_addr (info example_inode) = 0xffffcb0800000000"
  by (simp_all add: example_inode_def example_file_def consts_eval)

lemma example_update: "rdfs_update_inode example_tables example_inode = (0, snd (rdfs_update_inode example_tables example_inode))"
  by (simp add: rdfs_update_inode_def Let_def mem_eval)

lemma example_update_head:
  "mem (snd (rdfs_update_inode example_tables example_inode)) (0xffffc90000004080 + 4) = 0xa4"
  "ld32 (mem example_tables) 0xffffc90000004080 = (0 :: u32)"
  "mem example_tables (0xffffc90000004080 + 4) = 0"
proof -
  show "mem (snd (rdfs_update_inode example_tables example_inode)) (0xffffc90000004080 + 4) = 0xa4"
    by (simp add: rdfs_update_inode_def Let_def mem_eval)
  show "ld32 (mem example_tables) 0xffffc90000004080 = (0 :: u32)"
    by (rule load_zero) (auto simp: region_iff unat_sub_if_size word_size intro!: example_slot_zero split: if_splits)
  show "mem example_tables (0xffffc90000004080 + 4) = 0" by (rule example_slot_zero) simp_all
qed

theorem update_inode_stale_checksum_witness:
  "rdfs_read_inode example_kenv (snd (rdfs_update_inode example_tables example_inode)) example_file 0xffffc90000004080 =
     (- EIO, example_file, True)"
proof -
  have "rdfs_calc_checksum (crc32 example_kenv) (mem example_tables) 0xffffc90000004080 128 = 0"
    using example_update_head by (simp add: rdfs_calc_checksum_def example_kenv_def nth_load_bytes)
  moreover have "crc32 example_kenv (- 1) (load_bytes (mem (snd (rdfs_update_inode example_tables example_inode))) (0xffffc90000004080 + 4) 124)
      \<noteq> crc32 example_kenv (- 1) (load_bytes (mem example_tables) (0xffffc90000004080 + 4) 124)"
    using example_update_head by (simp add: example_kenv_def nth_load_bytes)
  ultimately show ?thesis
    using update_inode_stale_checksum [OF example_update, of "0xffffc90000004080" example_kenv example_file]
    by (simp add: mem_eval) (simp add: example_kenv_def example_file_def)
qed


theorem rdfs_readpage_spec_witness:
  "rdfs_readpage example_kenv True example_table (example_inode\<lparr>i_size := 100\<rparr>) 0 =
     (0, Some (map (\<lambda>i. if i < 100 then mem example_table (0xffffc90000203000 + of_nat i) else 0) [0 ..< 4096]))"
proof -
  have b: "rdfs_find_data_block example_table 1 0 = 0x8000001800203163"
    by (simp add: rdfs_find_data_block_def Let_def rdfs_va_def example_table_mem mem_eval consts_eval)
  have "file_byte example_table 1 0 i = mem example_table (0xffffc90000203000 + of_nat i)" for i
    by (simp add: file_byte_def b rdfs_va_def mem_eval)
  then show ?thesis
    using rdfs_readpage_spec [of example_kenv "example_inode\<lparr>i_size := 100\<rparr>" 0 example_table]
    by (simp add: example_kenv_def mem_eval b rdfs_va_def)
qed

lemma example_kern_ok:
  "pages_inv example_kern" "outside_pool example_kern (region (get_rdfs_inode example_kern 1) 80)"
  "3 \<le> length (free_page_list example_kern (get_cpu_numa example_kern 0))"
proof -
  note part = nvm_part [OF example_kern_part]
  show "pages_inv example_kern" using example_tables_inv part(10) by simp
  have "outside_pool example_tables (region (get_rdfs_inode example_tables 1) 80)"
    by (rule outside_pool_check)
      (simp_all add: node_ids_def rdfs_get_super_def rdfs_va_def apart_def mem_eval consts_eval)
  then show "outside_pool example_kern (region (get_rdfs_inode example_kern 1) 80)"
    unfolding outside_pool_def in_use_def part .
  show "3 \<le> length (free_page_list example_kern (get_cpu_numa example_kern 0))"
    unfolding part(8) part(12) using example_tables_node example_tables_lists(1) by simp
qed

lemma example_mapped_removable: "removable example_mapped example_inode"
proof (rule fresh_file_removable)
  show "pages_inv example_kern" "outside_pool example_kern (region (get_rdfs_inode example_kern (i_ino example_inode)) 80)"
    "3 \<le> length (free_page_list example_kern (get_cpu_numa example_kern 0))"
    using example_kern_ok by (simp_all add: mem_eval)
  show "file_area (i_virt_addr (info example_inode))" by (simp add: file_area_def in_file_area_def mem_eval consts_eval)
  show "rdfs_init_pg_table example_kern 0 (i_ino example_inode) = (fst (rdfs_init_pg_table example_kern 0 1), example_mapped)"
    by (simp add: example_mapped_def mem_eval)
qed

text \<open>Making a table leaves alone what is neither a free page, nor the descriptor of the node, nor the table address.\<close>

lemma zeroed_page_outside_all:
  assumes "pages_inv s" and "rdfs_get_zeroed_page s cpu = (v, s')" and "x \<notin> region (get_cpu_numa s cpu) 128"
    and "\<forall>p \<in> free_page_set s. x \<notin> region (rdfs_va s p) 4096"
  shows "mem s' x = mem s x \<and> pages_inv s' \<and> same_super s s' \<and> free_page_set s' \<subseteq> free_page_set s \<and>
    (v \<noteq> 0 \<longrightarrow> x \<notin> region v 4096)"
  using zeroed_page_cases [OF assms(1,2)] assms(1,3,4) by (auto simp: zeroed_page_call_def same_super_refl)

lemma init_pg_table_outside:
  assumes "pages_inv s" and "rdfs_init_pg_table s cpu ino = (err, s')" and "x \<notin> region (get_cpu_numa s cpu) 128"
    and "\<forall>p \<in> free_page_set s. x \<notin> region (rdfs_va s p) 4096" and "x \<notin> pg_word s ino"
  shows "mem s' x = mem s x"
proof -
  obtain v1 s1 v2 s2 v3 s3 where r: "rdfs_get_zeroed_page s cpu = (v1, s1)"
      "rdfs_get_zeroed_page s1 cpu = (v2, s2)" "rdfs_get_zeroed_page s2 cpu = (v3, s3)"
    by (metis prod.exhaust)
  note z1 = zeroed_page_outside_all [OF assms(1) r(1) assms(3,4)]
  then have ss1: "same_super s s1" by simp
  have z2: "mem s2 x = mem s1 x \<and> pages_inv s2 \<and> same_super s1 s2 \<and> free_page_set s2 \<subseteq> free_page_set s1 \<and> (v2 \<noteq> 0 \<longrightarrow> x \<notin> region v2 4096)"
    using z1 assms(3,4) same_super_eqs(1,9) [OF ss1] by (intro zeroed_page_outside_all [OF _ r(2)]) auto
  then have ss2: "same_super s s2" using same_super_trans [OF ss1] by simp
  have z3: "mem s3 x = mem s2 x"
    using zeroed_page_outside_all [OF _ r(3), of x] z1 z2 assms(3,4) same_super_eqs(1,9) [OF ss2] by auto
  have out: "x \<notin> region v 8" if "x \<notin> region v 4096" for v :: u64 using that region_mono [of 8 4096 v] by auto
  show ?thesis
    using assms(2,5) z1 z2 z3 out
    by (auto simp: rdfs_init_pg_table_def rdfs_table_alloc_one_def r Let_def rdfs_set_pmd_def rdfs_set_pud_def store_outside pg_word_def
        split: if_splits)
qed

lemma example_mapped_flags: "ld32 (mem example_mapped) (get_rdfs_inode example_mapped 1 + 16) = (0 :: u32)"
proof -
  note part = nvm_part [OF example_kern_part]
  obtain err where i: "rdfs_init_pg_table example_kern 0 1 = (err, example_mapped)"
    unfolding example_mapped_def by (metis prod.collapse)
  have slot: "get_rdfs_inode example_kern 1 = 0xffffc90000004080" by (simp add: part mem_eval)
  have "outside_pool example_kern (pg_word example_kern 1)"
    by (rule outside_pool_mono [OF example_kern_ok(2)]) (use region_sub [of 72 8 80] in \<open>simp add: pg_word_def\<close>)
  then have "same_super example_kern example_mapped"
    using init_pg_table_effect [OF example_kern_ok(1), of 1 0] example_kern_ok(3) by (simp add: i)
  then have ni: "get_rdfs_inode example_mapped 1 = 0xffffc90000004080" using same_super_eqs(11) slot by metis
  have "mem example_mapped x = 0" if "x \<in> region (0xffffc90000004080 + 16) 4" for x
  proof -
    have sub: "x \<in> region 0xffffc90000004080 80" using that region_sub [of 16 4 80 "0xffffc90000004080"] by auto
    have "region (get_rdfs_inode example_kern 1 + 16) 4 \<inter> pg_word example_kern 1 = {}"
      unfolding pg_word_def by (rule field_disj) simp
    then have "mem example_mapped x = mem example_kern x"
      using example_kern_ok(2) sub that in_use_cpu [of example_kern 0] unfolding outside_pool_def slot
      by (intro init_pg_table_outside [OF example_kern_ok(1) i]) blast+
    moreover have "mem example_kern x = 0"
      using sub by (simp add: example_kern_part) (auto simp: region_iff unat_sub_if_size word_size intro!: example_slot_zero split: if_splits)
    ultimately show ?thesis by simp
  qed
  then show ?thesis unfolding ni by (intro load_zero) auto
qed


theorem update_inode_keeps_files_witness:
  "\<exists>t s'. rdfs_update_inode example_mapped example_inode = (0, s') \<and> file_inv s' 1 t"
proof -
  obtain pud pmd pte where inv: "file_inv example_mapped 1 (chain_tree pud pmd pte)"
      "{pud, pmd, pte} \<subseteq> free_page_set example_kern" "free_page_set example_mapped = free_page_set example_kern - {pud, pmd, pte}"
      "same_super example_kern example_mapped"
    using init_pg_table_effect [OF example_kern_ok(1), of 1 0] example_kern_ok(3)
      outside_pool_mono [OF example_kern_ok(2), of "pg_word example_kern 1"] region_sub [of 72 8 80 "get_rdfs_inode example_kern 1"]
    by (auto simp: example_mapped_def pg_word_def split: prod.splits)
  let ?R = "region (get_rdfs_inode example_kern 1) 80"
  note eqs = same_super_eqs [OF inv(4)]
  have sub: "attr_bytes (get_rdfs_inode example_kern 1) \<subseteq> ?R" unfolding attr_bytes_def by (rule region_sub) simp
  have "outside_pool example_mapped ?R" by (rule outside_pool_same [OF inv(4) _ example_kern_ok(2)]) (use inv(3) in auto)
  then have 1: "outside_pool example_mapped (attr_bytes (get_rdfs_inode example_kern 1))" by (rule outside_pool_mono [OF _ sub])
  have 2: "pg_word example_kern 1 \<inter> attr_bytes (get_rdfs_inode example_kern 1) = {}"
    unfolding pg_word_def attr_bytes_def by (rule field_disj) simp
  have "p \<in> {pud, pmd, pte}" if "p \<in> ran (chain_tree pud pmd pte)" for p
    using that by (auto simp: chain_tree_def ran_def split: if_splits)
  then have 3: "\<forall>p \<in> ran (chain_tree pud pmd pte). region (rdfs_va example_kern p) 4096 \<inter> attr_bytes (get_rdfs_inode example_kern 1) = {}"
    using example_kern_ok(2) inv(2) sub unfolding outside_pool_def by blast
  obtain e s' where u: "rdfs_update_inode example_mapped example_inode = (e, s')" by (cases "rdfs_update_inode example_mapped example_inode")
  have "get_rdfs_inode example_mapped 1 \<noteq> 0" unfolding eqs(11) nvm_part(11) [OF example_kern_part] by (simp add: mem_eval)
  then have "e = 0" using u by (auto simp: rdfs_update_inode_def Let_def mem_eval)
  moreover have "file_inv s' 1 (chain_tree pud pmd pte)"
    using update_inode_keeps_files [OF inv(1) u] 1 2 3 by (simp add: eqs mem_eval pg_word_def)
  ultimately show ?thesis using u by blast
qed

end
