(* ===== verification/Dir.thy ===== *)
theory Dir
  imports Inode_Store
begin

text \<open>
  Directories (\<open>rdfs_master/dir.c\<close>): a directory is a sequence of variable-length entries, read and written through the
  virtual address its pages are mapped at.

  The functions on entries work on the memory that the processor sees through the kernel's page tables (\<open>vmem\<close>). The
  operations take that memory from the state, where \<open>None\<close> is the fault on a directory that is not mapped over its whole
  size, and store the directory back through the tables. The loops are partial functions: \<open>None\<close> stands for a loop that does
  not end. The lemmas describe a directory by the list of its entries' addresses and by the map from names to inode
  numbers that it represents.
\<close>

section \<open>Entries\<close>

text \<open>\<open>struct rdfs_dir_entry\<close>: \<open>inode\<close> at 0, \<open>rec_len\<close> at 8, \<open>name_len\<close> at 10, \<open>file_type\<close> at 11, \<open>name\<close> at 12.\<close>

definition de_inode :: "mem \<Rightarrow> u64 \<Rightarrow> u64" where "de_inode v de = ld64 v de"
definition de_rec_len :: "mem \<Rightarrow> u64 \<Rightarrow> u16" where "de_rec_len v de = ld16 v (de + 8)"
definition de_name_len :: "mem \<Rightarrow> u64 \<Rightarrow> u8" where "de_name_len v de = v (de + 10)"
definition de_file_type :: "mem \<Rightarrow> u64 \<Rightarrow> u8" where "de_file_type v de = v (de + 11)"
definition de_name :: "mem \<Rightarrow> u64 \<Rightarrow> nat \<Rightarrow> u8 list" where "de_name v de n = load_bytes v (de + 12) n"

definition RDFS_FT_UNKNOWN :: u8 where [consts_eval]: "RDFS_FT_UNKNOWN = 0"
definition RDFS_FT_REG_FILE :: u8 where [consts_eval]: "RDFS_FT_REG_FILE = 1"
definition RDFS_FT_DIR :: u8 where [consts_eval]: "RDFS_FT_DIR = 2"
definition RDFS_FT_CHRDEV :: u8 where [consts_eval]: "RDFS_FT_CHRDEV = 3"
definition RDFS_FT_BLKDEV :: u8 where [consts_eval]: "RDFS_FT_BLKDEV = 4"
definition RDFS_FT_FIFO :: u8 where [consts_eval]: "RDFS_FT_FIFO = 5"
definition RDFS_FT_SOCK :: u8 where [consts_eval]: "RDFS_FT_SOCK = 6"
definition RDFS_FT_SYMLINK :: u8 where [consts_eval]: "RDFS_FT_SYMLINK = 7"
definition RDFS_FT_MAX :: u8 where [consts_eval]: "RDFS_FT_MAX = 8"

text \<open>The values of \<open>DT_*\<close> and of \<open>S_IF* >> S_SHIFT\<close> are those of the kernel's headers.\<close>

definition rdfs_filetype_table :: "u8 \<Rightarrow> u8" where
  "rdfs_filetype_table t =
     (if t = RDFS_FT_REG_FILE then 8 else if t = RDFS_FT_DIR then 4 else if t = RDFS_FT_CHRDEV then 2
      else if t = RDFS_FT_BLKDEV then 6 else if t = RDFS_FT_FIFO then 1 else if t = RDFS_FT_SOCK then 12
      else if t = RDFS_FT_SYMLINK then 10 else 0)"

definition S_SHIFT :: nat where [consts_eval]: "S_SHIFT = 12"

definition rdfs_type_by_mode :: "u16 \<Rightarrow> u8" where
  "rdfs_type_by_mode i =
     (if i = 8 then RDFS_FT_REG_FILE else if i = 4 then RDFS_FT_DIR else if i = 2 then RDFS_FT_CHRDEV
      else if i = 6 then RDFS_FT_BLKDEV else if i = 1 then RDFS_FT_FIFO else if i = 12 then RDFS_FT_SOCK
      else if i = 10 then RDFS_FT_SYMLINK else 0)"

definition RDFS_DIR_ROUND :: u32 where [consts_eval]: "RDFS_DIR_ROUND = 3"

definition RDFS_DIR_REC_LEN :: "u32 \<Rightarrow> u32" where
  "RDFS_DIR_REC_LEN name_len = (name_len + 12 + RDFS_DIR_ROUND) AND NOT RDFS_DIR_ROUND"

text \<open>A name is a list of bytes, of the length the caller gives.\<close>

definition rdfs_match :: "mem \<Rightarrow> u8 list \<Rightarrow> u64 \<Rightarrow> bool" where
  "rdfs_match v name de \<longleftrightarrow>
     length name = unat (de_name_len v de) \<and> de_inode v de \<noteq> 0 \<and> de_name v de (length name) = name"

definition rdfs_next_entry :: "mem \<Rightarrow> u64 \<Rightarrow> u64" where
  "rdfs_next_entry v p = p + ucast (de_rec_len v p)"

definition rdfs_set_de_type :: "mem \<Rightarrow> u64 \<Rightarrow> u16 \<Rightarrow> mem" where
  "rdfs_set_de_type v de mode = st8 v (de + 11) (rdfs_type_by_mode (drop_bit S_SHIFT (mode AND S_IFMT)))"

section \<open>Searching\<close>

text \<open>Result: the entry and the one before it, or \<open>None\<close> for \<open>NULL\<close>.\<close>

partial_function (option) find_loop :: "mem \<Rightarrow> u8 list \<Rightarrow> u64 \<Rightarrow> u64 \<Rightarrow> u64 \<Rightarrow> (u64 \<times> u64) option option" where
  "find_loop v name fin prev nde =
     (if nde < fin then
        if de_rec_len v nde = 0 then Some None
        else if rdfs_match v name nde then Some (Some (nde, prev))
        else find_loop v name fin nde (rdfs_next_entry v nde)
      else Some None)"

definition rdfs_find_entry2 :: "mem \<Rightarrow> u64 \<Rightarrow> u64 \<Rightarrow> u8 list \<Rightarrow> (u64 \<times> u64) option option" where
  "rdfs_find_entry2 v start n name =
     (if n = 0 then Some None else find_loop v name (start + n) start start)"

definition rdfs_dotdot :: "mem \<Rightarrow> u64 \<Rightarrow> u64" where
  "rdfs_dotdot v va = rdfs_next_entry v va"

text \<open>One entry of \<open>rdfs_empty_dir\<close>: whether it makes the directory non-empty.\<close>

definition occupies :: "mem \<Rightarrow> u64 \<Rightarrow> u64 \<Rightarrow> bool" where
  "occupies v ino de \<longleftrightarrow> de_inode v de \<noteq> 0 \<and>
     (v (de + 12) \<noteq> 46 \<or> de_name_len v de > 2 \<or>
      (if de_name_len v de < 2 then de_inode v de \<noteq> ucast (ucast ino :: u32) else v (de + 13) \<noteq> 46))"

partial_function (option) empty_loop :: "mem \<Rightarrow> u64 \<Rightarrow> u64 \<Rightarrow> u64 \<Rightarrow> int option" where
  "empty_loop v ino last_addr de =
     (if de \<le> last_addr then
        if de_rec_len v de = 0 then Some 0
        else if occupies v ino de then Some 0
        else empty_loop v ino last_addr (rdfs_next_entry v de)
      else Some 1)"

definition rdfs_empty_dir :: "mem \<Rightarrow> u64 \<Rightarrow> u64 \<Rightarrow> u64 \<Rightarrow> int option" where
  "rdfs_empty_dir v va size_bytes ino = empty_loop v ino (va + (size_bytes - ucast (RDFS_DIR_REC_LEN 1))) va"

section \<open>Changing entries\<close>

text \<open>What the search of \<open>rdfs_add_link\<close> ends with: an error, an entry with room for the new one and its two lengths, or the
  end of the directory.\<close>

datatype scan = Scan_err int | Scan_got u64 u16 u16 | Scan_new u64

text \<open>The two nested loops: \<open>i\<close> counts the outer one, \<open>dir_end\<close> is the bound of the inner one.\<close>

partial_function (option) add_scan ::
  "mem \<Rightarrow> u8 list \<Rightarrow> u64 \<Rightarrow> nat \<Rightarrow> nat \<Rightarrow> u64 \<Rightarrow> u64 \<Rightarrow> scan option" where
  "add_scan v name eaddr nrpages i dir_end de =
     (let reclen = RDFS_DIR_REC_LEN (of_nat (length name))
      in if de \<le> dir_end then
           if de = eaddr then Some (Scan_new de)
           else if de_rec_len v de = 0 then Some (Scan_err (- EIO))
           else if rdfs_match v name de then Some (Scan_err (- EEXIST))
           else
             let name_len = (ucast (RDFS_DIR_REC_LEN (ucast (de_name_len v de))) :: u16);
                 rec_len = de_rec_len v de
             in if de_inode v de = 0 \<and> reclen \<le> ucast rec_len then Some (Scan_got de rec_len name_len)
                else if ucast name_len + reclen \<le> ucast rec_len then Some (Scan_got de rec_len name_len)
                else add_scan v name eaddr nrpages i dir_end (de + ucast rec_len)
         else if i < nrpages then add_scan v name eaddr nrpages (Suc i) (de + (PAGE_SIZE - ucast reclen)) de
         else Some (Scan_err (- EINVAL)))"

text \<open>From \<open>got_it\<close> on: the entry is split when it is in use.\<close>

definition add_fill :: "mem \<Rightarrow> u64 \<Rightarrow> u16 \<Rightarrow> u16 \<Rightarrow> u8 list \<Rightarrow> u64 \<Rightarrow> u16 \<Rightarrow> mem" where
  "add_fill v de rec_len name_len name ino mode =
     (let (v1, de1) = (if de_inode v de \<noteq> 0
                       then (st16 (st16 v (de + ucast name_len + 8) (rec_len - name_len)) (de + 8) name_len, de + ucast name_len)
                       else (v, de));
          v2 = st8 v1 (de1 + 10) (of_nat (length name));
          v3 = store_bytes v2 (de1 + 12) name;
          v4 = st64 v3 de1 ino
      in rdfs_set_de_type v4 de1 mode)"

definition add_block :: "mem \<Rightarrow> u64 \<Rightarrow> mem" where
  "add_block v de = st64 (st16 v (de + 8) (ucast PAGE_SIZE)) de 0"

definition rdfs_delete_entry :: "mem \<Rightarrow> u64 \<Rightarrow> u64 \<Rightarrow> int \<times> mem" where
  "rdfs_delete_entry v de prev =
     (if de_rec_len v de = 0 then (- EIO, v)
      else
        let rec_len = de_rec_len v de;
            v1 = st64 v de 0
        in (0, st16 v1 (prev + 8) (de_rec_len v1 prev + rec_len)))"

definition set_entry :: "mem \<Rightarrow> u64 \<Rightarrow> u64 \<Rightarrow> u16 \<Rightarrow> mem" where
  "set_entry v de ino mode = rdfs_set_de_type (st64 v de ino) de mode"

definition make_entries :: "mem \<Rightarrow> u64 \<Rightarrow> u64 \<Rightarrow> u64 \<Rightarrow> u16 \<Rightarrow> mem" where
  "make_entries v va ino parent mode =
     (let v1 = st8 v (va + 10) 1;
          v2 = st16 v1 (va + 8) (ucast (RDFS_DIR_REC_LEN 1));
          v3 = store_bytes v2 (va + 12) [46, 0, 0, 0];
          v4 = st64 v3 va (ucast (ucast ino :: u32));
          v5 = rdfs_set_de_type v4 va mode;
          de = va + ucast (RDFS_DIR_REC_LEN 1);
          v6 = st8 v5 (de + 10) 2;
          v7 = st16 v6 (de + 8) (ucast PAGE_SIZE - ucast (RDFS_DIR_REC_LEN 1));
          v8 = st64 v7 de (ucast (ucast parent :: u32));
          v9 = store_bytes v8 (de + 12) [46, 46, 0, 0]
      in rdfs_set_de_type v9 de mode)"

section \<open>Operations on a mapped directory\<close>

text \<open>The memory behind the kernel's page tables; a byte that is not mapped has no value and is 0 here, which no operation
  reads: every access is preceded by the check that the directory is mapped.\<close>

definition vmem :: "'a kern_scheme \<Rightarrow> mem" where
  "vmem s a = (case translate s a of None \<Rightarrow> 0 | Some p \<Rightarrow> mem s (rdfs_va s p))"

definition mapped :: "'a kern_scheme \<Rightarrow> u64 \<Rightarrow> nat \<Rightarrow> bool" where
  "mapped s a n \<longleftrightarrow> list_all (\<lambda>i. translate s (a + of_nat i) \<noteq> None) [0..<n]"

definition window :: "'a kern_scheme \<Rightarrow> u64 \<Rightarrow> nat \<Rightarrow> mem option" where
  "window s a n = (if mapped s a n then Some (vmem s) else None)"

definition dir_size :: "inode \<Rightarrow> u64" where
  "dir_size inode = word_of_int (i_size inode)"

definition dir_window :: "'a kern_scheme \<Rightarrow> inode \<Rightarrow> mem option" where
  "dir_window s inode = window s (i_virt_addr (info inode)) (unat (dir_size inode))"

text \<open>Storing a directory of \<open>n\<close> bytes back through the tables.\<close>

definition commit :: "'a kern_scheme \<Rightarrow> u64 \<Rightarrow> nat \<Rightarrow> mem \<Rightarrow> 'a kern_scheme option" where
  "commit s a n v = vstore s a (load_bytes v a n)"

definition RDFS_BTREE_FL :: u32 where [consts_eval]: "RDFS_BTREE_FL = 0x1000"

definition clear_btree :: "inode \<Rightarrow> inode" where
  "clear_btree dir = dir\<lparr>info := (info dir)\<lparr>in_flags := in_flags (info dir) AND NOT RDFS_BTREE_FL\<rparr>\<rparr>"

definition touch :: "'k kenv_scheme \<Rightarrow> inode \<Rightarrow> inode" where
  "touch k dir = clear_btree (dir\<lparr>i_ctime := current_time k, i_mtime := current_time k\<rparr>)"

definition rdfs_set_link ::
  "'k kenv_scheme \<Rightarrow> 'a kern_scheme \<Rightarrow> inode \<Rightarrow> u64 \<Rightarrow> inode \<Rightarrow> bool \<Rightarrow> (inode \<times> 'a kern_scheme) option" where
  "rdfs_set_link k s dir de inode update_times = do {
     v \<leftarrow> dir_window s dir;
     s1 \<leftarrow> commit s (i_virt_addr (info dir)) (unat (dir_size dir)) (set_entry v de (i_ino inode) (i_mode inode));
     let dir1 = (if update_times then touch k dir else clear_btree dir);
     Some (dir1, rdfs_dirty_inode s1 dir1)
   }"

text \<open>\<open>junk\<close> is the uninitialised page address of \<open>rdfs_alloc_blocks\<close>.\<close>

definition rdfs_add_link ::
  "'k kenv_scheme \<Rightarrow> 'a kern_scheme \<Rightarrow> inode \<Rightarrow> u8 list \<Rightarrow> inode \<Rightarrow> u64 \<Rightarrow> (int \<times> inode \<times> 'a kern_scheme) option" where
  "rdfs_add_link k s dir name inode junk =
     (let va = i_virt_addr (info dir);
          n = dir_size dir;
          fill = (\<lambda>s dir n v de rec_len name_len. do {
            s' \<leftarrow> commit s va n (add_fill v de rec_len name_len name (i_ino inode) (i_mode inode));
            let dir' = touch k dir;
            Some (0, dir', rdfs_dirty_inode s' dir')
          })
      in if va = 0 then Some (- ENOMEM, dir, s)
         else do {
           v \<leftarrow> dir_window s dir;
           r \<leftarrow> add_scan v name (va + n) (unat (drop_bit 12 n)) 0
                  (va + (PAGE_SIZE - ucast (RDFS_DIR_REC_LEN (of_nat (length name))))) va;
           case r of
             Scan_err err \<Rightarrow> Some (err, dir, s)
           | Scan_got de rec_len name_len \<Rightarrow> fill s dir (unat n) v de rec_len name_len
           | Scan_new de \<Rightarrow>
               if word_of_int (i_size dir) + PAGE_SIZE \<le> MAX_DIR_SIZE then do {
                 (err, dir1, s1) \<leftarrow> rdfs_alloc_blocks k s dir 1 0 ALLOC_PAGE junk;
                 let dir2 = dir1\<lparr>i_size := i_size dir1 + 4096\<rparr>;
                 if err \<noteq> 0 then Some (err, dir2, s1)
                 else do {
                   v1 \<leftarrow> dir_window s1 dir2;
                   fill s1 dir2 (unat (dir_size dir2)) (add_block v1 de) de (ucast PAGE_SIZE) 0
                 }
               }
               else Some (- EIO, dir, s)
         })"

definition delete_entry ::
  "'k kenv_scheme \<Rightarrow> 'a kern_scheme \<Rightarrow> inode \<Rightarrow> u64 \<Rightarrow> u64 \<Rightarrow> (int \<times> inode \<times> 'a kern_scheme) option" where
  "delete_entry k s parent de prev = do {
     v \<leftarrow> dir_window s parent;
     let (err, v1) = rdfs_delete_entry v de prev;
     if err \<noteq> 0 then Some (err, parent, s)
     else do {
       s1 \<leftarrow> commit s (i_virt_addr (info parent)) (unat (dir_size parent)) v1;
       let parent1 = touch k parent;
       Some (0, parent1, rdfs_dirty_inode s1 parent1)
     }
   }"

definition establish :: "'k kenv_scheme \<Rightarrow> 'a kern_scheme \<Rightarrow> inode \<Rightarrow> (int \<times> inode \<times> 'a kern_scheme) option" where
  "establish k s inode = rdfs_establish_mapping (pud_alloc k) (pmd_alloc k) s (inode_addr k (i_ino inode)) inode"

definition rdfs_make_empty ::
  "'k kenv_scheme \<Rightarrow> 'a kern_scheme \<Rightarrow> inode \<Rightarrow> u64 \<Rightarrow> u64 \<Rightarrow> (int \<times> inode \<times> 'a kern_scheme) option" where
  "rdfs_make_empty k s inode parent junk = do {
     (err, inode1, s1) \<leftarrow> establish k s inode;
     if err \<noteq> 0 then Some (err, inode1, s1)
     else if i_size inode1 \<noteq> 0 then rdfs_destroy_mapping s1 inode1
     else do {
       (err1, inode2, s2) \<leftarrow> rdfs_alloc_blocks k s1 inode1 1 0 ALLOC_PAGE junk;
       let inode3 = inode2\<lparr>i_size := 4096\<rparr>;
       let va = i_virt_addr (info inode3);
       if err1 \<noteq> 0 then Some (err1, inode3, s2)
       else if va = 0 then rdfs_destroy_mapping s2 inode3
       else do {
         v \<leftarrow> dir_window s2 inode3;
         s3 \<leftarrow> commit s2 va 4096 (make_entries v va (i_ino inode3) parent (i_mode inode3));
         rdfs_destroy_mapping s3 inode3
       }
     }
   }"

definition rdfs_inode_by_name ::
  "'k kenv_scheme \<Rightarrow> 'a kern_scheme \<Rightarrow> inode \<Rightarrow> u8 list \<Rightarrow> (u64 \<times> inode \<times> 'a kern_scheme) option" where
  "rdfs_inode_by_name k s dir name = do {
     (_, dir1, s1) \<leftarrow> establish k s dir;
     v \<leftarrow> dir_window s1 dir1;
     r \<leftarrow> rdfs_find_entry2 v (i_virt_addr (info dir1)) (dir_size dir1) name;
     let res = (case r of None \<Rightarrow> 0 | Some (de, _) \<Rightarrow> ucast (ucast (de_inode v de) :: u32));
     (_, dir2, s2) \<leftarrow> rdfs_destroy_mapping s1 dir1;
     Some (res, dir2, s2)
   }"

text \<open>Reading a directory: \<open>emit\<close> is \<open>dir_emit\<close>, which consumes an entry or refuses it; \<open>'c\<close> is what it has consumed.\<close>

partial_function (option) readdir_loop ::
  "('c \<Rightarrow> u8 list \<times> u64 \<times> u8 \<Rightarrow> 'c option) \<Rightarrow> mem \<Rightarrow> u64 \<Rightarrow> u64 \<Rightarrow> 'c \<Rightarrow> int \<Rightarrow> ('c \<times> int) option" where
  "readdir_loop emit v end_addr nde c pos =
     (if nde < end_addr then
        if de_rec_len v nde = 0 then Some (c, pos)
        else
          let t = de_file_type v nde;
              d_type = (if t < RDFS_FT_MAX then rdfs_filetype_table t else 0);
              r = (if de_inode v nde \<noteq> 0
                   then emit c (de_name v nde (unat (de_name_len v nde)), de_inode v nde, d_type) else Some c)
          in case r of
               None \<Rightarrow> Some (c, pos)
             | Some c1 \<Rightarrow> readdir_loop emit v end_addr (rdfs_next_entry v nde) c1 (pos + int (unat (de_rec_len v nde)))
      else Some (c, pos))"

text \<open>\<open>stale\<close> is whether \<open>f_version\<close> differs from \<open>i_version\<close>. Result: the error, what was emitted, the position.\<close>

definition rdfs_readdir ::
  "'k kenv_scheme \<Rightarrow> ('c \<Rightarrow> u8 list \<times> u64 \<times> u8 \<Rightarrow> 'c option) \<Rightarrow> 'a kern_scheme \<Rightarrow> inode \<Rightarrow> bool \<Rightarrow> 'c \<Rightarrow> int
     \<Rightarrow> (int \<times> 'c \<times> int \<times> inode \<times> 'a kern_scheme) option" where
  "rdfs_readdir k emit s inode stale c pos = do {
     (_, inode1, s1) \<leftarrow> establish k s inode;
     let start_addr = i_virt_addr (info inode1);
     let end_addr = start_addr + dir_size inode1;
     (c1, pos1) \<leftarrow>
       (if i_size inode1 \<le> pos then Some (c, pos)
        else
          let pos' = (if stale \<and> pos \<noteq> 0 then sint start_addr else pos)
          in if end_addr \<le> start_addr then Some (c, pos')
             else do { v \<leftarrow> dir_window s1 inode1; readdir_loop emit v end_addr start_addr c pos' });
     (err, inode2, s2) \<leftarrow> rdfs_destroy_mapping s1 inode1;
     Some (err, c1, pos1, inode2, s2)
   }"

section \<open>A directory as a list of entries\<close>

text \<open>Addresses as natural numbers: none of the entries wraps around.\<close>

lemma unat_u64: "unat (x :: u64) < 2 ^ 64"
  using unsigned_less [of x] by simp

lemma unat_widen [simp]:
  "unat (ucast (x :: u16) :: u64) = unat x" "unat (ucast (x :: u16) :: u32) = unat x" "unat (ucast (y :: u32) :: u64) = unat y"
  "unat (ucast (z :: u8) :: u32) = unat z"
proof -
  have "unat x < 2 ^ 16" "unat y < 2 ^ 32" "unat z < 2 ^ 8"
    using unsigned_less [of x] unsigned_less [of y] unsigned_less [of z] by (simp_all add: unsigned_less)
  then show "unat (ucast x :: u64) = unat x" "unat (ucast x :: u32) = unat x" "unat (ucast y :: u64) = unat y"
    "unat (ucast z :: u32) = unat z"
    by (simp_all add: unsigned_ucast_eq take_bit_nat_eq_self)
qed

lemma widen_eq_0: "(ucast (y :: u32) :: u64) = 0 \<longleftrightarrow> y = 0"
  using unat_widen(3) [of y] by (metis unat_eq_0)

lemma region_range: "unat a + n \<le> 2 ^ 64 \<Longrightarrow> x \<in> region a n \<longleftrightarrow> unat a \<le> unat x \<and> unat x < unat a + n"
proof -
  assume n: "unat a + n \<le> 2 ^ 64"
  show ?thesis
  proof (cases "a \<le> x")
    case True
    then show ?thesis by (auto simp: region_iff unat_sub word_le_nat_alt)
  next
    case False
    then have "unat x < unat a" by (simp add: word_le_nat_alt)
    moreover have "unat (x - a) = 2 ^ 64 + unat x - unat a"
    proof -
      have "(unat (x - a) + unat a) mod 2 ^ 64 = unat x" using unat_word_ariths(1) [of "x - a" a] by simp
      moreover have "unat (x - a) < 2 ^ 64" "unat a < 2 ^ 64" using unsigned_less [of "x - a"] unsigned_less [of a] by simp_all
      ultimately show ?thesis using \<open>unat x < unat a\<close>
        by (cases "unat (x - a) + unat a < 2 ^ 64") (auto simp: mod_if split: if_splits)
    qed
    ultimately show ?thesis using n by (simp add: region_iff)
  qed
qed

text \<open>An entry's header lies within its length, its name too when it is in use.\<close>

definition entry_fits :: "mem \<Rightarrow> u64 \<Rightarrow> bool" where
  "entry_fits v p \<longleftrightarrow> 12 \<le> unat (de_rec_len v p) \<and>
     (de_inode v p \<noteq> 0 \<longrightarrow> 12 + unat (de_name_len v p) \<le> unat (de_rec_len v p))"

primrec chain :: "mem \<Rightarrow> u64 \<Rightarrow> u64 list \<Rightarrow> u64 \<Rightarrow> bool" where
  "chain v p [] e \<longleftrightarrow> p = e"
| "chain v p (q # qs) e \<longleftrightarrow> q = p \<and> entry_fits v p \<and> unat p + unat (de_rec_len v p) \<le> unat e \<and>
     chain v (rdfs_next_entry v p) qs e"

text \<open>The first entry that matches and the one before it.\<close>

fun find_prev :: "('a \<Rightarrow> bool) \<Rightarrow> 'a \<Rightarrow> 'a list \<Rightarrow> ('a \<times> 'a) option" where
  "find_prev P prev [] = None"
| "find_prev P prev (q # qs) = (if P q then Some (q, prev) else find_prev P q qs)"

text \<open>The map from names to inode numbers that a directory represents.\<close>

definition dir_map :: "mem \<Rightarrow> u64 list \<Rightarrow> u8 list \<Rightarrow> u64 option" where
  "dir_map v qs name = map_option (de_inode v) (List.find (rdfs_match v name) qs)"

lemma find_prev_find: "map_option fst (find_prev P prev qs) = List.find P qs"
  by (induction qs arbitrary: prev) auto

lemma unat_next:
  assumes "unat p + unat (de_rec_len v p) \<le> unat (e :: u64)"
  shows "unat (rdfs_next_entry v p) = unat p + unat (de_rec_len v p)"
proof -
  have "unat p + unat (de_rec_len v p) < 2 ^ 64" using assms unat_u64 [of e] by linarith
  then show ?thesis by (simp add: rdfs_next_entry_def unat_word_ariths)
qed

lemma chain_le: "chain v p qs e \<Longrightarrow> unat p \<le> unat e"
  by (induction qs arbitrary: p) auto

lemma find_loop_chain:
  "chain v p qs e \<Longrightarrow> find_loop v name e prev p = Some (find_prev (rdfs_match v name) prev qs)"
proof (induction qs arbitrary: p prev)
  case Nil
  then show ?case by (subst find_loop.simps) simp
next
  case (Cons q qs)
  then have "12 \<le> unat (de_rec_len v p)" "unat p + unat (de_rec_len v p) \<le> unat e" by (simp_all add: entry_fits_def)
  then have "p < e" "de_rec_len v p \<noteq> 0" by (auto simp: word_less_nat_alt)
  then show ?case using Cons by (subst find_loop.simps) auto
qed

lemma find_entry2_chain:
  assumes "chain v start qs (start + n)"
  shows "rdfs_find_entry2 v start n name = Some (find_prev (rdfs_match v name) start qs)"
proof (cases "n = 0")
  case True
  then have "qs = []" using assms chain_le by (cases qs) (auto simp: entry_fits_def)
  then show ?thesis using True by (simp add: rdfs_find_entry2_def)
next
  case False
  then show ?thesis using find_loop_chain [OF assms] by (simp add: rdfs_find_entry2_def)
qed

lemma chain_append:
  "chain v p (xs @ ys) e \<longleftrightarrow> (\<exists>q. chain v p xs q \<and> chain v q ys e)"
proof (induction xs arbitrary: p)
  case (Cons x xs)
  show ?case
  proof
    assume "chain v p ((x # xs) @ ys) e"
    then obtain q where "x = p" "entry_fits v p" "chain v (rdfs_next_entry v p) xs q" "chain v q ys e"
      and le: "unat p + unat (de_rec_len v p) \<le> unat e" using Cons.IH by auto
    then show "\<exists>q. chain v p (x # xs) q \<and> chain v q ys e"
      using chain_le [of v "rdfs_next_entry v p" xs q] unat_next [OF le] by auto
  next
    assume "\<exists>q. chain v p (x # xs) q \<and> chain v q ys e"
    then show "chain v p ((x # xs) @ ys) e" using Cons.IH chain_le [of v _ ys e] le_trans by fastforce
  qed
qed simp

text \<open>What an entry's fields depend on.\<close>

lemma load_range:
  assumes "\<And>x. unat a \<le> unat x \<Longrightarrow> unat x < unat a + n \<Longrightarrow> v' x = v x" and "unat a + n \<le> 2 ^ 64" and "n \<le> 4294967296"
  shows "load n v' a = load n v a"
  using assms by (intro load_agree) (auto simp: region_range)

definition agree :: "mem \<Rightarrow> mem \<Rightarrow> nat \<Rightarrow> nat \<Rightarrow> bool" where
  "agree v v' i j \<longleftrightarrow> (\<forall>x. i \<le> unat x \<and> unat x < j \<longrightarrow> v' x = v x)"

lemma agree_sub: "agree v v' i j \<Longrightarrow> i \<le> i' \<Longrightarrow> j' \<le> j \<Longrightarrow> agree v v' i' j'"
  by (simp add: agree_def)

lemma unat_plus_const: "unat (a :: u64) + unat k < 2 ^ 64 \<Longrightarrow> unat (a + k) = unat a + unat k"
  by (simp add: unat_word_ariths)

lemma agree_fields:
  assumes "agree v v' (unat p) (unat p + 12)" and "unat p + 12 \<le> 2 ^ 64"
  shows "de_inode v' p = de_inode v p" "de_rec_len v' p = de_rec_len v p" "de_name_len v' p = de_name_len v p"
proof -
  have u: "unat (p + 8) = unat p + 8" "unat (p + 10) = unat p + 10" using assms(2) by (simp_all add: unat_plus_const)
  show "de_inode v' p = de_inode v p" unfolding de_inode_def
    using assms by (intro load_range) (auto simp: agree_def)
  show "de_rec_len v' p = de_rec_len v p" unfolding de_rec_len_def
    using assms by (intro load_range) (auto simp: agree_def u)
  show "de_name_len v' p = de_name_len v p" unfolding de_name_len_def
    using assms by (auto simp: agree_def u)
qed

lemma agree_name:
  assumes "agree v v' (unat p + 12) (unat p + 12 + n)" and "unat p + 12 + n \<le> 2 ^ 64"
  shows "de_name v' p n = de_name v p n"
proof (cases "n = 0")
  case False
  then have u: "unat (p + 12) = unat p + 12" using assms(2) by (simp add: unat_plus_const)
  have "v' (p + 12 + of_nat i) = v (p + 12 + of_nat i)" if "i < n" for i
  proof -
    have "unat (of_nat i :: u64) = i" using that assms(2) by (simp add: unat_of_nat)
    then have "unat (p + 12 + of_nat i) = unat p + 12 + i" using that assms(2) u by (simp add: unat_plus_const)
    then show ?thesis using assms(1) that by (simp add: agree_def)
  qed
  then show ?thesis by (simp add: de_name_def load_bytes_def)
qed (simp add: de_name_def load_bytes_def)

lemma match_agree:
  assumes "de_inode v' p = de_inode v p" and "de_name_len v' p = de_name_len v p" and "entry_fits v p"
    and "unat p + unat (de_rec_len v p) \<le> 2 ^ 64"
    and "agree v v' (unat p + 12) (unat p + unat (de_rec_len v p))"
  shows "rdfs_match v' name p = rdfs_match v name p"
proof (cases "de_inode v p = 0")
  case False
  then have n: "12 + unat (de_name_len v p) \<le> unat (de_rec_len v p)" using assms(3) by (simp add: entry_fits_def)
  have "de_name v' p (unat (de_name_len v p)) = de_name v p (unat (de_name_len v p))"
    using n assms(4) by (intro agree_name agree_sub [OF assms(5)]) simp_all
  then show ?thesis by (auto simp: rdfs_match_def assms(1,2))
qed (simp add: rdfs_match_def assms(1))

lemma agree_entry:
  assumes "agree v v' (unat p) (unat p + unat (de_rec_len v p))" and "entry_fits v p"
    and "unat p + unat (de_rec_len v p) \<le> unat (e :: u64)"
  shows "entry_fits v' p" "de_rec_len v' p = de_rec_len v p" "de_inode v' p = de_inode v p"
    "rdfs_match v' name p = rdfs_match v name p"
proof -
  have e: "unat p + unat (de_rec_len v p) < 2 ^ 64" using assms(3) unat_u64 [of e] by linarith
  have f: "12 \<le> unat (de_rec_len v p)" using assms(2) by (simp add: entry_fits_def)
  have a: "agree v v' (unat p) (unat p + 12)" by (rule agree_sub [OF assms(1)]) (use f in simp_all)
  have b: "unat p + 12 \<le> 2 ^ 64" using e f by linarith
  note g = agree_fields [OF a b]
  show "de_rec_len v' p = de_rec_len v p" "de_inode v' p = de_inode v p" by (rule g)+
  show "entry_fits v' p" using assms(2) by (simp add: entry_fits_def g)
  show "rdfs_match v' name p = rdfs_match v name p"
    using e by (intro match_agree [OF g(1,3) assms(2)] agree_sub [OF assms(1)]) simp_all
qed

lemma chain_agree:
  assumes "chain v p qs e" and "agree v v' (unat p) (unat e)"
  shows "chain v' p qs e" "\<forall>q \<in> set qs. de_inode v' q = de_inode v q \<and> (\<forall>name. rdfs_match v' name q = rdfs_match v name q)"
  using assms
proof (induction qs arbitrary: p)
  case (Cons q qs)
  { case 1
    then have h: "q = p" "entry_fits v p" "unat p + unat (de_rec_len v p) \<le> unat e" "chain v (rdfs_next_entry v p) qs e" by simp_all
    have a: "agree v v' (unat p) (unat p + unat (de_rec_len v p))" using h(3) by (intro agree_sub [OF 1(2)]) simp_all
    note g = agree_entry [OF a h(2,3)]
    have "agree v v' (unat (rdfs_next_entry v p)) (unat e)"
      using 1(2) unat_next [OF h(3)] by (intro agree_sub [OF 1(2)]) simp_all
    then have "chain v' (rdfs_next_entry v p) qs e" by (rule Cons.IH(1) [OF h(4)])
    then show ?case using h g by (simp add: rdfs_next_entry_def) }
  { case 2
    then have h: "q = p" "entry_fits v p" "unat p + unat (de_rec_len v p) \<le> unat e" "chain v (rdfs_next_entry v p) qs e" by simp_all
    have a: "agree v v' (unat p) (unat p + unat (de_rec_len v p))" using h(3) by (intro agree_sub [OF 2(2)]) simp_all
    note g = agree_entry [OF a h(2,3)]
    have "agree v v' (unat (rdfs_next_entry v p)) (unat e)"
      using unat_next [OF h(3)] by (intro agree_sub [OF 2(2)]) simp_all
    from Cons.IH(2) [OF h(4) this] show ?case using h(1) g by simp }
qed simp_all

lemma chain_edit:
  assumes "chain v p xs a" and "chain v b ys e" and "chain v' a zs b"
    and "agree v v' (unat p) (unat a)" and "agree v v' (unat b) (unat e)"
  shows "chain v' p (xs @ zs @ ys) e"
    "\<forall>q \<in> set xs \<union> set ys. de_inode v' q = de_inode v q \<and> (\<forall>name. rdfs_match v' name q = rdfs_match v name q)"
  using chain_agree [OF assms(1,4)] chain_agree [OF assms(2,5)] assms(3) by (auto simp: chain_append)

section \<open>The map a directory represents\<close>

lemma dir_map_append: "dir_map v (xs @ ys) = dir_map v ys ++ dir_map v xs"
  by (intro ext, induction xs) (auto simp: dir_map_def map_add_def)

lemma dir_map_Nil [simp]: "dir_map v [] = Map.empty"
  by (intro ext) (simp add: dir_map_def)

lemma dir_map_cong:
  assumes "\<forall>q \<in> set qs. de_inode v' q = de_inode v q \<and> (\<forall>name. rdfs_match v' name q = rdfs_match v name q)"
  shows "dir_map v' qs = dir_map v qs"
proof (intro ext)
  fix name
  show "dir_map v' qs name = dir_map v qs name" using assms by (induction qs) (auto simp: dir_map_def)
qed

lemma dir_map_single: "dir_map v [q] name = (if rdfs_match v name q then Some (de_inode v q) else None)"
  by (simp add: dir_map_def)

text \<open>No two entries in use have the same name.\<close>

primrec unique_names :: "mem \<Rightarrow> u64 list \<Rightarrow> bool" where
  "unique_names v [] \<longleftrightarrow> True"
| "unique_names v (q # qs) \<longleftrightarrow> (\<forall>name. rdfs_match v name q \<longrightarrow> dir_map v qs name = None) \<and> unique_names v qs"

lemma unique_append:
  "unique_names v (xs @ ys) \<longleftrightarrow> unique_names v xs \<and> unique_names v ys \<and> (\<forall>name. dir_map v xs name = None \<or> dir_map v ys name = None)"
proof (induction xs)
  case (Cons q xs)
  have "dir_map v (q # xs) name = (if rdfs_match v name q then Some (de_inode v q) else dir_map v xs name)" for name
    by (simp add: dir_map_def)
  then show ?case using Cons by (auto simp: dir_map_append map_add_None)
qed simp

lemma unique_cong:
  assumes "\<forall>q \<in> set qs. de_inode v' q = de_inode v q \<and> (\<forall>name. rdfs_match v' name q = rdfs_match v name q)"
  shows "unique_names v' qs = unique_names v qs"
  using assms
proof (induction qs)
  case (Cons q qs)
  then have "dir_map v' qs = dir_map v qs" by (intro dir_map_cong) simp
  then show ?case using Cons by simp
qed simp

lemma unique_single: "unique_names v [q]"
  by simp

lemma unique_middle: "unique_names v (xs @ zs @ ys) \<Longrightarrow> dir_map v zs x \<noteq> None \<Longrightarrow> dir_map v (xs @ ys) x = None"
  unfolding unique_append dir_map_append map_add_None by (metis option.exhaust)

text \<open>A directory at \<open>start\<close> of \<open>n\<close> bytes.\<close>

definition dir_ok :: "mem \<Rightarrow> u64 \<Rightarrow> u64 \<Rightarrow> u64 list \<Rightarrow> bool" where
  "dir_ok v start n qs \<longleftrightarrow> chain v start qs (start + n) \<and> unique_names v qs"

lemma dir_ok_find:
  assumes "dir_ok v start n qs"
  shows "\<exists>r. rdfs_find_entry2 v start n name = Some r \<and> map_option (de_inode v \<circ> fst) r = dir_map v qs name"
proof -
  have "map_option (de_inode v \<circ> fst) (find_prev (rdfs_match v name) start qs) = dir_map v qs name"
    unfolding dir_map_def find_prev_find [of _ start, symmetric] by (simp add: option.map_comp)
  then show ?thesis using assms find_entry2_chain by (auto simp: dir_ok_def)
qed

lemma dir_ok_edit:
  assumes ok: "dir_ok v start n (xs @ zs @ ys)" and "chain v start xs a" and "chain v b ys (start + n)"
    and "chain v' a zs' b" and "agree v v' (unat start) (unat a)" and "agree v v' (unat b) (unat (start + n))"
    and u: "unique_names v' zs'" "\<forall>name. dir_map v' zs' name \<noteq> None \<longrightarrow> dir_map v (xs @ ys) name = None"
  shows "dir_ok v' start n (xs @ zs' @ ys)" "dir_map v' (xs @ zs' @ ys) = dir_map v (xs @ ys) ++ dir_map v' zs'"
proof -
  note e = chain_edit [OF assms(2-6)]
  have xs: "dir_map v' xs = dir_map v xs" "unique_names v' xs = unique_names v xs"
    and ys: "dir_map v' ys = dir_map v ys" "unique_names v' ys = unique_names v ys"
    using e(2) by (auto intro!: dir_map_cong unique_cong)
  have n: "dir_map v' zs' name = None \<or> dir_map v ys name = None \<and> dir_map v xs name = None" for name
    using u(2) by (auto simp: dir_map_append map_add_None)
  have q: "unique_names v xs" "unique_names v ys" "\<forall>name. dir_map v xs name = None \<or> dir_map v ys name = None"
    using ok by (simp_all add: dir_ok_def unique_append dir_map_append) metis
  have "unique_names v' (xs @ zs' @ ys)"
    unfolding unique_append xs ys dir_map_append map_add_None
  proof (intro conjI allI)
    fix name
    show "dir_map v' zs' name = None \<or> dir_map v ys name = None"
      "dir_map v xs name = None \<or> dir_map v' zs' name = None \<and> dir_map v ys name = None"
      using n [of name] q(3) [rule_format, of name] by auto
  qed (use q u(1) in simp_all)
  then show "dir_ok v' start n (xs @ zs' @ ys)" using e(1) by (simp add: dir_ok_def)
  show "dir_map v' (xs @ zs' @ ys) = dir_map v (xs @ ys) ++ dir_map v' zs'"
  proof (intro ext)
    fix name
    show "dir_map v' (xs @ zs' @ ys) name = (dir_map v (xs @ ys) ++ dir_map v' zs') name"
      using n [of name] by (auto simp: dir_map_append xs ys map_add_def split: option.splits)
  qed
qed

section \<open>Deleting an entry\<close>

lemma agree_refl [simp]: "agree v v i j"
  by (simp add: agree_def)

lemma agree_trans: "agree v v1 i j \<Longrightarrow> agree v1 v2 i j \<Longrightarrow> agree v v2 i j"
  by (simp add: agree_def)

lemma agree_store:
  assumes "unat a + n \<le> 2 ^ 64" and "j \<le> unat a \<or> unat a + n \<le> i"
  shows "agree v (store n v a w) i j"
  unfolding agree_def using assms by (auto intro!: store_outside simp: region_range)

lemma agree_store_bytes:
  assumes "unat a + length bs \<le> 2 ^ 64" and "j \<le> unat a \<or> unat a + length bs \<le> i"
  shows "agree v (store_bytes v a bs) i j"
  unfolding agree_def using assms by (auto intro!: store_bytes_outside simp: region_range)

lemma find_prev_cases:
  assumes "find_prev P prev qs = Some (r, q)"
  shows "P r" "(\<exists>ys. qs = r # ys \<and> q = prev) \<or> (\<exists>xs ys. qs = xs @ q # r # ys)"
  using assms
proof (induction qs arbitrary: prev)
  case (Cons x qs)
  { case 1 then show ?case using Cons by (auto split: if_splits) }
  { case 2
    show ?case
    proof (cases "P x")
      case False
      then have "(\<exists>ys. qs = r # ys \<and> q = x) \<or> (\<exists>xs ys. qs = xs @ q # r # ys)" using 2 Cons.IH(2) by simp
      then show ?thesis by (metis append_Cons append_Nil)
    qed (use 2 in simp) }
qed simp_all

lemma delete_two:
  assumes q: "entry_fits v q" "unat q + unat (de_rec_len v q) \<le> unat r" "r = rdfs_next_entry v q"
    and r: "entry_fits v r" "unat r + unat (de_rec_len v r) \<le> unat (b :: u64)" "b = rdfs_next_entry v r"
    and w: "unat (de_rec_len v q) + unat (de_rec_len v r) < 2 ^ 16"
  defines "v' \<equiv> st16 (st64 v r 0) (q + 8) (de_rec_len (st64 v r 0) q + de_rec_len v r)"
  shows "chain v' q [q] b" "dir_map v' [q] = dir_map v [q]" "j \<le> unat q \<Longrightarrow> agree v v' i j" "unat b \<le> i \<Longrightarrow> agree v v' i j"
proof -
  have b: "unat b < 2 ^ 64" by (rule unat_u64)
  have f: "12 \<le> unat (de_rec_len v q)" "12 \<le> unat (de_rec_len v r)" using q(1) r(1) by (simp_all add: entry_fits_def)
  have u: "unat r = unat q + unat (de_rec_len v q)" "unat b = unat r + unat (de_rec_len v r)"
    using unat_next [OF q(2)] unat_next [OF r(2)] q(3) r(3) by simp_all
  have u8: "unat (q + 8) = unat q + 8" using u f b by (simp add: unat_plus_const)
  let ?v1 = "st64 v r 0"
  have a1: "agree v ?v1 i j" if "j \<le> unat r \<or> unat r + 8 \<le> i" for i j
    using that u f b by (intro agree_store) simp_all
  have a2: "agree ?v1 v' i j" if "j \<le> unat q + 8 \<or> unat q + 10 \<le> i" for i j
    unfolding v'_def using that u f b by (intro agree_store) (auto simp: u8)
  have a: "agree v v' i j" if "j \<le> unat q + 8 \<or> unat q + 10 \<le> i" "j \<le> unat r \<or> unat r + 8 \<le> i" for i j
    using a1 [OF that(2)] a2 [OF that(1)] by (rule agree_trans)
  show "agree v v' i j" if "j \<le> unat q" using that u by (intro a) simp_all
  show "agree v v' i j" if "unat b \<le> i" using that u f by (intro a) simp_all
  have e: "de_rec_len ?v1 q = de_rec_len v q" using a1 u f b by (intro agree_fields(2)) simp_all
  have rec: "de_rec_len v' q = de_rec_len v q + de_rec_len v r" by (simp add: v'_def de_rec_len_def [of "st16 _ _ _"] e)
  have ur: "unat (de_rec_len v' q) = unat (de_rec_len v q) + unat (de_rec_len v r)"
    using w unfolding rec by (simp add: unat_word_ariths)
  have ino: "de_inode v' q = de_inode v q"
    unfolding de_inode_def using a [of "unat q + 8" "unat q"] u f b by (intro load_range) (auto simp: agree_def)
  have nl: "de_name_len v' q = de_name_len v q"
  proof -
    have "unat (q + 10) = unat q + 10" using u f b by (simp add: unat_plus_const)
    then show ?thesis using a [of "unat q + 11" "unat q + 10"] u f unfolding de_name_len_def agree_def by simp
  qed
  have nx: "rdfs_next_entry v' q = b" using unat_next [of q v' b] ur u by (intro word_eq_unatI) simp
  then show "chain v' q [q] b" using q(1) ur u by (auto simp: entry_fits_def ino nl)
  have "rdfs_match v' name q = rdfs_match v name q" for name
    using q(1) u f b by (intro match_agree [OF ino nl] a) simp_all
  then show "dir_map v' [q] = dir_map v [q]" by (intro dir_map_cong) (simp add: ino)
qed

lemma map_del_middle:
  assumes "dir_map v [r] = [name \<mapsto> i]" and "unique_names v (xs @ [q, r] @ ys)"
  shows "dir_map v (xs @ ys) ++ dir_map v [q] = (dir_map v (xs @ [q, r] @ ys))(name := None)"
proof (intro ext)
  fix x
  have c: "dir_map v [q, r] = dir_map v [r] ++ dir_map v [q]" using dir_map_append [of v "[q]" "[r]"] by simp
  have m: "rdfs_match v name r" using fun_cong [OF assms(1), of name] by (simp add: dir_map_single split: if_splits)
  have d: "dir_map v xs x = None \<or> dir_map v [q, r] x = None \<and> dir_map v ys x = None"
    "dir_map v [q, r] x = None \<or> dir_map v ys x = None" "x = name \<Longrightarrow> dir_map v [q] x = None"
    using assms(2) m unfolding unique_append dir_map_append map_add_None
    by (simp_all add: dir_map_single dir_map_append) (metis dir_map_single option.distinct(1))+
  show "(dir_map v (xs @ ys) ++ dir_map v [q]) x = ((dir_map v (xs @ [q, r] @ ys))(name := None)) x"
    using d assms(1) unfolding dir_map_append c by (auto simp: map_add_def split: option.splits)
qed

lemma match_single: "rdfs_match v name r \<Longrightarrow> dir_map v [r] = [name \<mapsto> de_inode v r]"
  by (intro ext) (auto simp: dir_map_single rdfs_match_def)

lemma delete_effect:
  assumes ok: "dir_ok v start n qs" and find: "rdfs_find_entry2 v start n name = Some (Some (de, prev))"
    and "de \<noteq> start" and w: "unat (de_rec_len v prev) + unat (de_rec_len v de) < 2 ^ 16"
  shows "case rdfs_delete_entry v de prev of (err, v') \<Rightarrow>
    err = 0 \<and> (\<exists>qs'. dir_ok v' start n qs' \<and> dir_map v' qs' = (dir_map v qs)(name := None))"
proof -
  have c: "chain v start qs (start + n)" using ok by (simp add: dir_ok_def)
  have fp: "find_prev (rdfs_match v name) start qs = Some (de, prev)" using find find_entry2_chain [OF c] by simp
  note m = find_prev_cases [OF fp]
  have "qs \<noteq> de # ys" for ys using c assms(3) by auto
  then obtain xs ys where qs: "qs = xs @ [prev, de] @ ys" using m(2) by auto
  obtain a b where ch: "chain v start xs a" "chain v a [prev, de] b" "chain v b ys (start + n)"
    using c unfolding qs chain_append by blast
  have "a = prev" "de = rdfs_next_entry v prev" "b = rdfs_next_entry v de" "entry_fits v prev" "entry_fits v de"
    and le: "unat prev + unat (de_rec_len v prev) \<le> unat b" "unat de + unat (de_rec_len v de) \<le> unat b"
    using ch(2) by simp_all
  note h = this
  have "unat prev + unat (de_rec_len v prev) \<le> unat de" using unat_next [OF le(1)] h(2) by simp
  note d = delete_two [OF h(4) this h(2) h(5) le(2) h(3) w]
  have "de_rec_len v de \<noteq> 0" using h(5) by (auto simp: entry_fits_def)
  then obtain v' where v': "rdfs_delete_entry v de prev = (0, v')"
      "v' = st16 (st64 v de 0) (prev + 8) (de_rec_len (st64 v de 0) prev + de_rec_len v de)"
    by (simp add: rdfs_delete_entry_def Let_def)
  note d = d [folded v'(2)]
  note sd = map_del_middle [OF match_single [OF m(1)], of xs prev ys]
  have u: "unique_names v (xs @ [prev, de] @ ys)" using ok by (simp add: dir_ok_def qs)
  have "\<forall>x. dir_map v [prev] x \<noteq> None \<longrightarrow> dir_map v (xs @ ys) x = None"
  proof (intro allI impI unique_middle [OF u])
    show "dir_map v [prev, de] x \<noteq> None" if "dir_map v [prev] x \<noteq> None" for x
      using that dir_map_append [of v "[prev]" "[de]"] by simp
  qed
  then have "dir_ok v' start n (xs @ [prev] @ ys)" "dir_map v' (xs @ [prev] @ ys) = dir_map v (xs @ ys) ++ dir_map v' [prev]"
    using dir_ok_edit [OF ok [unfolded qs] ch(1,3), of v' "[prev]"] d h(1) by simp_all
  then have "dir_ok v' start n (xs @ [prev] @ ys) \<and> dir_map v' (xs @ [prev] @ ys) = (dir_map v qs)(name := None)"
    using sd u d(2) unfolding qs by simp
  then show ?thesis unfolding v'(1) by blast
qed

section \<open>Adding an entry\<close>

lemma unat_and_not_3: "unat (y AND NOT 3 :: u32) = unat y - unat y mod 4"
proof -
  have "(y AND 3) + (y AND NOT 3) = (y AND 3) OR (y AND NOT 3)"
    by (rule disjunctive_add) (auto simp: bit_simps)
  also have "\<dots> = y" by (simp add: bit.conj_disj_distrib [symmetric])
  finally have "y AND NOT 3 = y - (y AND 3)" by (simp add: algebra_simps)
  moreover have "y AND 3 \<le> y" by (rule word_and_le2)
  moreover have "unat (y AND 3) = unat y mod 4"
  proof -
    have "y AND 3 = take_bit 2 y" by (simp add: take_bit_eq_mask mask_eq_exp_minus_1)
    then have "unat (y AND 3) = take_bit 2 (unat y)" by (simp only: unsigned_take_bit_eq)
    then show ?thesis by (simp add: take_bit_eq_mod)
  qed
  ultimately show ?thesis by (simp add: unat_sub)
qed

lemma rec_len_bounds:
  assumes "unat n < 256"
  shows "unat n + 12 \<le> unat (RDFS_DIR_REC_LEN n)" "unat (RDFS_DIR_REC_LEN n) \<le> unat n + 15"
proof -
  have "unat (n + 12 + 3) = unat n + 15" using assms by (simp add: unat_word_ariths)
  then have "unat (RDFS_DIR_REC_LEN n) = unat n + 15 - (unat n + 15) mod 4"
    by (simp only: RDFS_DIR_REC_LEN_def RDFS_DIR_ROUND_def unat_and_not_3)
  then show "unat n + 12 \<le> unat (RDFS_DIR_REC_LEN n)" "unat (RDFS_DIR_REC_LEN n) \<le> unat n + 15" by linarith+
qed

text \<open>The stores that fill an entry.\<close>

definition put_entry :: "mem \<Rightarrow> u64 \<Rightarrow> u8 list \<Rightarrow> u64 \<Rightarrow> u16 \<Rightarrow> mem" where
  "put_entry v de name ino mode =
     rdfs_set_de_type (st64 (store_bytes (st8 v (de + 10) (of_nat (length name))) (de + 12) name) de ino) de mode"

lemma put_entry_agree:
  assumes "unat de + 12 + length name \<le> 2 ^ 64 - 1"
    and "j \<le> unat de \<or> unat de + 12 + length name \<le> i \<or> unat de + 8 \<le> i \<and> j \<le> unat de + 10"
  shows "agree v (put_entry v de name ino mode) i j"
proof -
  have u: "unat (de + 10) = unat de + 10" "unat (de + 11) = unat de + 11" "unat (de + 12) = unat de + 12"
    using assms(1) by (simp_all add: unat_plus_const)
  let ?v1 = "st8 v (de + 10) (of_nat (length name))"
  let ?v2 = "store_bytes ?v1 (de + 12) name"
  let ?v3 = "st64 ?v2 de ino"
  have "agree v ?v1 i j" using assms by (intro agree_store) (auto simp: u)
  moreover have "agree ?v1 ?v2 i j" using assms by (intro agree_store_bytes) (auto simp: u)
  moreover have "agree ?v2 ?v3 i j" using assms by (intro agree_store) (auto simp: u)
  moreover have "agree ?v3 (put_entry v de name ino mode) i j"
    unfolding put_entry_def rdfs_set_de_type_def using assms by (intro agree_store) (auto simp: u)
  ultimately show ?thesis using agree_trans by blast
qed

lemma put_entry_fields:
  fixes v :: mem and ino :: u64 and mode :: u16
  assumes "unat de + 12 + length name \<le> 2 ^ 64 - 1" and "length name < 256"
  defines "v' \<equiv> put_entry v de name ino mode"
  shows "de_inode v' de = ino" "unat (de_name_len v' de) = length name" "de_rec_len v' de = de_rec_len v de"
    "de_name v' de (length name) = name"
proof -
  have u: "unat (de + 8) = unat de + 8" "unat (de + 10) = unat de + 10" "unat (de + 11) = unat de + 11" "unat (de + 12) = unat de + 12"
    using assms(1) by (simp_all add: unat_plus_const)
  show "de_inode v' de = ino"
    by (simp add: v'_def put_entry_def rdfs_set_de_type_def de_inode_def load_store_disj region_simps)
  have a: "agree v v' (unat de + 8) (unat de + 10)" unfolding v'_def by (rule put_entry_agree [OF assms(1)]) simp
  show "de_rec_len v' de = de_rec_len v de"
    unfolding de_rec_len_def using a assms(1) by (intro load_range) (auto simp: agree_def u)
  let ?v1 = "st8 v (de + 10) (of_nat (length name))"
  let ?v2 = "store_bytes ?v1 (de + 12) name"
  have c: "agree ?v2 v' i j" if "unat de + 8 \<le> i" "j \<le> unat de + 11 \<or> unat de + 12 \<le> i" for i j
  proof -
    have "agree ?v2 (st64 ?v2 de ino) i j" using that assms(1) by (intro agree_store) (auto simp: u)
    moreover have "agree (st64 ?v2 de ino) v' i j"
      unfolding v'_def put_entry_def rdfs_set_de_type_def using that assms(1) by (intro agree_store) (auto simp: u)
    ultimately show ?thesis by (rule agree_trans)
  qed
  have "?v2 (de + 10) = ?v1 (de + 10)" using assms(1) by (intro store_bytes_outside) (auto simp: u region_range)
  also have "\<dots> = of_nat (length name)" by (simp add: store_at)
  finally have "v' (de + 10) = of_nat (length name)"
    using c [of "unat de + 10" "unat de + 11"] by (simp add: agree_def u)
  then show "unat (de_name_len v' de) = length name" using assms(2) by (simp add: de_name_len_def unat_of_nat)
  have "de_name v' de (length name) = de_name ?v2 de (length name)"
    using assms(1) by (intro agree_name c) simp_all
  also have "\<dots> = name" using assms(2) by (simp add: de_name_def)
  finally show "de_name v' de (length name) = name" .
qed

lemma fill_unused:
  fixes mode :: u16
  assumes q: "entry_fits v q" "unat q + unat (de_rec_len v q) \<le> unat (b :: u64)" "b = rdfs_next_entry v q"
    and room: "12 + length name \<le> unat (de_rec_len v q)" and len: "length name < 256" and ino: "ino \<noteq> 0"
  defines "v' \<equiv> put_entry v q name ino mode"
  shows "chain v' q [q] b" "dir_map v' [q] = [name \<mapsto> ino]" "j \<le> unat q \<Longrightarrow> agree v v' i j" "unat b \<le> i \<Longrightarrow> agree v v' i j"
proof -
  have u: "unat b = unat q + unat (de_rec_len v q)" using unat_next [OF q(2)] q(3) by simp
  have s: "unat q + 12 + length name \<le> 2 ^ 64 - 1" using u room unat_u64 [of b] by simp
  note f = put_entry_fields [OF s len, of v ino mode, folded v'_def]
  show "agree v v' i j" if "j \<le> unat q" unfolding v'_def using that by (intro put_entry_agree [OF s]) simp
  show "agree v v' i j" if "unat b \<le> i" unfolding v'_def using that u room by (intro put_entry_agree [OF s]) simp
  show "chain v' q [q] b" using room u q(3) f(2) by (simp add: entry_fits_def f rdfs_next_entry_def)
  have "rdfs_match v' name q" using f ino by (simp add: rdfs_match_def)
  then show "dir_map v' [q] = [name \<mapsto> ino]" using match_single f(1) by metis
qed

lemma fill_split:
  fixes mode :: u16
  assumes q: "entry_fits v q" "unat q + unat (de_rec_len v q) \<le> unat (b :: u64)" "b = rdfs_next_entry v q"
    and nl: "12 + unat (de_name_len v q) \<le> unat nl" and room: "unat nl + 12 + length name \<le> unat (de_rec_len v q)"
    and len: "length name < 256" and ino: "ino \<noteq> 0"
  defines "q1 \<equiv> q + ucast nl" 
  defines "vs \<equiv> st16 (st16 v (q1 + 8) (de_rec_len v q - nl)) (q + 8) nl"
  defines "v' \<equiv> put_entry vs q1 name ino mode"
  shows "chain v' q [q, q1] b" "dir_map v' [q] = dir_map v [q]" "dir_map v' [q1] = [name \<mapsto> ino]"
    "j \<le> unat q \<Longrightarrow> agree v v' i j" "unat b \<le> i \<Longrightarrow> agree v v' i j"
proof -
  let ?r = "de_rec_len v q"
  have b: "unat b < 2 ^ 64" by (rule unat_u64)
  have u: "unat b = unat q + unat ?r" using unat_next [OF q(2)] q(3) by simp
  have u1: "unat q1 = unat q + unat nl" unfolding q1_def using u room b by (subst unat_plus_const) simp_all
  have u8: "unat (q + 8) = unat q + 8" "unat (q1 + 8) = unat q1 + 8" using u u1 room nl b by (simp_all add: unat_plus_const)
  have s: "unat q1 + 12 + length name \<le> 2 ^ 64 - 1" using u u1 room b by simp
  have a1: "agree v vs i j" if "j \<le> unat q + 8 \<or> unat q + 10 \<le> i" "j \<le> unat q1 + 8 \<or> unat q1 + 10 \<le> i" for i j
  proof -
    have "agree v (st16 v (q1 + 8) (?r - nl)) i j" using that u u1 room b by (intro agree_store) (auto simp: u8)
    moreover have "agree (st16 v (q1 + 8) (?r - nl)) vs i j"
      unfolding vs_def using that u u1 room b by (intro agree_store) (auto simp: u8)
    ultimately show ?thesis by (rule agree_trans)
  qed
  have a2: "agree vs v' i j" if "j \<le> unat q1 \<or> unat q1 + 12 + length name \<le> i" for i j
    unfolding v'_def by (rule put_entry_agree [OF s]) (use that in auto)
  have a: "agree v v' i j" if "j \<le> unat q + 8 \<or> unat q + 10 \<le> i" "j \<le> unat q1 \<or> unat q1 + 12 + length name \<le> i" for i j
  proof -
    have "agree v vs i j" by (rule a1 [OF that(1)]) (use that(2) in auto)
    then show ?thesis by (rule agree_trans [OF _ a2 [OF that(2)]])
  qed
  show "agree v v' i j" if "j \<le> unat q" using that u1 by (intro a) simp_all
  show "agree v v' i j" if "unat b \<le> i" using that u u1 room nl by (intro a) simp_all
  note f = put_entry_fields [OF s len, of vs ino mode, folded v'_def]
  have rq: "de_rec_len v' q = nl"
  proof -
    have "de_rec_len v' q = de_rec_len vs q"
      unfolding de_rec_len_def using a2 [of "unat q1" 0] u u1 nl room b by (intro load_range) (auto simp: agree_def u8)
    then show ?thesis by (simp add: vs_def de_rec_len_def)
  qed
  have rq1: "de_rec_len v' q1 = ?r - nl"
  proof -
    have "region (q + 8) 2 \<inter> region (q1 + 8) 2 = {}" using u u1 nl room b by (auto simp: region_range u8)
    then show ?thesis unfolding f(3) by (simp add: vs_def de_rec_len_def [of "st16 _ _ _"] load_store_disj)
  qed
  have ur: "unat (?r - nl) = unat ?r - unat nl" using room by (simp add: unat_sub word_le_nat_alt)
  have iq: "de_inode v' q = de_inode v q"
    unfolding de_inode_def using a [of "unat q + 8" "unat q"] u u1 nl room b by (intro load_range) (auto simp: agree_def)
  have nq: "de_name_len v' q = de_name_len v q"
  proof -
    have "unat (q + 10) = unat q + 10" using u room nl b by (simp add: unat_plus_const)
    then show ?thesis using a [of "unat q + 11" "unat q + 10"] u1 nl unfolding de_name_len_def agree_def by simp
  qed
  have n1: "rdfs_next_entry v' q = q1" by (simp add: rdfs_next_entry_def rq q1_def)
  have n2: "rdfs_next_entry v' q1 = b"
    using unat_next [of q1 v' b] u u1 ur rq1 room by (intro word_eq_unatI) simp
  show "chain v' q [q, q1] b"
    using nl room u u1 by (auto simp: n1 n2 entry_fits_def rq rq1 ur f(1,2) nq)
  have "rdfs_match v' x q = rdfs_match v x q" for x
  proof (cases "de_inode v q = 0")
    case False
    have "de_name v' q (unat (de_name_len v q)) = de_name v q (unat (de_name_len v q))"
      using u u1 nl room b by (intro agree_name a) simp_all
    then show ?thesis by (auto simp: rdfs_match_def iq nq)
  qed (simp add: rdfs_match_def iq)
  then show "dir_map v' [q] = dir_map v [q]" by (intro dir_map_cong) (simp add: iq)
  have "rdfs_match v' name q1" using f ino by (simp add: rdfs_match_def)
  then show "dir_map v' [q1] = [name \<mapsto> ino]" using match_single f(1) by metis
qed

text \<open>The test that ends the search: room in an unused entry, or behind the name of a used one.\<close>

definition short_len :: "mem \<Rightarrow> u64 \<Rightarrow> u16" where
  "short_len v de = ucast (RDFS_DIR_REC_LEN (ucast (de_name_len v de)))"

definition has_room :: "mem \<Rightarrow> u8 list \<Rightarrow> u64 \<Rightarrow> bool" where
  "has_room v name de \<longleftrightarrow>
     de_inode v de = 0 \<and> RDFS_DIR_REC_LEN (of_nat (length name)) \<le> ucast (de_rec_len v de) \<or>
     ucast (short_len v de) + RDFS_DIR_REC_LEN (of_nat (length name)) \<le> ucast (de_rec_len v de)"

lemma unat_short_len: "unat (short_len v de) = unat (RDFS_DIR_REC_LEN (ucast (de_name_len v de)))"
proof -
  have n: "unat (ucast (de_name_len v de) :: u32) < 256" using unsigned_less [of "de_name_len v de"] by (simp add: unsigned_less)
  then have "unat (RDFS_DIR_REC_LEN (ucast (de_name_len v de))) < 2 ^ 16" using rec_len_bounds(2) [OF n] by simp
  then show ?thesis by (simp add: short_len_def unsigned_ucast_eq take_bit_nat_eq_self)
qed

lemma has_room_cases:
  assumes "has_room v name de" and len: "length name < 256"
  shows "de_inode v de = 0 \<and> 12 + length name \<le> unat (de_rec_len v de) \<or>
    12 + unat (de_name_len v de) \<le> unat (short_len v de) \<and>
    unat (short_len v de) + 12 + length name \<le> unat (de_rec_len v de)"
proof -
  have u: "unat (of_nat (length name) :: u32) = length name" using len by (simp add: unat_of_nat)
  then have r: "length name + 12 \<le> unat (RDFS_DIR_REC_LEN (of_nat (length name)))"
    "unat (RDFS_DIR_REC_LEN (of_nat (length name))) \<le> length name + 15"
    using rec_len_bounds [of "of_nat (length name)"] len by simp_all
  have n: "unat (ucast (de_name_len v de) :: u32) < 256" using unsigned_less [of "de_name_len v de"] by (simp add: unsigned_less)
  note s = rec_len_bounds [OF n, folded unat_short_len [of v de]]
  have "unat (ucast (short_len v de) + RDFS_DIR_REC_LEN (of_nat (length name)) :: u32)
      = unat (short_len v de) + unat (RDFS_DIR_REC_LEN (of_nat (length name)))"
    using s(2) r(2) n len by (simp add: unat_word_ariths)
  then show ?thesis using assms(1) r s(1) unfolding has_room_def word_le_nat_alt by (auto simp: unat_short_len)
qed

lemma add_fill_effect:
  assumes ok: "dir_ok v start n (xs @ [q] @ ys)" and room: "has_room v name q" and len: "length name < 256" and ino: "ino \<noteq> 0"
    and new: "dir_map v (xs @ [q] @ ys) name = None"
  shows "\<exists>qs'. dir_ok (add_fill v q (de_rec_len v q) (short_len v q) name ino mode) start n qs' \<and>
    dir_map (add_fill v q (de_rec_len v q) (short_len v q) name ino mode) qs' = (dir_map v (xs @ [q] @ ys))(name \<mapsto> ino)"
proof -
  obtain a b where ch: "chain v start xs a" "chain v a [q] b" "chain v b ys (start + n)"
    using ok unfolding dir_ok_def chain_append by blast
  then have q: "a = q" "entry_fits v q" "unat q + unat (de_rec_len v q) \<le> unat b" "b = rdfs_next_entry v q" by simp_all
  have nn: "dir_map v (xs @ ys) name = None" "dir_map v [q] name = None"
    using new unfolding dir_map_append map_add_None by simp_all
  have u: "unique_names v (xs @ [q] @ ys)" using ok by (simp add: dir_ok_def)
  show ?thesis
  proof (cases "de_inode v q = 0")
    case True
    have r: "12 + length name \<le> unat (de_rec_len v q)" using has_room_cases [OF room len] by auto
    note f = fill_unused [OF q(2-4) r len ino, where mode = mode]
    have v': "add_fill v q (de_rec_len v q) (short_len v q) name ino mode = put_entry v q name ino mode"
      using True by (simp add: add_fill_def put_entry_def Let_def)
    have "\<forall>x. dir_map (put_entry v q name ino mode) [q] x \<noteq> None \<longrightarrow> dir_map v (xs @ ys) x = None"
      using nn f(2) by simp
    then have "dir_ok (put_entry v q name ino mode) start n (xs @ [q] @ ys)"
      "dir_map (put_entry v q name ino mode) (xs @ [q] @ ys) = dir_map v (xs @ ys) ++ [name \<mapsto> ino]"
      using dir_ok_edit [OF ok ch(1,3), of "put_entry v q name ino mode" "[q]"] f q(1) by simp_all
    moreover have "dir_map v (xs @ [q] @ ys) = dir_map v (xs @ ys)"
    proof -
      have "dir_map v [q] = Map.empty" using True by (intro ext) (simp add: dir_map_single rdfs_match_def)
      then show ?thesis by (simp only: dir_map_append map_add_empty)
    qed
    ultimately show ?thesis unfolding v' by (metis map_add_empty map_add_upd)
  next
    case False
    then have r: "12 + unat (de_name_len v q) \<le> unat (short_len v q)"
      "unat (short_len v q) + 12 + length name \<le> unat (de_rec_len v q)" using has_room_cases [OF room len] by auto
    define q1 where "q1 = q + ucast (short_len v q)"
    define v' where "v' = put_entry (st16 (st16 v (q1 + 8) (de_rec_len v q - short_len v q)) (q + 8) (short_len v q)) q1 name ino mode"
    note f = fill_split [OF q(2-4) r len ino, where mode = mode, folded q1_def, folded v'_def]
    have v': "add_fill v q (de_rec_len v q) (short_len v q) name ino mode = v'"
      using False by (simp add: add_fill_def put_entry_def Let_def v'_def q1_def)
    have m: "dir_map v' [q, q1] = [name \<mapsto> ino] ++ dir_map v [q]" using dir_map_append [of v' "[q]" "[q1]"] f(2,3) by simp
    have uq: "unique_names v' [q, q1]"
    proof -
      have "dir_map v' [q1] x = None" if "rdfs_match v' x q" for x
        using that f(2,3) nn(2) dir_map_single [of v' q x] by auto
      then show ?thesis by simp
    qed
    have "\<forall>x. dir_map v' [q, q1] x \<noteq> None \<longrightarrow> dir_map v (xs @ ys) x = None"
      using nn unique_middle [OF u] m by auto
    note ed = dir_ok_edit [OF ok ch(1) [unfolded q(1)] ch(3) f(1) f(4) [OF le_refl] f(5) [OF le_refl] uq this]
    then have "dir_ok v' start n (xs @ [q, q1] @ ys)"
      "dir_map v' (xs @ [q, q1] @ ys) = dir_map v (xs @ ys) ++ ([name \<mapsto> ino] ++ dir_map v [q])" unfolding m by blast+
    moreover have "dir_map v (xs @ ys) ++ ([name \<mapsto> ino] ++ dir_map v [q]) = (dir_map v (xs @ [q] @ ys))(name \<mapsto> ino)"
    proof (intro ext)
      fix x
      have "dir_map v [q] x = None \<or> dir_map v (xs @ ys) x = None" by (cases "dir_map v [q] x") (use unique_middle [OF u, of x] in simp_all)
      then show "(dir_map v (xs @ ys) ++ ([name \<mapsto> ino] ++ dir_map v [q])) x = ((dir_map v (xs @ [q] @ ys))(name \<mapsto> ino)) x"
        using nn dir_map_append [of v "[q]" ys] by (auto simp: dir_map_append map_add_def split: option.splits)
    qed
    ultimately show ?thesis unfolding v' by metis
  qed
qed

text \<open>What the search ends with: it always ends.\<close>

definition scan_ok :: "mem \<Rightarrow> u8 list \<Rightarrow> u64 list \<Rightarrow> u64 \<Rightarrow> scan \<Rightarrow> bool" where
  "scan_ok v name qs e r = (case r of
     Scan_err err \<Rightarrow> err = - EINVAL \<or> err = - EEXIST \<and> dir_map v qs name \<noteq> None
   | Scan_got q rec_len name_len \<Rightarrow>
       q \<in> set qs \<and> rec_len = de_rec_len v q \<and> name_len = short_len v q \<and> has_room v name q
   | Scan_new q \<Rightarrow> q = e)"

lemma scan_ok_Cons:
  assumes "scan_ok v name qs e r" and "\<not> rdfs_match v name q"
  shows "scan_ok v name (q # qs) e r"
  using assms by (auto simp: scan_ok_def dir_map_def split: scan.splits)

lemma add_scan_chain:
  "chain v de qs e \<Longrightarrow> \<exists>r. add_scan v name e nrpages i dir_end de = Some r \<and> scan_ok v name qs e r"
proof (induction "nrpages - i" arbitrary: i dir_end de qs rule: less_induct)
  case (less i)
  note outer = less.hyps
  from less.prems show ?case
  proof (induction qs arbitrary: de)
    case Nil
    then have e: "de = e" by simp
    show ?case
    proof (cases "de \<le> dir_end")
      case True
      then show ?thesis using e by (subst add_scan.simps) (simp add: scan_ok_def)
    next
      case False
      show ?thesis
      proof (cases "i < nrpages")
        case True
        then have "nrpages - Suc i < nrpages - i" by simp
        from outer [OF this Nil, of "de + (PAGE_SIZE - ucast (RDFS_DIR_REC_LEN (of_nat (length name))))"]
        show ?thesis using True False by (subst add_scan.simps) (simp add: Let_def)
      next
        case f: False
        then show ?thesis using False by (subst add_scan.simps) (simp add: scan_ok_def Let_def)
      qed
    qed
  next
    case (Cons q qs)
    have h: "q = de" "entry_fits v de" "unat de + unat (de_rec_len v de) \<le> unat e" "chain v (rdfs_next_entry v de) qs e"
      using Cons.prems by simp_all
    have ne: "de \<noteq> e" "de_rec_len v de \<noteq> 0" using h(2,3) by (auto simp: entry_fits_def)
    consider "\<not> de \<le> dir_end" "i < nrpages" | "\<not> de \<le> dir_end" "\<not> i < nrpages"
      | "de \<le> dir_end" "rdfs_match v name de" | "de \<le> dir_end" "\<not> rdfs_match v name de" "has_room v name de"
      | "de \<le> dir_end" "\<not> rdfs_match v name de" "\<not> has_room v name de" by blast
    then show ?case
    proof cases
      case 1
      then have "nrpages - Suc i < nrpages - i" by simp
      from outer [OF this Cons.prems, of "de + (PAGE_SIZE - ucast (RDFS_DIR_REC_LEN (of_nat (length name))))"]
      show ?thesis using 1 by (subst add_scan.simps) (simp add: Let_def)
    next
      case 2
      then show ?thesis by (subst add_scan.simps) (simp add: scan_ok_def Let_def)
    next
      case 3
      then show ?thesis using ne h(1) by (subst add_scan.simps) (simp add: scan_ok_def Let_def dir_map_def)
    next
      case 4
      then have "add_scan v name e nrpages i dir_end de = Some (Scan_got de (de_rec_len v de) (short_len v de))"
        using ne by (subst add_scan.simps) (auto simp: Let_def has_room_def short_len_def)
      then show ?thesis using 4 h(1) by (simp add: scan_ok_def)
    next
      case 5
      then have "add_scan v name e nrpages i dir_end de = add_scan v name e nrpages i dir_end (rdfs_next_entry v de)"
        using ne by (subst add_scan.simps) (auto simp: Let_def has_room_def short_len_def rdfs_next_entry_def)
      then show ?thesis using Cons.IH [OF h(4)] scan_ok_Cons [OF _ 5(2)] h(1) by auto
    qed
  qed
qed

section \<open>Directories as maps\<close>

text \<open>The contract of a directory: looking up sees exactly what adding and deleting have done. \<open>fits\<close> are the pairs of
  a name and an inode number that can be stored.\<close>

datatype ('n, 'i) dir_op = Link 'n 'i | Unlink 'n

primrec apply_op :: "('n, 'i) dir_op \<Rightarrow> ('n \<Rightarrow> 'i option) \<Rightarrow> 'n \<Rightarrow> 'i option" where
  "apply_op (Link x i) m = m(x \<mapsto> i)"
| "apply_op (Unlink x) m = m(x := None)"

text \<open>The VFS looks a name up before it creates it.\<close>

primrec legal_op :: "('n \<Rightarrow> 'i \<Rightarrow> bool) \<Rightarrow> ('n, 'i) dir_op \<Rightarrow> ('n \<Rightarrow> 'i option) \<Rightarrow> bool" where
  "legal_op fits (Link x i) m \<longleftrightarrow> fits x i \<and> m x = None"
| "legal_op fits (Unlink x) m \<longleftrightarrow> True"

fun legal_ops :: "('n \<Rightarrow> 'i \<Rightarrow> bool) \<Rightarrow> ('n, 'i) dir_op list \<Rightarrow> ('n \<Rightarrow> 'i option) \<Rightarrow> bool" where
  "legal_ops fits [] m \<longleftrightarrow> True"
| "legal_ops fits (op # ops) m \<longleftrightarrow> legal_op fits op m \<and> legal_ops fits ops (apply_op op m)"

primrec step_op ::
  "('n \<Rightarrow> 'i \<Rightarrow> 'd \<Rightarrow> 'd option) \<Rightarrow> ('n \<Rightarrow> 'd \<Rightarrow> 'd option) \<Rightarrow> ('n, 'i) dir_op \<Rightarrow> 'd \<Rightarrow> 'd option" where
  "step_op add del (Link x i) d = add x i d"
| "step_op add del (Unlink x) d = del x d"

fun run_ops ::
  "('n \<Rightarrow> 'i \<Rightarrow> 'd \<Rightarrow> 'd option) \<Rightarrow> ('n \<Rightarrow> 'd \<Rightarrow> 'd option) \<Rightarrow> ('n, 'i) dir_op list \<Rightarrow> 'd \<Rightarrow> 'd option" where
  "run_ops add del [] d = Some d"
| "run_ops add del (op # ops) d = (case step_op add del op d of None \<Rightarrow> None | Some d' \<Rightarrow> run_ops add del ops d')"

locale directory =
  fixes ok :: "'d \<Rightarrow> bool" and look :: "'d \<Rightarrow> 'n \<Rightarrow> 'i option" and fits :: "'n \<Rightarrow> 'i \<Rightarrow> bool"
    and add :: "'n \<Rightarrow> 'i \<Rightarrow> 'd \<Rightarrow> 'd option" and del :: "'n \<Rightarrow> 'd \<Rightarrow> 'd option"
  assumes add: "ok d \<Longrightarrow> fits x i \<Longrightarrow> look d x = None \<Longrightarrow> add x i d = Some d' \<Longrightarrow> ok d' \<and> look d' = (look d)(x \<mapsto> i)"
    and del: "ok d \<Longrightarrow> del x d = Some d' \<Longrightarrow> ok d' \<and> look d' = (look d)(x := None)"
begin

lemma step_refines:
  assumes "ok d" and "legal_op fits op (look d)" and "step_op add del op d = Some d'"
  shows "ok d' \<and> look d' = apply_op op (look d)"
proof (cases op)
  case (Link x i)
  then have "fits x i" "look d x = None" "add x i d = Some d'" using assms(2,3) by simp_all
  from add [OF assms(1) this] show ?thesis using Link by simp
next
  case (Unlink x)
  then have "del x d = Some d'" using assms(3) by simp
  from del [OF assms(1) this] show ?thesis using Unlink by simp
qed

lemma run_refines:
  assumes "ok d" and "legal_ops fits ops (look d)" and "run_ops add del ops d = Some d'"
  shows "ok d' \<and> look d' = fold apply_op ops (look d)"
  using assms
proof (induction ops arbitrary: d)
  case (Cons op ops)
  then obtain d1 where d1: "step_op add del op d = Some d1" "run_ops add del ops d1 = Some d'"
    by (auto split: option.splits)
  have l: "legal_op fits op (look d)" "legal_ops fits ops (apply_op op (look d))" using Cons.prems(2) by simp_all
  note st = step_refines [OF Cons.prems(1) l(1) d1(1)]
  have "legal_ops fits ops (look d1)" using l(2) st by simp
  from Cons.IH [OF _ this d1(2)] show ?case using st by simp
qed simp

text \<open>Renaming within a directory: the new name is added before the old one is deleted.\<close>

lemma rename_map:
  assumes "ok d" and "look d x = Some i" and "look d y = None" and "fits y i"
    and "add y i d = Some d1" and "del x d1 = Some d2"
  shows "ok d2" "look d2 = (look d)(y \<mapsto> i, x := None)" "look d2 y = Some i"
proof -
  have 1: "ok d1 \<and> look d1 = (look d)(y \<mapsto> i)" by (rule add [OF assms(1,4,3,5)])
  then have "ok d2 \<and> look d2 = (look d1)(x := None)" using del [OF _ assms(6)] by blast
  then show 2: "ok d2" "look d2 = (look d)(y \<mapsto> i, x := None)" using 1 by simp_all
  have "x \<noteq> y" using assms(2,3) by auto
  then show "look d2 y = Some i" using 2(2) by simp
qed

end

text \<open>The directory at \<open>start\<close>, as \<open>rdfs_add_link\<close> changes it when no new block is needed, and as \<open>rdfs_unlink\<close> does when the
  entry is not the first and the merged length fits.\<close>

definition view_ok :: "u64 \<Rightarrow> u64 \<Rightarrow> mem \<Rightarrow> bool" where
  "view_ok start n v \<longleftrightarrow> (\<exists>qs. dir_ok v start n qs)"

definition view_look :: "u64 \<Rightarrow> u64 \<Rightarrow> mem \<Rightarrow> u8 list \<Rightarrow> u64 option" where
  "view_look start n v name =
     (case rdfs_find_entry2 v start n name of Some (Some (de, _)) \<Rightarrow> Some (de_inode v de) | _ \<Rightarrow> None)"

definition name_fits :: "u8 list \<Rightarrow> u64 \<Rightarrow> bool" where
  "name_fits name ino \<longleftrightarrow> length name \<le> 255 \<and> ino \<noteq> 0"

definition view_scan :: "u64 \<Rightarrow> u64 \<Rightarrow> u8 list \<Rightarrow> mem \<Rightarrow> scan option" where
  "view_scan start n name v =
     add_scan v name (start + n) (unat (drop_bit 12 n)) 0
       (start + (PAGE_SIZE - ucast (RDFS_DIR_REC_LEN (of_nat (length name))))) start"

definition view_add :: "u64 \<Rightarrow> u64 \<Rightarrow> u16 \<Rightarrow> u8 list \<Rightarrow> u64 \<Rightarrow> mem \<Rightarrow> mem option" where
  "view_add start n mode name ino v =
     (case view_scan start n name v of
        Some (Scan_got de rec_len name_len) \<Rightarrow> Some (add_fill v de rec_len name_len name ino mode)
      | _ \<Rightarrow> None)"

definition view_del :: "u64 \<Rightarrow> u64 \<Rightarrow> u8 list \<Rightarrow> mem \<Rightarrow> mem option" where
  "view_del start n name v =
     (case rdfs_find_entry2 v start n name of
        Some (Some (de, prev)) \<Rightarrow>
          if de \<noteq> start \<and> unat (de_rec_len v prev) + unat (de_rec_len v de) < 2 ^ 16
          then Some (snd (rdfs_delete_entry v de prev)) else None
      | _ \<Rightarrow> None)"

lemma view_look_map:
  assumes "dir_ok v start n qs"
  shows "view_look start n v = dir_map v qs"
proof (intro ext)
  fix name
  show "view_look start n v name = dir_map v qs name"
    using dir_ok_find [OF assms, of name] by (auto simp: view_look_def split: option.splits prod.splits)
qed

lemma view_okI: "dir_ok v start n qs \<Longrightarrow> dir_map v qs = m \<Longrightarrow> view_ok start n v \<and> view_look start n v = m"
  using view_look_map by (auto simp: view_ok_def)

lemma view_scan_ok:
  assumes "dir_ok v start n qs"
  shows "\<exists>r. view_scan start n name v = Some r \<and> scan_ok v name qs (start + n) r"
  unfolding view_scan_def by (rule add_scan_chain) (use assms in \<open>simp add: dir_ok_def\<close>)

lemma view_add_effect:
  assumes "dir_ok v start n qs" and "name_fits name ino" and "dir_map v qs name = None"
    and "view_add start n mode name ino v = Some v'"
  shows "\<exists>qs'. dir_ok v' start n qs' \<and> dir_map v' qs' = (dir_map v qs)(name \<mapsto> ino)"
proof -
  obtain de rl nl where r: "view_scan start n name v = Some (Scan_got de rl nl)" "v' = add_fill v de rl nl name ino mode"
    using assms(4) by (auto simp: view_add_def split: option.splits scan.splits)
  have "scan_ok v name qs (start + n) (Scan_got de rl nl)" using view_scan_ok [OF assms(1), of name] r(1) by auto
  then have s: "de \<in> set qs" "rl = de_rec_len v de" "nl = short_len v de" "has_room v name de" by (simp_all add: scan_ok_def)
  then obtain xs ys where qs: "qs = xs @ [de] @ ys" using split_list [OF s(1)] by auto
  show ?thesis
    unfolding r(2) s(2,3) qs
    using assms(1-3) s(4) by (intro add_fill_effect) (simp_all add: qs name_fits_def)
qed

lemma view_del_effect:
  assumes "dir_ok v start n qs" and "view_del start n name v = Some v'"
  shows "\<exists>qs'. dir_ok v' start n qs' \<and> dir_map v' qs' = (dir_map v qs)(name := None)"
proof -
  obtain de prev where r: "rdfs_find_entry2 v start n name = Some (Some (de, prev))" "de \<noteq> start"
      "unat (de_rec_len v prev) + unat (de_rec_len v de) < 2 ^ 16" "v' = snd (rdfs_delete_entry v de prev)"
    using assms(2) by (auto simp: view_del_def split: option.splits prod.splits if_splits)
  show ?thesis using delete_effect [OF assms(1) r(1-3)] r(4) by (auto split: prod.splits)
qed

interpretation view: directory "view_ok start n" "view_look start n" name_fits "view_add start n mode" "view_del start n"
  for start n mode
proof (unfold_locales, goal_cases)
  case (1 v name ino v')
  then obtain qs where ok: "dir_ok v start n qs" by (auto simp: view_ok_def)
  note m = view_look_map [OF ok]
  have "dir_map v qs name = None" using 1(3) unfolding m .
  from view_add_effect [OF ok 1(2) this 1(4)] show ?case unfolding m using view_okI by blast
next
  case (2 v name v')
  then obtain qs where ok: "dir_ok v start n qs" by (auto simp: view_ok_def)
  note m = view_look_map [OF ok]
  from view_del_effect [OF ok 2(2)] show ?case unfolding m using view_okI by blast
qed

section \<open>A new directory\<close>

lemma load_store_bytes_disj:
  "region a (length bs) \<inter> region b n = {} \<Longrightarrow> n \<le> 4294967296 \<Longrightarrow> load n (store_bytes m a bs) b = load n m b"
  by (intro load_agree store_bytes_outside) auto

lemma make_entries_fields:
  fixes v :: mem and ino parent :: u64 and mode :: u16
  assumes "unat va + 4096 < 2 ^ 64"
  defines "v' \<equiv> make_entries v va ino parent mode"
  shows "de_inode v' va = ucast (ucast ino :: u32)" "de_rec_len v' va = 16" "de_name_len v' va = 1" "de_name v' va 1 = [46]"
    "de_inode v' (va + 16) = ucast (ucast parent :: u32)" "de_rec_len v' (va + 16) = 4080" "de_name_len v' (va + 16) = 2"
    "de_name v' (va + 16) 2 = [46, 46]"
proof -
  have r: "RDFS_DIR_REC_LEN 1 = 16" by (simp add: RDFS_DIR_REC_LEN_def RDFS_DIR_ROUND_def)
  have e: "va + ucast (16 :: u32) = va + 16" "va + 16 + 8 = va + 24" "va + 16 + 10 = va + 26" "va + 16 + 11 = va + 27"
    "va + 16 + 12 = va + 28" by simp_all
  note d = v'_def make_entries_def Let_def rdfs_set_de_type_def r e
  note l = load_store_disj load_store_bytes_disj region_simps
  show "de_inode v' va = ucast (ucast ino :: u32)" "de_rec_len v' va = 16"
    "de_inode v' (va + 16) = ucast (ucast parent :: u32)" "de_rec_len v' (va + 16) = 4080"
    unfolding d de_inode_def de_rec_len_def by (simp_all add: l PAGE_SIZE_def)
  have o: "store_bytes m (va + i) bs (va + j) = m (va + j)" if "length bs \<le> unat (j - i)" for m i bs j
    using that by (intro store_bytes_outside) (simp add: region_iff)
  have i: "store_bytes m (va + i) bs (va + j) = bs ! unat (j - i)" if "unat (j - i) < length bs" for m i bs j
    using that by (simp add: store_bytes_def region_iff)
  show "de_name_len v' va = 1" "de_name_len v' (va + 16) = 2"
    unfolding d de_name_len_def by (simp_all add: store_apart store_at o unsigned_minus_1_eq_mask mask_eq_exp_minus_1)
  have "v' (va + 12) = 46" "v' (va + 28) = 46" "v' (va + 29) = 46"
    unfolding d by (simp_all add: store_apart store_at o i unsigned_minus_1_eq_mask mask_eq_exp_minus_1)
  then show "de_name v' va 1 = [46]" "de_name v' (va + 16) 2 = [46, 46]"
    unfolding de_name_def e by (simp_all add: load_bytes_def upt_rec add.commute [of 29])
qed

lemma make_entries_ok:
  assumes "unat va + 4096 < 2 ^ 64" and "(ucast ino :: u32) \<noteq> 0" and "(ucast parent :: u32) \<noteq> 0"
  shows "dir_ok (make_entries v va ino parent mode) va 4096 [va, va + 16]"
    "dir_map (make_entries v va ino parent mode) [va, va + 16] =
       [[46] \<mapsto> ucast (ucast ino :: u32), [46, 46] \<mapsto> ucast (ucast parent :: u32)]"
proof -
  let ?v = "make_entries v va ino parent mode"
  note f = make_entries_fields [OF assms(1), of v ino parent mode]
  have nz: "de_inode ?v va \<noteq> 0" "de_inode ?v (va + 16) \<noteq> 0"
    using assms(2,3) f(1,5) by (simp_all add: widen_eq_0)
  have n2: "de_name ?v (va + 16) (Suc (Suc 0)) = [46, 46]" using f(8) by (simp add: numeral_2_eq_2)
  have m: "rdfs_match ?v [46] va" "rdfs_match ?v [46, 46] (va + 16)" using f nz n2 by (simp_all add: rdfs_match_def)
  have s: "dir_map ?v [va] = [[46] \<mapsto> ucast (ucast ino :: u32)]" "dir_map ?v [va + 16] = [[46, 46] \<mapsto> ucast (ucast parent :: u32)]"
    using match_single [OF m(1)] match_single [OF m(2)] f(1,5) by simp_all
  have u: "unat (va + 16) = unat va + 16" "unat (va + 4096) = unat va + 4096" using assms(1) by (simp_all add: unat_plus_const)
  have "chain ?v va [va, va + 16] (va + 4096)"
    using f u by (simp add: entry_fits_def rdfs_next_entry_def add.assoc)
  moreover have "unique_names ?v [va, va + 16]"
  proof -
    have "dir_map ?v [va + 16] x = None" if "rdfs_match ?v x va" for x
      using that s(2) f(3,4) by (auto simp: rdfs_match_def)
    then show ?thesis by simp
  qed
  ultimately show "dir_ok ?v va 4096 [va, va + 16]" by (simp add: dir_ok_def)
  show "dir_map ?v [va, va + 16] = [[46] \<mapsto> ucast (ucast ino :: u32), [46, 46] \<mapsto> ucast (ucast parent :: u32)]"
    using dir_map_append [of ?v "[va]" "[va + 16]"] s by (auto simp: fun_upd_twist)
qed

section \<open>Empty directories\<close>

lemma empty_loop_chain:
  assumes "chain v de qs e" and "\<forall>q \<in> set qs. 16 \<le> unat (de_rec_len v q)" and "16 \<le> unat e"
  shows "empty_loop v ino (e - 16) de = Some (if \<exists>q \<in> set qs. occupies v ino q then 0 else 1)"
  using assms(1,2)
proof (induction qs arbitrary: de)
  case Nil
  have "unat (e - 16) = unat e - 16" using assms(3) by (simp add: unat_sub word_le_nat_alt)
  then have "\<not> de \<le> e - 16" using Nil(1) assms(3) by (simp add: word_le_nat_alt)
  then show ?case by (subst empty_loop.simps) simp
next
  case (Cons q qs)
  have h: "q = de" "unat de + unat (de_rec_len v de) \<le> unat e" "chain v (rdfs_next_entry v de) qs e" "16 \<le> unat (de_rec_len v de)"
    using Cons.prems by auto
  have "unat (e - 16) = unat e - 16" using assms(3) by (simp add: unat_sub word_le_nat_alt)
  then have "de \<le> e - 16" "de_rec_len v de \<noteq> 0" using h(2,4) by (auto simp: word_le_nat_alt)
  then show ?case using Cons.IH [OF h(3)] Cons.prems(2) h(1) by (subst empty_loop.simps) auto
qed

text \<open>The names that \<open>rdfs_empty_dir\<close> ignores.\<close>

definition dots :: "u64 \<Rightarrow> u8 list \<Rightarrow> u64 \<Rightarrow> bool" where
  "dots ino name i \<longleftrightarrow> name = [46, 46] \<or> name = [46] \<and> i = ucast (ucast ino :: u32)"

lemma unat_u8_small: "(x :: u8) < 2 \<longleftrightarrow> unat x < 2" "x > 2 \<longleftrightarrow> unat x > 2"
  by (simp_all add: word_less_nat_alt)

lemma occupies_name:
  assumes "de_inode v q \<noteq> 0" and "de_name_len v q \<noteq> 0"
  shows "occupies v ino q \<longleftrightarrow> \<not> dots ino (de_name v q (unat (de_name_len v q))) (de_inode v q)"
proof -
  have n: "de_name v q (Suc 0) = [v (q + 12)]" "de_name v q 2 = [v (q + 12), v (q + 13)]"
    by (simp_all add: de_name_def load_bytes_def upt_rec add.commute [of 13])
  have "unat (de_name_len v q) \<noteq> 0" using assms(2) by (simp add: unat_eq_0)
  then consider "unat (de_name_len v q) = 1" | "unat (de_name_len v q) = 2" | "unat (de_name_len v q) > 2" by linarith
  then show ?thesis
  proof cases
    case 3
    then have "length (de_name v q (unat (de_name_len v q))) > 2" by (simp add: de_name_def)
    then have "\<not> dots ino (de_name v q (unat (de_name_len v q))) (de_inode v q)" by (auto simp: dots_def)
    then show ?thesis using 3 assms(1) by (simp add: occupies_def unat_u8_small)
  qed (use assms(1) n in \<open>auto simp: occupies_def dots_def unat_u8_small\<close>)
qed

lemma unique_lookup:
  "unique_names v qs \<Longrightarrow> q \<in> set qs \<Longrightarrow> rdfs_match v name q \<Longrightarrow> dir_map v qs name = Some (de_inode v q)"
proof (induction qs)
  case (Cons x qs)
  have e: "dir_map v (x # qs) name = (if rdfs_match v name x then Some (de_inode v x) else dir_map v qs name)"
    by (simp add: dir_map_def)
  show ?case
  proof (cases "q \<in> set qs")
    case True
    then have d: "dir_map v qs name = Some (de_inode v q)" using Cons by simp
    then have "\<not> rdfs_match v name x" using Cons.prems(1) by auto
    then show ?thesis using e d by simp
  qed (use Cons.prems e in auto)
qed simp

lemma dir_map_find: "dir_map v qs name = Some i \<Longrightarrow> \<exists>q \<in> set qs. rdfs_match v name q \<and> i = de_inode v q"
  by (induction qs) (auto simp: dir_map_def split: if_splits)

lemma occupied_iff:
  assumes "unique_names v qs" and "\<forall>q \<in> set qs. de_name_len v q \<noteq> 0"
  shows "(\<exists>q \<in> set qs. occupies v ino q) \<longleftrightarrow> (\<exists>name i. dir_map v qs name = Some i \<and> \<not> dots ino name i)"
proof
  assume "\<exists>q \<in> set qs. occupies v ino q"
  then obtain q where q: "q \<in> set qs" "occupies v ino q" by blast
  let ?name = "de_name v q (unat (de_name_len v q))"
  have i: "de_inode v q \<noteq> 0" using q(2) by (simp add: occupies_def)
  then have "rdfs_match v ?name q" by (simp add: rdfs_match_def de_name_def)
  then have "dir_map v qs ?name = Some (de_inode v q)" by (rule unique_lookup [OF assms(1) q(1)])
  moreover have "\<not> dots ino ?name (de_inode v q)" using occupies_name [OF i] q assms(2) by blast
  ultimately show "\<exists>name i. dir_map v qs name = Some i \<and> \<not> dots ino name i" by blast
next
  assume "\<exists>name i. dir_map v qs name = Some i \<and> \<not> dots ino name i"
  then obtain name i q where q: "q \<in> set qs" "rdfs_match v name q" "\<not> dots ino name (de_inode v q)" using dir_map_find by metis
  then have "de_inode v q \<noteq> 0" "name = de_name v q (unat (de_name_len v q))" by (auto simp: rdfs_match_def)
  then show "\<exists>q \<in> set qs. occupies v ino q" using occupies_name [of v q ino] q assms(2) by metis
qed

lemma find_loop_zero:
  assumes "chain v p xs q" and "unat q < unat fin" and "de_rec_len v q = 0" and "\<forall>x \<in> set xs. \<not> rdfs_match v name x"
  shows "find_loop v name fin prev p = Some None"
  using assms(1,4)
proof (induction xs arbitrary: p prev)
  case Nil
  then show ?case using assms(2,3) by (subst find_loop.simps) (simp add: word_less_nat_alt)
next
  case (Cons x xs)
  then have h: "x = p" "entry_fits v p" "unat p + unat (de_rec_len v p) \<le> unat q" "chain v (rdfs_next_entry v p) xs q" by simp_all
  then have "p < fin" "de_rec_len v p \<noteq> 0" using assms(2) by (auto simp: word_less_nat_alt entry_fits_def)
  then show ?case using Cons.IH [OF h(4)] Cons.prems(2) h(1) by (subst find_loop.simps) simp
qed

section \<open>Properties\<close>


lemma example_dir_scan:
  "view_scan 0xffffcb0000000000 4096 [97] (make_entries (\<lambda>_. 0) 0xffffcb0000000000 1 1 0x41ff) =
     Some (Scan_got 0xffffcb0000000010 4080 16)"
proof -
  note f = make_entries_fields [of "0xffffcb0000000000" "\<lambda>_. 0" 1 1 "0x41ff", simplified]
  show ?thesis
    unfolding view_scan_def
    by (subst add_scan.simps, simp add: f rdfs_match_def RDFS_DIR_REC_LEN_def consts_eval)
      (subst add_scan.simps, simp add: f rdfs_match_def RDFS_DIR_REC_LEN_def consts_eval)
qed


text \<open>C27. \<open>rdfs_empty_dir\<close> answers 1 exactly when no name but dot, with the directory's own number, and dot dot can be
  found in the directory.\<close>

theorem rdfs_empty_dir_spec:
  assumes "dir_ok v start n qs" and "\<forall>q \<in> set qs. 16 \<le> unat (de_rec_len v q) \<and> de_name_len v q \<noteq> 0" and "16 \<le> unat (start + n)"
  shows "rdfs_empty_dir v start n ino =
    Some (if \<forall>name i. view_look start n v name = Some i \<longrightarrow> dots ino name i then 1 else 0)"
proof -
  have u: "unique_names v qs" "chain v start qs (start + n)" using assms(1) by (simp_all add: dir_ok_def)
  have a: "start + (n - ucast (RDFS_DIR_REC_LEN 1)) = start + n - 16" by (simp add: RDFS_DIR_REC_LEN_def RDFS_DIR_ROUND_def)
  have "rdfs_empty_dir v start n ino = Some (if \<exists>q \<in> set qs. occupies v ino q then 0 else 1)"
    unfolding rdfs_empty_dir_def a using assms(2) by (intro empty_loop_chain [OF u(2) _ assms(3)]) blast
  then show ?thesis using occupied_iff [OF u(1), of ino] assms(2) unfolding view_look_map [OF assms(1)] by auto
qed

theorem rdfs_empty_dir_spec_witness:
  "rdfs_empty_dir (make_entries (\<lambda>_. 0) 0xffffcb0000000000 1 1 0x41ff) 0xffffcb0000000000 4096 1 =
     Some (if \<forall>name i. view_look 0xffffcb0000000000 4096 (make_entries (\<lambda>_. 0) 0xffffcb0000000000 1 1 0x41ff) name = Some i
             \<longrightarrow> dots 1 name i then 1 else 0)"
proof (rule rdfs_empty_dir_spec)
  show "dir_ok (make_entries (\<lambda>_. 0) 0xffffcb0000000000 1 1 0x41ff) 0xffffcb0000000000 4096
      [0xffffcb0000000000, 0xffffcb0000000000 + 16]" by (rule make_entries_ok) simp_all
  note f = make_entries_fields [of "0xffffcb0000000000" "\<lambda>_. 0" 1 1 "0x41ff", simplified]
  show "\<forall>q \<in> set [0xffffcb0000000000, 0xffffcb0000000000 + 16].
      16 \<le> unat (de_rec_len (make_entries (\<lambda>_. 0) 0xffffcb0000000000 1 1 0x41ff) q) \<and>
      de_name_len (make_entries (\<lambda>_. 0) 0xffffcb0000000000 1 1 0x41ff) q \<noteq> 0" by (simp add: f)
qed simp

lemma chain_mem: "chain v p qs e \<Longrightarrow> q \<in> set qs \<Longrightarrow> unat p \<le> unat q \<and> unat q < unat e"
proof (induction qs arbitrary: p)
  case (Cons x qs)
  then have h: "x = p" "entry_fits v p" "unat p + unat (de_rec_len v p) \<le> unat e" "chain v (rdfs_next_entry v p) qs e" by simp_all
  then show ?case using Cons.IH [OF h(4)] Cons.prems(2) unat_next [OF h(3)] by (auto simp: entry_fits_def)
qed simp

text \<open>C32. Deleting an entry merges its length into the entry before it in 16 bits. When the two lengths add up to
  $2^{16}$ the entry before gets length 0, and no entry behind it is found any more.\<close>

theorem delete_entry_wraps:
  assumes "dir_ok v start n qs" and "rdfs_find_entry2 v start n name = Some (Some (de, prev))" and "de \<noteq> start"
    and "unat (de_rec_len v prev) + unat (de_rec_len v de) = 2 ^ 16"
    and "q \<in> set qs" and "unat de < unat q" and "rdfs_match v x q"
  shows "view_look start n v x = Some (de_inode v q) \<and>
    (case rdfs_delete_entry v de prev of (err, v') \<Rightarrow> err = 0 \<and> rdfs_find_entry2 v' start n x = Some None)"
proof -
  have c: "chain v start qs (start + n)" and u: "unique_names v qs" using assms(1) by (simp_all add: dir_ok_def)
  have fp: "find_prev (rdfs_match v name) start qs = Some (de, prev)" using assms(2) find_entry2_chain [OF c] by simp
  have "qs \<noteq> de # ys" for ys using c assms(3) by auto
  then obtain xs ys where qs: "qs = xs @ [prev, de] @ ys" using find_prev_cases(2) [OF fp] by auto
  obtain a b where ch: "chain v start xs a" "chain v a [prev, de] b" "chain v b ys (start + n)"
    using c unfolding qs chain_append by blast
  have h: "a = prev" "de = rdfs_next_entry v prev" "entry_fits v prev" "entry_fits v de"
    and le: "unat prev + unat (de_rec_len v prev) \<le> unat b" "unat de + unat (de_rec_len v de) \<le> unat b"
    using ch(2) by simp_all
  have ud: "unat de = unat prev + unat (de_rec_len v prev)" using unat_next [OF le(1)] h(2) by simp
  have be: "unat b \<le> unat (start + n)" by (rule chain_le [OF ch(3)])
  have f: "12 \<le> unat (de_rec_len v prev)" "12 \<le> unat (de_rec_len v de)" using h(3,4) by (simp_all add: entry_fits_def)
  have bb: "unat b < 2 ^ 64" by (rule unat_u64)
  define v' where "v' = st16 (st64 v de 0) (prev + 8) (de_rec_len (st64 v de 0) prev + de_rec_len v de)"
  have u8: "unat (prev + 8) = unat prev + 8" using ud f le bb by (simp add: unat_plus_const)
  have r1: "de_rec_len (st64 v de 0) prev = de_rec_len v prev"
    using ud f le bb by (intro agree_fields(2) agree_store) simp_all
  have z: "de_rec_len v' prev = 0"
  proof -
    have "de_rec_len v' prev = de_rec_len v prev + de_rec_len v de" by (simp add: v'_def de_rec_len_def [of "st16 _ _ _"] r1)
    also have "\<dots> = 0" using assms(4) by (intro word_eq_unatI) (simp add: unat_word_ariths)
    finally show ?thesis .
  qed
  have "agree v (st64 v de 0) (unat start) (unat prev)" using ud f le bb by (intro agree_store) simp_all
  moreover have "agree (st64 v de 0) v' (unat start) (unat prev)"
    unfolding v'_def using ud f le bb by (intro agree_store) (simp_all add: u8)
  ultimately have "agree v v' (unat start) (unat a)" unfolding h(1) by (rule agree_trans)
  note keep = chain_agree [OF ch(1) this]
  have lk: "dir_map v qs x = Some (de_inode v q)" by (rule unique_lookup [OF u assms(5,7)])
  have qy: "q \<in> set ys"
  proof -
    have "unat p \<le> unat prev" if "p \<in> set xs" for p
      using chain_mem [OF ch(1) that] h(1) by simp
    then show ?thesis using assms(5,6) ud unfolding qs by fastforce
  qed
  have "\<not> rdfs_match v x p" if "p \<in> set xs" for p
  proof
    assume "rdfs_match v x p"
    then have "dir_map v xs x \<noteq> None" using that by (auto simp: dir_map_def find_None_iff)
    moreover have "dir_map v ys x \<noteq> None" using qy assms(7) by (auto simp: dir_map_def find_None_iff)
    ultimately show False using u unfolding qs unique_append dir_map_append map_add_None by metis
  qed
  then have "\<forall>p \<in> set xs. \<not> rdfs_match v' x p" using keep(2) by blast
  then have "find_loop v' x (start + n) start start = Some None"
    using keep(1) z be ud f le unfolding h(1) by (intro find_loop_zero) auto
  then have "rdfs_find_entry2 v' start n x = Some None" by (simp add: rdfs_find_entry2_def)
  moreover have "rdfs_delete_entry v de prev = (0, v')" using f by (auto simp: rdfs_delete_entry_def Let_def v'_def)
  ultimately show ?thesis using lk view_look_map [OF assms(1)] by simp
qed

text \<open>Four entries, the second of 65520 bytes.\<close>

definition example_wide :: mem where
  "example_wide =
     st64 (st16 (st8 (st8 (st64 (st16 (st8 (st8 (st64 (st16 (st8 (st8 (st64 (st16 (st8 (st8 (\<lambda>_. 0)
       0xffffcb000000000a 1) 0xffffcb000000000c 46) 0xffffcb0000000008 16) 0xffffcb0000000000 1)
       0xffffcb000000001a 1) 0xffffcb000000001c 97) 0xffffcb0000000018 65520) 0xffffcb0000000010 2)
       0xffffcb000001000a 1) 0xffffcb000001000c 98) 0xffffcb0000010008 16) 0xffffcb0000010000 3)
       0xffffcb000001001a 1) 0xffffcb000001001c 99) 0xffffcb0000010018 16) 0xffffcb0000010010 4"

lemma example_wide_fields:
  "de_inode example_wide 0xffffcb0000000000 = 1" "de_rec_len example_wide 0xffffcb0000000000 = 16"
  "de_name_len example_wide 0xffffcb0000000000 = 1" "de_name example_wide 0xffffcb0000000000 (Suc 0) = [46]"
  "de_inode example_wide 0xffffcb0000000010 = 2" "de_rec_len example_wide 0xffffcb0000000010 = 65520"
  "de_name_len example_wide 0xffffcb0000000010 = 1" "de_name example_wide 0xffffcb0000000010 (Suc 0) = [97]"
  "de_inode example_wide 0xffffcb0000010000 = 3" "de_rec_len example_wide 0xffffcb0000010000 = 16"
  "de_name_len example_wide 0xffffcb0000010000 = 1" "de_name example_wide 0xffffcb0000010000 (Suc 0) = [98]"
  "de_inode example_wide 0xffffcb0000010010 = 4" "de_rec_len example_wide 0xffffcb0000010010 = 16"
  "de_name_len example_wide 0xffffcb0000010010 = 1" "de_name example_wide 0xffffcb0000010010 (Suc 0) = [99]"
  by (simp_all add: example_wide_def de_inode_def de_rec_len_def de_name_len_def de_name_def load_bytes_def mem_eval)

lemma example_wide_match:
  "rdfs_match example_wide x 0xffffcb0000000000 \<longleftrightarrow> x = [46]" "rdfs_match example_wide x 0xffffcb0000000010 \<longleftrightarrow> x = [97]"
  "rdfs_match example_wide x 0xffffcb0000010000 \<longleftrightarrow> x = [98]" "rdfs_match example_wide x 0xffffcb0000010010 \<longleftrightarrow> x = [99]"
  by (auto simp: rdfs_match_def example_wide_fields)

theorem delete_entry_wraps_witness:
  "view_look 0xffffcb0000000000 65568 example_wide [99] = Some 4 \<and>
   (case rdfs_delete_entry example_wide 0xffffcb0000010000 0xffffcb0000000010 of (err, v') \<Rightarrow>
      err = 0 \<and> rdfs_find_entry2 v' 0xffffcb0000000000 65568 [99] = Some None)"
proof -
  let ?qs = "[0xffffcb0000000000, 0xffffcb0000000010, 0xffffcb0000010000, 0xffffcb0000010010] :: u64 list"
  have c: "chain example_wide 0xffffcb0000000000 ?qs (0xffffcb0000000000 + 65568)"
    by (simp add: entry_fits_def rdfs_next_entry_def example_wide_fields)
  have ok: "dir_ok example_wide 0xffffcb0000000000 65568 ?qs"
    using c by (auto simp: dir_ok_def dir_map_def example_wide_match)
  have "rdfs_find_entry2 example_wide 0xffffcb0000000000 65568 [98] = Some (Some (0xffffcb0000010000, 0xffffcb0000000010))"
    unfolding find_entry2_chain [OF c] by (simp add: example_wide_match)
  from delete_entry_wraps [OF ok this, of "0xffffcb0000010010" "[99]"] show ?thesis
    by (simp add: example_wide_fields example_wide_match)
qed

end
