(* ===== verification/Numa_Init.thy ===== *)
theory Numa_Init
  imports Free_Inodes
begin

text \<open>
  Formatting a NUMA node (\<open>rdfs_init_numa\<close> of \<open>rdfs_master/balloc.c\<close>): the descriptor, the chain of
  free inode slots behind it and the chain of free pages up to the end of the node's area. The
  lemmas show that the two loops build exactly the free lists the allocators of \<open>Free_Inodes\<close> and
  \<open>Free_Pages\<close> work on.
\<close>

section \<open>Operations\<close>

primrec init_inode_links :: "'a nvm_scheme \<Rightarrow> nat \<Rightarrow> u64 \<Rightarrow> u64 \<Rightarrow> 'a nvm_scheme" where
  "init_inode_links s 0 start_addr next = s"
| "init_inode_links s (Suc n) start_addr next =
     init_inode_links (put64 s (start_addr + 72) (rdfs_pa s next)) n
       (start_addr + RDFS_INODE_SIZE) (next + RDFS_INODE_SIZE)"

text \<open>The counter of the first loop is an \<open>unsigned int\<close>.\<close>

definition rdfs_init_free_inode_list_offset :: "'a nvm_scheme \<Rightarrow> u64 \<Rightarrow> 'a nvm_scheme" where
  "rdfs_init_free_inode_list_offset s nd =
     (let start_addr = rdfs_va s (free_inode_phy s nd);
          inode_count = (ucast (free_inode_count s nd) :: u32)
      in init_inode_links s (unat inode_count) start_addr (start_addr + RDFS_INODE_SIZE))"

primrec init_block_links :: "'a nvm_scheme \<Rightarrow> nat \<Rightarrow> u64 \<Rightarrow> u64 \<Rightarrow> 'a nvm_scheme" where
  "init_block_links s 0 temp next = s"
| "init_block_links s (Suc n) temp next =
     init_block_links (put64 s temp next) n (temp + PAGE_SIZE) (next + PAGE_SIZE)"

definition rdfs_init_free_block_list_offset :: "'a nvm_scheme \<Rightarrow> u64 \<Rightarrow> 'a nvm_scheme" where
  "rdfs_init_free_block_list_offset s nd =
     (let start_addr = free_page_phy s nd
      in init_block_links s (unat (free_page_count s nd)) (rdfs_va s start_addr)
           (start_addr + PAGE_SIZE))"

text \<open>The test \<open>free_inode_count <= 0\<close> is on an unsigned number, so it is a test for zero.\<close>

definition rdfs_init_numa :: "'a nvm_scheme \<Rightarrow> u64 \<Rightarrow> u64 \<Rightarrow> u64 \<Rightarrow> int \<times> 'a nvm_scheme" where
  "rdfs_init_numa s start stop percentage =
     (if stop < start then (-1, s)
      else
        let nd = rdfs_va s start;
            s1 = s\<lparr>mem := memset (mem s) nd 0 (unat (sizeof_numa_des + RDFS_INODE_SIZE))\<rparr>;
            s2 = put64 s1 (nd + 16) (start + sizeof_numa_des + RDFS_INODE_SIZE);
            s3 = put64 s2 nd ((stop - start) * percentage div 100 div RDFS_INODE_SIZE - 1)
        in if free_inode_count s3 nd = 0 then (-1, s3)
           else
             let s4 = put64 s3 (nd + 24)
                        (free_inode_phy s3 nd + free_inode_count s3 nd * RDFS_INODE_SIZE);
                 s5 = put64 s4 (nd + 24) ((free_page_phy s4 nd + PAGE_SIZE - 1) AND NOT (PAGE_SIZE - 1));
                 s6 = put64 s5 (nd + 8) (drop_bit 12 (stop - free_page_phy s5 nd));
                 s7 = rdfs_init_free_inode_list_offset s6 nd
             in (0, rdfs_init_free_block_list_offset s7 nd))"

section \<open>Filling memory with a chain\<close>

text \<open>Both loops store \<open>v\<close>, \<open>v + d\<close>, \<open>v + 2 * d\<close>, \dots at \<open>a\<close>, \<open>a + d\<close>, \<open>a + 2 * d\<close>, \dots\<close>

primrec link_fill :: "u64 \<Rightarrow> mem \<Rightarrow> nat \<Rightarrow> u64 \<Rightarrow> u64 \<Rightarrow> mem" where
  "link_fill d m 0 a v = m"
| "link_fill d m (Suc n) a v = link_fill d (st64 m a v) n (a + d) (v + d)"

lemma init_inode_links_fill:
  "init_inode_links s n a v = s\<lparr>mem := link_fill RDFS_INODE_SIZE (mem s) n (a + 72) (rdfs_pa s v)\<rparr>"
  by (induction n arbitrary: s a v) (simp_all add: rdfs_pa_def algebra_simps)

lemma init_block_links_fill:
  "init_block_links s n a v = s\<lparr>mem := link_fill PAGE_SIZE (mem s) n a v\<rparr>"
  by (induction n arbitrary: s a v) simp_all

lemma link_fill_outside:
  assumes "8 \<le> unat d" and "\<And>i. i < n \<Longrightarrow> x \<notin> region (a + of_nat i * d) 8"
  shows "link_fill d m n a v x = m x"
  using assms(2)
proof (induction n arbitrary: m a v)
  case 0
  then show ?case by simp
next
  case (Suc n)
  have "x \<notin> region (a + d + of_nat i * d) 8" if "i < n" for i
    using Suc.prems [of "Suc i"] that by (simp add: algebra_simps)
  then show ?case using Suc.IH Suc.prems [of 0] by (simp add: store_outside)
qed

lemma unat_mult_less:
  assumes "i < n" and "n * unat d \<le> 2 ^ 64"
  shows "unat (of_nat i * d :: u64) = i * unat d"
proof (cases "d = 0")
  case False
  then have "0 < unat d" by (simp add: unat_gt_0)
  then have "i * unat d < 2 ^ 64" using assms by (metis less_le_trans mult_less_mono1)
  then show ?thesis by (simp add: unat_word_ariths unat_of_nat mod_mult_left_eq)
qed simp

lemma link_fill_load:
  assumes "8 \<le> unat d" and "n * unat d \<le> 2 ^ 64" and "i < n"
  shows "ld64 (link_fill d m n a v) (a + of_nat i * d) = v + of_nat i * d"
  using assms(2,3)
proof (induction n arbitrary: m a v i)
  case 0
  then show ?case by simp
next
  case (Suc n)
  show ?case
  proof (cases i)
    case 0
    have "region a 8 \<inter> region (a + d + of_nat j * d) 8 = {}" if "j < n" for j
    proof -
      have u: "unat (of_nat (Suc j) * d) = Suc j * unat d" using that Suc.prems(1) by (intro unat_mult_less [of _ "Suc n"]) auto
      have "Suc j * unat d + unat d \<le> Suc n * unat d" using that
        by (metis Suc_leI add.commute mult_Suc mult_le_mono1 Suc_less_eq)
      then have "unat (of_nat (Suc j) * d) + 8 \<le> 2 ^ 64" using u Suc.prems(1) assms(1) by linarith
      moreover have "8 \<le> unat (of_nat (Suc j) * d)" using u assms(1) by simp
      ultimately show ?thesis
        using region_disj [of 0 8 "of_nat (Suc j) * d" 8 a] by (simp add: algebra_simps)
    qed
    then have "link_fill d (st64 m a v) n (a + d) (v + d) x = st64 m a v x" if "x \<in> region a 8" for x
      using that assms(1) by (intro link_fill_outside) auto
    then have "ld64 (link_fill d (st64 m a v) n (a + d) (v + d)) a = ld64 (st64 m a v) a"
      by (intro load_agree) auto
    then show ?thesis using 0 by simp
  next
    case (Suc j)
    then have "j < n" "n * unat d \<le> 2 ^ 64" using Suc.prems by auto
    from Suc.IH [OF this(2,1), of "st64 m a v" "a + d" "v + d"] show ?thesis
      using Suc by (simp add: algebra_simps)
  qed
qed

text \<open>Following such a chain.\<close>

lemma follow_arith:
  assumes "\<And>i. i < n \<Longrightarrow> nxt (p + of_nat i * d) = p + of_nat (Suc i) * (d :: u64)"
  shows "follow nxt p n = map (\<lambda>i. p + of_nat i * d) [0..<n]"
  using assms
proof (induction n arbitrary: p)
  case 0
  then show ?case by simp
next
  case (Suc n)
  have "nxt (p + d + of_nat i * d) = p + d + of_nat (Suc i) * d" if "i < n" for i
    using Suc.prems [of "Suc i"] that by (simp add: algebra_simps)
  from Suc.IH [OF this] have "follow nxt (p + d) n = map (\<lambda>i. p + d + of_nat i * d) [0..<n]" .
  moreover have "nxt p = p + d" using Suc.prems [of 0] by simp
  moreover have "map (\<lambda>i. p + of_nat i * d) [0..<Suc n] = p # map (\<lambda>i. p + d + of_nat i * d) [0..<n]"
    by (simp add: map_upt_Suc algebra_simps del: upt_Suc)
  ultimately show ?case by simp
qed

lemma link_fill_below:
  assumes "x \<in> region b k" and "k \<le> unat off" and "unat off + n * unat d \<le> 2 ^ 64" and "8 \<le> unat d"
  shows "link_fill d m n (b + off) v x = m x"
proof (rule link_fill_outside [OF assms(4)])
  fix i assume i: "i < n"
  have "n * unat d \<le> 2 ^ 64" using assms(3) by simp
  then have u: "unat (of_nat i * d) = i * unat d" using i by (rule unat_mult_less [rotated])
  have "i * unat d + unat d \<le> n * unat d" using i
    by (metis Suc_leI add.commute mult_Suc mult_le_mono1)
  then have h: "unat off + i * unat d + 8 \<le> 2 ^ 64" using assms(3,4) by linarith
  then have "unat (off + of_nat i * d) = unat off + i * unat d"
    using u by (simp add: unat_word_ariths)
  then have "region b k \<inter> region (b + (off + of_nat i * d)) 8 = {}"
    using region_disj [of 0 k "off + of_nat i * d" 8 b] assms(2) h by simp
  then show "x \<notin> region (b + off + of_nat i * d) 8" using assms(1) by (auto simp: add.assoc)
qed

section \<open>The area of a node\<close>

definition numa_inodes :: "u64 \<Rightarrow> u64 \<Rightarrow> u64 \<Rightarrow> u64" where
  "numa_inodes start stop pct = (stop - start) * pct div 100 div RDFS_INODE_SIZE - 1"

definition numa_first_page :: "u64 \<Rightarrow> u64 \<Rightarrow> u64 \<Rightarrow> u64" where
  "numa_first_page start stop pct =
     (start + sizeof_numa_des + RDFS_INODE_SIZE + numa_inodes start stop pct * RDFS_INODE_SIZE
        + PAGE_SIZE - 1) AND NOT (PAGE_SIZE - 1)"

definition numa_pages :: "u64 \<Rightarrow> u64 \<Rightarrow> u64 \<Rightarrow> u64" where
  "numa_pages start stop pct = drop_bit 12 (stop - numa_first_page start stop pct)"

text \<open>An area big enough for one slot and for the slots it is to hold, below $2^{62}$, with a slot
  count the loop counter can represent.\<close>

definition area_ok :: "u64 \<Rightarrow> u64 \<Rightarrow> u64 \<Rightarrow> bool" where
  "area_ok start stop pct \<longleftrightarrow> start \<le> stop \<and> stop < 0x4000000000000000 \<and>
     numa_inodes start stop pct \<noteq> 0 \<and> numa_inodes start stop pct < 0x100000000 \<and>
     unat start + 256 + unat (numa_inodes start stop pct) * 128 + 4095 \<le> unat stop"

lemma unat_and_not_4095: "unat (y AND NOT 4095 :: u64) = unat y - unat y mod 4096"
proof -
  have "(y AND 4095) + (y AND NOT 4095) = (y AND 4095) OR (y AND NOT 4095)"
    by (rule disjunctive_add) (auto simp: bit_simps)
  also have "\<dots> = y" by (simp add: bit.conj_disj_distrib [symmetric])
  finally have "y AND NOT 4095 = y - (y AND 4095)" by (simp add: algebra_simps)
  moreover have "y AND 4095 \<le> y" by (rule word_and_le2)
  ultimately show ?thesis by (simp add: unat_sub and_4095_mod)
qed

lemma numa_first_page_bounds:
  assumes "area_ok start stop pct"
  defines "f \<equiv> unat start + 256 + unat (numa_inodes start stop pct) * 128"
  shows "f \<le> unat (numa_first_page start stop pct)"
    and "unat (numa_first_page start stop pct) \<le> unat stop"
    and "page_aligned (numa_first_page start stop pct)"
proof -
  have b: "unat stop < 0x4000000000000000" "f + 4095 \<le> unat stop"
    using assms(1) by (auto simp: area_ok_def f_def word_less_nat_alt)
  define y where "y = start + 256 + numa_inodes start stop pct * 128 + 4095"
  have "unat (numa_inodes start stop pct * 128) = unat (numa_inodes start stop pct) * 128"
    using b by (simp add: unat_word_ariths f_def)
  then have y: "unat y = f + 4095" using b by (simp add: y_def f_def unat_word_ariths)
  have p: "numa_first_page start stop pct = y AND NOT 4095"
    by (simp add: numa_first_page_def y_def consts_eval algebra_simps)
  have u: "unat (numa_first_page start stop pct) = (f + 4095) - (f + 4095) mod 4096"
    unfolding p unat_and_not_4095 y by (rule refl)
  show "f \<le> unat (numa_first_page start stop pct)"
    "unat (numa_first_page start stop pct) \<le> unat stop" unfolding u using b(2) by linarith+
  show "page_aligned (numa_first_page start stop pct)"
    unfolding page_aligned_iff u by (simp add: minus_mod_eq_mult_div)
qed

lemma numa_pages_bound:
  assumes "area_ok start stop pct"
  shows "unat (numa_first_page start stop pct) + unat (numa_pages start stop pct) * 4096 \<le> unat stop"
proof -
  note b = numa_first_page_bounds [OF assms]
  have "unat (numa_pages start stop pct) = (unat stop - unat (numa_first_page start stop pct)) div 4096"
    using b(2) by (simp add: numa_pages_def drop_bit_eq_div unat_div unat_sub word_le_nat_alt)
  moreover have "(unat stop - unat (numa_first_page start stop pct)) div 4096 * 4096
      \<le> unat stop - unat (numa_first_page start stop pct)" by (rule div_times_less_eq_dividend)
  ultimately show ?thesis using b(2) by linarith
qed

section \<open>What formatting leaves behind\<close>

text \<open>The descriptor's fields before the loops.\<close>

definition numa_header :: "'a nvm_scheme \<Rightarrow> u64 \<Rightarrow> u64 \<Rightarrow> u64 \<Rightarrow> mem" where
  "numa_header s start stop pct =
     (let nd = rdfs_va s start; p = numa_first_page start stop pct
      in st64 (st64 (st64 (st64 (st64 (memset (mem s) nd 0 256)
           (nd + 16) (start + sizeof_numa_des + RDFS_INODE_SIZE)) nd (numa_inodes start stop pct))
           (nd + 24) (start + sizeof_numa_des + RDFS_INODE_SIZE
                        + numa_inodes start stop pct * RDFS_INODE_SIZE)) (nd + 24) p)
           (nd + 8) (numa_pages start stop pct))"

lemma numa_header_fields:
  fixes s :: "'a nvm_scheme" and start stop pct :: u64
  defines "m \<equiv> numa_header s start stop pct" and "nd \<equiv> rdfs_va s start"
  shows "ld64 m nd = numa_inodes start stop pct" "ld64 m (nd + 8) = numa_pages start stop pct"
    "ld64 m (nd + 16) = start + sizeof_numa_des + RDFS_INODE_SIZE"
    "ld64 m (nd + 24) = numa_first_page start stop pct"
  by (simp_all add: m_def nd_def numa_header_def Let_def load_store_disj region_simps)

lemma numa_header_outside:
  "x \<notin> region (rdfs_va s start) 256 \<Longrightarrow> numa_header s start stop pct x = mem s x"
  by (simp add: numa_header_def Let_def store_outside memset_outside notin_region_sub)

definition numa_chains :: "'a nvm_scheme \<Rightarrow> u64 \<Rightarrow> u64 \<Rightarrow> u64 \<Rightarrow> mem" where
  "numa_chains s start stop pct =
     (let nd = rdfs_va s start
      in link_fill PAGE_SIZE
           (link_fill RDFS_INODE_SIZE (numa_header s start stop pct)
             (unat (numa_inodes start stop pct)) (nd + 328) (start + 384))
           (unat (numa_pages start stop pct)) (rdfs_va s (numa_first_page start stop pct))
           (numa_first_page start stop pct + PAGE_SIZE))"

lemma unat_u32_exact: "(w :: u64) < 0x100000000 \<Longrightarrow> unat (ucast w :: u32) = unat w"
  by (simp add: unsigned_ucast_eq word_less_nat_alt take_bit_eq_mod)

lemma numa_header_slot_fill:
  assumes "area_ok start stop pct" and "x \<in> region (rdfs_va s start) 256"
  shows "link_fill RDFS_INODE_SIZE m (unat (numa_inodes start stop pct)) (rdfs_va s start + 328) v x = m x"
proof (rule link_fill_below [OF assms(2)])
  have "unat (numa_inodes start stop pct) < 0x100000000"
    using assms(1) by (simp add: area_ok_def word_less_nat_alt)
  then show "unat (328 :: u64) + unat (numa_inodes start stop pct) * unat RDFS_INODE_SIZE \<le> 2 ^ 64"
    by (simp add: consts_eval)
qed (simp_all add: consts_eval)

text \<open>Where the pages start, relative to the descriptor.\<close>

lemma numa_page_fill_below:
  assumes "area_ok start stop pct"
    and "x \<in> region (rdfs_va s start) (256 + unat (numa_inodes start stop pct) * 128)"
  shows "link_fill PAGE_SIZE m (unat (numa_pages start stop pct))
           (rdfs_va s (numa_first_page start stop pct)) v x = m x"
proof -
  note b = numa_first_page_bounds [OF assms(1)]
  let ?p = "numa_first_page start stop pct"
  have o: "unat (?p - start) = unat ?p - unat start"
    using b(1) by (simp add: unat_sub word_le_nat_alt)
  have n: "unat (numa_pages start stop pct) = (unat stop - unat ?p) div 4096"
    using b(2) by (simp add: numa_pages_def drop_bit_eq_div unat_div unat_sub word_le_nat_alt)
  have st: "unat stop < 2 ^ 62" using assms(1) by (simp add: area_ok_def word_less_nat_alt)
  have "link_fill PAGE_SIZE m (unat (numa_pages start stop pct)) (rdfs_va s start + (?p - start)) v x = m x"
  proof (rule link_fill_below [OF assms(2)])
    show "256 + unat (numa_inodes start stop pct) * 128 \<le> unat (?p - start)" using b(1) o by simp
    have "(unat stop - unat ?p) div 4096 * 4096 \<le> unat stop - unat ?p"
      by (rule div_times_less_eq_dividend)
    moreover have "unat stop \<le> 2 ^ 64" using st by simp
    ultimately have "unat ?p - unat start + (unat stop - unat ?p) div 4096 * 4096 \<le> 2 ^ 64"
      using b(2) by linarith
    then show "unat (?p - start) + unat (numa_pages start stop pct) * unat PAGE_SIZE \<le> 2 ^ 64"
      unfolding o n by (simp add: PAGE_SIZE_def)
  qed (simp add: PAGE_SIZE_def)
  moreover have "rdfs_va s start + (?p - start) = rdfs_va s ?p" by (simp add: rdfs_va_def)
  ultimately show ?thesis by simp
qed

lemma numa_chains_header:
  assumes "area_ok start stop pct" and "unat i + 8 \<le> 128"
  shows "ld64 (numa_chains s start stop pct) (rdfs_va s start + i)
       = ld64 (numa_header s start stop pct) (rdfs_va s start + i)"
proof (rule load_agree)
  fix x assume "x \<in> region (rdfs_va s start + i) 8"
  then have x: "x \<in> region (rdfs_va s start) 256"
    using region_sub [of i 8 256 "rdfs_va s start"] assms(2) by auto
  then have "x \<in> region (rdfs_va s start) (256 + unat (numa_inodes start stop pct) * 128)"
    by (simp add: region_iff)
  then show "numa_chains s start stop pct x = numa_header s start stop pct x"
    using x assms(1)
    by (simp add: numa_chains_def Let_def numa_page_fill_below numa_header_slot_fill)
qed simp

text \<open>The model of \<open>rdfs_init_numa\<close> computes exactly this memory.\<close>

lemma rdfs_init_numa_eq:
  assumes "area_ok start stop pct"
  shows "rdfs_init_numa s start stop pct = (0, s\<lparr>mem := numa_chains s start stop pct\<rparr>)"
proof -
  let ?nd = "rdfs_va s start"
  let ?h = "numa_header s start stop pct"
  have c: "\<not> stop < start" "numa_inodes start stop pct \<noteq> 0" "numa_inodes start stop pct < 0x100000000"
    using assms by (auto simp: area_ok_def)
  have e: "rdfs_init_numa s start stop pct =
      (0, rdfs_init_free_block_list_offset (rdfs_init_free_inode_list_offset (s\<lparr>mem := ?h\<rparr>) ?nd) ?nd)"
  proof -
    have z: "unat (sizeof_numa_des + RDFS_INODE_SIZE) = 256" by (simp add: consts_eval)
    show ?thesis
      using c unfolding rdfs_init_numa_def numa_header_def z
      by (simp add: Let_def load_store_disj region_simps numa_inodes_def [symmetric]
          numa_first_page_def [symmetric] numa_pages_def [symmetric])
  qed
  have i: "rdfs_init_free_inode_list_offset (s\<lparr>mem := ?h\<rparr>) ?nd =
      s\<lparr>mem := link_fill RDFS_INODE_SIZE ?h (unat (numa_inodes start stop pct)) (?nd + 328) (start + 384)\<rparr>"
  proof -
    let ?f = "start + sizeof_numa_des + RDFS_INODE_SIZE"
    have "rdfs_va s ?f + 72 = ?nd + 328" "rdfs_pa s (rdfs_va s ?f + RDFS_INODE_SIZE) = start + 384"
      by (simp_all add: rdfs_va_def rdfs_pa_def consts_eval)
    then show ?thesis
      using c(3)
      by (simp add: rdfs_init_free_inode_list_offset_def Let_def numa_header_fields unat_u32_exact
          init_inode_links_fill add.commute [of 328])
  qed
  have f: "ld64 (link_fill RDFS_INODE_SIZE ?h (unat (numa_inodes start stop pct)) (?nd + 328) (start + 384))
      (?nd + k) = ld64 ?h (?nd + k)" if "unat k + 8 \<le> 128" for k
    using region_sub [of k 8 256 ?nd] that assms
    by (intro load_agree numa_header_slot_fill) auto
  show ?thesis
    by (simp add: e i rdfs_init_free_block_list_offset_def Let_def f numa_header_fields
        init_block_links_fill numa_chains_def)
qed

lemma numa_chains_slots:
  assumes "area_ok start stop pct"
  shows "free_slot_list (s\<lparr>mem := numa_chains s start stop pct\<rparr>) (rdfs_va s start)
       = map (\<lambda>i. start + 256 + of_nat i * 128) [0..<unat (numa_inodes start stop pct)]"
proof -
  let ?n = "unat (numa_inodes start stop pct)" and ?nd = "rdfs_va s start"
  let ?m = "numa_chains s start stop pct"
  have b: "?n < 0x100000000" using assms by (simp add: area_ok_def word_less_nat_alt)
  have link: "ld64 ?m (?nd + 328 + of_nat i * 128) = start + 384 + of_nat i * 128" if "i < ?n" for i
  proof -
    have u: "unat (of_nat i * 128 :: u64) = i * 128"
      using that b unat_mult_less [of i ?n 128] by simp
    then have "unat (328 + of_nat i * 128 :: u64) = 328 + i * 128" using that b by (simp add: unat_word_ariths)
    then have "region (?nd + (328 + of_nat i * 128)) 8 \<subseteq> region ?nd (256 + ?n * 128)"
      using that by (intro region_sub) simp
    then have "ld64 ?m (?nd + 328 + of_nat i * 128) = ld64 (link_fill RDFS_INODE_SIZE
        (numa_header s start stop pct) ?n (?nd + 328) (start + 384)) (?nd + 328 + of_nat i * 128)"
      unfolding numa_chains_def Let_def
      by (intro load_agree numa_page_fill_below [OF assms]) (auto simp: add.assoc)
    also have "\<dots> = start + 384 + of_nat i * 128"
      using link_fill_load [of 128 ?n i] that b by (simp add: RDFS_INODE_SIZE_def)
    finally show ?thesis .
  qed
  have "follow (\<lambda>p. ld64 ?m (rdfs_va s p + 72)) (start + 256) ?n
      = map (\<lambda>i. start + 256 + of_nat i * 128) [0..<?n]"
  proof (rule follow_arith)
    fix i assume "i < ?n"
    moreover have "rdfs_va s (start + 256 + of_nat i * 128) + 72 = ?nd + 328 + of_nat i * 128"
      by (simp add: rdfs_va_def)
    ultimately show "ld64 ?m (rdfs_va s (start + 256 + of_nat i * 128) + 72)
        = start + 256 + of_nat (Suc i) * 128"
      using link by (simp add: algebra_simps)
  qed
  moreover have "ld64 ?m ?nd = numa_inodes start stop pct" "ld64 ?m (?nd + 16) = start + 256"
    using numa_chains_header [OF assms, of 0 s] numa_chains_header [OF assms, of 16 s]
    by (simp_all add: numa_header_fields consts_eval)
  ultimately show ?thesis by (simp add: free_slot_list_def)
qed

lemma numa_chains_pages:
  assumes "area_ok start stop pct"
  shows "free_page_list (s\<lparr>mem := numa_chains s start stop pct\<rparr>) (rdfs_va s start)
       = map (\<lambda>i. numa_first_page start stop pct + of_nat i * 4096) [0..<unat (numa_pages start stop pct)]"
proof -
  let ?n = "unat (numa_pages start stop pct)" and ?p = "numa_first_page start stop pct"
  let ?m = "numa_chains s start stop pct" and ?nd = "rdfs_va s start"
  have "?n = unat (stop - ?p) div 4096" by (simp add: numa_pages_def drop_bit_eq_div unat_div)
  then have "?n * 4096 \<le> unat (stop - ?p)" by (simp only: div_times_less_eq_dividend)
  moreover have "unat (stop - ?p) < 2 ^ 64" using unsigned_less [of "stop - ?p"] by simp
  ultimately have "?n * 4096 \<le> 2 ^ 64" by linarith
  then have link: "ld64 ?m (rdfs_va s ?p + of_nat i * 4096) = ?p + 4096 + of_nat i * 4096"
    if "i < ?n" for i
    using link_fill_load [of 4096 ?n i] that by (simp add: numa_chains_def PAGE_SIZE_def)
  have "follow (\<lambda>x. ld64 ?m (rdfs_va s x)) ?p ?n = map (\<lambda>i. ?p + of_nat i * 4096) [0..<?n]"
  proof (rule follow_arith)
    fix i assume "i < ?n"
    then show "ld64 ?m (rdfs_va s (?p + of_nat i * 4096)) = ?p + of_nat (Suc i) * 4096"
      using link by (simp add: rdfs_va_add algebra_simps)
  qed
  moreover have "ld64 ?m (?nd + 8) = numa_pages start stop pct" "ld64 ?m (?nd + 24) = ?p"
    using numa_chains_header [OF assms, of 8 s] numa_chains_header [OF assms, of 24 s]
    by (simp_all add: numa_header_fields)
  ultimately show ?thesis by (simp add: free_page_list_def list_from_def)
qed

text \<open>The area is all that formatting writes.\<close>

lemma numa_chains_outside:
  assumes "area_ok start stop pct" and "x \<notin> region (rdfs_va s start) (unat stop - unat start)"
  shows "numa_chains s start stop pct x = mem s x"
proof -
  let ?n = "unat (numa_inodes start stop pct)" and ?k = "unat (numa_pages start stop pct)"
  let ?p = "numa_first_page start stop pct" and ?nd = "rdfs_va s start"
  note b = numa_first_page_bounds [OF assms(1)] and e = numa_pages_bound [OF assms(1)]
  have a: "unat stop < 2 ^ 62" "?n < 0x100000000" "unat start + 256 + ?n * 128 + 4095 \<le> unat stop"
    using assms(1) by (simp_all add: area_ok_def word_less_nat_alt)
  have "numa_header s start stop pct x = mem s x"
    using assms(2) a(3) by (intro numa_header_outside notin_region_sub(2) [OF assms(2)]) simp
  moreover have "x \<notin> region (?nd + 328 + of_nat i * RDFS_INODE_SIZE) 8" if "i < ?n" for i
  proof -
    have "unat (of_nat i * 128 :: u64) = i * 128" using that a(2) unat_mult_less [of i ?n 128] by simp
    then have "unat (328 + of_nat i * 128 :: u64) = 328 + i * 128" using that a(2) by (simp add: unat_word_ariths)
    then show ?thesis using notin_region_sub(1) [OF assms(2), of "328 + of_nat i * 128" 8] that a(3)
      by (simp add: RDFS_INODE_SIZE_def add.assoc)
  qed
  moreover have "x \<notin> region (rdfs_va s ?p + of_nat i * PAGE_SIZE) 8" if "i < ?k" for i
  proof -
    have "unat (of_nat i * 4096 :: u64) = i * 4096" using that e a(1) unat_mult_less [of i ?k 4096] by simp
    moreover have "unat (?p - start) = unat ?p - unat start" using b(1) by (simp add: unat_sub word_le_nat_alt)
    ultimately have "unat (?p - start + of_nat i * 4096) = unat ?p - unat start + i * 4096"
      using that e a(1) by (simp add: unat_word_ariths)
    then have "x \<notin> region (?nd + (?p - start + of_nat i * 4096)) 8"
      using that e b(1) a(1) by (intro notin_region_sub(1) [OF assms(2)]) simp
    moreover have "?nd + (?p - start + of_nat i * 4096) = rdfs_va s ?p + of_nat i * PAGE_SIZE"
      by (simp add: rdfs_va_def PAGE_SIZE_def)
    ultimately show ?thesis by simp
  qed
  ultimately show ?thesis
    by (simp add: numa_chains_def Let_def link_fill_outside consts_eval)
qed

section \<open>Properties of formatting\<close>

text \<open>C23. Formatting a node area succeeds and builds both free lists exactly: the slots from the second
  one behind the descriptor on, 128 bytes apart, and the whole pages from the first page boundary
  behind the slots to the end of the area, 4096 bytes apart; the slots and the pages do not overlap.\<close>

theorem rdfs_init_numa_spec:
  assumes "area_ok start stop pct"
  shows "case rdfs_init_numa s start stop pct of (ret, s') \<Rightarrow> ret = 0
     \<and> free_slot_list s' (rdfs_va s start)
         = map (\<lambda>i. start + 256 + of_nat i * 128) [0..<unat (numa_inodes start stop pct)]
     \<and> free_page_list s' (rdfs_va s start)
         = map (\<lambda>i. numa_first_page start stop pct + of_nat i * 4096)
             [0..<unat (numa_pages start stop pct)]
     \<and> unat start + 256 + unat (numa_inodes start stop pct) * 128
           \<le> unat (numa_first_page start stop pct)
     \<and> unat (numa_first_page start stop pct) + unat (numa_pages start stop pct) * 4096 \<le> unat stop
     \<and> page_aligned (numa_first_page start stop pct)"
proof -
  note b = numa_first_page_bounds [OF assms]
  show ?thesis
    using b numa_pages_bound [OF assms] numa_chains_slots [OF assms, of s] numa_chains_pages [OF assms, of s]
    by (simp add: rdfs_init_numa_eq [OF assms])
qed

theorem rdfs_init_numa_spec_witness:
  "area_ok 0x1800004000 0x1800104000 5 \<and>
   (case rdfs_init_numa example_nvm 0x1800004000 0x1800104000 5 of (ret, s') \<Rightarrow> ret = 0
     \<and> free_slot_list s' (rdfs_va example_nvm 0x1800004000)
         = map (\<lambda>i. 0x1800004000 + 256 + of_nat i * 128)
             [0..<unat (numa_inodes 0x1800004000 0x1800104000 5)]
     \<and> free_page_list s' (rdfs_va example_nvm 0x1800004000)
         = map (\<lambda>i. numa_first_page 0x1800004000 0x1800104000 5 + of_nat i * 4096)
             [0..<unat (numa_pages 0x1800004000 0x1800104000 5)])"
proof -
  have a: "area_ok 0x1800004000 0x1800104000 5"
    by (simp add: area_ok_def numa_inodes_def consts_eval)
  from rdfs_init_numa_spec [OF a, of example_nvm] a show ?thesis by (simp add: case_prod_beta)
qed

text \<open>An area too small for a single slot is accepted: the slot count minus one wraps to
  $2^{64}-1$, which the test for \<open>free_inode_count <= 0\<close> does not catch.\<close>

theorem rdfs_init_numa_accepts_tiny_area:
  assumes "start \<le> stop" and "unat ((stop - start) * pct) < 12800"
  shows "numa_inodes start stop pct = - 1 \<and> fst (rdfs_init_numa s start stop pct) = 0"
proof -
  have "unat ((stop - start) * pct div 100 div 128) = 0"
    using assms(2) by (simp add: unat_div div_mult2_eq [symmetric])
  then have "(stop - start) * pct div 100 div 128 = 0" by (simp add: unat_eq_0)
  then have n: "numa_inodes start stop pct = - 1" by (simp add: numa_inodes_def RDFS_INODE_SIZE_def)
  then show ?thesis
    using assms(1)
    by (simp add: rdfs_init_numa_def Let_def numa_inodes_def [symmetric] not_less)
qed

end
