(* ===== verification/Mount.thy ===== *)
theory Mount
  imports Inode_Store Numa_Init
begin

text \<open>
  Mounting (\<open>rdfs_master/tool.c\<close>, \<open>super.c\<close> and the checksums of \<open>wprotect.h\<close>): the mount options, formatting an
  image, the statistics.

  The kernel's string functions (\<open>kstrtoull\<close>, \<open>memparse\<close>, \<open>match_token\<close>, \<open>match_int\<close>, \<open>match_octal\<close>) and the
  translation of user and group ids are parameters.
\<close>

section \<open>Options\<close>

datatype token =
  Opt_addr | Opt_bpi | Opt_size | Opt_num_inodes | Opt_mode | Opt_uid | Opt_gid | Opt_blocksize | Opt_user_xattr
| Opt_nouser_xattr | Opt_noprotect | Opt_acl | Opt_noacl | Opt_xip | Opt_err_cont | Opt_err_panic | Opt_err_ro
| Opt_err | Opt_bdev

text \<open>The table of patterns; \<open>None\<close> is the null pattern, at which \<open>match_token\<close> stops.\<close>

type_synonym match_table_t = "(token \<times> string option) list"

definition tokens :: match_table_t where
  "tokens =
     [(Opt_addr, Some ''physaddr=%x''), (Opt_bpi, Some ''bpi=%u''), (Opt_size, Some ''init=%s''),
      (Opt_num_inodes, Some ''N=%u''), (Opt_mode, Some ''mode=%o''), (Opt_uid, Some ''uid=%u''),
      (Opt_gid, Some ''gid=%u''), (Opt_blocksize, Some ''bs=%s''), (Opt_user_xattr, Some ''user_xattr''),
      (Opt_user_xattr, Some ''nouser_xattr''), (Opt_noprotect, Some ''noprotect''), (Opt_acl, Some ''acl''),
      (Opt_acl, Some ''noacl''), (Opt_xip, Some ''xip''), (Opt_err_cont, Some ''errors=continue''),
      (Opt_err_panic, Some ''errors=panic''), (Opt_err_ro, Some ''errors=remount-ro''), (Opt_err, None),
      (Opt_bdev, Some ''bdev=%s'')]"

text \<open>\<open>match_token\<close> gives the token and the text of its argument. \<open>make_kuid\<close> and \<open>make_kgid\<close> give the id and whether it is
  valid.\<close>

record opt_env =
  match_token :: "match_table_t \<Rightarrow> string \<Rightarrow> token \<times> string"
  match_int :: "string \<Rightarrow> int option"
  match_octal :: "string \<Rightarrow> int option"
  memparse :: "string \<Rightarrow> u64"
  kstrtoull :: "string \<Rightarrow> u64 option"
  make_kuid :: "int \<Rightarrow> u32 \<times> bool"
  make_kgid :: "int \<Rightarrow> u32 \<times> bool"

definition isdigit :: "char \<Rightarrow> bool" where
  "isdigit ch \<longleftrightarrow> 48 \<le> (of_char ch :: nat) \<and> (of_char ch :: nat) \<le> 57"

definition NVMM_MIN_BLOCK_SIZE :: u64 where [consts_eval]: "NVMM_MIN_BLOCK_SIZE = PAGE_SIZE"
definition NVMM_MAX_BLOCK_SIZE :: u64 where [consts_eval]: "NVMM_MAX_BLOCK_SIZE = 2 * PAGE_SIZE"

definition is_power_of_2 :: "u64 \<Rightarrow> bool" where
  "is_power_of_2 n \<longleftrightarrow> n \<noteq> 0 \<and> n AND (n - 1) = 0"

text \<open>The argument of an option is a C string: its first character, \<open>*args[0].from\<close>, is NUL when it is empty.\<close>

definition first_char :: "string \<Rightarrow> char" where
  "first_char a = (case a of [] \<Rightarrow> CHR 0x00 | c # _ \<Rightarrow> c)"

text \<open>One option: the return value of the loop's body (0 to go on) and the mount information. \<open>rm\<close> is
  \<open>remount\<close>.\<close>

definition parse_option :: "opt_env \<Rightarrow> bool \<Rightarrow> string \<Rightarrow> rdfs_sb_info \<Rightarrow> int \<times> rdfs_sb_info" where
  "parse_option e rm p sb =
     (let (token, arg) = match_token e tokens p
      in case token of
           Opt_addr \<Rightarrow> if rm then (- EINVAL, sb) else (0, sb)
         | Opt_bpi \<Rightarrow>
             if rm then (- EINVAL, sb)
             else (case match_int e arg of None \<Rightarrow> (- EINVAL, sb) | Some _ \<Rightarrow> (0, sb))
         | Opt_uid \<Rightarrow>
             if rm then (- EINVAL, sb)
             else (case match_int e arg of
                     None \<Rightarrow> (- EINVAL, sb)
                   | Some option \<Rightarrow>
                       let (u, valid) = make_kuid e option
                       in (if valid then 0 else - EINVAL, sb\<lparr>sbi_uid := u\<rparr>))
         | Opt_gid \<Rightarrow>
             (case match_int e arg of
                None \<Rightarrow> (- EINVAL, sb)
              | Some option \<Rightarrow>
                  let (g, valid) = make_kgid e option
                  in (if valid then 0 else - EINVAL, sb\<lparr>sbi_gid := g\<rparr>))
         | Opt_mode \<Rightarrow>
             (case match_octal e arg of
                None \<Rightarrow> (- EINVAL, sb)
              | Some option \<Rightarrow> (0, sb\<lparr>sbi_mode := word_of_int option AND 0x3ff\<rparr>))
         | Opt_size \<Rightarrow>
             if rm \<or> \<not> isdigit (first_char arg) then (- EINVAL, sb)
             else (0, sb\<lparr>initsize := memparse e arg\<rparr>)
         | Opt_num_inodes \<Rightarrow>
             if rm then (- EINVAL, sb)
             else (case match_int e arg of
                     None \<Rightarrow> (- EINVAL, sb)
                   | Some option \<Rightarrow> (0, sb\<lparr>num_inodes := word_of_int option\<rparr>))
         | Opt_blocksize \<Rightarrow>
             if rm \<or> \<not> isdigit (first_char arg) then (- EINVAL, sb)
             else
               let bs = memparse e arg
               in (if bs < NVMM_MIN_BLOCK_SIZE \<or> NVMM_MAX_BLOCK_SIZE < bs \<or> \<not> is_power_of_2 bs then - EINVAL else 0,
                   sb\<lparr>sbi_blocksize := bs\<rparr>)
         | _ \<Rightarrow> (- EINVAL, sb))"

text \<open>\<open>strsep(&options, ",")\<close>: the pieces between the commas.\<close>

function strsep_all :: "string \<Rightarrow> string list" where
  "strsep_all xs = (case snd (cut xs) of [] \<Rightarrow> [fst (cut xs)] | _ # r \<Rightarrow> fst (cut xs) # strsep_all r)"
  by pat_completeness auto
termination strsep_all
proof (relation "measure length")
  fix xs :: string and c r
  assume "snd (cut xs) = c # r"
  then have "length (c # r) \<le> length xs" using length_dropWhile_le [of "\<lambda>c. c \<noteq> CHR '',''" xs] by (simp add: cut_def)
  then show "(r, xs) \<in> measure length" by simp
qed simp

declare strsep_all.simps [simp del]

fun parse_loop :: "opt_env \<Rightarrow> bool \<Rightarrow> string list \<Rightarrow> rdfs_sb_info \<Rightarrow> int \<times> rdfs_sb_info" where
  "parse_loop e rm [] sb = (0, sb)"
| "parse_loop e rm (p # ps) sb =
     (if p = [] then parse_loop e rm ps sb
      else
        let (err, sbi1) = parse_option e rm p sb
        in if err \<noteq> 0 then (err, sbi1) else parse_loop e rm ps sbi1)"

definition rdfs_parse_options :: "opt_env \<Rightarrow> string option \<Rightarrow> rdfs_sb_info \<Rightarrow> bool \<Rightarrow> int \<times> rdfs_sb_info" where
  "rdfs_parse_options e options sb rm =
     (case options of None \<Rightarrow> (0, sb) | Some xs \<Rightarrow> parse_loop e rm (strsep_all xs) sb)"

text \<open>Two options are read before the others; \<open>rest_of\<close> is what \<open>*data\<close> points to afterwards.\<close>

definition rest_of :: "string \<Rightarrow> string" where
  "rest_of xs = (case snd (cut xs) of [] \<Rightarrow> [] | _ # r \<Rightarrow> r)"

definition rdfs_get_init_size :: "opt_env \<Rightarrow> rdfs_sb_info \<Rightarrow> string option \<Rightarrow> rdfs_sb_info \<times> string option" where
  "rdfs_get_init_size e sb data =
     (case data of
        None \<Rightarrow> (sb, data)
      | Some options \<Rightarrow>
          if \<not> starts_with ''init='' options then (sb, data)
          else (sb\<lparr>initsize := memparse e (fst (cut (drop 5 options)))\<rparr>, Some (rest_of (drop 5 options))))"

text \<open>\<open>ULLONG_MAX\<close> is \<open>- 1\<close>.\<close>

definition get_phys_addr :: "opt_env \<Rightarrow> string option \<Rightarrow> u64 \<times> string option" where
  "get_phys_addr e data =
     (case data of
        None \<Rightarrow> (- 1, data)
      | Some options \<Rightarrow>
          if \<not> starts_with ''physaddr='' options then (- 1, data)
          else (case kstrtoull e (fst (cut (drop 9 options))) of
                  None \<Rightarrow> (- 1, data)
                | Some phys_addr \<Rightarrow>
                    if phys_addr AND (PAGE_SIZE - 1) \<noteq> 0 then (- 1, data)
                    else (phys_addr, Some (rest_of (drop 9 options)))))"

section \<open>Block size, limits, checksums\<close>

text \<open>\<open>fls\<close> takes an \<open>int\<close>: the position of the highest bit, from 1, or 0.\<close>

function fls :: "u32 \<Rightarrow> nat" where
  "fls x = (if x = 0 then 0 else Suc (fls (drop_bit 1 x)))"
  by pat_completeness auto
termination fls
proof (relation "measure unat")
  fix x :: u32 assume "x \<noteq> 0"
  then show "(drop_bit 1 x, x) \<in> measure unat" by (simp add: drop_bit_eq_div unat_div unat_gt_0)
qed simp

declare fls.simps [simp del]

text \<open>The new \<open>s_blocksize_bits\<close> and \<open>s_blocksize\<close>; \<open>None\<close> is the shift by -1.\<close>

definition rdfs_set_blocksize :: "u64 \<Rightarrow> (nat \<times> u64) option" where
  "rdfs_set_blocksize sz =
     (case fls (ucast sz) of 0 \<Rightarrow> None | Suc bits \<Rightarrow> Some (bits, scast (push_bit bits 1 :: u32)))"

definition RDFS_MOUNT_ERRORS_CONT :: u64 where [consts_eval]: "RDFS_MOUNT_ERRORS_CONT = 0x10"

definition set_default_opts :: "rdfs_sb_info \<Rightarrow> rdfs_sb_info" where
  "set_default_opts sb = sb\<lparr>s_mount_opt := s_mount_opt sb OR RDFS_MOUNT_ERRORS_CONT\<rparr>"

definition MAX_LFS_FILESIZE :: int where [consts_eval]: "MAX_LFS_FILESIZE = 0x7fffffffffffffff"

definition rdfs_max_size :: int where
  "rdfs_max_size = (let res = 2 ^ 35 - 1 in if MAX_LFS_FILESIZE < res then MAX_LFS_FILESIZE else res)"

definition init_address_to_ino :: "'a nvm_scheme \<Rightarrow> u64 \<Rightarrow> 'a nvm_scheme" where
  "init_address_to_ino s a = s\<lparr>mem := memset (mem s) a 0x30 (unat ADDRESS_TO_INO_SPACE)\<rparr>"

definition calc_super_checksum :: int where
  "calc_super_checksum = 0"

text \<open>\<open>be32\<close> is the byte swap of \<open>cpu_to_be32\<close>.\<close>

definition cpu_to_be32 :: "u32 \<Rightarrow> u32" where
  "cpu_to_be32 w = be32 (ucast w) (ucast (drop_bit 8 w)) (ucast (drop_bit 16 w)) (ucast (drop_bit 24 w))"

definition rdfs_sync_super :: "'k kenv_scheme \<Rightarrow> 'a nvm_scheme \<Rightarrow> u64 \<Rightarrow> 'a nvm_scheme" where
  "rdfs_sync_super k s ns =
     (let s1 = put32 s (ns + 56) (cpu_to_be32 (ucast (current_time k)));
          s2 = put32 s1 (ns + 60) 0;
          crc = crc32 k (- 1) (load_bytes (mem s2) (ns + 4) (unat RDFS_SB_SIZE - 4));
          s3 = put32 s2 (ns + 60) crc
      in s3\<lparr>mem := store_bytes (mem s3) (ns + RDFS_SB_SIZE) (load_bytes (mem s3) ns (unat RDFS_SB_SIZE))\<rparr>)"

definition rdfs_sync_inode :: "'k kenv_scheme \<Rightarrow> 'a nvm_scheme \<Rightarrow> u64 \<Rightarrow> 'a nvm_scheme" where
  "rdfs_sync_inode k s pi =
     (let s1 = put32 s pi 0
      in put32 s1 pi (crc32 k (- 1) (load_bytes (mem s1) (pi + 4) 124)))"

section \<open>Formatting an image\<close>

definition RDFS_SUPER_MAGIC :: u16 where [consts_eval]: "RDFS_SUPER_MAGIC = 0xEFFB"

text \<open>The nodes: one, or two when the area spans \<open>rdfs_NUMA_LINE\<close>.\<close>

definition format_one_node :: "'a nvm_scheme \<Rightarrow> u64 \<Rightarrow> u64 \<Rightarrow> u64 \<Rightarrow> 'a nvm_scheme" where
  "format_one_node s end_bdev stop bpi =
     (let super = rdfs_get_super s;
          s1 = put8 s (super + 48) 0;
          s2 = put64 s1 (super + 104) end_bdev;
          s3 = put64 s2 (super + 112) 0;
          s4 = snd (rdfs_init_numa s3 (rdfs_pa s3 end_bdev) stop bpi);
          nd = s_numa_des s4 0;
          s5 = put64 s4 (super + 80) (free_inode_count s4 nd)
      in put64 s5 (super + 88) (free_page_count s5 nd))"

definition format_two_nodes :: "'a nvm_scheme \<Rightarrow> u64 \<Rightarrow> u64 \<Rightarrow> u64 \<Rightarrow> 'a nvm_scheme" where
  "format_two_nodes s end_bdev stop bpi =
     (let super = rdfs_get_super s;
          s1 = put8 s (super + 48) 1;
          s2 = put64 s1 (super + 104) end_bdev;
          s3 = put64 s2 (super + 112) (rdfs_va s2 rdfs_NUMA_LINE);
          s4 = snd (rdfs_init_numa s3 (rdfs_pa s3 end_bdev) rdfs_NUMA_LINE bpi);
          s5 = snd (rdfs_init_numa s4 rdfs_NUMA_LINE stop bpi);
          p0 = s_numa_des s5 0;
          p1 = s_numa_des s5 1;
          s6 = put64 s5 (super + 80) (free_inode_count s5 p0 + free_inode_count s5 p1)
      in put64 s6 (super + 88) (free_page_count s6 p0 + free_page_count s6 p1))"

text \<open>The slot of the root directory.\<close>

definition format_root :: "'k kenv_scheme \<Rightarrow> 'a nvm_scheme \<Rightarrow> 'a nvm_scheme" where
  "format_root k s =
     (let root_i = get_rdfs_inode s RDFS_ROOT_INO;
          s1 = put32 s (root_i + 4) (ucast (sbi_mode (sbi s) OR S_IFDIR) :: u32);
          s2 = put32 s1 (root_i + 44) (sbi_uid (sbi s));
          s3 = put32 s2 (root_i + 48) (sbi_gid (sbi s));
          s4 = put32 s3 (root_i + 8) 2;
          s5 = put64 s4 (root_i + 88) root_i;
          s6 = put64 s5 (root_i + 96) root_i;
          s7 = snd (rdfs_init_pg_table s6 (this_cpu k) RDFS_ROOT_INO)
      in rdfs_sync_inode k s7 root_i)"

text \<open>Result: the error or the root slot, and the super block's \<open>s_blocksize_bits\<close>. The stacks of the block devices are mapped
  through the kernel's own page tables and are not part of this model: \<open>None\<close> when there is a block device,
  or when the block size makes \<open>rdfs_set_blocksize\<close> shift by -1.\<close>

definition rdfs_nvm_init ::
  "'k kenv_scheme \<Rightarrow> 'a nvm_scheme \<Rightarrow> u64 \<Rightarrow> u64 \<Rightarrow> ((int + u64) \<times> nat \<times> 'a nvm_scheme) option" where
  "rdfs_nvm_init k s sz end_bdev =
     (if virt_addr (sbi s) = 0 then Some (Inl (- EINVAL), s_blocksize_bits k, s)
      else do {
        (bits, blocksize) \<leftarrow> rdfs_set_blocksize (if sbi_blocksize (sbi s) = 0 then 4096 else sbi_blocksize (sbi s));
        let s1 = (if sbi_blocksize (sbi s) \<noteq> 0 \<and> sbi_blocksize (sbi s) \<noteq> blocksize
                  then s\<lparr>sbi := (sbi s)\<lparr>sbi_blocksize := blocksize\<rparr>\<rparr> else s);
        if sz < blocksize then Some (Inl (- EINVAL), bits, s1)
        else if bdev_count (sbi s1) \<noteq> 0 then None
        else
          let bpi = (if sbi_bpi (sbi s1) = 0 then 1 else sbi_bpi (sbi s1));
              super = rdfs_get_super s1;
              s2 = put16 (put32 (put64 s1 (super + 96) sz) (super + 64) (ucast blocksize :: u32)) (super + 50) RDFS_SUPER_MAGIC;
              physaddr = rdfs_pa s2 (virt_addr (sbi s2));
              s3 = (if physaddr + sz < rdfs_NUMA_LINE \<or> rdfs_NUMA_LINE < physaddr
                    then format_one_node s2 end_bdev (physaddr + sz) bpi
                    else format_two_nodes s2 end_bdev (physaddr + sz) bpi);
              s4 = format_root k (rdfs_sync_super k s3 super);
              root_1 = get_rdfs_inode s4 2;
              s5 = (if s_numa_flag s4 \<noteq> 0 then put64 (put64 s4 (root_1 + 88) root_1) (root_1 + 96) root_1 else s4)
          in Some (Inr (get_rdfs_inode s5 RDFS_ROOT_INO), bits, s5)
      })"

section \<open>Statistics and options shown\<close>

record kstatfs =
  f_type :: u64
  f_bsize :: u64
  f_blocks :: u64
  f_bfree :: u64
  f_bavail :: u64
  f_files :: u64
  f_namelen :: nat

definition rdfs_statfs :: "'k kenv_scheme \<Rightarrow> 'a nvm_scheme \<Rightarrow> kstatfs" where
  "rdfs_statfs k s =
     (let ns = rdfs_get_super s
      in \<lparr>f_type = ucast RDFS_SUPER_MAGIC, f_bsize = s_blocksize k, f_blocks = ld64 (mem s) (ns + 88),
          f_bfree = rdfs_count_free_blocks s, f_bavail = rdfs_count_free_blocks s,
          f_files = ld64 (mem s) (ns + 80), f_namelen = 128\<rparr>)"

text \<open>What \<open>rdfs_show_options\<close> prints, in order, without the number formats.\<close>

datatype shown =
  Show_physaddr u64 | Show_init u64 | Show_bs u64 | Show_bpi u64 | Show_N u64 | Show_mode u16 | Show_uid u32 | Show_gid u32
| Show_errors_ro | Show_errors_panic

definition show_if :: "bool \<Rightarrow> shown \<Rightarrow> shown list" where
  "show_if b x = (if b then [x] else [])"

definition rdfs_show_options :: "rdfs_sb_info \<Rightarrow> shown list" where
  "rdfs_show_options sb =
     [Show_physaddr (phy_addr sb)]
     @ show_if (initsize sb \<noteq> 0) (Show_init (drop_bit 10 (initsize sb)))
     @ show_if (sbi_blocksize sb \<noteq> 0) (Show_bs (sbi_blocksize sb))
     @ show_if (sbi_bpi sb \<noteq> 0) (Show_bpi (sbi_bpi sb))
     @ show_if (num_inodes sb \<noteq> 0) (Show_N (num_inodes sb))
     @ show_if (sbi_mode sb \<noteq> 0x3ff) (Show_mode (sbi_mode sb))
     @ show_if (sbi_uid sb \<noteq> 0) (Show_uid (sbi_uid sb))
     @ show_if (sbi_gid sb \<noteq> 0) (Show_gid (sbi_gid sb))
     @ show_if (s_mount_opt sb AND 0x20 \<noteq> 0) Show_errors_ro
     @ show_if (s_mount_opt sb AND 0x40 \<noteq> 0) Show_errors_panic"

text \<open>\<open>rdfs_alloc_inode\<close> clears the file system's part of what the slab cache hands out.\<close>

definition rdfs_alloc_inode :: "inode option \<Rightarrow> inode option" where
  "rdfs_alloc_inode cached =
     map_option (\<lambda>vi. vi\<lparr>info := \<lparr>in_state = 0, in_file_acl = 0, in_flags = 0, in_dir_acl = 0, in_dtime = 0, i_virt_addr = 0,
       mapping_count = 0, pre_bitmap = None, used_bitmap_list = []\<rparr>\<rparr>) cached"

section \<open>What the options may set\<close>

definition opts_ok :: "rdfs_sb_info \<Rightarrow> bool" where
  "opts_ok sb \<longleftrightarrow> sbi_blocksize sb \<in> {0, 4096, 8192} \<and> sbi_mode sb \<le> 0x3ff"

text \<open>What no option changes, and what no option of a remount changes.\<close>

definition opts_frame :: "bool \<Rightarrow> rdfs_sb_info \<Rightarrow> rdfs_sb_info \<Rightarrow> bool" where
  "opts_frame rm sb sb' \<longleftrightarrow>
     virt_addr sb' = virt_addr sb \<and> phy_addr sb' = phy_addr sb \<and> bdev_count sb' = bdev_count sb \<and> sbi_bpi sb' = sbi_bpi sb \<and>
     (rm \<longrightarrow> sbi_blocksize sb' = sbi_blocksize sb \<and> initsize sb' = initsize sb \<and> num_inodes sb' = num_inodes sb \<and>
       sbi_uid sb' = sbi_uid sb)"

lemma bit_12_below_8192:
  assumes "(4096 :: u64) \<le> w" and "w < 8192"
  shows "bit w 12"
proof -
  have "unat w div 4096 = 1" using assms by (simp add: word_le_nat_alt word_less_nat_alt div_nat_eqI)
  then have "odd (unat w div 2 ^ 12)" by simp
  then have "bit (unat w) 12" by (simp add: bit_iff_odd)
  then show ?thesis by (simp add: bit_unsigned_iff)
qed

lemma power_of_2_block:
  assumes "4096 \<le> bs" and "bs \<le> 8192" and "is_power_of_2 bs"
  shows "bs \<in> {4096, 8192}"
proof (rule ccontr)
  assume n: "bs \<notin> {4096, 8192}"
  have b: "4096 < bs" "bs < 8192" using assms(1,2) n by (auto simp: order.strict_iff_order)
  then have "4096 \<le> bs - 1" "bs - 1 < 8192"
    by (simp_all add: word_le_nat_alt word_less_nat_alt unat_sub)
  then have "bit (bs AND (bs - 1)) 12" using bit_12_below_8192 [of bs] bit_12_below_8192 [of "bs - 1"] b
    by (simp add: bit_and_iff)
  then show False using assms(3) by (auto simp: is_power_of_2_def)
qed

lemmas option_splits = option.split_asm prod.split_asm if_split_asm

lemma parse_option_ok:
  assumes "parse_option e rm p sb = (err, sb')"
  shows "err \<in> {0, - EINVAL}" "err = 0 \<Longrightarrow> opts_ok sb \<Longrightarrow> opts_ok sb'" "opts_frame rm sb sb'"
proof -
  obtain tk arg where t: "match_token e tokens p = (tk, arg)" by fastforce
  note d = assms [unfolded parse_option_def t Let_def prod.case]
  show "err \<in> {0, - EINVAL}" using d by (cases tk) (simp_all split: option_splits)
  show "opts_frame rm sb sb'" using d by (cases tk) (auto simp: opts_frame_def split: option_splits)
  have m: "(w :: u16) AND 0x3ff \<le> 0x3ff" for w by (rule word_and_le1)
  show "opts_ok sb'" if "err = 0" "opts_ok sb"
    using d that power_of_2_block [of "memparse e arg"] m
    by (cases tk) (auto simp: opts_ok_def consts_eval not_less split: option_splits)
qed

lemma parse_loop_ok:
  assumes "parse_loop e rm ps sb = (err, sb')"
  shows "err \<in> {0, - EINVAL} \<and> (err = 0 \<longrightarrow> opts_ok sb \<longrightarrow> opts_ok sb') \<and> opts_frame rm sb sb'"
  using assms
proof (induction ps arbitrary: sb)
  case (Cons p ps)
  obtain er sb1 where o: "parse_option e rm p sb = (er, sb1)" by fastforce
  note p = parse_option_ok [OF o]
  consider "p = []" | "p \<noteq> []" "er = 0" | "p \<noteq> []" "er \<noteq> 0" by blast
  then show ?case
  proof cases
    case 1
    then have "parse_loop e rm ps sb = (err, sb')" using Cons.prems by simp
    from Cons.IH [OF this] show ?thesis .
  next
    case 2
    then have "parse_loop e rm ps sb1 = (err, sb')" using Cons.prems o by simp
    from Cons.IH [OF this] show ?thesis using p(2,3) 2(2) by (simp add: opts_frame_def)
  qed (use Cons.prems o p in simp)
qed (simp add: opts_frame_def)

lemma set_blocksize_values:
  "rdfs_set_blocksize 4096 = Some (12, 4096)" "rdfs_set_blocksize 8192 = Some (13, 8192)"
  by (simp_all add: rdfs_set_blocksize_def fls.simps)

section \<open>What formatting establishes\<close>

text \<open>An image for one node: \<open>sz\<close> bytes that wrap neither physically nor virtually, a super block page before the descriptor
  at \<open>end_bdev\<close>, an area fit for \<open>rdfs_init_numa\<close> with three pages at least.\<close>

definition one_node_image :: "'a nvm_scheme \<Rightarrow> u64 \<Rightarrow> u64 \<Rightarrow> bool" where
  "one_node_image s sz end_bdev \<longleftrightarrow>
     (let phys = phy_addr (sbi s); virt = virt_addr (sbi s); start = rdfs_pa s end_bdev; stop = phys + sz
      in virt \<noteq> 0 \<and> bdev_count (sbi s) = 0 \<and> sbi_bpi (sbi s) = 0 \<and> sbi_blocksize (sbi s) \<in> {0, 4096} \<and>
         unat phys + unat sz < 2 ^ 62 \<and> unat virt + unat sz < 2 ^ 64 \<and>
         (stop < rdfs_NUMA_LINE \<or> rdfs_NUMA_LINE < phys) \<and> unat phys + 4096 \<le> unat start \<and>
         area_ok start stop 1 \<and> 3 \<le> unat (numa_pages start stop 1))"

text \<open>A state that holds a formatted area, with a super block that describes it.\<close>

definition formatted :: "'a nvm_scheme \<Rightarrow> u64 \<Rightarrow> u64 \<Rightarrow> 'a nvm_scheme \<Rightarrow> bool" where
  "formatted s0 start stop s \<longleftrightarrow> sbi s = sbi s0 \<and> s_numa_flag s = 0 \<and> s_numa_des s 0 = rdfs_va s0 start \<and>
     (\<forall>x \<in> region (rdfs_va s0 start) (unat stop - unat start). mem s x = numa_chains s0 start stop 1 x)"

definition formatted_page :: "u64 \<Rightarrow> u64 \<Rightarrow> nat \<Rightarrow> u64" where
  "formatted_page start stop i = numa_first_page start stop 1 + of_nat i * 4096"

text \<open>The geometry of a node area behind the super block page.\<close>

definition one_node :: "'a nvm_scheme \<Rightarrow> u64 \<Rightarrow> u64 \<Rightarrow> bool" where
  "one_node s start stop \<longleftrightarrow> area_ok start stop 1 \<and> unat (phy_addr (sbi s)) + 4096 \<le> unat start \<and> unat stop < 2 ^ 62 \<and>
     0 < unat (virt_addr (sbi s)) \<and> unat (virt_addr (sbi s)) + (unat stop - unat (phy_addr (sbi s))) < 2 ^ 64"

lemma page_range:
  assumes "one_node s start stop" and "i < unat (numa_pages start stop 1)"
  defines "p \<equiv> formatted_page start stop i"
  shows "unat p = unat (numa_first_page start stop 1) + i * 4096" "unat start + 256 \<le> unat p" "unat p + 4096 \<le> unat stop"
    "page_aligned p"
proof -
  have area: "area_ok start stop 1" and st: "unat stop < 2 ^ 62" using assms(1) by (simp_all add: one_node_def)
  note b = numa_first_page_bounds [OF area] numa_pages_bound [OF area]
  show u: "unat p = unat (numa_first_page start stop 1) + i * 4096"
    using b(4) st assms(2) unat_mult_less [of i "unat (numa_pages start stop 1)" 4096]
    by (simp add: p_def formatted_page_def unat_word_ariths)
  show "unat start + 256 \<le> unat p" "unat p + 4096 \<le> unat stop" using u b(1,4) assms(2) by simp_all
  show "page_aligned p" using b(3) by (simp add: page_aligned_iff u)
qed

lemma page_offset:
  assumes "one_node s start stop" and "i < unat (numa_pages start stop 1)"
  defines "p \<equiv> formatted_page start stop i"
  shows "rdfs_va s p = virt_addr (sbi s) + (p - phy_addr (sbi s))"
    "unat (p - phy_addr (sbi s)) = unat p - unat (phy_addr (sbi s))"
    "rdfs_va s p = rdfs_va s start + (p - start)" "unat (p - start) = unat p - unat start"
proof -
  have "unat (phy_addr (sbi s)) \<le> unat p" "unat start \<le> unat p"
    using page_range(2) [OF assms(1,2)] assms(1) by (simp_all add: p_def one_node_def)
  then show "unat (p - phy_addr (sbi s)) = unat p - unat (phy_addr (sbi s))" "unat (p - start) = unat p - unat start"
    by (simp_all add: unat_sub word_le_nat_alt)
qed (simp_all add: rdfs_va_def)

lemma page_in_area:
  assumes "one_node s start stop" and "i < unat (numa_pages start stop 1)"
  shows "region (rdfs_va s (formatted_page start stop i)) 4096 \<subseteq> region (rdfs_va s start) (unat stop - unat start)"
  unfolding page_offset(3) [OF assms]
  by (rule region_sub) (use page_offset(4) [OF assms] page_range(2,3) [OF assms] in simp)

lemma page_apart:
  assumes "one_node s start stop" and "i < unat (numa_pages start stop 1)"
  shows "apart (rdfs_va s (formatted_page start stop i)) 4096 (virt_addr (sbi s)) 4096"
    "apart (rdfs_va s (formatted_page start stop i)) 4096 (rdfs_va s start) 256"
proof -
  let ?p = "formatted_page start stop i"
  note o = page_offset [OF assms] and r = page_range(2,3) [OF assms]
  have f: "unat (phy_addr (sbi s)) + 4096 \<le> unat start" "unat stop < 2 ^ 62" using assms(1) by (simp_all add: one_node_def)
  have "4096 \<le> unat (?p - phy_addr (sbi s))" "unat (?p - phy_addr (sbi s)) + 4096 \<le> 2 ^ 64"
    unfolding o(2) using r f by simp_all
  then show "apart (rdfs_va s ?p) 4096 (virt_addr (sbi s)) 4096"
    unfolding o(1) using apart_offsets(2) [of 0 4096 "?p - phy_addr (sbi s)" 4096 "virt_addr (sbi s)"] by simp
  have "256 \<le> unat (?p - start)" "unat (?p - start) + 4096 \<le> 2 ^ 64" unfolding o(4) using r f by simp_all
  then show "apart (rdfs_va s ?p) 4096 (rdfs_va s start) 256"
    unfolding o(3) using apart_offsets(2) [of 0 256 "?p - start" 4096 "rdfs_va s start"] by simp
qed

lemma page_phys:
  assumes "one_node s start stop" and "i < unat (numa_pages start stop 1)"
  defines "p \<equiv> formatted_page start stop i"
  shows "phys_page p" "p \<noteq> 0" "rdfs_va s p \<noteq> 0" "unat (rdfs_va s p) + 4096 \<le> 2 ^ 64"
proof -
  note o = page_offset [OF assms(1,2), folded p_def] and r = page_range(2-4) [OF assms(1,2), folded p_def]
  have f: "unat (phy_addr (sbi s)) + 4096 \<le> unat start" "unat stop < 2 ^ 62" "0 < unat (virt_addr (sbi s))"
    "unat (virt_addr (sbi s)) + (unat stop - unat (phy_addr (sbi s))) < 2 ^ 64"
    using assms(1) by (simp_all add: one_node_def)
  have l: "unat (virt_addr (sbi s)) + (unat p - unat (phy_addr (sbi s))) + 4096 < 2 ^ 64" using r(1,2) f(1,4) by linarith
  then have u: "unat (rdfs_va s p) = unat (virt_addr (sbi s)) + (unat p - unat (phy_addr (sbi s)))"
    unfolding o(1) by (simp add: unat_word_ariths o(2))
  show "phys_page p" using r(2,3) f(2) by (intro phys_pageI) simp_all
  show "p \<noteq> 0" using r(1) by auto
  have "0 < unat (rdfs_va s p)" using u f(3) by simp
  then show "rdfs_va s p \<noteq> 0" by (simp add: unat_gt_0)
  show "unat (rdfs_va s p) + 4096 \<le> 2 ^ 64" using u l by simp
qed

lemma formatted_lists:
  assumes "one_node s0 start stop" and "formatted s0 start stop s"
  shows "free_page_list s (rdfs_va s0 start) = map (formatted_page start stop) [0..<unat (numa_pages start stop 1)]"
proof -
  let ?s1 = "s0\<lparr>mem := numa_chains s0 start stop 1\<rparr>"
  have area: "area_ok start stop 1" using assms(1) by (simp add: one_node_def)
  have l: "free_page_list ?s1 (rdfs_va s0 start) = map (formatted_page start stop) [0..<unat (numa_pages start stop 1)]"
    unfolding numa_chains_pages [OF area] formatted_page_def by (rule refl)
  have big: "256 \<le> unat stop - unat start" using area unfolding area_ok_def by linarith
  have eq: "mem s x = mem ?s1 x" if "x \<in> region (rdfs_va s0 start) (unat stop - unat start)" for x
    using assms(2) that by (simp add: formatted_def)
  have ld: "ld64 (mem s) (rdfs_va s0 start + k) = ld64 (mem ?s1) (rdfs_va s0 start + k)" if "unat k + 8 \<le> 256" for k
    using region_sub [OF that, of "rdfs_va s0 start"] region_mono [OF big, of "rdfs_va s0 start"]
    by (intro load_agree eq) auto
  have "free_page_list s (rdfs_va s0 start) = free_page_list ?s1 (rdfs_va s0 start)"
  proof (rule free_page_list_cong)
    show "sbi s = sbi ?s1" using assms(2) by (simp add: formatted_def)
    show "free_page_count s (rdfs_va s0 start) = free_page_count ?s1 (rdfs_va s0 start)"
      "free_page_phy s (rdfs_va s0 start) = free_page_phy ?s1 (rdfs_va s0 start)" by (rule ld; simp)+
    fix x assume "x \<in> set (free_page_list ?s1 (rdfs_va s0 start))"
    then obtain i where i: "i < unat (numa_pages start stop 1)" "x = formatted_page start stop i" unfolding l by auto
    have "region (rdfs_va s0 x) 8 \<subseteq> region (rdfs_va s0 start) (unat stop - unat start)"
      using page_in_area [OF assms(1) i(1)] region_mono [of 8 4096 "rdfs_va s0 x"] i(2) by auto
    then show "ld64 (mem s) (rdfs_va ?s1 x) = ld64 (mem ?s1) (rdfs_va ?s1 x)" by (intro load_agree eq) auto
  qed
  then show ?thesis using l by simp
qed

lemma formatted_inv:
  assumes "one_node s0 start stop" and "formatted s0 start stop s"
  shows "pages_inv s" "free_page_set s = formatted_page start stop ` {..<unat (numa_pages start stop 1)}"
    "outside_pool s (region (rdfs_va s0 start + 128) 128)"
proof -
  note l = formatted_lists [OF assms]
  have f: "sbi s = sbi s0" "s_numa_flag s = 0" "s_numa_des s 0 = rdfs_va s0 start"
    using assms(2) by (simp_all add: formatted_def)
  have va: "rdfs_va s = rdfs_va s0" by (intro ext) (simp add: rdfs_va_def f)
  have o: "rdfs_va s0 start = virt_addr (sbi s0) + (start - phy_addr (sbi s0))"
    "unat (start - phy_addr (sbi s0)) = unat start - unat (phy_addr (sbi s0))"
    "4096 \<le> unat (start - phy_addr (sbi s0))" "unat (start - phy_addr (sbi s0)) + 4096 \<le> 2 ^ 64"
  proof -
    have a: "unat (phy_addr (sbi s0)) + 4096 \<le> unat start" "unat start \<le> unat stop" "unat stop < 2 ^ 62"
      using assms(1) by (simp_all add: one_node_def area_ok_def word_le_nat_alt)
    then show "unat (start - phy_addr (sbi s0)) = unat start - unat (phy_addr (sbi s0))"
      by (simp add: unat_sub word_le_nat_alt)
    then show "4096 \<le> unat (start - phy_addr (sbi s0))" "unat (start - phy_addr (sbi s0)) + 4096 \<le> 2 ^ 64"
      using a by simp_all
  qed (simp add: rdfs_va_def)
  have sup: "apart (virt_addr (sbi s0)) 128 (rdfs_va s0 start) 256"
    unfolding o(1) using apart_offsets(1) [of 0 128 "start - phy_addr (sbi s0)" 256 "virt_addr (sbi s0)"] o(3,4) by simp
  have meta: "meta_ok s" using apart_mono [OF sup, of 128 128] by (simp add: meta_ok_def rdfs_get_super_def f)
  have page: "page_ok s (formatted_page start stop i)" if "i < unat (numa_pages start stop 1)" for i
    using page_phys [OF assms(1) that] apart_mono [OF page_apart(1) [OF assms(1) that], of 4096 128]
      apart_mono [OF page_apart(2) [OF assms(1) that], of 4096 128]
    by (simp add: page_ok_def va meta_areas_def node_ids_def rdfs_get_super_def f)
  have inj: "i = j" if "i < unat (numa_pages start stop 1)" "j < unat (numa_pages start stop 1)"
      "formatted_page start stop i = formatted_page start stop j" for i j
  proof -
    have "unat (numa_first_page start stop 1) + i * 4096 = unat (numa_first_page start stop 1) + j * 4096"
      using arg_cong [OF that(3), of unat]
      unfolding page_range(1) [OF assms(1) that(1)] page_range(1) [OF assms(1) that(2)] .
    then show ?thesis by linarith
  qed
  have d: "distinct (map (formatted_page start stop) [0..<unat (numa_pages start stop 1)])"
    unfolding distinct_map by (auto intro!: inj_onI inj)
  have "node_pages_ok s 0"
    unfolding node_pages_ok_def f(3) l list_all_iff using d page by (auto simp: rdfs_get_phys_numa_id_def f(2))
  then show "pages_inv s" using meta by (simp add: pages_inv_def node_ids_def f(2))
  show fs: "free_page_set s = formatted_page start stop ` {..<unat (numa_pages start stop 1)}"
    unfolding free_page_set_def node_ids_def f(2) by (simp add: f(3) l atLeast0LessThan)
  have "region (rdfs_va s0 p) 4096 \<inter> region (rdfs_va s0 start + 128) 128 = {}" if "p \<in> free_page_set s" for p
    using that apart_sub(2) [OF page_apart(2) [OF assms(1)], of _ 4096 128 128] unfolding fs by (auto simp: disjoint_iff)
  moreover have "region (virt_addr (sbi s0)) 128 \<inter> region (rdfs_va s0 start + 128) 128 = {}"
    using apart_sub(2) [OF sup] by simp
  moreover have "region (rdfs_va s0 start) 128 \<inter> region (rdfs_va s0 start + 128) 128 = {}" by (rule field_disj0) simp_all
  ultimately show "outside_pool s (region (rdfs_va s0 start + 128) 128)"
    by (simp add: outside_pool_def in_use_def node_ids_def f va rdfs_get_super_def)
qed

text \<open>The super block page is all that the super block writes touch, the node area all that formatting the node touches.\<close>

definition header_one_node :: "'a nvm_scheme \<Rightarrow> u64 \<Rightarrow> u64 \<Rightarrow> 'a nvm_scheme" where
  "header_one_node s sz end_bdev =
     (let super = virt_addr (sbi s)
      in put64 (put64 (put8 (put16 (put32 (put64 s (super + 96) sz) (super + 64) 4096) (super + 50) RDFS_SUPER_MAGIC)
           (super + 48) 0) (super + 104) end_bdev) (super + 112) 0)"

lemma header_one_node_fields:
  shows "sbi (header_one_node s sz e) = sbi s" "mem (header_one_node s sz e) (virt_addr (sbi s) + 48) = 0"
    "ld64 (mem (header_one_node s sz e)) (virt_addr (sbi s) + 104) = e"
  by (simp_all add: header_one_node_def Let_def load_store_disj region_simps store_apart store_at)

lemma one_node_imageD:
  assumes "one_node_image s sz end_bdev"
  shows "one_node s (rdfs_pa s end_bdev) (phy_addr (sbi s) + sz)"
    "3 \<le> unat (numa_pages (rdfs_pa s end_bdev) (phy_addr (sbi s) + sz) 1)"
proof -
  note i = assms [unfolded one_node_image_def Let_def]
  have "unat (phy_addr (sbi s) + sz) = unat (phy_addr (sbi s)) + unat sz" using i by (simp add: unat_word_ariths)
  then show "one_node s (rdfs_pa s end_bdev) (phy_addr (sbi s) + sz)" using i by (simp add: one_node_def unat_gt_0)
  show "3 \<le> unat (numa_pages (rdfs_pa s end_bdev) (phy_addr (sbi s) + sz) 1)" using i by simp
qed

text \<open>The super block page lies before the node area.\<close>

lemma super_before_area:
  assumes "one_node s start stop"
  shows "region (virt_addr (sbi s)) 4096 \<inter> region (rdfs_va s start) (unat stop - unat start) = {}"
proof -
  have a: "unat (phy_addr (sbi s)) + 4096 \<le> unat start" "unat start \<le> unat stop" "unat stop < 2 ^ 62"
    using assms by (simp_all add: one_node_def area_ok_def word_le_nat_alt)
  have u: "unat (start - phy_addr (sbi s)) = unat start - unat (phy_addr (sbi s))"
    using a(1) by (simp add: unat_sub word_le_nat_alt)
  have "region (virt_addr (sbi s)) 4096 \<inter> region (virt_addr (sbi s) + (start - phy_addr (sbi s))) (unat stop - unat start) = {}"
    by (rule field_disj0; unfold u) (use a in simp_all)
  then show ?thesis by (simp add: rdfs_va_def add.commute)
qed

text \<open>The writes to the super block page after the node is formatted.\<close>

definition seal_super :: "'k kenv_scheme \<Rightarrow> 'a nvm_scheme \<Rightarrow> 'a nvm_scheme" where
  "seal_super k s =
     (let super = virt_addr (sbi s); nd = s_numa_des s 0; s1 = put64 s (super + 80) (free_inode_count s nd)
      in rdfs_sync_super k (put64 s1 (super + 88) (free_page_count s1 nd)) super)"

lemma seal_super_outside:
  "sbi (seal_super k s) = sbi s"
  "x \<notin> region (virt_addr (sbi s)) 4096 \<Longrightarrow> mem (seal_super k s) x = mem s x"
  by (simp_all add: seal_super_def rdfs_sync_super_def Let_def consts_eval store_outside store_bytes_outside notin_region_sub)

lemma seal_super_inside:
  assumes "x \<in> region (virt_addr (sbi s)) 56 \<or> x \<in> region (virt_addr (sbi s) + 96) 32"
  shows "mem (seal_super k s) x = mem s x"
proof -
  have "x \<notin> region (virt_addr (sbi s) + i) n" if "56 \<le> unat i" "unat i + n \<le> 96 \<or> 128 \<le> unat i \<and> unat i + n \<le> 2 ^ 64" for i n
    using assms that field_disj0(1) [of 56 i n "virt_addr (sbi s)"] field_disj [of 96 32 i n "virt_addr (sbi s)"]
    by (auto simp: disjoint_iff)
  then show ?thesis
    by (simp add: seal_super_def rdfs_sync_super_def Let_def consts_eval store_outside store_bytes_outside)
qed

lemma seal_super_formatted:
  assumes "one_node s start stop" and "s_numa_flag s = 0" and "s_numa_des s 0 = rdfs_va s start"
  shows "formatted s start stop (seal_super k (s\<lparr>mem := numa_chains s start stop 1\<rparr>))" (is "formatted s start stop ?s5")
proof -
  let ?s4 = "s\<lparr>mem := numa_chains s start stop 1\<rparr>" and ?V = "virt_addr (sbi s)"
  have area: "area_ok start stop 1" using assms(1) by (simp add: one_node_def)
  note d = super_before_area [OF assms(1)]
  have sup: "mem ?s5 x = mem s x" if "x \<in> region ?V 56 \<or> x \<in> region (?V + 96) 32" for x
  proof -
    have "x \<in> region ?V 4096" using that region_sub [of 96 32 4096 ?V] region_mono [of 56 4096 ?V] by auto
    then have "numa_chains s start stop 1 x = mem s x" using d by (intro numa_chains_outside [OF area]) blast
    then show ?thesis using seal_super_inside [of x ?s4 k] that by simp
  qed
  have "mem ?s5 (?V + 48) = mem s (?V + 48)" by (rule sup) (simp add: region_iff)
  moreover have "ld64 (mem ?s5) (?V + 104) = ld64 (mem s) (?V + 104)"
    using region_sub [of 8 8 32 "?V + 96"] by (intro load_agree sup) (auto simp: add.commute [of 104])
  moreover have "mem ?s5 x = numa_chains s start stop 1 x" if "x \<in> region (rdfs_va s start) (unat stop - unat start)" for x
    using that d seal_super_outside(2) [of x ?s4 k] by auto
  ultimately show ?thesis
    using assms(2,3) by (simp add: formatted_def s_numa_flag_def s_numa_des_def rdfs_get_super_def seal_super_outside(1))
qed

lemma format_one_node_eq:
  assumes "one_node s start stop" and "sbi s1 = sbi s" and "start = rdfs_pa s end_bdev"
    and "s = put64 (put64 (put8 s1 (virt_addr (sbi s) + 48) 0) (virt_addr (sbi s) + 104) end_bdev) (virt_addr (sbi s) + 112) 0"
  shows "rdfs_sync_super k (format_one_node s1 end_bdev stop 1) (virt_addr (sbi s)) =
    seal_super k (s\<lparr>mem := numa_chains s start stop 1\<rparr>)"
proof -
  have area: "area_ok start stop 1" using assms(1) by (simp add: one_node_def)
  have s: "put64 (put64 (put8 s1 (virt_addr (sbi s) + 48) 0) (virt_addr (sbi s) + 104) end_bdev) (virt_addr (sbi s) + 112) 0 = s"
    by (rule assms(4) [symmetric])
  show ?thesis
    unfolding format_one_node_def seal_super_def Let_def rdfs_get_super_def assms(2) s assms(3) [symmetric]
      rdfs_init_numa_eq [OF area] snd_conv
    by simp
qed

text \<open>The first slot is blank.\<close>

lemma root_slot_blank:
  assumes "area_ok start stop pct" and "x \<in> region (rdfs_va s start + 128) 128"
  shows "numa_chains s start stop pct x = 0"
proof -
  let ?nd = "rdfs_va s start"
  have x: "x \<in> region ?nd 256" using region_sub [of 128 128 256 ?nd] assms(2) by auto
  then have b: "x \<in> region ?nd (256 + unat (numa_inodes start stop pct) * 128)" by (simp add: region_iff)
  have "region (?nd + 128) 128 \<inter> region (?nd + i) 8 = {}" if "unat i + 8 \<le> 128" for i
    using that by (intro field_disj) simp
  then have "x \<notin> region (?nd + i) 8" if "unat i + 8 \<le> 128" for i using that assms(2) by blast
  from this [of 0] this [of 8] this [of 16] this [of 24] have "numa_header s start stop pct x = 0"
    by (simp add: numa_header_def Let_def store_outside memset_inside [OF x])
  then show ?thesis using numa_page_fill_below [OF assms(1) b] numa_header_slot_fill [OF assms(1) x] by (simp add: numa_chains_def Let_def)
qed

text \<open>The slot before its table is made.\<close>

definition root_attrs :: "'a nvm_scheme \<Rightarrow> u64 \<Rightarrow> 'a nvm_scheme" where
  "root_attrs s root_i =
     put64 (put64 (put32 (put32 (put32 (put32 s (root_i + 4) (ucast (sbi_mode (sbi s) OR S_IFDIR) :: u32))
       (root_i + 44) (sbi_uid (sbi s))) (root_i + 48) (sbi_gid (sbi s))) (root_i + 8) 2)
       (root_i + 88) root_i) (root_i + 96) root_i"

lemma root_attrs_outside:
  "sbi (root_attrs s ni) = sbi s" "x \<notin> region ni 128 \<Longrightarrow> mem (root_attrs s ni) x = mem s x"
  by (simp_all add: root_attrs_def store_outside notin_region_sub)

lemma root_attrs_fields:
  "ld32 (mem (root_attrs s ni)) (ni + 4) = (ucast (sbi_mode (sbi s) OR S_IFDIR) :: u32)"
  "ld32 (mem (root_attrs s ni)) (ni + 8) = (2 :: u32)"
  "ld64 (mem (root_attrs s ni)) (ni + 64) = (ld64 (mem s) (ni + 64) :: u64)"
  by (simp_all add: root_attrs_def load_store_disj region_simps)

lemma format_root_eq:
  "format_root k s = rdfs_sync_inode k
     (snd (rdfs_init_pg_table (root_attrs s (get_rdfs_inode s 1)) (this_cpu k) 1)) (get_rdfs_inode s 1)"
  by (simp add: format_root_def root_attrs_def Let_def RDFS_ROOT_INO_def)

lemma sync_inode_effect:
  "sbi (rdfs_sync_inode k s ni) = sbi s" "x \<notin> region ni 4 \<Longrightarrow> mem (rdfs_sync_inode k s ni) x = mem s x"
  "rdfs_calc_checksum (crc32 k) (mem (rdfs_sync_inode k s ni)) ni 128 = 0"
proof -
  have d: "x \<notin> region ni 4" if "x \<in> region (ni + 4) 124" for x
    using that field_disj0(1) [of 4 4 124 ni] by (auto simp: disjoint_iff)
  have "load_bytes (store 4 m ni w) (ni + 4) 124 = load_bytes m (ni + 4) 124" for m and w :: u32
    by (rule load_bytes_agree) (simp_all add: d store_outside)
  then show "rdfs_calc_checksum (crc32 k) (mem (rdfs_sync_inode k s ni)) ni 128 = 0"
    by (simp add: rdfs_calc_checksum_def rdfs_sync_inode_def Let_def)
qed (simp_all add: rdfs_sync_inode_def Let_def store_outside)

lemma format_root_effect:
  assumes inv: "pages_inv s" and out: "outside_pool s (region ni 128)" and ni: "ni = get_rdfs_inode s 1"
    and three: "3 \<le> length (free_page_list s (get_cpu_numa s (this_cpu k)))"
  shows "same_super s (format_root k s) \<and>
    (\<exists>pud pmd pte. file_inv (format_root k s) 1 (chain_tree pud pmd pte) \<and> {pud, pmd, pte} \<subseteq> free_page_set s \<and>
       free_page_set (format_root k s) = free_page_set s - {pud, pmd, pte}) \<and>
    rdfs_calc_checksum (crc32 k) (mem (format_root k s)) ni 128 = 0 \<and>
    ld32 (mem (format_root k s)) (ni + 4) = (ucast (sbi_mode (sbi s) OR S_IFDIR) :: u32) \<and>
    ld32 (mem (format_root k s)) (ni + 8) = (2 :: u32) \<and> ld64 (mem (format_root k s)) (ni + 64) = (ld64 (mem s) (ni + 64) :: u64)"
proof -
  define s1 where "s1 = root_attrs s ni"
  obtain err s2 where i: "rdfs_init_pg_table s1 (this_cpu k) 1 = (err, s2)" by fastforce
  have e: "format_root k s = rdfs_sync_inode k s2 ni" unfolding format_root_eq ni [symmetric] s1_def [symmetric] i by simp
  have w1: "foreign_write s (region ni 128) s1"
    using inv out by (simp add: foreign_write_def s1_def root_attrs_outside)
  note ss1 = foreign_write_super [OF w1] and inv1 = foreign_write_inv [OF w1] and fs1 = foreign_write_free_set [OF w1]
  have gi1: "get_rdfs_inode s1 1 = ni" using same_super_eqs(11) [OF ss1] ni by simp
  have out1: "outside_pool s1 (region (ni + j) n)" if "unat j + n \<le> 128" for j n
    using outside_pool_mono [OF outside_pool_same [OF ss1 _ out] region_sub [OF that]] fs1 by simp
  have l1: "free_page_list s1 (get_cpu_numa s1 (this_cpu k)) = free_page_list s (get_cpu_numa s (this_cpu k))"
    using foreign_write_list [OF w1 in_use_cpu] same_super_eqs(9) [OF ss1] by simp
  obtain pud pmd pte where t: "pages_inv s2" "same_super s1 s2" "file_inv s2 1 (chain_tree pud pmd pte)"
      "{pud, pmd, pte} \<subseteq> free_page_set s1" "free_page_set s2 = free_page_set s1 - {pud, pmd, pte}"
    using init_pg_table_effect [OF inv1, of 1 "this_cpu k"] out1 [of 72 8] three
    unfolding i prod.case l1 pg_word_def gi1 by auto
  have gi2: "get_rdfs_inode s2 1 = ni" using same_super_eqs(11) [OF t(2)] gi1 by simp
  have out2: "outside_pool s2 (region ni 4)" using outside_pool_same [OF t(2) _ out1 [of 0 4]] t(5) by auto
  have w3: "foreign_write s2 (region ni 4) (rdfs_sync_inode k s2 ni)"
    using t(1) out2 by (simp add: foreign_write_def sync_inode_effect)
  have keep: "mem s2 x = mem s1 x" if "x \<in> region ni 72" for x
  proof (rule init_pg_table_frame [OF inv1 i _ _ that])
    show "outside_pool s1 (region ni 72)" using out1 [of 0 72] by simp
    show "pg_word s1 1 \<inter> region ni 72 = {}" unfolding pg_word_def gi1 by (rule field_disj0(2)) simp_all
  qed
  have f: "load n (mem (rdfs_sync_inode k s2 ni)) (ni + j) = load n (mem s1) (ni + j)" if "4 \<le> unat j" "unat j + n \<le> 72" for j n
  proof (rule load_agree)
    fix x assume x: "x \<in> region (ni + j) n"
    have "region ni 4 \<inter> region (ni + j) n = {}" using that by (intro field_disj0(1)) simp_all
    then have "x \<notin> region ni 4" using x by blast
    moreover have "x \<in> region ni 72" using x region_sub [OF that(2), of ni] by blast
    ultimately show "mem (rdfs_sync_inode k s2 ni) x = mem s1 x" using keep by (simp add: sync_inode_effect)
  qed (use that in simp)
  have "file_inv (rdfs_sync_inode k s2 ni) 1 (chain_tree pud pmd pte)"
  proof (rule file_frame(1) [OF t(3) w3])
    show "pg_word s2 1 \<inter> region ni 4 = {}" unfolding pg_word_def gi2 by (rule field_disj0(2)) simp_all
    have "p \<in> free_page_set s1" if "p \<in> ran (chain_tree pud pmd pte)" for p
      using that t(4) by (auto simp: chain_tree_def ran_def split: if_splits)
    then show "\<forall>p \<in> ran (chain_tree pud pmd pte). region (rdfs_va s2 p) 4096 \<inter> region ni 4 = {}"
      using out1 [of 0 4] same_super_eqs(1) [OF t(2)] unfolding outside_pool_def by simp
  qed
  moreover have "same_super s (rdfs_sync_inode k s2 ni)"
    using same_super_trans [OF ss1 same_super_trans [OF t(2) foreign_write_super [OF w3]]] .
  moreover have "free_page_set (rdfs_sync_inode k s2 ni) = free_page_set s - {pud, pmd, pte}"
    using foreign_write_free_set [OF w3] t(5) fs1 by simp
  ultimately show ?thesis
    unfolding e using t(4) fs1 by (auto simp: f s1_def sync_inode_effect root_attrs_fields)
qed

section \<open>Properties\<close>

text \<open>C30. Option parsing keeps the mount information within bounds: it returns 0 or \<open>-EINVAL\<close>, never touches the mapping of
  the image, and an accepted option string leaves a mode of ten bits and a block size that \<open>rdfs_set_blocksize\<close> turns into 12 or
  13 bits, the size it was given; a remount changes neither the block size nor the size, the owner or the inode count.\<close>

theorem parse_options_bounds:
  assumes "opts_ok sb" and "rdfs_parse_options e options sb rm = (err, sb')"
  shows "err \<in> {0, - EINVAL} \<and> opts_frame rm sb sb' \<and>
    (err = 0 \<longrightarrow> sbi_mode sb' \<le> 0x3ff \<and>
       (sbi_blocksize sb' \<noteq> 0 \<longrightarrow> rdfs_set_blocksize (sbi_blocksize sb') \<in>
          {Some (12, sbi_blocksize sb'), Some (13, sbi_blocksize sb')}))"
proof (cases options)
  case None
  then show ?thesis using assms set_blocksize_values
    by (auto simp: rdfs_parse_options_def opts_ok_def opts_frame_def)
next
  case (Some xs)
  then have "parse_loop e rm (strsep_all xs) sb = (err, sb')" using assms(2) by (simp add: rdfs_parse_options_def)
  from parse_loop_ok [OF this] assms(1) show ?thesis by (auto simp: opts_ok_def set_blocksize_values)
qed

definition example_opts :: opt_env where
  "example_opts = \<lparr>match_token = (\<lambda>t p. if take 3 p = ''bs='' then (Opt_blocksize, drop 3 p) else (Opt_err, [])),
     match_int = (\<lambda>_. None), match_octal = (\<lambda>_. None), memparse = (\<lambda>x. if x = ''8192'' then 8192 else 0), kstrtoull = (\<lambda>_. None),
     make_kuid = (\<lambda>i. (word_of_int i, True)), make_kgid = (\<lambda>i. (word_of_int i, True))\<rparr>"

theorem parse_options_bounds_witness:
  "case rdfs_parse_options example_opts (Some ''bs=8192'') example_sbi False of (err, sb') \<Rightarrow>
     err = 0 \<and> sbi_mode sb' \<le> 0x3ff \<and> sbi_blocksize sb' = 8192"
proof -
  have e: "rdfs_parse_options example_opts (Some ''bs=8192'') example_sbi False = (0, example_sbi\<lparr>sbi_blocksize := 8192\<rparr>)"
    by (simp add: rdfs_parse_options_def strsep_all.simps cut_def parse_option_def example_opts_def is_power_of_2_def
        isdigit_def first_char_def consts_eval)
  have "opts_ok example_sbi" by (simp add: opts_ok_def example_sbi_def)
  from parse_options_bounds [OF this e] show ?thesis by (simp add: e)
qed

lemma nvm_init_steps:
  fixes k :: "'k kenv_scheme" and s :: "'a nvm_scheme"
  assumes "one_node_image s sz end_bdev"
  defines "s3 \<equiv> header_one_node s sz end_bdev"
  defines "s6 \<equiv> format_root k (seal_super k (s3\<lparr>mem := numa_chains s3 (rdfs_pa s end_bdev) (phy_addr (sbi s) + sz) 1\<rparr>))"
  assumes "s_numa_flag s6 = 0"
  shows "rdfs_nvm_init k s sz end_bdev = Some (Inr (get_rdfs_inode s6 1), 12, s6)"
proof -
  note i = assms(1) [unfolded one_node_image_def Let_def]
  let ?V = "virt_addr (sbi s)" and ?stop = "phy_addr (sbi s) + sz"
  define s2 where "s2 = put16 (put32 (put64 s (?V + 96) sz) (?V + 64) 4096) (?V + 50) RDFS_SUPER_MAGIC"
  note h = header_one_node_fields(1) [of s sz end_bdev, folded s3_def]
  have one: "one_node s3 (rdfs_pa s end_bdev) ?stop" using one_node_imageD(1) [OF assms(1)] by (simp add: one_node_def h)
  have pa3: "rdfs_pa s end_bdev = rdfs_pa s3 end_bdev" by (simp add: rdfs_pa_def h)
  have "s3 = put64 (put64 (put8 s2 (virt_addr (sbi s3) + 48) 0) (virt_addr (sbi s3) + 104) end_bdev) (virt_addr (sbi s3) + 112) 0"
    unfolding h by (simp add: s2_def s3_def header_one_node_def Let_def)
  from format_one_node_eq [OF one _ pa3 this, of k]
  have seal: "rdfs_sync_super k (format_one_node s2 end_bdev ?stop 1) ?V =
      seal_super k (s3\<lparr>mem := numa_chains s3 (rdfs_pa s end_bdev) ?stop 1\<rparr>)"
    unfolding h by (simp add: s2_def)
  have bs: "rdfs_set_blocksize (if sbi_blocksize (sbi s) = 0 then 4096 else sbi_blocksize (sbi s)) = Some (12, 4096)"
    using i by (auto simp: set_blocksize_values)
  have sz: "\<not> sz < 4096"
  proof -
    have a: "unat (rdfs_pa s end_bdev) \<le> unat ?stop" "unat (phy_addr (sbi s)) + 4096 \<le> unat (rdfs_pa s end_bdev)"
      "unat (phy_addr (sbi s)) + unat sz < 2 ^ 62" using i unfolding area_ok_def word_le_nat_alt by blast+
    have "unat ?stop = unat (phy_addr (sbi s)) + unat sz" using a(3) by (simp add: unat_word_ariths)
    then have "4096 \<le> unat sz" using a(1,2) by linarith
    then show ?thesis by (simp add: word_less_nat_alt)
  qed
  have pa: "rdfs_pa s2 ?V = phy_addr (sbi s)" "sbi s2 = sbi s" by (simp_all add: rdfs_pa_def s2_def)
  have line: "?stop < rdfs_NUMA_LINE \<or> rdfs_NUMA_LINE < phy_addr (sbi s)" using i by blast
  have c: "(virt_addr (sbi s) = 0) = False" "(bdev_count (sbi s) \<noteq> 0) = False" "(sbi_bpi (sbi s) = 0) = True"
    "(sbi_blocksize (sbi s) \<noteq> 0 \<and> sbi_blocksize (sbi s) \<noteq> 4096) = False" "(sz < 4096) = False"
    "(?stop < rdfs_NUMA_LINE \<or> rdfs_NUMA_LINE < phy_addr (sbi s)) = True" "(s_numa_flag s6 \<noteq> 0) = False"
    using i sz assms(4) by auto
  have uc: "(ucast (4096 :: u64) :: u32) = 4096" by simp
  show ?thesis
    unfolding rdfs_nvm_init_def rdfs_get_super_def bs Option.bind.bind_lunit prod.case Let_def c if_False if_True uc
      s2_def [symmetric] pa seal s6_def [symmetric] RDFS_ROOT_INO_def ..
qed

text \<open>C10. Formatting an image for one node leaves a file system that the rest of the code can work on: the allocator's
  invariant holds, the free pages are those of the area but three, these three form the empty page table of the root directory,
  and \<open>rdfs_read_inode\<close> accepts the root slot and finds an empty directory, number 1, with two links and the
  mode of the mount options.\<close>

theorem nvm_init_formats:
  assumes "one_node_image s sz end_bdev"
  shows "\<exists>s' pud pmd pte dir. rdfs_nvm_init k s sz end_bdev = Some (Inr (end_bdev + 128), 12, s') \<and>
    pages_inv s' \<and> file_inv s' 1 (chain_tree pud pmd pte) \<and>
    free_page_set s' = formatted_page (rdfs_pa s end_bdev) (phy_addr (sbi s) + sz) `
      {..<unat (numa_pages (rdfs_pa s end_bdev) (phy_addr (sbi s) + sz) 1)} - {pud, pmd, pte} \<and>
    rdfs_read_inode k s' blank (end_bdev + 128) = (0, dir, False) \<and>
    i_ino dir = 1 \<and> i_mode dir = sbi_mode (sbi s) OR S_IFDIR \<and> i_nlink dir = 2 \<and> i_size dir = 0"
proof -
  define start where "start = rdfs_pa s end_bdev"
  define stop where "stop = phy_addr (sbi s) + sz"
  define s3 where "s3 = header_one_node s sz end_bdev"
  define s5 where "s5 = seal_super k (s3\<lparr>mem := numa_chains s3 start stop 1\<rparr>)"
  note h = header_one_node_fields [of s sz end_bdev, folded s3_def]
  have va: "rdfs_va s3 start = end_bdev" by (simp add: start_def rdfs_va_def rdfs_pa_def h)
  have one: "one_node s3 start stop"
    using one_node_imageD(1) [OF assms] by (simp add: one_node_def h start_def stop_def)
  have des: "s_numa_flag s3 = 0" "s_numa_des s3 0 = rdfs_va s3 start"
    using h va by (simp_all add: s_numa_flag_def s_numa_des_def rdfs_get_super_def)
  have f: "formatted s3 start stop s5" unfolding s5_def by (rule seal_super_formatted [OF one des])
  note inv = formatted_inv [OF one f, unfolded va] and l = formatted_lists [OF one f, unfolded va]
  have s5: "sbi s5 = sbi s" "s_numa_flag s5 = 0" "s_numa_des s5 0 = end_bdev" using f va h by (simp_all add: formatted_def)
  have ni: "end_bdev + 128 = get_rdfs_inode s5 1" by (simp add: get_rdfs_inode_def s5 consts_eval)
  have cpu: "get_cpu_numa s5 (this_cpu k) = end_bdev" by (simp add: get_cpu_numa_def s5)
  have three: "3 \<le> length (free_page_list s5 (get_cpu_numa s5 (this_cpu k)))"
    using one_node_imageD(2) [OF assms] by (simp add: cpu l start_def stop_def)
  note r = format_root_effect [OF inv(1,3) ni three]
  have ss: "same_super s5 (format_root k s5)" using r by blast
  have gi: "get_rdfs_inode (format_root k s5) 1 = end_bdev + 128" using same_super_eqs(11) [OF ss] ni by simp
  have flag: "s_numa_flag (format_root k s5) = 0" "s_numa_des (format_root k s5) 0 = end_bdev"
    using ss s5 by (simp_all add: same_super_def)
  have eq: "rdfs_nvm_init k s sz end_bdev = Some (Inr (end_bdev + 128), 12, format_root k s5)"
    using nvm_init_steps [OF assms, of k] flag(1) gi by (simp add: s5_def s3_def start_def stop_def)
  have z: "ld64 (mem s5) (end_bdev + 128 + 64) = (0 :: u64)"
  proof (rule load_zero)
    fix x assume x: "x \<in> region (end_bdev + 128 + 64) 8"
    have "region (end_bdev + 128 + 64) 8 \<subseteq> region (end_bdev + 128) 128" by (rule region_sub) simp
    then have "x \<in> region (rdfs_va s3 start + 128) 128" unfolding va using x by (rule subsetD)
    moreover have "x \<in> region (rdfs_va s3 start) (unat stop - unat start)"
    proof -
      have "200 \<le> unat stop - unat start" using one unfolding one_node_def area_ok_def by linarith
      then have "region (end_bdev + 192) 8 \<subseteq> region end_bdev (unat stop - unat start)" by (intro region_sub) simp
      moreover have "end_bdev + 128 + 64 = end_bdev + 192" by simp
      ultimately have "x \<in> region end_bdev (unat stop - unat start)" using x by (simp only: subset_iff)
      then show ?thesis unfolding va .
    qed
    moreover have "area_ok start stop 1" using one unfolding one_node_def by blast
    ultimately show "mem s5 x = 0" using f root_slot_blank [of start stop 1 x s3] unfolding formatted_def by simp
  qed simp
  define s6 where "s6 = format_root k s5"
  note r = r [folded s6_def] and flag = flag [folded s6_def]
  have sb: "sbi s6 = sbi s" using ss s5 by (simp add: s6_def same_super_def)
  have nr: "get_rdfs_inodenr s6 (rdfs_pa s6 (end_bdev + 128)) = 1"
    by (simp add: get_rdfs_inodenr_def flag rdfs_pa_def consts_eval)
  have w: "ld32 (mem s6) (end_bdev + 128 + 4) = (ucast (sbi_mode (sbi s) OR S_IFDIR) :: u32)"
    "ld32 (mem s6) (end_bdev + 128 + 8) = (2 :: u32)" "ld64 (mem s6) (end_bdev + 128 + 64) = (0 :: u64)"
    using r unfolding s5(1) z by blast+
  have mode: "i_mode (read_attrs (mem s6) (end_bdev + 128) blank) = sbi_mode (sbi s) OR S_IFDIR"
    unfolding read_attrs_def w mode_word by simp
  have attrs: "i_nlink (read_attrs (mem s6) (end_bdev + 128) blank) = 2" "i_size (read_attrs (mem s6) (end_bdev + 128) blank) = 0"
    unfolding read_attrs_def w by simp_all
  have ck: "rdfs_calc_checksum (crc32 k) (mem s6) (end_bdev + 128) 128 = 0" using r by blast
  obtain dir where dir: "rdfs_read_inode k s6 blank (end_bdev + 128) = (0, dir, False)" "i_ino dir = 1"
      "i_mode dir = sbi_mode (sbi s) OR S_IFDIR" "i_nlink dir = 2" "i_size dir = 0"
    by (simp add: rdfs_read_inode_def Let_def rdfs_set_inode_flags_def read_info_def nr ck mode attrs)
  obtain pud pmd pte where t: "file_inv s6 1 (chain_tree pud pmd pte)" "free_page_set s6 = free_page_set s5 - {pud, pmd, pte}"
    using r by blast
  have "pages_inv s6" using t(1) unfolding file_inv_def by blast
  then show ?thesis
    using eq dir t unfolding s6_def [symmetric] start_def [symmetric] stop_def [symmetric] inv(2) by blast
qed

definition example_format :: nvm where
  "example_format = \<lparr>sbi = example_sbi\<lparr>sbi_bpi := 0\<rparr>, mem = (\<lambda>_. 0xff)\<rparr>"

theorem nvm_init_formats_witness:
  "\<exists>s' pud pmd pte dir. rdfs_nvm_init example_kenv example_format 0x100000 0xffffc90000004000 =
      Some (Inr 0xffffc90000004080, 12, s') \<and> pages_inv s' \<and> file_inv s' 1 (chain_tree pud pmd pte) \<and>
    rdfs_read_inode example_kenv s' example_file 0xffffc90000004080 = (0, dir, False) \<and> i_mode dir = 0x43ff \<and> i_nlink dir = 2"
proof -
  have a: "area_ok 0x1800004000 0x1800100000 1" "numa_pages 0x1800004000 0x1800100000 1 = 249"
    by (simp_all add: area_ok_def numa_inodes_def numa_pages_def numa_first_page_def consts_eval)
  have s: "virt_addr (sbi example_format) = 0xffffc90000000000" "phy_addr (sbi example_format) = 0x1800000000"
    "sbi_mode (sbi example_format) = 0x3ff" "rdfs_pa example_format 0xffffc90000004000 = 0x1800004000"
    by (simp_all add: example_format_def example_sbi_def rdfs_pa_def)
  have "one_node_image example_format 0x100000 0xffffc90000004000"
    unfolding one_node_image_def Let_def s
    using a by (simp add: example_format_def example_sbi_def consts_eval)
  note f = nvm_init_formats [OF this, of example_kenv example_file]
  have e: "(0xffffc90000004000 :: u64) + 128 = 0xffffc90000004080" "(0x3ff :: u16) OR S_IFDIR = 0x43ff" by (simp_all add: S_IFDIR_def)
  from f show ?thesis unfolding s e by (elim exE conjE) (intro exI conjI, assumption+)
qed

end
