(* ===== verification/Namei.thy ===== *)
theory Namei
  imports Dir Mount Disk_Pool
begin

text \<open>
  Operations on names (\<open>rdfs_master/namei.c\<close>, \<open>symlink.c\<close>) and mounting as a whole (\<open>rdfs_fill_super\<close> of
  \<open>super.c\<close>).

  The in-memory inodes live in a table of the state, indexed by inode number, so that an operation that gets the same directory
  twice, as a renaming within one directory does, works on one object. \<open>None\<close> is a fault or a loop that does not end.
  Directory-cache operations (\<open>d_instantiate\<close>, \<open>unlock_new_inode\<close>) change nothing the model has.
\<close>

section \<open>In-memory inodes\<close>

record vfs = kern +
  icache :: "u64 \<Rightarrow> inode"

text \<open>What the VFS decides: whether dropping a reference evicts the inode, what \<open>iget_locked\<close> finds, which device numbers are
  valid, what \<open>readlink_copy\<close> returns for a link and a buffer length, and the value of uninitialised variables.\<close>

record nenv = kenv +
  iput_evicts :: "inode \<Rightarrow> bool"
  iget_lock :: "u64 \<Rightarrow> iget_locked"
  new_valid_dev :: "u32 \<Rightarrow> bool"
  readlink_copy :: "int \<Rightarrow> u8 list \<Rightarrow> int"
  junk_page :: u64

definition set_inode :: "'a vfs_scheme \<Rightarrow> u64 \<Rightarrow> inode \<Rightarrow> 'a vfs_scheme" where
  "set_inode s i inode = s\<lparr>icache := (icache s)(i := inode)\<rparr>"

definition mark_inode_dirty :: "'a vfs_scheme \<Rightarrow> u64 \<Rightarrow> 'a vfs_scheme" where
  "mark_inode_dirty s i = rdfs_dirty_inode s (icache s i)"

definition inc_nlink :: "'a vfs_scheme \<Rightarrow> u64 \<Rightarrow> 'a vfs_scheme" where
  "inc_nlink s i = set_inode s i ((icache s i)\<lparr>i_nlink := i_nlink (icache s i) + 1\<rparr>)"

definition drop_nlink :: "'a vfs_scheme \<Rightarrow> u64 \<Rightarrow> 'a vfs_scheme" where
  "drop_nlink s i = set_inode s i ((icache s i)\<lparr>i_nlink := i_nlink (icache s i) - 1\<rparr>)"

definition inode_inc_link_count :: "'a vfs_scheme \<Rightarrow> u64 \<Rightarrow> 'a vfs_scheme" where
  "inode_inc_link_count s i = mark_inode_dirty (inc_nlink s i) i"

definition inode_dec_link_count :: "'a vfs_scheme \<Rightarrow> u64 \<Rightarrow> 'a vfs_scheme" where
  "inode_dec_link_count s i = mark_inode_dirty (drop_nlink s i) i"

text \<open>An operation on one inode, applied to the table.\<close>

definition on_inode ::
  "('a vfs_scheme \<Rightarrow> inode \<Rightarrow> ('r \<times> inode \<times> 'a vfs_scheme) option) \<Rightarrow> 'a vfs_scheme \<Rightarrow> u64 \<Rightarrow> ('r \<times> 'a vfs_scheme) option" where
  "on_inode f s i = map_option (\<lambda>(r, inode, s'). (r, set_inode s' i inode)) (f s (icache s i))"

definition map_dir :: "'k nenv_scheme \<Rightarrow> 'a vfs_scheme \<Rightarrow> u64 \<Rightarrow> (int \<times> 'a vfs_scheme) option" where
  "map_dir k = on_inode (establish k)"

definition unmap_dir :: "'a vfs_scheme \<Rightarrow> u64 \<Rightarrow> (int \<times> 'a vfs_scheme) option" where
  "unmap_dir = on_inode rdfs_destroy_mapping"

definition find_in :: "'a vfs_scheme \<Rightarrow> u64 \<Rightarrow> u8 list \<Rightarrow> (u64 \<times> u64) option option" where
  "find_in s dir name = do {
     v \<leftarrow> dir_window s (icache s dir);
     rdfs_find_entry2 v (i_virt_addr (info (icache s dir))) (dir_size (icache s dir)) name
   }"

definition link_in :: "'k nenv_scheme \<Rightarrow> 'a vfs_scheme \<Rightarrow> u64 \<Rightarrow> u8 list \<Rightarrow> u64 \<Rightarrow> (int \<times> 'a vfs_scheme) option" where
  "link_in k s dir name ino = on_inode (\<lambda>s d. rdfs_add_link k s d name (icache s ino) (junk_page k)) s dir"

definition delete_in :: "'k nenv_scheme \<Rightarrow> 'a vfs_scheme \<Rightarrow> u64 \<Rightarrow> u64 \<Rightarrow> u64 \<Rightarrow> (int \<times> 'a vfs_scheme) option" where
  "delete_in k s dir de prev = on_inode (\<lambda>s d. delete_entry k s d de prev) s dir"

definition relink_in :: "'k nenv_scheme \<Rightarrow> 'a vfs_scheme \<Rightarrow> u64 \<Rightarrow> u64 \<Rightarrow> u64 \<Rightarrow> bool \<Rightarrow> 'a vfs_scheme option" where
  "relink_in k s dir de ino update_times = do {
     (d, s1) \<leftarrow> rdfs_set_link k s (icache s dir) de (icache s ino) update_times;
     Some (set_inode s1 dir d)
   }"

definition empty_in :: "'a vfs_scheme \<Rightarrow> u64 \<Rightarrow> int option" where
  "empty_in s dir = do {
     v \<leftarrow> dir_window s (icache s dir);
     rdfs_empty_dir v (i_virt_addr (info (icache s dir))) (dir_size (icache s dir)) (i_ino (icache s dir))
   }"

definition iput :: "'k nenv_scheme \<Rightarrow> 'a vfs_scheme \<Rightarrow> u64 \<Rightarrow> 'a vfs_scheme option" where
  "iput k s i =
     (if iput_evicts k (icache s i) then do {
        (inode, s1) \<leftarrow> rdfs_evict_inode k s False (icache s i);
        Some (set_inode s1 i inode)
      } else Some s)"

text \<open>A new inode enters the table under its number.\<close>

definition new_inode_in :: "'k nenv_scheme \<Rightarrow> 'a vfs_scheme \<Rightarrow> u64 \<Rightarrow> u16 \<Rightarrow> ((int + u64) \<times> 'a vfs_scheme) option" where
  "new_inode_in k s dir mode = do {
     (r, s1) \<leftarrow> rdfs_new_inode k s (icache s dir) mode;
     Some (case r of Inl err \<Rightarrow> (Inl err, s1) | Inr inode \<Rightarrow> (Inr (i_ino inode), set_inode s1 (i_ino inode) inode))
   }"

section \<open>Creating\<close>

definition rdfs_add_nondir ::
  "'k nenv_scheme \<Rightarrow> 'a vfs_scheme \<Rightarrow> u64 \<Rightarrow> u8 list \<Rightarrow> u64 \<Rightarrow> (int \<times> 'a vfs_scheme) option" where
  "rdfs_add_nondir k s dir name ino = do {
     (err, s1) \<leftarrow> link_in k s dir name ino;
     if err = 0 then Some (0, s1)
     else do {
       s2 \<leftarrow> iput k (inode_dec_link_count s1 ino) ino;
       Some (err, s2)
     }
   }"

definition RDFS_NAME_LEN :: nat where [consts_eval]: "RDFS_NAME_LEN = 255"
definition ESTALE :: int where [consts_eval]: "ESTALE = 116"

text \<open>The error, or the inode found, if any, as \<open>d_splice_alias\<close> gets it.\<close>

definition rdfs_lookup ::
  "'k nenv_scheme \<Rightarrow> 'a vfs_scheme \<Rightarrow> u64 \<Rightarrow> u8 list \<Rightarrow> ((int + inode option) \<times> 'a vfs_scheme) option" where
  "rdfs_lookup k s dir name =
     (if RDFS_NAME_LEN < length name then Some (Inl (- ENAMETOOLONG), s)
      else do {
        (ino, s1) \<leftarrow> on_inode (\<lambda>s d. rdfs_inode_by_name k s d name) s dir;
        if ino = 0 then Some (Inr None, s1)
        else do {
          (r, _) \<leftarrow> rdfs_iget k s1 (iget_lock k ino) ino;
          Some (case r of
            Inl err \<Rightarrow> (Inl (if err = - ESTALE then - EIO else err), s1)
          | Inr inode \<Rightarrow> (Inr (Some inode), set_inode s1 ino inode))
        }
      })"

definition rdfs_create ::
  "'k nenv_scheme \<Rightarrow> 'a vfs_scheme \<Rightarrow> u64 \<Rightarrow> u8 list \<Rightarrow> u16 \<Rightarrow> (int \<times> 'a vfs_scheme) option" where
  "rdfs_create k s dir name mode = do {
     (r, s1) \<leftarrow> new_inode_in k s dir mode;
     case r of
       Inl err \<Rightarrow> Some (err, s1)
     | Inr ino \<Rightarrow> do {
         (_, s2) \<leftarrow> map_dir k (mark_inode_dirty s1 ino) dir;
         (_, s3) \<leftarrow> rdfs_add_nondir k s2 dir name ino;
         unmap_dir s3 dir
       }
   }"

text \<open>\<open>d_tmpfile\<close> drops the link that \<open>rdfs_new_inode\<close> has counted.\<close>

definition rdfs_tmpfile :: "'k nenv_scheme \<Rightarrow> 'a vfs_scheme \<Rightarrow> u64 \<Rightarrow> u16 \<Rightarrow> (int \<times> 'a vfs_scheme) option" where
  "rdfs_tmpfile k s dir mode = do {
     (r, s1) \<leftarrow> new_inode_in k s dir mode;
     Some (case r of Inl err \<Rightarrow> (err, s1) | Inr ino \<Rightarrow> (0, inode_dec_link_count s1 ino))
   }"

definition rdfs_mknod ::
  "'k nenv_scheme \<Rightarrow> 'a vfs_scheme \<Rightarrow> u64 \<Rightarrow> u8 list \<Rightarrow> u16 \<Rightarrow> u32 \<Rightarrow> (int \<times> 'a vfs_scheme) option" where
  "rdfs_mknod k s dir name mode rdev =
     (if \<not> new_valid_dev k rdev then Some (- EINVAL, s)
      else do {
        (r, s1) \<leftarrow> new_inode_in k s dir mode;
        case r of
          Inl err \<Rightarrow> Some (err, s1)
        | Inr ino \<Rightarrow> rdfs_add_nondir k (mark_inode_dirty s1 ino) dir name ino
      })"

definition rdfs_page_symlink :: "'k nenv_scheme \<Rightarrow> 'a vfs_scheme \<Rightarrow> u64 \<Rightarrow> u8 list \<Rightarrow> (int \<times> 'a vfs_scheme) option" where
  "rdfs_page_symlink k s ino symname = do {
     (err, s1) \<leftarrow> on_inode (\<lambda>s i. rdfs_alloc_blocks k s i 1 0 ALLOC_PAGE (junk_page k)) s ino;
     if err \<noteq> 0 then Some (err, s1)
     else do {
       (_, s2) \<leftarrow> map_dir k s1 ino;
       s3 \<leftarrow> vstore s2 (i_virt_addr (info (icache s2 ino))) (symname @ [0]);
       (_, s4) \<leftarrow> unmap_dir s3 ino;
       Some (0, s4)
     }
   }"

definition rdfs_symlink ::
  "'k nenv_scheme \<Rightarrow> 'a vfs_scheme \<Rightarrow> u64 \<Rightarrow> u8 list \<Rightarrow> u8 list \<Rightarrow> (int \<times> 'a vfs_scheme) option" where
  "rdfs_symlink k s dir name symname =
     (if unat (s_blocksize k) < length symname + 1 then Some (- ENAMETOOLONG, s)
      else do {
        (r, s1) \<leftarrow> new_inode_in k s dir (S_IFLNK OR 0x1ff);
        case r of
          Inl err \<Rightarrow> Some (err, s1)
        | Inr ino \<Rightarrow> do {
            (err, s2) \<leftarrow> rdfs_page_symlink k s1 ino symname;
            if err \<noteq> 0 then do {
              s3 \<leftarrow> iput k (inode_dec_link_count s2 ino) ino;
              Some (err, s3)
            }
            else do {
              let s3 = set_inode s2 ino ((icache s2 ino)\<lparr>i_size := int (length symname)\<rparr>);
              let s4 = snd (rdfs_write_inode s3 (icache s3 ino));
              (_, s5) \<leftarrow> map_dir k s4 dir;
              (err1, s6) \<leftarrow> rdfs_add_nondir k s5 dir name ino;
              (_, s7) \<leftarrow> unmap_dir s6 dir;
              Some (err1, s7)
            }
          }
      })"

text \<open>The target is the string of the page up to its first zero byte.\<close>

definition rdfs_readlink :: "'k nenv_scheme \<Rightarrow> 'a vfs_scheme \<Rightarrow> u64 \<Rightarrow> int \<Rightarrow> (int \<times> 'a vfs_scheme) option" where
  "rdfs_readlink k s ino buflen = do {
     (_, s1) \<leftarrow> map_dir k s ino;
     let va = i_virt_addr (info (icache s1 ino));
     v \<leftarrow> window s1 va 4096;
     let err = readlink_copy k buflen (takeWhile (\<lambda>c. c \<noteq> 0) (load_bytes v va 4096));
     (_, s2) \<leftarrow> unmap_dir s1 ino;
     Some (err, s2)
   }"

section \<open>Linking and unlinking\<close>

definition rdfs_link :: "'k nenv_scheme \<Rightarrow> 'a vfs_scheme \<Rightarrow> u64 \<Rightarrow> u64 \<Rightarrow> u8 list \<Rightarrow> (int \<times> 'a vfs_scheme) option" where
  "rdfs_link k s ino dir name = do {
     let s1 = inode_inc_link_count (set_inode s ino ((icache s ino)\<lparr>i_ctime := current_time k\<rparr>)) ino;
     (_, s2) \<leftarrow> map_dir k s1 dir;
     (err, s3) \<leftarrow> link_in k s2 dir name ino;
     s4 \<leftarrow> (if err = 0 then Some s3 else iput k (inode_dec_link_count s3 ino) ino);
     (_, s5) \<leftarrow> unmap_dir s4 dir;
     Some (err, s5)
   }"

definition rdfs_unlink :: "'k nenv_scheme \<Rightarrow> 'a vfs_scheme \<Rightarrow> u64 \<Rightarrow> u8 list \<Rightarrow> u64 \<Rightarrow> (int \<times> 'a vfs_scheme) option" where
  "rdfs_unlink k s dir name ino = do {
     (_, s1) \<leftarrow> map_dir k s dir;
     r \<leftarrow> find_in s1 dir name;
     (err, s2) \<leftarrow> (case r of
         None \<Rightarrow> Some (- ENOENT, s1)
       | Some (de, pde) \<Rightarrow> do {
           (err, s') \<leftarrow> delete_in k s1 dir de pde;
           if err \<noteq> 0 then Some (err, s')
           else Some (0, inode_dec_link_count
                  (set_inode s' ino ((icache s' ino)\<lparr>i_ctime := i_ctime (icache s' dir)\<rparr>)) ino)
         });
     (_, s3) \<leftarrow> unmap_dir s2 dir;
     Some (err, s3)
   }"

section \<open>Directories\<close>

definition rdfs_mkdir ::
  "'k nenv_scheme \<Rightarrow> 'a vfs_scheme \<Rightarrow> u64 \<Rightarrow> u8 list \<Rightarrow> u16 \<Rightarrow> (int \<times> 'a vfs_scheme) option" where
  "rdfs_mkdir k s dir name mode =
     (let fail = (\<lambda>err s ino. do {
            s' \<leftarrow> iput k (inode_dec_link_count (inode_dec_link_count s ino) ino) ino;
            Some (err, inode_dec_link_count s' dir)
          })
      in do {
        (r, s1) \<leftarrow> new_inode_in k (inode_inc_link_count s dir) dir (S_IFDIR OR mode);
        (err, s2) \<leftarrow> (case r of
            Inl err \<Rightarrow> Some (err, inode_dec_link_count s1 dir)
          | Inr ino \<Rightarrow> do {
              (_, s2) \<leftarrow> map_dir k (inode_inc_link_count s1 ino) dir;
              (err, s3) \<leftarrow> on_inode (\<lambda>s i. rdfs_make_empty k s i (i_ino (icache s dir)) (junk_page k)) s2 ino;
              if err \<noteq> 0 then fail err s3 ino
              else do {
                (err1, s4) \<leftarrow> link_in k s3 dir name ino;
                if err1 \<noteq> 0 then fail err1 s4 ino else Some (0, s4)
              }
            });
        (_, s3) \<leftarrow> unmap_dir s2 dir;
        Some (err, s3)
      })"

definition rdfs_rmdir :: "'k nenv_scheme \<Rightarrow> 'a vfs_scheme \<Rightarrow> u64 \<Rightarrow> u8 list \<Rightarrow> u64 \<Rightarrow> (int \<times> 'a vfs_scheme) option" where
  "rdfs_rmdir k s dir name ino = do {
     (_, s1) \<leftarrow> map_dir k s ino;
     e \<leftarrow> empty_in s1 ino;
     (err, s2) \<leftarrow> (if e = 0 then Some (- ENOTEMPTY, s1)
       else do {
         (err, s') \<leftarrow> rdfs_unlink k s1 dir name ino;
         if err \<noteq> 0 then Some (err, s')
         else Some (0, inode_dec_link_count
                (inode_dec_link_count (set_inode s' ino ((icache s' ino)\<lparr>i_size := 0\<rparr>)) ino) dir)
       });
     (_, s3) \<leftarrow> unmap_dir s2 ino;
     Some (err, s3)
   }"

text \<open>The part of \<open>rdfs_rename\<close> that replaces or adds the new name: the error and whether the code leaves through
  \<open>out_new_dir\<close> (1), \<open>out_new_inode\<close> (2) or goes on (0).\<close>

definition rename_target ::
  "'k nenv_scheme \<Rightarrow> 'a vfs_scheme \<Rightarrow> bool \<Rightarrow> u64 \<Rightarrow> u64 \<Rightarrow> u8 list \<Rightarrow> u64 option \<Rightarrow> (int \<times> nat \<times> 'a vfs_scheme) option" where
  "rename_target k s isdir old_inode new_dir new_name target =
     (case target of
        Some ni \<Rightarrow> do {
          (_, s1) \<leftarrow> map_dir k s ni;
          e \<leftarrow> (if isdir then empty_in s1 ni else Some 1);
          if e = 0 then Some (- ENOTEMPTY, 2, s1)
          else do {
            (_, s2) \<leftarrow> map_dir k s1 new_dir;
            r \<leftarrow> find_in s2 new_dir new_name;
            case r of
              None \<Rightarrow> Some (- ENOENT, 1, s2)
            | Some (new_de, _) \<Rightarrow> do {
                s3 \<leftarrow> relink_in k s2 new_dir new_de old_inode True;
                let s4 = set_inode s3 ni ((icache s3 ni)\<lparr>i_ctime := current_time k\<rparr>);
                let s5 = (if isdir then drop_nlink s4 ni else s4);
                Some (0, 0, inode_dec_link_count s5 ni)
              }
          }
        }
      | None \<Rightarrow> do {
          (_, s1) \<leftarrow> map_dir k s new_dir;
          (err, s2) \<leftarrow> link_in k s1 new_dir new_name old_inode;
          if err \<noteq> 0 then Some (err, 1, s2)
          else Some (0, 0, if isdir then inode_inc_link_count s2 new_dir else s2)
        })"

definition unmap_if :: "bool \<Rightarrow> u64 \<Rightarrow> 'a vfs_scheme \<Rightarrow> 'a vfs_scheme option" where
  "unmap_if b i s = (if b then map_option snd (unmap_dir s i) else Some s)"

definition unmap_opt :: "u64 option \<Rightarrow> 'a vfs_scheme \<Rightarrow> 'a vfs_scheme option" where
  "unmap_opt target s = (case target of None \<Rightarrow> Some s | Some i \<Rightarrow> unmap_if True i s)"

definition rdfs_rename ::
  "'k nenv_scheme \<Rightarrow> 'a vfs_scheme \<Rightarrow> u64 \<Rightarrow> u8 list \<Rightarrow> u64 \<Rightarrow> u64 \<Rightarrow> u8 list \<Rightarrow> u64 option \<Rightarrow> (int \<times> 'a vfs_scheme) option" where
  "rdfs_rename k s old_dir old_name old_inode new_dir new_name target = do {
     (_, s1) \<leftarrow> map_dir k s old_dir;
     r \<leftarrow> find_in s1 old_dir old_name;
     case r of
       None \<Rightarrow> do { s2 \<leftarrow> unmap_if True old_dir s1; Some (- ENOENT, s2) }
     | Some _ \<Rightarrow> do {
         let isdir = S_ISDIR (i_mode (icache s1 old_inode));
         s2 \<leftarrow> (if isdir then map_option snd (map_dir k s1 old_inode) else Some s1);
         dir_de \<leftarrow> (if isdir then do {
                       v \<leftarrow> dir_window s2 (icache s2 old_inode);
                       Some (rdfs_dotdot v (i_virt_addr (info (icache s2 old_inode))))
                     } else Some 0);
         (err, out, s3) \<leftarrow> rename_target k s2 isdir old_inode new_dir new_name target;
         if out \<noteq> 0 then do {
           s4 \<leftarrow> unmap_if (out = 1) new_dir s3;
           s5 \<leftarrow> unmap_opt target s4;
           s6 \<leftarrow> unmap_if isdir old_inode s5;
           s7 \<leftarrow> unmap_if True old_dir s6;
           Some (err, s7)
         }
         else do {
           let s4 = mark_inode_dirty (set_inode s3 old_inode ((icache s3 old_inode)\<lparr>i_ctime := current_time k\<rparr>)) old_inode;
           r1 \<leftarrow> find_in s4 old_dir old_name;
           (old_de, old_pde) \<leftarrow> r1;
           (_, s5) \<leftarrow> delete_in k s4 old_dir old_de old_pde;
           s6 \<leftarrow> (if isdir \<and> old_dir \<noteq> new_dir then relink_in k s5 old_inode dir_de new_dir False else Some s5);
           let s7 = (if isdir then inode_dec_link_count s6 old_dir else s6);
           s8 \<leftarrow> unmap_opt target s7;
           s9 \<leftarrow> unmap_if isdir old_inode s8;
           s10 \<leftarrow> unmap_if True old_dir s9;
           s11 \<leftarrow> unmap_if True new_dir s10;
           Some (0, s11)
         }
       }
   }"

section \<open>Mounting\<close>

text \<open>What the kernel answers during a mount.\<close>

record menv = nenv +
  opts :: opt_env
  kzalloc_ok :: bool
  random32 :: u32
  current_fsuid :: u32
  current_fsgid :: u32
  request_mem_region :: "u64 \<Rightarrow> u64 \<Rightarrow> bool"
  ioremap_cache :: "u64 \<Rightarrow> u64 \<Rightarrow> u64"
  open_bdev :: "string \<Rightarrow> u64 option"
  d_make_root_ok :: bool

definition zero_sbi :: rdfs_sb_info where
  "zero_sbi = \<lparr>virt_addr = 0, phy_addr = 0, num_inodes = 0, sbi_blocksize = 0, sbi_inode_size = 0, sbi_bpi = 0, initsize = 0,
     s_mount_opt = 0, sbi_uid = 0, sbi_gid = 0, sbi_mode = 0, next_generation = 0, bdev_count = 0, atomic_bdev_post = 0\<rparr>"

text \<open>\<open>rdfs_init\<close> registers the RDMA client and \<open>rdfs_mapping_address\<close> maps the area for the device: neither touches the
  image.\<close>

definition rdfs_ioremap :: "'k menv_scheme \<Rightarrow> 'a nvm_scheme \<Rightarrow> u64 \<Rightarrow> int \<times> 'a nvm_scheme" where
  "rdfs_ioremap k s sz =
     (if \<not> request_mem_region k (phy_addr (sbi s)) sz then (0, s)
      else
        let va = ioremap_cache k (phy_addr (sbi s)) sz;
            s1 = s\<lparr>sbi := (sbi s)\<lparr>virt_addr := va\<rparr>\<rparr>
        in if va = 0 then (0, s1) else (1, s1))"

text \<open>From \<open>setup_sb\<close> on: the root directory. The result has the root inode's number when there is a root.\<close>

definition setup_sb :: "'k menv_scheme \<Rightarrow> 'a vfs_scheme \<Rightarrow> (int \<times> u64 option \<times> 'a vfs_scheme) option" where
  "setup_sb k s = do {
     let s1 = put64 s (rdfs_get_super s + 120) (virt_addr (sbi s) + PAGE_SIZE);
     (r, _) \<leftarrow> rdfs_iget k s1 (iget_lock k RDFS_ROOT_INO) RDFS_ROOT_INO;
     case r of
       Inl _ \<Rightarrow> None
     | Inr root_i \<Rightarrow> do {
         let s2 = set_inode s1 RDFS_ROOT_INO (root_i\<lparr>i_size := 0\<rparr>);
         (_, s3) \<leftarrow> on_inode (\<lambda>s i. rdfs_make_empty k s i (i_ino i) (junk_page k)) s2 RDFS_ROOT_INO;
         Some (if d_make_root_ok k then (0, Some RDFS_ROOT_INO, s3) else (- ENOMEM, None, s3))
       }
   }"

definition rdfs_fill_super :: "'k menv_scheme \<Rightarrow> 'a vfs_scheme \<Rightarrow> string option \<Rightarrow> (int \<times> u64 option \<times> 'a vfs_scheme) option" where
  "rdfs_fill_super k s0 data =
     (if \<not> kzalloc_ok k then Some (- ENOMEM, None, s0)
      else
        let (phys, data1) = get_phys_addr (opts k) data;
            (sb, data2) = rdfs_get_init_size (opts k) ((set_default_opts zero_sbi)\<lparr>phy_addr := phys\<rparr>) data1
        in if phys = - 1 then Some (0, None, s0\<lparr>sbi := sb\<rparr>)
           else
             let sb1 = sb\<lparr>next_generation := random32 k, sbi_mode := 0x3ff, sbi_uid := current_fsuid k,
                          sbi_gid := current_fsgid k, bdev_count := 0, atomic_bdev_post := 0\<rparr>;
                 (retval, s1) = rdfs_ioremap k (s0\<lparr>sbi := sb1\<rparr>) (initsize sb)
             in if retval = 0 then Some (0, None, s1)
                else
                  let ((bdevs, end_bdev), data3) = (case data2 of
                          None \<Rightarrow> (([], virt_addr (sbi s1) + BDEV_DES_OFFSET), None)
                        | Some xs \<Rightarrow> apsnd Some (rdfs_get_bdev (open_bdev k) s1 xs));
                      s2 = s1\<lparr>sbi := (sbi s1)\<lparr>bdev_count := of_nat (length bdevs)\<rparr>\<rparr>;
                      (err, sb2) = rdfs_parse_options (opts k) data3 (sbi s2) False;
                      s3 = s2\<lparr>sbi := sb2\<rparr>
                  in if err \<noteq> 0 then Some (retval, None, s3)
                     else if initsize sb \<noteq> 0 then do {
                       (r, bits, s4) \<leftarrow> rdfs_nvm_init k s3 (initsize sb) end_bdev;
                       case r of
                         Inl _ \<Rightarrow> Some (retval, None, s4)
                       | Inr _ \<Rightarrow> setup_sb (k\<lparr>s_blocksize_bits := bits\<rparr>) s4
                     }
                     else if virt_addr (sbi s3) = 0 then Some (retval, None, s3)
                     else do {
                       (bits, _) \<leftarrow> rdfs_set_blocksize (ucast (ld32 (mem s3) (rdfs_get_super s3 + 64) :: u32));
                       setup_sb (k\<lparr>s_blocksize_bits := bits\<rparr>) s3
                     })"

end
