(* ===== verification/Link_Counts.thy ===== *)
theory Link_Counts
  imports Namei
begin

text \<open>
  Link counts under the operations on names (\<open>rdfs_link\<close>, \<open>rdfs_unlink\<close>, \<open>rdfs_rmdir\<close>, \<open>rdfs_rename\<close> of \<open>rdfs_master/namei.c\<close>). The
  allocators, the tables and the functions on directory entries do not touch the inodes in memory; mapping and unmapping, adding and
  deleting entries keep the link counts. What is left are the counts that the operations themselves change.
\<close>

section \<open>What does not touch the inodes in memory\<close>

named_theorems icache_frame

lemma new_block_icache [icache_frame]: "rdfs_new_block s cpu n ni = Some (p, s') \<Longrightarrow> icache s' = icache s"
  by (auto simp: rdfs_new_block_def Let_def split: if_splits)

lemma get_zeroed_page_icache [icache_frame]: "icache (snd (rdfs_get_zeroed_page s cpu)) = icache s"
  by (auto simp: rdfs_get_zeroed_page_def icache_frame split: option.splits)

lemma free_block_icache [icache_frame]: "icache (rdfs_free_block s p) = icache s"
  by (simp add: rdfs_free_block_def Let_def)

lemma set_entries_icache [icache_frame]:
  "icache (rdfs_set_pud s a p) = icache s" "icache (rdfs_set_pmd s a p) = icache s" "icache (rdfs_set_pte s a p) = icache s"
  "icache (set_kpud s mm a v) = icache s" "icache (set_kpmd s mm a v) = icache s" "icache (rdfs_pud_populate s mm a p) = icache s"
  by (simp_all add: rdfs_set_pud_def rdfs_set_pmd_def rdfs_set_pte_def set_kpud_def set_kpmd_def rdfs_pud_populate_def)

lemma table_alloc_icache [icache_frame]:
  "icache (snd (rdfs_pmd_alloc s cpu pud a)) = icache s" "icache (snd (rdfs_pte_alloc s cpu pmd a)) = icache s"
  by (auto simp: rdfs_pmd_alloc_def rdfs_pmd_alloc_slow_def rdfs_pte_alloc_def rdfs_pte_alloc_slow_def rdfs_table_alloc_one_def
      rdfs_table_free_def Let_def case_prod_beta icache_frame)

lemma init_pg_table_icache [icache_frame]: "icache (snd (rdfs_init_pg_table s cpu ino)) = icache s"
  by (simp add: rdfs_init_pg_table_def rdfs_table_alloc_one_def Let_def case_prod_beta icache_frame)

lemma nvmap_pmd_icache [icache_frame]: "icache (snd (nvmap_pmd pa s a p mm)) = icache s"
  by (simp add: nvmap_pmd_def icache_frame)

lemma nvmap_file_loop_icache:
  "nvmap_file_loop pa s addr lim ppud mm = Some (e, s') \<Longrightarrow> icache s' = icache s"
proof -
  assume "nvmap_file_loop pa s addr lim ppud mm = Some (e, s')"
  then have "icache (snd (e, s')) = icache s"
    by (rule nvmap_file_loop.raw_induct [rotated]) (auto simp: Let_def icache_frame split: if_splits)
  then show ?thesis by simp
qed

lemma unnvmap_file_loop_icache:
  "unnvmap_file_loop s addr lim ppud mm = Some s' \<Longrightarrow> icache s' = icache s"
  by (rule unnvmap_file_loop.raw_induct [rotated]) (auto simp: icache_frame split: if_splits)

lemma nvmap_icache [icache_frame]: "nvmap pa ma s a p mm = Some (e, s') \<Longrightarrow> icache s' = icache s"
  by (auto simp: nvmap_def nvmap_dir_def nvmap_file_def Let_def icache_frame nvmap_file_loop_icache split: if_splits)

lemma unnvmap_icache [icache_frame]: "unnvmap s a p mm = Some (e, s') \<Longrightarrow> icache s' = icache s"
  by (auto simp: unnvmap_def unnvmap_dir_def unnvmap_file_def Let_def icache_frame unnvmap_file_loop_icache
      split: if_splits option.splits)

lemma update_inode_icache [icache_frame]:
  "icache (snd (rdfs_update_inode s i)) = icache s" "icache (rdfs_dirty_inode s i) = icache s"
  by (simp_all add: rdfs_dirty_inode_def rdfs_update_inode_def Let_def)

lemma vstore_icache [icache_frame]: "vstore s a bs = Some s' \<Longrightarrow> icache s' = icache s"
  by (induction bs arbitrary: s a) (auto split: option.splits)

lemma commit_icache [icache_frame]: "commit s a n v = Some s' \<Longrightarrow> icache s' = icache s"
  by (simp add: commit_def icache_frame)

lemma insert_page_icache [icache_frame]: "icache (snd (rdfs_insert_page pa s cpu vi p)) = icache s"
  by (simp add: rdfs_insert_page_def Let_def case_prod_beta icache_frame)

lemma new_page_pte_icache [icache_frame]: "icache (snd (snd (rdfs_new_page_pte s cpu ri ni))) = icache s"
  by (auto simp: rdfs_new_page_pte_def Let_def case_prod_beta icache_frame split: option.splits)

section \<open>Operations on one inode\<close>

text \<open>An operation that gets an inode and returns it changed: neither its link count and mode nor the other inodes change.\<close>

definition attrs :: "inode \<Rightarrow> u32 \<times> u16" where
  "attrs i = (i_nlink i, i_mode i)"

definition attrs_of :: "'a vfs_scheme \<Rightarrow> u64 \<Rightarrow> u32 \<times> u16" where
  "attrs_of s j = attrs (icache s j)"

definition keeps :: "('a vfs_scheme \<Rightarrow> inode \<Rightarrow> ('r \<times> inode \<times> 'a vfs_scheme) option) \<Rightarrow> bool" where
  "keeps f \<longleftrightarrow> (\<forall>s i r i' s'. f s i = Some (r, i', s') \<longrightarrow> icache s' = icache s \<and> attrs i' = attrs i)"

lemma keepsD: "keeps f \<Longrightarrow> f s i = Some (r, i', s') \<Longrightarrow> icache s' = icache s \<and> attrs i' = attrs i"
  unfolding keeps_def by blast

lemma on_inode_attrs:
  assumes "keeps f" "on_inode f s i = Some (r, s')"
  shows "attrs_of s' = attrs_of s"
proof -
  obtain r' i' s1 where f: "f s (icache s i) = Some (r', i', s1)" "s' = set_inode s1 i i'"
    using assms(2) by (auto simp: on_inode_def)
  from keepsD [OF assms(1) f(1)] show ?thesis by (auto simp: f(2) set_inode_def attrs_of_def)
qed

lemma take_virt_addr_keeps:
  "take_virt_addr s ptr i = Some (i', s') \<Longrightarrow> icache s' = icache s \<and> attrs i' = attrs i"
  by (auto simp: take_virt_addr_def attrs_def Let_def split: if_splits option.splits)

lemma establish_keeps: "keeps (establish k)"
  unfolding keeps_def establish_def rdfs_establish_mapping_def
  by (auto simp: Let_def icache_frame dest!: take_virt_addr_keeps split: option.splits if_splits) (auto simp: attrs_def)

lemma destroy_keeps: "keeps rdfs_destroy_mapping"
  unfolding keeps_def rdfs_destroy_mapping_def
  by (auto simp: Let_def attrs_def icache_frame split: option.splits if_splits)

lemma alloc_source_keeps:
  "alloc_source k s i ni zero type p = (page, p', i', s') \<Longrightarrow> icache s' = icache s \<and> attrs i' = attrs i"
  using new_page_pte_icache [of s "this_cpu k" "info i" ni]
  by (auto simp: alloc_source_def attrs_def Let_def case_prod_beta split: if_splits)

lemma alloc_loop_keeps:
  "alloc_loop k ni zero type n s i p = (e, i', s') \<Longrightarrow> icache s' = icache s \<and> attrs i' = attrs i"
proof (induction n arbitrary: s i p)
  case (Suc n)
  obtain page p1 i1 s1 where a: "alloc_source k s i ni zero type p = (page, p1, i1, s1)" by (metis prod_cases4)
  let ?i2 = "i1\<lparr>i_blocks := i_blocks i1 + 1\<rparr>" and ?s2 = "put64 s1 (ni + 56) (ucast (ucast (i_blocks i1 + 1) :: u32))"
  obtain e3 s3 where b: "rdfs_insert_page (pud_alloc k) ?s2 (this_cpu k) ?i2 page = (e3, s3)" by (metis surj_pair)
  have s3: "icache s3 = icache s" "attrs ?i2 = attrs i"
    using alloc_source_keeps [OF a] insert_page_icache [of "pud_alloc k" ?s2 "this_cpu k" ?i2 page] by (simp_all add: b attrs_def)
  show ?case
    using Suc.prems Suc.IH [of s3 ?i2 p1] s3 by (simp add: a b Let_def split: if_splits)
qed simp

lemma alloc_blocks_keeps: "keeps (\<lambda>s i. rdfs_alloc_blocks k s i n zero type junk)"
  unfolding keeps_def rdfs_alloc_blocks_def
  by (auto simp: Let_def icache_frame dest!: alloc_loop_keeps split: option.splits if_splits prod.splits Option.bind_splits)

lemma touch_attrs [simp]: "attrs (touch k i) = attrs i" "attrs (clear_btree i) = attrs i"
  by (simp_all add: attrs_def touch_def clear_btree_def)

lemma attrs_updates [simp]:
  "attrs (i\<lparr>i_size := n\<rparr>) = attrs i" "attrs (i\<lparr>i_ctime := c\<rparr>) = attrs i"
  by (simp_all add: attrs_def)

lemma add_link_keeps: "keeps (\<lambda>s d. rdfs_add_link k s d name inode junk)"
  unfolding keeps_def
proof (intro allI impI)
  fix s s' :: "'a vfs_scheme" and d e d'
  assume *: "rdfs_add_link k s d name inode junk = Some (e, d', s')"
  show "icache s' = icache s \<and> attrs d' = attrs d"
    using * keepsD [OF alloc_blocks_keeps, of k s d 1 0 ALLOC_PAGE junk]
    by (auto simp: rdfs_add_link_def Let_def icache_frame split: if_splits scan.splits Option.bind_splits)
qed

lemma delete_entry_keeps: "keeps (\<lambda>s d. delete_entry k s d de prev)"
  unfolding keeps_def delete_entry_def
  by (auto simp: Let_def icache_frame split: if_splits prod.splits Option.bind_splits)

lemma map_dir_attrs: "map_dir k s i = Some (e, s') \<Longrightarrow> attrs_of s' = attrs_of s"
  unfolding map_dir_def by (rule on_inode_attrs [OF establish_keeps])

lemma unmap_dir_attrs: "unmap_dir s i = Some (e, s') \<Longrightarrow> attrs_of s' = attrs_of s"
  unfolding unmap_dir_def by (rule on_inode_attrs [OF destroy_keeps])

lemma delete_in_attrs: "delete_in k s d de prev = Some (e, s') \<Longrightarrow> attrs_of s' = attrs_of s"
  unfolding delete_in_def by (rule on_inode_attrs [OF delete_entry_keeps])

text \<open>Adding an entry reads the inode of the entry from the same table.\<close>

lemma link_in_attrs:
  assumes "link_in k s d name i = Some (e, s')"
  shows "attrs_of s' = attrs_of s"
proof -
  have "on_inode (\<lambda>s' d. rdfs_add_link k s' d name (icache s i) (junk_page k)) s d = Some (e, s')"
    using assms by (simp add: link_in_def on_inode_def)
  then show ?thesis by (rule on_inode_attrs [OF add_link_keeps])
qed

lemma relink_in_attrs: "relink_in k s d de i u = Some s' \<Longrightarrow> attrs_of s' = attrs_of s"
  by (auto simp: relink_in_def rdfs_set_link_def attrs_of_def set_inode_def Let_def icache_frame split: Option.bind_splits)

lemma unmap_if_attrs: "unmap_if b i s = Some s' \<Longrightarrow> attrs_of s' = attrs_of s"
  by (auto simp: unmap_if_def dest: unmap_dir_attrs split: if_splits)

lemma unmap_opt_attrs: "unmap_opt t s = Some s' \<Longrightarrow> attrs_of s' = attrs_of s"
  by (auto simp: unmap_opt_def dest: unmap_if_attrs split: option.splits)

lemmas attrs_steps = map_dir_attrs unmap_dir_attrs delete_in_attrs link_in_attrs relink_in_attrs unmap_if_attrs unmap_opt_attrs

section \<open>Link counts\<close>

definition links :: "'a vfs_scheme \<Rightarrow> u64 \<Rightarrow> u32" where
  "links s j = i_nlink (icache s j)"

text \<open>The counts with that of one inode changed.\<close>

definition bump :: "u64 \<Rightarrow> u32 \<Rightarrow> (u64 \<Rightarrow> u32) \<Rightarrow> u64 \<Rightarrow> u32" where
  "bump j d f = f(j := f j + d)"

lemma links_attrs: "links s = fst \<circ> attrs_of s"
  by (auto simp: links_def attrs_of_def attrs_def)

lemma attrs_links: "attrs_of s' = attrs_of s \<Longrightarrow> links s' = links s"
  by (simp add: links_attrs)

lemma count_links [simp]:
  "links (inode_inc_link_count s i) = bump i 1 (links s)" "links (inode_dec_link_count s i) = bump i (- 1) (links s)"
  "links (drop_nlink s i) = bump i (- 1) (links s)"
  by (auto simp: links_def bump_def inode_inc_link_count_def inode_dec_link_count_def inc_nlink_def drop_nlink_def
      mark_inode_dirty_def set_inode_def icache_frame)

lemma plain_links [simp]:
  "links (set_inode s i ((icache s i)\<lparr>i_ctime := c\<rparr>)) = links s" "links (set_inode s i ((icache s i)\<lparr>i_size := n\<rparr>)) = links s"
  "links (mark_inode_dirty s i) = links s"
  by (auto simp: links_def mark_inode_dirty_def set_inode_def icache_frame)

lemma bump_bump [simp]: "bump j a (bump j b f) = bump j (a + b) f" "bump j 0 f = f"
  by (simp_all add: bump_def add_ac fun_upd_idem)

lemma rdfs_link_counts:
  assumes "\<And>i. \<not> iput_evicts k i" "rdfs_link k s ino dir name = Some (err, s')"
  shows "links s' = (if err = 0 then bump ino 1 (links s) else links s)"
  using assms
  by (auto simp: rdfs_link_def iput_def Let_def dest!: attrs_steps [THEN attrs_links] split: if_splits Option.bind_splits)

lemma rdfs_unlink_counts:
  assumes "rdfs_unlink k s dir name ino = Some (err, s')"
  shows "links s' = (if err = 0 then bump ino (- 1) (links s) else links s)"
  using assms
  by (auto simp: rdfs_unlink_def Let_def ENOENT_def dest!: attrs_steps [THEN attrs_links] split: if_splits option.splits Option.bind_splits)

lemma rdfs_rmdir_counts:
  assumes "rdfs_rmdir k s dir name ino = Some (err, s')"
  shows "links s' = (if err = 0 then bump dir (- 1) (bump ino (- 2) (links s)) else links s)"
  using assms
  by (auto simp: rdfs_rmdir_def Let_def ENOTEMPTY_def dest!: attrs_steps [THEN attrs_links] rdfs_unlink_counts
      split: if_splits option.splits Option.bind_splits)

text \<open>What a renaming does to the counts: the replaced inode loses its name, and its own entry if it is a directory; a directory
  that moves to a new name is counted in its new parent and no longer in the old one.\<close>

definition target_links :: "bool \<Rightarrow> u64 \<Rightarrow> u64 option \<Rightarrow> (u64 \<Rightarrow> u32) \<Rightarrow> u64 \<Rightarrow> u32" where
  "target_links isdir new_dir target f =
     (case target of
        None \<Rightarrow> if isdir then bump new_dir 1 f else f
      | Some ni \<Rightarrow> bump ni (if isdir then - 2 else - 1) f)"

lemma rename_target_counts:
  assumes "rename_target k s isdir i new_dir name target = Some (err, out, s')"
  shows "links s' = (if out = 0 then target_links isdir new_dir target (links s) else links s)"
    and "out = 0 \<longleftrightarrow> err = 0"
  using assms
  by (auto simp: rename_target_def target_links_def Let_def ENOTEMPTY_def ENOENT_def dest!: attrs_steps [THEN attrs_links]
      split: if_splits option.splits Option.bind_splits)

lemma map_if_attrs: "(if b then map_option snd (map_dir k s i) else Some s) = Some s' \<Longrightarrow> attrs_of s' = attrs_of s"
  by (auto dest: map_dir_attrs split: if_splits)

lemma attrs_mode: "attrs_of s' = attrs_of s \<Longrightarrow> i_mode (icache s' j) = i_mode (icache s j)"
  unfolding attrs_of_def attrs_def by (metis prod.inject)

lemma rdfs_rename_counts:
  assumes "rdfs_rename k s old_dir old_name i new_dir new_name target = Some (err, s')"
  shows "links s' = (if err = 0
    then (if S_ISDIR (i_mode (icache s i)) then bump old_dir (- 1) else id)
           (target_links (S_ISDIR (i_mode (icache s i))) new_dir target (links s))
    else links s)"
proof -
  obtain e1 s1 r where 1: "map_dir k s old_dir = Some (e1, s1)" "find_in s1 old_dir old_name = Some r"
    using assms by (auto simp: rdfs_rename_def split: Option.bind_splits)
  note a1 = map_dir_attrs [OF 1(1)]
  let ?isdir = "S_ISDIR (i_mode (icache s1 i))"
  show ?thesis
  proof (cases r)
    case None
    with assms 1 a1 show ?thesis
      by (auto simp: rdfs_rename_def ENOENT_def dest!: attrs_links unmap_if_attrs split: Option.bind_splits)
  next
    case (Some de)
    then obtain s2 dd e3 out s3 where 2: "(if ?isdir then map_option snd (map_dir k s1 i) else Some s1) = Some s2"
        "rename_target k s2 ?isdir i new_dir new_name target = Some (e3, out, s3)"
      using assms 1 by (auto simp: rdfs_rename_def Let_def split: Option.bind_splits)
    have mode: "?isdir = S_ISDIR (i_mode (icache s i))" using attrs_mode [OF a1] by simp
    have l2: "links s2 = links s" using attrs_links [OF a1] attrs_links [OF map_if_attrs [OF 2(1)]] by simp
    have l3: "links s3 = (if e3 = 0 then target_links ?isdir new_dir target (links s) else links s)" and out: "out = 0 \<longleftrightarrow> e3 = 0"
      using rename_target_counts [OF 2(2)] l2 by simp_all
    show ?thesis
    proof (cases "e3 = 0")
      case True
      then show ?thesis
        using assms out l3 unfolding mode [symmetric]
        by (auto simp: rdfs_rename_def 1 Some 2 Let_def dest!: attrs_steps [THEN attrs_links] split: Option.bind_splits if_splits)
    next
      case False
      then show ?thesis
        using assms out l3 unfolding mode [symmetric]
        by (auto simp: rdfs_rename_def 1 Some 2 Let_def dest!: attrs_steps [THEN attrs_links] split: Option.bind_splits if_splits)
    qed
  qed
qed

text \<open>C5. The operations on names keep the link counts right, in every state and whether they succeed or fail. \<open>rdfs_link\<close> adds one to the count of
  the inode and \<open>rdfs_unlink\<close> takes one away; \<open>rdfs_rmdir\<close> takes two from the directory (its name and its own entry) and one from
  its parent; \<open>rdfs_rename\<close> takes the name, and for a directory its own entry, from the inode it replaces, and moves the count of a renamed
  directory's parent from the old one to the new one. No other count changes, and a call that returns an error changes none.
  That dropping a reference does not evict the inode is what the reference of the caller guarantees.\<close>

theorem names_keep_link_counts:
  assumes "\<And>i. \<not> iput_evicts k i"
  shows "(case rdfs_link k s ino dir name of None \<Rightarrow> True
      | Some (err, s') \<Rightarrow> links s' = (if err = 0 then bump ino 1 (links s) else links s)) \<and>
    (case rdfs_unlink k s dir name ino of None \<Rightarrow> True
      | Some (err, s') \<Rightarrow> links s' = (if err = 0 then bump ino (- 1) (links s) else links s)) \<and>
    (case rdfs_rmdir k s dir name ino of None \<Rightarrow> True
      | Some (err, s') \<Rightarrow> links s' = (if err = 0 then bump dir (- 1) (bump ino (- 2) (links s)) else links s)) \<and>
    (case rdfs_rename k s dir name ino new_dir new_name target of None \<Rightarrow> True
      | Some (err, s') \<Rightarrow> links s' = (if err = 0
          then (if S_ISDIR (i_mode (icache s ino)) then bump dir (- 1) else id)
                 (target_links (S_ISDIR (i_mode (icache s ino))) new_dir target (links s))
          else links s))"
proof (intro conjI, goal_cases)
  case 1 show ?case using rdfs_link_counts [OF assms, of s ino dir name] by (simp split: option.split)
next
  case 2 show ?case using rdfs_unlink_counts [of k s dir name ino] by (simp split: option.split)
next
  case 3 show ?case using rdfs_rmdir_counts [of k s dir name ino] by (simp split: option.split)
next
  case 4 show ?case using rdfs_rename_counts [of k s dir name ino new_dir new_name target] by (simp split: option.split)
qed

section \<open>An example\<close>

text \<open>A directory with one entry of 16 bytes, the name \<open>a\<close> of inode 5, mapped at the beginning of the directory areas.\<close>

definition example_dir :: inode where
  "example_dir = example_inode\<lparr>i_mode := 0x41ed, i_size := 16, i_ino := 3,
     info := (info example_inode)\<lparr>i_virt_addr := 0xffffcb0000000000, mapping_count := 1\<rparr>\<rparr>"

definition example_names :: vfs where
  "example_names = \<lparr>sbi = example_sbi,
     mem = st8 (st8 (st16 (st64 (st64 (\<lambda>_. 0) 0xffffc90000200000 0x1800201000) 0xffffc90000201000 5) 0xffffc90000201008 16)
       0xffffc9000020100a 1) 0xffffc9000020100c 97,
     next_numa_id = 0, slave_infos = [], pte_cnt = 0, pte_phy_addr = 0, pte_free_list = pte_free_list example_smem,
     nv = nv_start, kpud = (\<lambda>_ _. 0), kpmd = (\<lambda>_ _. 0x1800200000), bdevs = (\<lambda>_. example_bdev),
     icache = (\<lambda>i. if i = 3 then example_dir else example_inode\<lparr>i_nlink := 2\<rparr>)\<rparr>"

definition example_nenv :: nenv where
  "example_nenv = kenv.extend example_kenv
     \<lparr>iput_evicts = (\<lambda>_. False), iget_lock = (\<lambda>_. Iget_null), new_valid_dev = (\<lambda>_. True), readlink_copy = (\<lambda>_ _. 0), junk_page = 0\<rparr>"

text \<open>States in which the first page of the directory areas is mapped.\<close>

definition one_page :: "'a kern_scheme \<Rightarrow> bool" where
  "one_page s \<longleftrightarrow> sbi s = example_sbi \<and> (\<forall>a. kpmd s Init_mm a = 0x1800200000) \<and> ld64 (mem s) 0xffffc90000200000 = 0x1800201000"

lemma below_16: "i < 16 \<Longrightarrow> i \<in> {0, 1, 2, 3, 4, 5, 6, 7, 8, 9, 10, 11, 12, 13, 14, 15}" for i :: nat
  by (simp, arith)

lemma one_page_translate:
  assumes "one_page s" "i < 16"
  shows "translate s (0xffffcb0000000000 + of_nat i) = Some (0x1800201000 + of_nat i)"
  using assms(1) below_16 [OF assms(2)]
  by (elim insertE emptyE)
    (simp_all add: one_page_def translate_def rdfs_va_def example_sbi_def consts_eval pte_index_def get_phys_from_pte_val_def Let_def
      drop_bit_eq_div)

lemma one_page_put8: "one_page s \<Longrightarrow> i < 16 \<Longrightarrow> one_page (put8 s (0xffffc90000201000 + of_nat i) b)"
  by (drule below_16, elim insertE emptyE) (simp_all add: one_page_def mem_eval)

lemma one_page_store: "one_page s \<Longrightarrow> i + length bs \<le> 16 \<Longrightarrow> \<exists>s'. vstore s (0xffffcb0000000000 + of_nat i) bs = Some s'"
proof (induction bs arbitrary: s i)
  case (Cons b bs)
  have i: "i < 16" using Cons.prems(2) by simp
  have va: "rdfs_va s (0x1800201000 + of_nat i) = 0xffffc90000201000 + of_nat i"
    using Cons.prems(1) by (simp add: one_page_def rdfs_va_def example_sbi_def)
  show ?case
    using one_page_translate [OF Cons.prems(1) i] Cons.IH [OF one_page_put8 [OF Cons.prems(1) i], of "Suc i" b] Cons.prems(2)
    by (simp add: va [simplified add.commute] add_ac)
qed simp

lemma one_page_example: "one_page example_names"
  by (simp add: one_page_def example_names_def mem_eval)

lemma one_page_inode [simp]: "one_page (set_inode s i x) = one_page s"
  by (simp add: one_page_def set_inode_def)

lemma set_inode_view [simp]: "vmem (set_inode s i x) = vmem s" "window (set_inode s i x) = window s"
  by (auto simp: fun_eq_iff vmem_def window_def mapped_def translate_def rdfs_va_def set_inode_def Let_def)

lemmas example_translate = one_page_translate [OF one_page_example]

lemma example_window:
  assumes "i < 16"
  shows "vmem example_names (0xffffcb0000000000 + of_nat i) = mem example_names (0xffffc90000201000 + of_nat i)"
  using example_translate [OF assms] by (simp add: vmem_def rdfs_va_def example_names_def example_sbi_def)

lemma example_mapped_dir: "window example_names 0xffffcb0000000000 16 = Some (vmem example_names)"
  using example_translate by (simp add: window_def mapped_def list_all_iff)

lemma example_load:
  assumes "i + n \<le> 16"
  shows "load n (vmem example_names) (0xffffcb0000000000 + of_nat i) = load n (mem example_names) (0xffffc90000201000 + of_nat i)"
  using assms
proof (induction n arbitrary: i)
  case (Suc n)
  with Suc.IH [of "Suc i"] example_window [of i] show ?case by (simp add: add_ac)
qed simp

lemma example_bytes:
  "ld64 (mem example_names) 0xffffc90000201000 = 5" "ld16 (mem example_names) 0xffffc90000201008 = 16"
  "mem example_names 0xffffc9000020100a = 1" "mem example_names 0xffffc9000020100c = 97"
  by (simp_all add: example_names_def mem_eval)

lemma example_entry:
  "de_rec_len (vmem example_names) 0xffffcb0000000000 = 16" "de_inode (vmem example_names) 0xffffcb0000000000 = 5"
  "de_name_len (vmem example_names) 0xffffcb0000000000 = 1" "de_name (vmem example_names) 0xffffcb0000000000 1 = [97]"
proof -
  show "de_rec_len (vmem example_names) 0xffffcb0000000000 = 16"
    using example_load [of 8 2, where 'a = 16] by (simp add: de_rec_len_def example_bytes)
  show "de_inode (vmem example_names) 0xffffcb0000000000 = 5"
    using example_load [of 0 8, where 'a = 64] by (simp add: de_inode_def example_bytes)
  show "de_name_len (vmem example_names) 0xffffcb0000000000 = 1"
    using example_window [of 10] by (simp add: de_name_len_def example_bytes)
  show "de_name (vmem example_names) 0xffffcb0000000000 1 = [97]"
    using example_window [of 12] by (simp add: de_name_def load_bytes_def example_bytes)
qed

lemma example_find: "rdfs_find_entry2 (vmem example_names) 0xffffcb0000000000 16 [97] = Some (Some (0xffffcb0000000000, 0xffffcb0000000000))"
  using example_entry by (simp add: rdfs_find_entry2_def find_loop.simps rdfs_match_def)

lemma example_names_dir: "icache example_names 3 = example_dir"
  by (simp add: example_names_def)

lemma example_map_dir: "\<exists>d. map_dir example_nenv example_names 3 = Some (- 1, set_inode example_names 3 d) \<and>
    i_virt_addr (info d) = 0xffffcb0000000000 \<and> i_size d = 16 \<and> mapping_count (info d) = 2"
proof -
  have "rdfs_get_pud example_names 3 = 0"
    by (simp add: rdfs_get_pud_def get_rdfs_inode_def s_numa_flag_def s_numa_des_def rdfs_get_super_def example_names_def example_sbi_def
        consts_eval Let_def mem_eval)
  then show ?thesis
    by (simp add: map_dir_def on_inode_def establish_def rdfs_establish_mapping_def take_virt_addr_def nvmap_def in_dir_area_def
        example_names_dir example_dir_def consts_eval Let_def) (intro exI conjI, rule refl, simp_all)
qed

lemma example_delete:
  assumes "one_page s" "i_virt_addr (info d) = 0xffffcb0000000000" "i_size d = 16" "vmem s = vmem example_names"
  shows "\<exists>s'. delete_entry k s d 0xffffcb0000000000 0xffffcb0000000000 = Some (0, touch k d, s') \<and> icache s' = icache s"
proof -
  have w: "dir_window s d = Some (vmem s)"
    using one_page_translate [OF assms(1)] by (simp add: dir_window_def window_def mapped_def list_all_iff assms(2,3) dir_size_def)
  obtain v1 where v1: "rdfs_delete_entry (vmem s) 0xffffcb0000000000 0xffffcb0000000000 = (0, v1)"
    using example_entry(1) by (simp add: rdfs_delete_entry_def assms(4) Let_def)
  obtain s1 where s1: "commit s 0xffffcb0000000000 16 v1 = Some s1"
    using one_page_store [OF assms(1), of 0 "load_bytes v1 0xffffcb0000000000 16"] by (auto simp: commit_def load_bytes_def)
  then show ?thesis
    using commit_icache [OF s1] w v1 by (simp add: delete_entry_def assms(2,3) dir_size_def icache_frame Let_def)
qed

lemma example_unlink: "\<exists>s'. rdfs_unlink example_nenv example_names 3 [97] 5 = Some (0, s')"
proof -
  obtain d where m: "map_dir example_nenv example_names 3 = Some (- 1, set_inode example_names 3 d)"
    and d: "i_virt_addr (info d) = 0xffffcb0000000000" "i_size d = 16" "mapping_count (info d) = 2"
    using example_map_dir by blast
  let ?s1 = "set_inode example_names 3 d"
  have c1: "icache ?s1 3 = d" by (simp add: set_inode_def)
  have f: "find_in ?s1 3 [97] = Some (Some (0xffffcb0000000000, 0xffffcb0000000000))"
    using example_find example_mapped_dir by (simp add: find_in_def c1 d dir_window_def dir_size_def)
  obtain s2 where "delete_entry example_nenv ?s1 d 0xffffcb0000000000 0xffffcb0000000000 = Some (0, touch example_nenv d, s2)"
    "icache s2 = icache ?s1"
    using example_delete [of ?s1 d example_nenv] one_page_example d by auto
  then obtain s3 where del: "delete_in example_nenv ?s1 3 0xffffcb0000000000 0xffffcb0000000000 = Some (0, s3)"
    and c3: "icache s3 3 = touch example_nenv d"
    by (auto simp: delete_in_def on_inode_def c1 set_inode_def)
  let ?s4 = "inode_dec_link_count (set_inode s3 5 ((icache s3 5)\<lparr>i_ctime := i_ctime (icache s3 3)\<rparr>)) 5"
  have "icache ?s4 3 = touch example_nenv d"
    using c3 by (simp add: inode_dec_link_count_def mark_inode_dirty_def drop_nlink_def set_inode_def icache_frame)
  then have "\<exists>e s'. unmap_dir ?s4 3 = Some (e, s')"
    using d by (simp add: unmap_dir_def on_inode_def rdfs_destroy_mapping_def touch_def clear_btree_def Let_def)
  then show ?thesis using m f del by (auto simp: rdfs_unlink_def Let_def)
qed

text \<open>Removing the name \<open>a\<close> leaves inode 5 with one of its two links.\<close>

theorem names_keep_link_counts_witness:
  "(\<forall>i. \<not> iput_evicts example_nenv i) \<and>
   (\<exists>s'. rdfs_unlink example_nenv example_names 3 [97] 5 = Some (0, s') \<and> links s' = bump 5 (- 1) (links example_names) \<and> links s' 5 = 1)"
proof -
  have e: "\<not> iput_evicts example_nenv i" for i by (simp add: example_nenv_def kenv.defs example_kenv_def)
  obtain s' where s': "rdfs_unlink example_nenv example_names 3 [97] 5 = Some (0, s')" using example_unlink by blast
  then have "links s' = bump 5 (- 1) (links example_names)"
    using names_keep_link_counts [OF e, where s = example_names and dir = 3 and name = "[97]" and ino = 5] by simp
  moreover from this have "links s' 5 = 1" by (simp add: bump_def links_def example_names_def)
  ultimately show ?thesis using e s' by blast
qed

end
