(* ===== verification/Wire.thy ===== *)
theory Wire
  imports Prelude
begin

text \<open>
  Messages on the wire: the fixed-size message structures that master, slave and client exchange over TCP sockets, the decimal and
  hexadecimal texts that \<open>sprintf\<close> puts into them and \<open>sscanf\<close> takes out of them, and the primitives that send and receive a
  structure (\<open>send_data\<close> and \<open>recv_data\<close> of \<open>rdfs_master/network.c\<close>, \<open>rdfs_slave/rdfs_sock.c\<close> and \<open>rdfs_client/network.cpp\<close>).

  A structure is the list of its bytes, a socket the bytes it can receive and the bytes it has sent. How many bytes a call
  to the network transfers is a parameter, since TCP does not keep the boundaries of messages.
\<close>

section \<open>Numbers as text\<close>

fun digits :: "nat \<Rightarrow> nat \<Rightarrow> nat list" where
  "digits b n = (if b < 2 \<or> n < b then [n] else digits b (n div b) @ [n mod b])"

declare digits.simps [simp del]

definition dig_char :: "nat \<Rightarrow> char" where
  "dig_char d = (if d < 10 then char_of (48 + d) else char_of (87 + d))"

definition dec :: "nat \<Rightarrow> string" where
  "dec n = map dig_char (digits 10 n)"

definition hex :: "nat \<Rightarrow> string" where
  "hex n = map dig_char (digits 16 n)"

definition sdec :: "int \<Rightarrow> string" where
  "sdec i = (if i < 0 then CHR ''-'' # dec (nat (- i)) else dec (nat i))"

text \<open>\<open>%016Lx\<close>.\<close>

definition hex16 :: "nat \<Rightarrow> string" where
  "hex16 n = replicate (16 - length (hex n)) (CHR ''0'') @ hex n"

section \<open>Reading numbers back\<close>

definition char_dig :: "nat \<Rightarrow> char \<Rightarrow> nat option" where
  "char_dig b c = (let n = of_char c :: nat;
      d = (if 48 \<le> n \<and> n \<le> 57 then n - 48 else if 97 \<le> n \<and> n \<le> 102 then n - 87
           else if 65 \<le> n \<and> n \<le> 70 then n - 55 else b)
    in if d < b then Some d else None)"

definition is_dig :: "nat \<Rightarrow> char \<Rightarrow> bool" where
  "is_dig b c \<longleftrightarrow> char_dig b c \<noteq> None"

definition is_space :: "char \<Rightarrow> bool" where
  "is_space c \<longleftrightarrow> (of_char c :: nat) = 32 \<or> (9 \<le> (of_char c :: nat) \<and> (of_char c :: nat) \<le> 13)"

text \<open>A conversion of a format: its base, whether it takes a sign, and its width.\<close>

datatype conv = Conv (base: nat) (signed: bool) (width: nat)

abbreviation "conv_d \<equiv> Conv 10 True 4096"
abbreviation "conv_u \<equiv> Conv 10 False 4096"
abbreviation "conv_x \<equiv> Conv 16 False 4096"
abbreviation "conv_016Lx \<equiv> Conv 16 False 16"

definition digits_val :: "nat \<Rightarrow> string \<Rightarrow> nat" where
  "digits_val b ds = foldl (\<lambda>a c. a * b + the (char_dig b c)) 0 ds"

definition scan_sign :: "conv \<Rightarrow> string \<Rightarrow> bool \<times> string" where
  "scan_sign cv s =
     (if signed cv \<and> s \<noteq> [] \<and> hd s = CHR ''-'' then (True, tl s) else (False, s))"

definition skip_0x :: "conv \<Rightarrow> string \<Rightarrow> string" where
  "skip_0x cv s = (if base cv = 16 \<and> take 2 s \<in> {''0x'', ''0X''} then drop 2 s else s)"

text \<open>One conversion: the number and what is left of the text, or \<^const>\<open>None\<close> when there is no digit.\<close>

definition scan_num :: "conv \<Rightarrow> string \<Rightarrow> (int \<times> string) option" where
  "scan_num cv s =
     (let (neg, s1) = scan_sign cv (dropWhile is_space s);
          s2 = skip_0x cv s1;
          ds = takeWhile (is_dig (base cv)) (take (width cv) s2);
          v = int (digits_val (base cv) ds)
      in if ds = [] then None else Some (if neg then - v else v, drop (length ds) s2))"

text \<open>\<open>sscanf\<close> with a format of conversions separated by colons: the values it assigns, up to the first conversion or colon
  that does not match.\<close>

fun sscanf :: "conv list \<Rightarrow> string \<Rightarrow> int list" where
  "sscanf [] s = []"
| "sscanf (cv # cvs) s =
     (case scan_num cv s of None \<Rightarrow> []
      | Some (v, rest) \<Rightarrow>
          v # (if cvs \<noteq> [] \<and> rest \<noteq> [] \<and> hd rest = CHR '':'' then sscanf cvs (tl rest) else []))"

text \<open>Conversions that are followed by more: also what is left behind the last colon, if the text gets that far.\<close>

fun scan_rest :: "conv list \<Rightarrow> string \<Rightarrow> int list \<times> string option" where
  "scan_rest [] s = ([], Some s)"
| "scan_rest (cv # cvs) s =
     (case scan_num cv s of None \<Rightarrow> ([], None)
      | Some (v, rest) \<Rightarrow>
          if rest \<noteq> [] \<and> hd rest = CHR '':'' then (case scan_rest cvs (tl rest) of (vs, r) \<Rightarrow> (v # vs, r)) else ([v], None))"

text \<open>\<open>%s\<close>: the characters up to the next white space.\<close>

definition scan_word :: "string \<Rightarrow> string" where
  "scan_word t = takeWhile (\<lambda>c. \<not> is_space c) (dropWhile is_space t)"

text \<open>The texts of a format, separated by colons.\<close>

fun colons :: "string list \<Rightarrow> string" where
  "colons [] = []"
| "colons [t] = t"
| "colons (t # u # ts) = t @ CHR '':'' # colons (u # ts)"

section \<open>What is printed is read back\<close>

lemma char_dig_dig_char [simp]:
  "b = 10 \<or> b = 16 \<Longrightarrow> d < b \<Longrightarrow> char_dig b (dig_char d) = Some d"
  by (auto simp: char_dig_def dig_char_def Let_def)

lemma digits_less: "1 < b \<Longrightarrow> d \<in> set (digits b n) \<Longrightarrow> d < b"
proof (induction b n rule: digits.induct)
  case (1 b n)
  then show ?case
    using digits.simps [of b n] by (auto split: if_splits)
qed

lemma digits_nonempty [simp]: "digits b n \<noteq> []"
  by (subst digits.simps) simp

lemma digits_value:
  assumes "b = 10 \<or> b = 16"
  shows "digits_val b (map dig_char (digits b n)) = n"
  using assms
proof (induction b n rule: digits.induct)
  case (1 b n)
  show ?case
  proof (cases "n < b")
    case True
    with 1 show ?thesis by (subst digits.simps) (auto simp: digits_val_def)
  next
    case False
    then have "digits_val b (map dig_char (digits b (n div b))) = n div b"
      using 1 by auto
    with 1(2) False show ?thesis
      by (subst digits.simps) (auto simp: digits_val_def)
  qed
qed

lemma length_digits:
  "1 < b \<Longrightarrow> n < b ^ Suc k \<Longrightarrow> length (digits b n) \<le> Suc k"
proof (induction k arbitrary: n)
  case 0
  then show ?case by (subst digits.simps) simp
next
  case (Suc k)
  then have "n div b < b ^ Suc k"
    by (simp add: less_mult_imp_div_less mult.commute)
  with Suc show ?case by (subst digits.simps) simp
qed

text \<open>A text of digits only, as \<^const>\<open>dec\<close>, \<^const>\<open>hex\<close> and \<^const>\<open>hex16\<close> print it.\<close>

definition numeral_text :: "conv \<Rightarrow> nat \<Rightarrow> string \<Rightarrow> bool" where
  "numeral_text cv n t \<longleftrightarrow> (base cv = 10 \<or> base cv = 16) \<and> t \<noteq> [] \<and> list_all (is_dig (base cv)) t \<and>
     length t \<le> width cv \<and> digits_val (base cv) t = n"

lemma is_dig_plain:
  assumes "b = 10 \<or> b = 16" "is_dig b c"
  shows "\<not> is_space c" "c \<noteq> CHR ''-''" "c \<noteq> CHR ''x''" "c \<noteq> CHR ''X''" "c \<noteq> CHR '':''"
  using assms by (auto simp: is_dig_def char_dig_def is_space_def Let_def split: if_splits)

lemma scan_numeral:
  assumes "numeral_text cv n t" "r = [] \<or> hd r = CHR '':''"
  shows "scan_num cv (t @ r) = Some (int n, r)"
proof -
  obtain c u where t: "t = c # u" using assms(1) by (cases t) (auto simp: numeral_text_def)
  let ?b = "base cv"
  have b: "?b = 10 \<or> ?b = 16" and c: "is_dig ?b c" and u: "list_all (is_dig ?b) u"
    using assms(1) t by (auto simp: numeral_text_def)
  note plain = is_dig_plain [OF b c]
  have second: "d \<noteq> CHR ''x''" "d \<noteq> CHR ''X''" if "take 1 (u @ r) = [d]" for d
    using that assms(2) u is_dig_plain [OF b]
    by (cases u; cases r; auto)+
  have "take 2 (t @ r) \<notin> {''0x'', ''0X''}"
    using second by (auto simp: t numeral_2_eq_2 take_Suc_conv_app_nth)
  then have hex: "skip_0x cv (t @ r) = t @ r" by (simp add: skip_0x_def)
  have stop: "takeWhile (is_dig ?b) (take k r) = []" for k
    using assms(2) is_dig_plain(5) [OF b] by (cases r; cases k) auto
  have "takeWhile (is_dig ?b) (take (width cv) (t @ r)) = t"
    using assms(1) stop by (simp add: numeral_text_def list_all_iff takeWhile_append2)
  moreover have "dropWhile is_space (t @ r) = t @ r" using plain(1) by (simp add: t)
  moreover have "scan_sign cv (t @ r) = (False, t @ r)" using plain(2) by (simp add: t scan_sign_def)
  ultimately show ?thesis
    using assms(1) hex by (simp add: scan_num_def numeral_text_def Let_def)
qed

lemma sscanf_colons:
  assumes "list_all (\<lambda>(cv, n, t). numeral_text cv n t) ps"
  shows "sscanf (map fst ps) (colons (map (snd \<circ> snd) ps)) = map (int \<circ> fst \<circ> snd) ps"
  using assms
proof (induction ps)
  case (Cons p ps)
  obtain cv n t where p: "p = (cv, n, t)" by (cases p)
  show ?case
  proof (cases ps)
    case Nil
    with Cons p show ?thesis using scan_numeral [of cv n t "[]"] by simp
  next
    case (Cons q qs)
    with Cons.IH Cons.prems p show ?thesis
      using scan_numeral [of cv n t "CHR '':'' # colons (map (snd \<circ> snd) ps)"]
      by (simp add: comp_def)
  qed
qed simp

lemma numeral_dec: "n < 10 ^ 20 \<Longrightarrow> numeral_text conv_u n (dec n)"
  using length_digits [of 10 n 19] digits_less [of 10 _ n] digits_value [of 10 n]
  by (auto simp: numeral_text_def dec_def list_all_iff is_dig_def)

lemma scan_sdec:
  assumes "\<bar>i\<bar> < 10 ^ 20" "r = [] \<or> hd r = CHR '':''"
  shows "scan_num conv_d (sdec i @ r) = Some (i, r)"
proof -
  have n: "numeral_text conv_u (nat \<bar>i\<bar>) (dec (nat \<bar>i\<bar>))" using assms(1) by (intro numeral_dec) simp
  then have d: "numeral_text conv_d (nat \<bar>i\<bar>) (dec (nat \<bar>i\<bar>))" by (simp add: numeral_text_def)
  obtain c t where t: "dec (nat \<bar>i\<bar>) = c # t" and c: "is_dig 10 c"
    using n by (cases "dec (nat \<bar>i\<bar>)") (auto simp: numeral_text_def)
  note plain = is_dig_plain [OF _ c, simplified]
  show ?thesis
  proof (cases "i < 0")
    case True
    then have "sdec i = CHR ''-'' # dec (nat \<bar>i\<bar>)" by (simp add: sdec_def)
    moreover have "\<not> is_space (CHR ''-'')" by (simp add: is_space_def)
    ultimately have "scan_num conv_d (sdec i @ r) = map_option (\<lambda>(v, r). (- v, r)) (scan_num conv_u (dec (nat \<bar>i\<bar>) @ r))"
      using t plain(1) by (simp add: scan_num_def scan_sign_def skip_0x_def Let_def)
    with scan_numeral [OF n assms(2)] True show ?thesis by simp
  next
    case False
    then have "sdec i = dec (nat \<bar>i\<bar>)" by (simp add: sdec_def)
    with scan_numeral [OF d assms(2)] False show ?thesis by simp
  qed
qed

text \<open>A word is read up to its end: it has no white space in it.\<close>

lemma scan_word_all: "\<not> list_ex is_space t \<Longrightarrow> scan_word t = t"
  by (cases t) (auto simp: scan_word_def list_ex_iff)

lemma numeral_hex: "n < 2 ^ 64 \<Longrightarrow> numeral_text conv_x n (hex n)"
  using length_digits [of 16 n 15] digits_less [of 16 _ n] digits_value [of 16 n]
  by (auto simp: numeral_text_def hex_def list_all_iff is_dig_def)

lemma digits_val_zeros: "digits_val b (replicate k (CHR ''0'') @ t) = digits_val b t" if "1 < b"
proof (induction k)
  case (Suc k)
  have "char_dig b (CHR ''0'') = Some 0" using that by (simp add: char_dig_def Let_def)
  with Suc show ?case by (simp add: digits_val_def)
qed simp

lemma length_hex: "n < 2 ^ 64 \<Longrightarrow> length (hex n) \<le> 16"
  using length_digits [of 16 n 15] by (simp add: hex_def)

lemma length_hex16: "n < 2 ^ 64 \<Longrightarrow> length (hex16 n) = 16"
  using length_hex [of n] by (simp add: hex16_def)

lemma numeral_hex16: "n < 2 ^ 64 \<Longrightarrow> numeral_text conv_016Lx n (hex16 n)"
  using length_hex16 [of n] numeral_hex [of n]
  by (auto simp: numeral_text_def hex16_def digits_val_zeros list_all_iff is_dig_def char_dig_def)

section \<open>Message structures\<close>

text \<open>A 32-bit integer in memory, and the C string in a buffer.\<close>

definition le4 :: "u32 \<Rightarrow> string" where
  "le4 w = map (\<lambda>i. char_of (unat (drop_bit (8 * i) w))) [0, 1, 2, 3]"

definition of_le4 :: "string \<Rightarrow> u32" where
  "of_le4 bs = of_nat (foldr (\<lambda>c a. of_char c + 256 * a) (take 4 bs) 0)"

definition zeros :: "nat \<Rightarrow> string" where
  "zeros n = replicate n (CHR 0x00)"

definition c_str :: "string \<Rightarrow> string" where
  "c_str buf = takeWhile (\<lambda>c. c \<noteq> CHR 0x00) buf"

text \<open>\<open>sprintf\<close> into a buffer: the text, the byte that ends it, and what was there behind it.\<close>

definition sprintf_to :: "string \<Rightarrow> string \<Rightarrow> string" where
  "sprintf_to buf txt = txt @ CHR 0x00 # drop (length txt + 1) buf"

text \<open>\<open>struct rdfs_message\<close>: the type, a buffer of \<open>n\<close> bytes and what the program has behind it (\<open>nums\<close> in the master and in
  the client, nothing in the slave and in the user-space server).\<close>

definition msg :: "u32 \<Rightarrow> string \<Rightarrow> string \<Rightarrow> string" where
  "msg ty buf trailer = le4 ty @ buf @ trailer"

definition msg_type :: "string \<Rightarrow> u32" where
  "msg_type bs = of_le4 bs"

definition msg_data :: "nat \<Rightarrow> string \<Rightarrow> string" where
  "msg_data n bs = take n (drop 4 bs)"

lemma length_le4 [simp]: "length (le4 w) = 4"
  by (simp add: le4_def)

lemma length_zeros [simp]: "length (zeros n) = n"
  by (simp add: zeros_def)

lemma bytes_value:
  assumes "n < 2 ^ 32"
  shows "n mod 256 + 256 * (n div 2 ^ 8 mod 256 + 256 * (n div 2 ^ 16 mod 256 + 256 * (n div 2 ^ 24 mod 256))) = (n::nat)"
proof -
  have "n div 2 ^ 16 = n div 2 ^ 8 div 256" "n div 2 ^ 24 = n div 2 ^ 8 div 256 div 256"
    by (simp_all add: div_mult2_eq [symmetric])
  moreover have "n div 2 ^ 24 < 256" using assms by (simp add: less_mult_imp_div_less)
  ultimately show ?thesis
    using mod_mult_div_eq [of n 256] mod_mult_div_eq [of "n div 2 ^ 8" 256]
      mod_mult_div_eq [of "n div 2 ^ 8 div 256" 256] by simp
qed

lemma of_le4_le4 [simp]: "of_le4 (le4 w @ r) = w"
proof -
  have "unat w < 2 ^ 32" using unsigned_less [of w] by simp
  then have "foldr (\<lambda>c a. of_char c + 256 * a) (le4 w) 0 = unat w"
    using bytes_value [of "unat w"]
    by (simp add: le4_def drop_bit_eq_div unat_div_distrib)
  moreover have "take 4 (le4 w @ r) = le4 w" by simp
  ultimately show ?thesis by (simp only: of_le4_def) simp
qed

lemma msg_type_msg [simp]: "msg_type (msg ty buf tr) = ty"
  by (simp add: msg_type_def msg_def)

lemma msg_data_msg [simp]: "length buf = n \<Longrightarrow> msg_data n (msg ty buf tr) = buf"
  by (simp add: msg_data_def msg_def)

lemma c_str_sprintf_to: "CHR 0x00 \<notin> set t \<Longrightarrow> c_str (sprintf_to buf t) = t"
  unfolding c_str_def sprintf_to_def by (subst takeWhile_append2) auto

section \<open>Sockets\<close>

record sock =
  inq :: string
  outq :: string

text \<open>What the network answers to a call: the number of bytes that \<open>kernel_recvmsg\<close> (or \<open>recv\<close>) delivers for a buffer of the
  given size from the given queue, and the number of bytes that \<open>kernel_sendmsg\<close> (or \<open>send\<close>) takes; negative numbers are errors.\<close>

record net =
  net_recv :: "nat \<Rightarrow> string \<Rightarrow> int"
  net_send :: "string \<Rightarrow> int"

text \<open>Received bytes overwrite the beginning of the buffer. A null pointer is refused.\<close>

definition recv_data :: "net \<Rightarrow> sock \<Rightarrow> string option \<Rightarrow> nat \<Rightarrow> int \<times> string option \<times> sock" where
  "recv_data net s data n =
     (case data of None \<Rightarrow> (- 1, None, s)
      | Some buf \<Rightarrow>
          let r = net_recv net n (inq s); got = take (nat r) (inq s)
          in (r, Some (got @ drop (length got) buf), s\<lparr>inq := drop (nat r) (inq s)\<rparr>))"

definition send_data :: "net \<Rightarrow> sock \<Rightarrow> string option \<Rightarrow> int \<times> sock" where
  "send_data net s data =
     (case data of None \<Rightarrow> (- 1, s)
      | Some buf \<Rightarrow> let r = net_send net buf in (r, s\<lparr>outq := outq s @ take (nat r) buf\<rparr>))"

end
