(* ===== verification/Handshake.thy ===== *)
theory Handshake
  imports Wire
begin

text \<open>
  Exchange of connection parameters: the contexts of master, slave and client (\<open>struct rdfs_context\<close> of \<open>rdfs_master/server.h\<close>
  and \<open>rdfs_slave/ctx.h\<close>, \<open>struct slave_context\<close> of \<open>rdfs_client/network.h\<close>) and the messages that carry them
  (\<open>rdfs_master/network.c\<close>, \<open>rdfs_slave/rdfs_sock.c\<close>, \<open>rdfs_client/network.cpp\<close>).

  Handles of the InfiniBand stack (\<open>ib_dev\<close>, \<open>pd\<close>, \<open>qp\<close>, completion queues) are not in the contexts: no message carries them.
\<close>

section \<open>Contexts\<close>

text \<open>The fields that all three programs have.\<close>

record qp_info =
  active_mtu :: u32
  lid :: u32
  qpn :: u32
  psn :: u32
  rkey :: u32
  dma_addr :: u64
  rem_addr :: u64
  rem_rkey :: u32
  rem_qpn :: u32
  rem_psn :: u32
  rem_lid :: u32

record rdfs_context = qp_info +
  lkey :: u32
  current_req_id :: u64
  lock_word :: u64
  rem_block_nums :: u64

record slave_rdfs_context = qp_info +
  block_nums :: u64

record slave_context = qp_info +
  slave_block_nums :: u32
  rdma_buffer :: u64

definition MASTER_CTX_INFO :: u32 where [consts_eval]: "MASTER_CTX_INFO = 100"
definition SLAVE_CTX_TO_MASTER_INFO :: u32 where [consts_eval]: "SLAVE_CTX_TO_MASTER_INFO = 200"
definition SLAVE_CTX_TO_CLIENT_INFO :: u32 where [consts_eval]: "SLAVE_CTX_TO_CLIENT_INFO = 300"
definition CLIENT_CTX_INFO :: u32 where [consts_eval]: "CLIENT_CTX_INFO = 400"
definition CLIENT_CTX_INFO_TO_MASTER :: u32 where [consts_eval]: "CLIENT_CTX_INFO_TO_MASTER = 1"
definition CLIENT_CTX_INFO_TO_SLAVE :: u32 where [consts_eval]: "CLIENT_CTX_INFO_TO_SLAVE = 2"
definition CLIENT_SERACH_SLAVE_INFO :: u32 where [consts_eval]: "CLIENT_SERACH_SLAVE_INFO = 3"
definition SLAVE_CTX_TO_CLIENT :: u32 where [consts_eval]: "SLAVE_CTX_TO_CLIENT = 6"

definition MAX_MESSAGE_LENGTH :: nat where [consts_eval]: "MAX_MESSAGE_LENGTH = 4096"
definition CLIENT_MESSAGE_LENGTH :: nat where [consts_eval]: "CLIENT_MESSAGE_LENGTH = 1024"

section \<open>Formats\<close>

text \<open>\<open>%016Lx:%u:%x:%x:%x\<close>, and with the number of blocks as \<open>%lx\<close> behind it.\<close>

definition ctx_text :: "'a qp_info_scheme \<Rightarrow> string list" where
  "ctx_text c = [hex16 (unat (dma_addr c)), dec (unat (rkey c)), hex (unat (qpn c)), hex (unat (psn c)), hex (unat (lid c))]"

definition ctx_format :: "conv list" where
  "ctx_format = [conv_016Lx, conv_u, conv_x, conv_x, conv_x]"

text \<open>\<open>sscanf\<close> assigns the values it found, in order, and leaves the other variables alone.\<close>

definition asg :: "int list \<Rightarrow> nat \<Rightarrow> 'a::len word \<Rightarrow> 'a word" where
  "asg vs i old = (if i < length vs then of_int (vs ! i) else old)"

definition set_rem :: "int list \<Rightarrow> 'a qp_info_scheme \<Rightarrow> 'a qp_info_scheme" where
  "set_rem vs c = c\<lparr>rem_addr := asg vs 0 (rem_addr c), rem_rkey := asg vs 1 (rem_rkey c),
     rem_qpn := asg vs 2 (rem_qpn c), rem_psn := asg vs 3 (rem_psn c), rem_lid := asg vs 4 (rem_lid c)\<rparr>"


section \<open>The master\<close>

text \<open>A message variable before it is filled: the buffer is cleared, the other fields keep what the stack had there.\<close>

definition fresh_message :: "nat \<Rightarrow> string \<Rightarrow> string" where
  "fresh_message n junk = take 4 junk @ zeros n @ drop 4 junk"

definition rdfs_sock_send_info :: "net \<Rightarrow> sock \<Rightarrow> rdfs_context \<Rightarrow> string \<Rightarrow> int \<times> sock" where
  "rdfs_sock_send_info net s c junk =
     send_data net s (Some (msg MASTER_CTX_INFO
       (sprintf_to (zeros MAX_MESSAGE_LENGTH) (colons (ctx_text c @ [hex (unat (rem_block_nums c))]))) junk))"

definition rdfs_sock_get_info :: "net \<Rightarrow> sock \<Rightarrow> rdfs_context \<Rightarrow> string \<Rightarrow> int \<times> rdfs_context \<times> sock" where
  "rdfs_sock_get_info net s c junk =
     (let (r, im, s') = recv_data net s (Some (fresh_message MAX_MESSAGE_LENGTH junk)) (MAX_MESSAGE_LENGTH + 8)
      in (r, set_rem (sscanf ctx_format (c_str (msg_data MAX_MESSAGE_LENGTH (the im)))) c, s'))"

text \<open>The case of \<open>SLAVE_CTX_TO_MASTER_INFO\<close> has no \<open>break\<close>.\<close>

definition rdfs_send_message :: "net \<Rightarrow> sock \<Rightarrow> rdfs_context \<Rightarrow> u32 \<Rightarrow> string \<Rightarrow> int \<times> sock" where
  "rdfs_send_message net s c m_type junk =
     (let buf = zeros MAX_MESSAGE_LENGTH;
          short = colons (ctx_text c);
          long = colons (ctx_text c @ [hex (unat (rem_block_nums c))]);
          data = (if m_type = MASTER_CTX_INFO then sprintf_to buf short
                  else if m_type = SLAVE_CTX_TO_MASTER_INFO then sprintf_to (sprintf_to buf long) short
                  else if m_type = SLAVE_CTX_TO_CLIENT_INFO then sprintf_to buf short
                  else buf)
      in send_data net s (Some (msg m_type data junk)))"

text \<open>\<open>%lx\<close> stores eight bytes at the address it gets: for \<open>&rem_lid\<close>, an \<open>int\<close>, the upper four go into the field behind it, the
  lower half of \<open>rem_block_nums\<close>. The format of \<open>CLIENT_CTX_INFO\<close> has one conversion more than it has arguments: if it
  gets that far, it stores through a pointer nobody passed, which is \<^const>\<open>None\<close>.\<close>

definition rdfs_recv_message :: "net \<Rightarrow> sock \<Rightarrow> rdfs_context \<Rightarrow> string \<Rightarrow> (int \<times> u32 \<times> rdfs_context \<times> sock) option" where
  "rdfs_recv_message net s c junk =
     (let (r, im, s') = recv_data net s (Some (fresh_message MAX_MESSAGE_LENGTH junk)) (MAX_MESSAGE_LENGTH + 8);
          m_type = msg_type (the im);
          text = c_str (msg_data MAX_MESSAGE_LENGTH (the im));
          five = sscanf ctx_format text;
          six = sscanf (ctx_format @ [conv_x]) text
      in if m_type = MASTER_CTX_INFO then
           Some (r, m_type, (set_rem five c)\<lparr>rem_block_nums :=
             (if 4 < length five
              then (rem_block_nums c AND NOT (mask 32)) OR take_bit 32 (of_int (five ! 4 div 2 ^ 32))
              else rem_block_nums c)\<rparr>, s')
         else if m_type = SLAVE_CTX_TO_MASTER_INFO then
           Some (r, m_type, (set_rem six c)\<lparr>rem_block_nums := asg six 5 (rem_block_nums c)\<rparr>, s')
         else if m_type = CLIENT_CTX_INFO then
           (if 5 < length six then None else Some (r, m_type, set_rem six c, s'))
         else Some (r, m_type, c, s'))"

section \<open>The slave\<close>

definition slave_sock_send_info :: "net \<Rightarrow> sock \<Rightarrow> slave_rdfs_context \<Rightarrow> int \<times> sock" where
  "slave_sock_send_info net s c =
     send_data net s (Some (msg SLAVE_CTX_TO_MASTER_INFO
       (sprintf_to (zeros MAX_MESSAGE_LENGTH) (colons (ctx_text c @ [hex (unat (block_nums c))]))) []))"

definition slave_sock_get_info :: "net \<Rightarrow> sock \<Rightarrow> slave_rdfs_context \<Rightarrow> string \<Rightarrow> int \<times> slave_rdfs_context \<times> sock" where
  "slave_sock_get_info net s c junk =
     (let (r, im, s') = recv_data net s (Some (fresh_message MAX_MESSAGE_LENGTH junk)) (MAX_MESSAGE_LENGTH + 4)
      in (r, set_rem (sscanf ctx_format (c_str (msg_data MAX_MESSAGE_LENGTH (the im)))) c, s'))"

definition rdfs_client_handshake :: "net \<Rightarrow> sock \<Rightarrow> slave_rdfs_context \<Rightarrow> string \<Rightarrow> int \<times> slave_rdfs_context \<times> sock" where
  "rdfs_client_handshake net s c junk =
     (let (r, s1) = slave_sock_send_info net s c
      in if r \<le> 0 then (- 1, c, s1)
         else let (r2, c2, s2) = slave_sock_get_info net s1 c junk
              in if r2 \<le> 0 then (- 1, c2, s2) else (0, c2, s2))"

definition rdfs_server_handshake :: "net \<Rightarrow> sock \<Rightarrow> slave_rdfs_context \<Rightarrow> string \<Rightarrow> int \<times> slave_rdfs_context \<times> sock" where
  "rdfs_server_handshake net s c junk =
     (let (r, c1, s1) = slave_sock_get_info net s c junk
      in if r \<le> 0 then (- 1, c1, s1)
         else let (r2, s2) = slave_sock_send_info net s1 c1
              in if r2 \<le> 0 then (- 1, c1, s2) else (0, c1, s2))"

section \<open>The texts that are exchanged\<close>

lemma unat_u32: "unat (w :: u32) < 2 ^ 32"
  using unsigned_less [of w] by simp

lemma unat_u64_less: "unat (w :: u64) < 2 ^ 64"
  using unsigned_less [of w] by simp

lemma ctx_numerals:
  "numeral_text conv_016Lx (unat (w :: u64)) (hex16 (unat w))"
  "numeral_text conv_x (unat w) (hex (unat w))"
  "numeral_text conv_u (unat (v :: u32)) (dec (unat v))"
  "numeral_text conv_x (unat v) (hex (unat v))"
  using numeral_hex16 [OF unat_u64_less [of w]] numeral_hex [OF unat_u64_less [of w]]
    numeral_dec [of "unat v"] numeral_hex [of "unat v"] unat_u32 [of v] by simp_all

lemma scan_ctx_text:
  "sscanf ctx_format (colons (ctx_text c)) =
     [uint (dma_addr c), uint (rkey c), uint (qpn c), uint (psn c), uint (lid c)]"
  using sscanf_colons [of "[(conv_016Lx, unat (dma_addr c), hex16 (unat (dma_addr c))), (conv_u, unat (rkey c), dec (unat (rkey c))),
      (conv_x, unat (qpn c), hex (unat (qpn c))), (conv_x, unat (psn c), hex (unat (psn c))), (conv_x, unat (lid c), hex (unat (lid c)))]"]
  by (simp add: ctx_numerals ctx_text_def ctx_format_def del: sscanf.simps colons.simps)

lemma scan_ctx_text_blocks:
  "sscanf (ctx_format @ [conv_x]) (colons (ctx_text c @ [hex (unat (b :: u64))])) =
     [uint (dma_addr c), uint (rkey c), uint (qpn c), uint (psn c), uint (lid c), uint b]"
  using sscanf_colons [of "[(conv_016Lx, unat (dma_addr c), hex16 (unat (dma_addr c))), (conv_u, unat (rkey c), dec (unat (rkey c))),
      (conv_x, unat (qpn c), hex (unat (qpn c))), (conv_x, unat (psn c), hex (unat (psn c))), (conv_x, unat (lid c), hex (unat (lid c))),
      (conv_x, unat b, hex (unat b))]"]
  by (simp add: ctx_numerals ctx_text_def ctx_format_def del: sscanf.simps colons.simps)


section \<open>What a receiver finds in its buffer\<close>

lemma zeros_Cons: "0 < n \<Longrightarrow> zeros n = CHR 0x00 # zeros (n - 1)"
  by (cases n) (simp_all add: zeros_def)

lemma drop_zeros: "drop k (zeros n) = zeros (n - k)"
  by (simp add: zeros_def)

lemma c_str_ends: "CHR 0x00 \<notin> set t \<Longrightarrow> length t < n \<Longrightarrow> c_str (take n (t @ CHR 0x00 # r)) = t"
  by (cases "n - length t", simp) (simp add: c_str_def, subst takeWhile_append2, auto)

text \<open>It is enough that the beginning of the message up to the end of its text arrives: the buffer was cleared before.\<close>

lemma received_text:
  assumes "CHR 0x00 \<notin> set t" "length t < n" "4 \<le> length junk" "4 + length t \<le> k"
    and got: "got = take k (msg ty (sprintf_to (zeros n) t) tr @ rest)"
    and im_def: "im = got @ drop (length got) (fresh_message n junk)"
  shows "msg_type im = ty" "c_str (msg_data n im) = t"
proof -
  have "\<exists>r. im = le4 ty @ t @ CHR 0x00 # r"
  proof (cases "k = 4 + length t")
    case True
    then have "got = le4 ty @ t" by (simp add: got msg_def sprintf_to_def)
    moreover from this have "drop (length got) (fresh_message n junk) = zeros (n - length t) @ drop 4 junk"
      using assms(2,3) by (simp add: fresh_message_def drop_zeros)
    ultimately show ?thesis using assms(2) by (simp add: im_def zeros_Cons)
  next
    case False
    then have "got = le4 ty @ t @ CHR 0x00 # take (k - (5 + length t)) (drop (length t + 1) (zeros n) @ tr @ rest)"
      using assms(4) by (auto simp: got msg_def sprintf_to_def take_Cons' add.commute diff_diff_eq)
    then show ?thesis by (simp add: im_def)
  qed
  then obtain r where r: "im = le4 ty @ t @ CHR 0x00 # r" by blast
  show "msg_type im = ty" by (simp add: r msg_type_def)
  show "c_str (msg_data n im) = t" using c_str_ends [OF assms(1,2)] by (simp add: r msg_data_def)
qed

text \<open>A network that takes what is sent and delivers, of what has arrived, at least \<open>k\<close> bytes at a time.\<close>

definition delivers :: "net \<Rightarrow> nat \<Rightarrow> bool" where
  "delivers net k \<longleftrightarrow> (\<forall>buf. net_send net buf = int (length buf)) \<and>
     (\<forall>n q. k \<le> n \<longrightarrow> k \<le> length q \<longrightarrow> int k \<le> net_recv net n q \<and> net_recv net n q \<le> int (min n (length q)))"

lemma delivers_mono:
  "delivers net k \<Longrightarrow> k \<le> n \<Longrightarrow> k \<le> length q \<Longrightarrow> j \<le> k \<Longrightarrow> j \<le> nat (net_recv net n q)"
  by (fastforce simp: delivers_def)

lemma text_no_nul: "numeral_text cv n t \<Longrightarrow> CHR 0x00 \<notin> set t"
  by (auto simp: numeral_text_def list_all_iff is_dig_def char_dig_def Let_def split: if_splits)

lemma length_dec32: "length (dec (unat (v :: u32))) \<le> 10"
  using length_digits [of 10 "unat v" 9] unat_u32 [of v] by (simp add: dec_def)

lemma length_hex32: "length (hex (unat (v :: u32))) \<le> 8"
  using length_digits [of 16 "unat v" 7] unat_u32 [of v] by (simp add: hex_def)

lemma ctx_text_facts:
  "CHR 0x00 \<notin> set (colons (ctx_text c))" "length (colons (ctx_text c)) \<le> 54"
  "CHR 0x00 \<notin> set (colons (ctx_text c @ [hex (unat (b :: u64))]))"
  "length (colons (ctx_text c @ [hex (unat b)])) \<le> 71"
  using ctx_numerals [THEN text_no_nul] length_hex16 [OF unat_u64_less] length_hex [OF unat_u64_less [of b]]
    length_dec32 [of "rkey c"] length_hex32 [of "qpn c"] length_hex32 [of "psn c"] length_hex32 [of "lid c"]
  by (auto simp: ctx_text_def)

lemma set_rem_full:
  "set_rem (uint (a :: u64) # uint (r :: u32) # uint (q :: u32) # uint (p :: u32) # uint (l :: u32) # vs) c =
     c\<lparr>rem_addr := a, rem_rkey := r, rem_qpn := q, rem_psn := p, rem_lid := l\<rparr>"
  by (simp add: set_rem_def asg_def)

abbreviation no_traffic :: sock where
  "no_traffic \<equiv> \<lparr>inq = [], outq = []\<rparr>"

lemma sends [simp]: "delivers net k \<Longrightarrow>
    send_data net s (Some buf) = (int (length buf), s\<lparr>outq := outq s @ buf\<rparr>)"
  by (simp add: send_data_def delivers_def)

lemma receives:
  assumes "delivers net k" "k \<le> n" "k \<le> length (inq s)"
  obtains r where "k \<le> r" "recv_data net s (Some buf) n =
    (int r, Some (take r (inq s) @ drop (length (take r (inq s))) buf), s\<lparr>inq := drop r (inq s)\<rparr>)"
proof -
  let ?r = "net_recv net n (inq s)"
  have "int k \<le> ?r" using assms by (auto simp: delivers_def)
  then have "k \<le> nat ?r" "int (nat ?r) = ?r" by linarith+
  then show thesis by (intro that [of "nat ?r"]) (simp_all add: recv_data_def Let_def)
qed

text \<open>Each side learns the parameters of the other from one message, whatever the network cuts off behind its text.\<close>

lemma master_learns:
  assumes net: "delivers net 75" and junk: "length junk = 8"
    and q: "inq s = msg SLAVE_CTX_TO_MASTER_INFO
       (sprintf_to (zeros MAX_MESSAGE_LENGTH) (colons (ctx_text cs @ [hex (unat (block_nums cs))]))) [] @ rest"
  shows "\<exists>r s'. rdfs_recv_message net s cm junk = Some (r, SLAVE_CTX_TO_MASTER_INFO,
     cm\<lparr>rem_addr := dma_addr cs, rem_rkey := rkey cs, rem_qpn := qpn cs, rem_psn := psn cs, rem_lid := lid cs,
        rem_block_nums := block_nums cs\<rparr>, s') \<and> 0 < r \<and> outq s' = outq s"
proof -
  let ?t = "colons (ctx_text cs @ [hex (unat (block_nums cs))])"
  have "75 \<le> length (inq s)" by (simp add: q msg_def sprintf_to_def consts_eval)
  then obtain r where r: "75 \<le> r" and recv: "recv_data net s (Some (fresh_message MAX_MESSAGE_LENGTH junk)) (MAX_MESSAGE_LENGTH + 8) =
      (int r, Some (take r (inq s) @ drop (length (take r (inq s))) (fresh_message MAX_MESSAGE_LENGTH junk)), s\<lparr>inq := drop r (inq s)\<rparr>)"
    by (rule receives [OF net, where s = s and n = "MAX_MESSAGE_LENGTH + 8", rotated]) (simp_all add: consts_eval)
  have len: "length ?t < MAX_MESSAGE_LENGTH" "4 + length ?t \<le> r"
    using ctx_text_facts(4) [of cs "block_nums cs"] r by (simp_all add: consts_eval)
  note got = received_text [OF ctx_text_facts(3) len(1) _ len(2) arg_cong [OF q, of "take r"] refl, of junk]
  then show ?thesis
    using junk r by (simp add: rdfs_recv_message_def recv scan_ctx_text_blocks)
      (simp add: consts_eval set_rem_full asg_def)
qed

lemma slave_learns:
  assumes net: "delivers net 75" and junk: "length junk = 4"
    and q: "inq s = msg ty (sprintf_to (zeros MAX_MESSAGE_LENGTH) (colons (ctx_text cm))) tr @ rest"
  shows "\<exists>r s'. slave_sock_get_info net s cs junk = (r,
     cs\<lparr>rem_addr := dma_addr cm, rem_rkey := rkey cm, rem_qpn := qpn cm, rem_psn := psn cm, rem_lid := lid cm\<rparr>, s') \<and>
     0 < r \<and> outq s' = outq s"
proof -
  let ?t = "colons (ctx_text cm)"
  have "75 \<le> length (inq s)" by (simp add: q msg_def sprintf_to_def consts_eval)
  then obtain r where r: "75 \<le> r" and recv: "recv_data net s (Some (fresh_message MAX_MESSAGE_LENGTH junk)) (MAX_MESSAGE_LENGTH + 4) =
      (int r, Some (take r (inq s) @ drop (length (take r (inq s))) (fresh_message MAX_MESSAGE_LENGTH junk)), s\<lparr>inq := drop r (inq s)\<rparr>)"
    by (rule receives [OF net, where s = s and n = "MAX_MESSAGE_LENGTH + 4", rotated]) (simp_all add: consts_eval)
  have len: "length ?t < MAX_MESSAGE_LENGTH" "4 + length ?t \<le> r"
    using ctx_text_facts(2) [of cm] r by (simp_all add: consts_eval)
  note got = received_text [OF ctx_text_facts(1) len(1) _ len(2) arg_cong [OF q, of "take r"] refl, of junk]
  then show ?thesis
    using junk r by (simp add: slave_sock_get_info_def recv scan_ctx_text set_rem_full)
qed

text \<open>The reply of the master is a message of 4104 bytes; the slave takes 4100 of them at most, since its structure has no \<open>nums\<close>.\<close>

text \<open>Of what the slave sends first (the first step of \<open>rdfs_client_handshake\<close>), the master learns the slave's parameters, and of the
  answer the slave learns those of the master. Nothing else of the two contexts changes, and the handshake reports success.\<close>

lemma registration_exchange:
  assumes "delivers net 75" "length jm = 8" "length jn = 4" "length js = 4"
    and "sent = snd (slave_sock_send_info net no_traffic cs)"
  shows "\<exists>r cm' m1 m2 s2.
    rdfs_recv_message net \<lparr>inq = outq sent, outq = []\<rparr> cm jm = Some (r, SLAVE_CTX_TO_MASTER_INFO, cm', m1) \<and>
    m2 = snd (rdfs_send_message net m1 cm' MASTER_CTX_INFO jn) \<and>
    cm' = cm\<lparr>rem_addr := dma_addr cs, rem_rkey := rkey cs, rem_qpn := qpn cs, rem_psn := psn cs, rem_lid := lid cs,
      rem_block_nums := block_nums cs\<rparr> \<and>
    rdfs_client_handshake net \<lparr>inq = outq m2, outq = []\<rparr> cs js =
      (0, cs\<lparr>rem_addr := dma_addr cm, rem_rkey := rkey cm, rem_qpn := qpn cm, rem_psn := psn cm, rem_lid := lid cm\<rparr>, s2) \<and>
    outq s2 = outq sent"
proof -
  let ?cm = "cm\<lparr>rem_addr := dma_addr cs, rem_rkey := rkey cs, rem_qpn := qpn cs, rem_psn := psn cs, rem_lid := lid cs,
      rem_block_nums := block_nums cs\<rparr>"
  let ?sent = "msg SLAVE_CTX_TO_MASTER_INFO
       (sprintf_to (zeros MAX_MESSAGE_LENGTH) (colons (ctx_text cs @ [hex (unat (block_nums cs))]))) []"
  let ?reply = "msg MASTER_CTX_INFO (sprintf_to (zeros MAX_MESSAGE_LENGTH) (colons (ctx_text cm))) jn"
  have sent: "outq sent = ?sent" using assms(1,5) by (simp add: slave_sock_send_info_def)
  obtain r m1 where recv: "rdfs_recv_message net \<lparr>inq = outq sent, outq = []\<rparr> cm jm = Some (r, SLAVE_CTX_TO_MASTER_INFO, ?cm, m1)"
    and out: "outq m1 = []"
    using master_learns [OF assms(1,2), of "\<lparr>inq = outq sent, outq = []\<rparr>" cs "[]" cm] sent by auto
  have reply: "outq (snd (rdfs_send_message net m1 ?cm MASTER_CTX_INFO jn)) = ?reply"
    using assms(1) by (simp add: rdfs_send_message_def ctx_text_def out Let_def)
  obtain r2 s2 where get: "slave_sock_get_info net \<lparr>inq = ?reply, outq = ?sent\<rparr> cs js =
      (r2, cs\<lparr>rem_addr := dma_addr cm, rem_rkey := rkey cm, rem_qpn := qpn cm, rem_psn := psn cm, rem_lid := lid cm\<rparr>, s2)"
    and more: "0 < r2" "outq s2 = ?sent"
    using slave_learns [OF assms(1,4), of "\<lparr>inq = ?reply, outq = ?sent\<rparr>" MASTER_CTX_INFO cm jn "[]" cs] by auto
  have "slave_sock_send_info net \<lparr>inq = ?reply, outq = []\<rparr> cs = (int (length ?sent), \<lparr>inq = ?reply, outq = ?sent\<rparr>)"
    using assms(1) by (simp add: slave_sock_send_info_def)
  moreover have "0 < length ?sent" by (simp add: msg_def)
  ultimately have "rdfs_client_handshake net \<lparr>inq = ?reply, outq = []\<rparr> cs js =
      (0, cs\<lparr>rem_addr := dma_addr cm, rem_rkey := rkey cm, rem_qpn := qpn cm, rem_psn := psn cm, rem_lid := lid cm\<rparr>, s2)"
    using get more by (simp add: rdfs_client_handshake_def)
  with recv reply more sent show ?thesis by metis
qed

text \<open>A concrete exchange: a network that delivers all that has arrived.\<close>

definition lan :: net where
  "lan = \<lparr>net_recv = (\<lambda>n q. int (min n (length q))), net_send = (\<lambda>buf. int (length buf))\<rparr>"

definition some_slave :: slave_rdfs_context where
  "some_slave = \<lparr>active_mtu = 4, lid = 3, qpn = 0x51, psn = 0xabcdef, rkey = 77, dma_addr = 0x200000000, rem_addr = 0, rem_rkey = 0,
     rem_qpn = 0, rem_psn = 0, rem_lid = 0, block_nums = 0x100000\<rparr>"

definition some_master :: rdfs_context where
  "some_master = \<lparr>active_mtu = 4, lid = 9, qpn = 0x60, psn = 0x123456, rkey = 11, dma_addr = 0x300000000, rem_addr = 0, rem_rkey = 0,
     rem_qpn = 0, rem_psn = 0, rem_lid = 0, lkey = 5, current_req_id = 0, lock_word = 0, rem_block_nums = 0\<rparr>"

lemma lan_delivers: "k \<le> 1000 \<Longrightarrow> delivers lan k"
  by (simp add: delivers_def lan_def)

end
