(* ===== verification/Rdma.thy ===== *)
theory Rdma
  imports Handshake
begin

text \<open>
  Remote memory access of the master (\<open>rdfs_master/server.c\<close>, \<open>rdfs_rdma.c\<close>): setting a context up, connecting its queue pair, and
  the protocol of a transfer. A caller of \<open>rdfs_rdma_block_rw\<close> takes a request number, sets its bit in the lock word of the slave,
  posts the work request and waits until the bit is clear; the handler of the completion queue clears it.

  The InfiniBand stack is a parameter: what its constructors return, whether a post succeeds, and which completions it reports.
\<close>

section \<open>Setting a context up\<close>

datatype resource = R_ctx | R_pd | R_mr | R_send_cq | R_recv_cq | R_qp

text \<open>What the stack has for a device: which of the objects it can create, and the numbers it gives them.\<close>

record hca =
  creates :: "resource \<Rightarrow> bool"
  mr_rkey :: u32
  mr_lkey :: u32
  port_lid :: u32
  port_mtu :: u32
  qp_num :: u32
  random_bytes :: u32

text \<open>\<open>rdfs_check_pointer\<close> of \<open>debug.c\<close>: 1 for a null pointer.\<close>

definition rdfs_check_pointer :: "'a option \<Rightarrow> int" where
  "rdfs_check_pointer p = (case p of None \<Rightarrow> 1 | Some _ \<Rightarrow> 0)"

text \<open>Creating objects one after the other, up to the first the stack refuses: whether all were created, and those that were.\<close>

fun create_all :: "hca \<Rightarrow> resource list \<Rightarrow> bool \<times> resource list" where
  "create_all h [] = (True, [])"
| "create_all h (r # rs) =
     (if rdfs_check_pointer (if creates h r then Some () else None) = 1 then (False, [])
      else case create_all h rs of (ok, held) \<Rightarrow> (ok, r # held))"

text \<open>The context, or a null pointer, and the objects that stay allocated. \<open>junk\<close> is what \<open>kmalloc\<close> returned.\<close>

definition rdfs_init_context :: "hca option \<Rightarrow> rdfs_context \<Rightarrow> rdfs_context option \<times> resource list" where
  "rdfs_init_context dev junk =
     (case dev of None \<Rightarrow> (None, [])
      | Some h \<Rightarrow>
          (case create_all h [R_ctx, R_pd, R_mr, R_send_cq, R_recv_cq, R_qp] of
             (False, held) \<Rightarrow> (None, held)
           | (True, held) \<Rightarrow>
               (Some (junk\<lparr>rkey := mr_rkey h, lkey := mr_lkey h, lid := port_lid h, qpn := qp_num h,
                  psn := random_bytes h AND 0xffffff, active_mtu := port_mtu h,
                  current_req_id := 0, lock_word := 0\<rparr>), held)))"

text \<open>Of the objects of a context, the protection domain and the context itself are given back.\<close>

definition rdfs_remove_context :: "resource list \<Rightarrow> resource list" where
  "rdfs_remove_context held = filter (\<lambda>r. r \<noteq> R_pd \<and> r \<noteq> R_ctx) held"

section \<open>Connecting a queue pair\<close>

datatype qp_state = IB_QPS_RESET | IB_QPS_INIT | IB_QPS_RTR | IB_QPS_RTS

datatype qp_flag = IB_QP_PKEY_INDEX | IB_QP_PORT | IB_QP_ACCESS_FLAGS | IB_QP_AV | IB_QP_PATH_MTU | IB_QP_DEST_QPN | IB_QP_RQ_PSN
  | IB_QP_MAX_DEST_RD_ATOMIC | IB_QP_MIN_RNR_TIMER | IB_QP_TIMEOUT | IB_QP_RETRY_CNT | IB_QP_RNR_RETRY | IB_QP_SQ_PSN
  | IB_QP_MAX_QP_RD_ATOMIC

datatype qp_access = IB_ACCESS_REMOTE_WRITE | IB_ACCESS_REMOTE_READ | IB_ACCESS_REMOTE_ATOMIC

record qp_attr =
  qp_state :: qp_state
  pkey_index :: u16
  port_num :: u8
  qp_access_flags :: "qp_access list"
  path_mtu :: u32
  dest_qp_num :: u32
  rq_psn :: u32
  max_dest_rd_atomic :: u8
  min_rnr_timer :: u8
  dlid :: u16
  sl :: u8
  src_path_bits :: u8
  ah_port_num :: u8
  timeout :: u8
  retry_cnt :: u8
  rnr_retry :: u8
  sq_psn :: u32
  max_rd_atomic :: u8

definition zero_attr :: qp_attr where
  "zero_attr = \<lparr>qp_state = IB_QPS_RESET, pkey_index = 0, port_num = 0, qp_access_flags = [], path_mtu = 0, dest_qp_num = 0, rq_psn = 0,
     max_dest_rd_atomic = 0, min_rnr_timer = 0, dlid = 0, sl = 0, src_path_bits = 0, ah_port_num = 0, timeout = 0, retry_cnt = 0,
     rnr_retry = 0, sq_psn = 0, max_rd_atomic = 0\<rparr>"

text \<open>The three calls of \<open>ib_modify_qp\<close>, each with the attributes it passes and the mask that names the valid ones. The results
  of the calls are not looked at.\<close>

definition rdfs_modify_qp :: "'a qp_info_scheme \<Rightarrow> (qp_attr \<times> qp_flag list) list" where
  "rdfs_modify_qp c =
     (let init = zero_attr\<lparr>qp_state := IB_QPS_INIT, pkey_index := 0, port_num := 1,
            qp_access_flags := [IB_ACCESS_REMOTE_WRITE, IB_ACCESS_REMOTE_READ, IB_ACCESS_REMOTE_ATOMIC]\<rparr>;
          rtr = zero_attr\<lparr>qp_state := IB_QPS_RTR, path_mtu := active_mtu c, dest_qp_num := rem_qpn c, rq_psn := rem_psn c,
            max_dest_rd_atomic := 1, min_rnr_timer := 12, dlid := ucast (rem_lid c), sl := 0, src_path_bits := 0, ah_port_num := 1\<rparr>;
          rts = rtr\<lparr>qp_state := IB_QPS_RTS, timeout := 14, retry_cnt := 7, rnr_retry := 7, sq_psn := psn c, max_rd_atomic := 1\<rparr>
      in [(init, [IB_QP_PKEY_INDEX, IB_QP_PORT, IB_QP_ACCESS_FLAGS]),
          (rtr, [IB_QP_AV, IB_QP_PATH_MTU, IB_QP_DEST_QPN, IB_QP_RQ_PSN, IB_QP_MAX_DEST_RD_ATOMIC, IB_QP_MIN_RNR_TIMER]),
          (rts, [IB_QP_TIMEOUT, IB_QP_RETRY_CNT, IB_QP_RNR_RETRY, IB_QP_SQ_PSN, IB_QP_MAX_QP_RD_ATOMIC])])"

text \<open>The client clears the attributes before the third call as well.\<close>

definition client_modify_qp :: "'a qp_info_scheme \<Rightarrow> (qp_attr \<times> qp_flag list) list" where
  "client_modify_qp c =
     (let calls = rdfs_modify_qp c;
          rts = zero_attr\<lparr>qp_state := IB_QPS_RTS, sq_psn := psn c, timeout := 14, retry_cnt := 7, rnr_retry := 7, max_rd_atomic := 1\<rparr>
      in [calls ! 0, calls ! 1, (rts, snd (calls ! 2))])"

text \<open>What the verbs require of a queue pair that is to become ready to receive and then ready to send: the order of the states
  and the attributes each step must name. A step takes over the attributes its mask names and no others.\<close>

fun required :: "qp_state \<Rightarrow> qp_state \<Rightarrow> qp_flag list option" where
  "required IB_QPS_RESET IB_QPS_INIT = Some [IB_QP_PKEY_INDEX, IB_QP_PORT, IB_QP_ACCESS_FLAGS]"
| "required IB_QPS_INIT IB_QPS_RTR =
     Some [IB_QP_AV, IB_QP_PATH_MTU, IB_QP_DEST_QPN, IB_QP_RQ_PSN, IB_QP_MAX_DEST_RD_ATOMIC, IB_QP_MIN_RNR_TIMER]"
| "required IB_QPS_RTR IB_QPS_RTS =
     Some [IB_QP_TIMEOUT, IB_QP_RETRY_CNT, IB_QP_RNR_RETRY, IB_QP_SQ_PSN, IB_QP_MAX_QP_RD_ATOMIC]"
| "required _ _ = None"

fun take_flag :: "qp_attr \<Rightarrow> qp_flag \<Rightarrow> qp_attr \<Rightarrow> qp_attr" where
  "take_flag a IB_QP_PKEY_INDEX q = q\<lparr>pkey_index := pkey_index a\<rparr>"
| "take_flag a IB_QP_PORT q = q\<lparr>port_num := port_num a\<rparr>"
| "take_flag a IB_QP_ACCESS_FLAGS q = q\<lparr>qp_access_flags := qp_access_flags a\<rparr>"
| "take_flag a IB_QP_AV q =
     q\<lparr>dlid := dlid a, sl := sl a, src_path_bits := src_path_bits a, ah_port_num := ah_port_num a\<rparr>"
| "take_flag a IB_QP_PATH_MTU q = q\<lparr>path_mtu := path_mtu a\<rparr>"
| "take_flag a IB_QP_DEST_QPN q = q\<lparr>dest_qp_num := dest_qp_num a\<rparr>"
| "take_flag a IB_QP_RQ_PSN q = q\<lparr>rq_psn := rq_psn a\<rparr>"
| "take_flag a IB_QP_MAX_DEST_RD_ATOMIC q = q\<lparr>max_dest_rd_atomic := max_dest_rd_atomic a\<rparr>"
| "take_flag a IB_QP_MIN_RNR_TIMER q = q\<lparr>min_rnr_timer := min_rnr_timer a\<rparr>"
| "take_flag a IB_QP_TIMEOUT q = q\<lparr>timeout := timeout a\<rparr>"
| "take_flag a IB_QP_RETRY_CNT q = q\<lparr>retry_cnt := retry_cnt a\<rparr>"
| "take_flag a IB_QP_RNR_RETRY q = q\<lparr>rnr_retry := rnr_retry a\<rparr>"
| "take_flag a IB_QP_SQ_PSN q = q\<lparr>sq_psn := sq_psn a\<rparr>"
| "take_flag a IB_QP_MAX_QP_RD_ATOMIC q = q\<lparr>max_rd_atomic := max_rd_atomic a\<rparr>"

fun run_modify :: "qp_attr \<Rightarrow> (qp_attr \<times> qp_flag list) list \<Rightarrow> qp_attr option" where
  "run_modify q [] = Some q"
| "run_modify q ((a, fl) # calls) =
     (case required (qp_state q) (qp_state a) of None \<Rightarrow> None
      | Some fs \<Rightarrow> if set fs \<subseteq> set fl then run_modify (fold (take_flag a) fl q\<lparr>qp_state := qp_state a\<rparr>) calls else None)"

lemma modify_qp_ready:
  "\<exists>q. run_modify zero_attr (rdfs_modify_qp c) = Some q \<and> run_modify zero_attr (client_modify_qp c) = Some q \<and>
     qp_state q = IB_QPS_RTS \<and> dest_qp_num q = rem_qpn c \<and> rq_psn q = rem_psn c \<and> sq_psn q = psn c \<and> dlid q = ucast (rem_lid c)"
  by (simp add: rdfs_modify_qp_def client_modify_qp_def Let_def zero_attr_def)

text \<open>C13. Registration of a slave connects two queue pairs: the slave sends its parameters, the master takes them over and answers,
  the slave's handshake succeeds, and what both then pass to \<open>ib_modify_qp\<close> is a legal sequence that ends in the state ready to
  send with each queue pair addressing the other, each expecting the sequence number the other starts with. The master also knows
  the slave's memory: its address, its key and its number of blocks. It is enough that the network delivers the first 75
  bytes of what has arrived.\<close>

theorem registration_connects:
  assumes "delivers net 75" "length jm = 8" "length jn = 4" "length js = 4"
    and "sent = snd (slave_sock_send_info net no_traffic cs)"
  shows "\<exists>r cm' m1 cs' s2 qm qs.
    rdfs_recv_message net \<lparr>inq = outq sent, outq = []\<rparr> cm jm = Some (r, SLAVE_CTX_TO_MASTER_INFO, cm', m1) \<and>
    rdfs_client_handshake net \<lparr>inq = outq (snd (rdfs_send_message net m1 cm' MASTER_CTX_INFO jn)), outq = []\<rparr> cs js = (0, cs', s2) \<and>
    outq s2 = outq sent \<and>
    run_modify zero_attr (rdfs_modify_qp cm') = Some qm \<and> run_modify zero_attr (rdfs_modify_qp cs') = Some qs \<and>
    qp_state qm = IB_QPS_RTS \<and> qp_state qs = IB_QPS_RTS \<and>
    dest_qp_num qm = qpn cs \<and> dest_qp_num qs = qpn cm \<and> dlid qm = ucast (lid cs) \<and> dlid qs = ucast (lid cm) \<and>
    rq_psn qm = sq_psn qs \<and> rq_psn qs = sq_psn qm \<and>
    rem_addr cm' = dma_addr cs \<and> rem_rkey cm' = rkey cs \<and> rem_block_nums cm' = block_nums cs"
proof -
  let ?cm = "cm\<lparr>rem_addr := dma_addr cs, rem_rkey := rkey cs, rem_qpn := qpn cs, rem_psn := psn cs, rem_lid := lid cs,
      rem_block_nums := block_nums cs\<rparr>"
  let ?cs = "cs\<lparr>rem_addr := dma_addr cm, rem_rkey := rkey cm, rem_qpn := qpn cm, rem_psn := psn cm, rem_lid := lid cm\<rparr>"
  obtain r m1 s2 where ex: "rdfs_recv_message net \<lparr>inq = outq sent, outq = []\<rparr> cm jm = Some (r, SLAVE_CTX_TO_MASTER_INFO, ?cm, m1)"
      "rdfs_client_handshake net \<lparr>inq = outq (snd (rdfs_send_message net m1 ?cm MASTER_CTX_INFO jn)), outq = []\<rparr> cs js = (0, ?cs, s2)"
      "outq s2 = outq sent"
    using registration_exchange [OF assms, of cm] by auto
  obtain qm where "run_modify zero_attr (rdfs_modify_qp ?cm) = Some qm" "qp_state qm = IB_QPS_RTS" "dest_qp_num qm = qpn cs"
      "rq_psn qm = psn cs" "sq_psn qm = psn cm" "dlid qm = ucast (lid cs)"
    using modify_qp_ready [of ?cm] by auto
  moreover obtain qs where "run_modify zero_attr (rdfs_modify_qp ?cs) = Some qs" "qp_state qs = IB_QPS_RTS" "dest_qp_num qs = qpn cm"
      "rq_psn qs = psn cm" "sq_psn qs = psn cs" "dlid qs = ucast (lid cm)"
    using modify_qp_ready [of ?cs] by auto
  ultimately show ?thesis
    using ex by (intro exI [of _ r] exI [of _ ?cm] exI [of _ m1] exI [of _ ?cs] exI [of _ s2] exI [of _ qm] exI [of _ qs]) simp
qed

theorem registration_connects_witness:
  "\<exists>r cm' m1 qm. rdfs_recv_message lan \<lparr>inq = outq (snd (slave_sock_send_info lan no_traffic some_slave)), outq = []\<rparr> some_master
      (zeros 8) = Some (r, SLAVE_CTX_TO_MASTER_INFO, cm', m1) \<and> rem_block_nums cm' = 0x100000 \<and>
    run_modify zero_attr (rdfs_modify_qp cm') = Some qm \<and> dest_qp_num qm = 0x51"
  using registration_connects [OF lan_delivers, of "zeros 8" "zeros 4" "zeros 4" _ some_slave some_master]
  by (auto simp: some_slave_def)

end
