(* ===== verification/Transfers.thy ===== *)
theory Transfers
  imports Rdma Slave_Memory
begin

text \<open>
  Transfers between the master and the slaves (\<open>rdfs_rdma_block_rw\<close> and \<open>comp_handler_send\<close> of \<open>rdfs_master/server.c\<close>) as a system of
  concurrent callers, the hardware and the completion handler.

  \<open>rdfs_rdma_block_rw\<close> has two parts, since the caller sleeps in between: \<open>post_request\<close> up to \<open>ib_post_send\<close>, and the wait for the
  bit of the request. Every request has a ticket, a history variable that tells apart requests with the same number.
\<close>

section \<open>Requests\<close>

definition REQ_ID_MASK :: u64 where [consts_eval]: "REQ_ID_MASK = 0x000FFFFFFFFFFFFF"
definition BLOCK_BYTES :: u64 where [consts_eval]: "BLOCK_BYTES = 4096"

record wr =
  wr_id :: u64
  sg_addr :: u64
  sg_length :: u32
  sg_lkey :: u32
  opcode :: u32
  remote_addr :: u64
  wr_rkey :: u32

definition pack :: "u64 \<Rightarrow> u64 \<Rightarrow> u64" where
  "pack s_id req_id = push_bit SLAVE_ID_SHIFT s_id OR req_id"

definition post_request :: "u64 \<Rightarrow> u64 \<Rightarrow> u64 \<Rightarrow> u64 \<Rightarrow> u64 \<Rightarrow> u32 \<Rightarrow> rdfs_context \<Rightarrow> wr \<times> rdfs_context" where
  "post_request local_phy_addr s_id block_id block_offset len rw_flag c =
     (let remote_phy_addr = rem_addr c + block_id * BLOCK_BYTES + block_offset;
          req_id = current_req_id c;
          c' = c\<lparr>current_req_id := (req_id + 1) mod 64, lock_word := set_bit (unat req_id) (lock_word c)\<rparr>
      in (\<lparr>wr_id = pack s_id req_id, sg_addr = local_phy_addr, sg_length = ucast len, sg_lkey = lkey c, opcode = rw_flag,
           remote_addr = remote_phy_addr, wr_rkey = rem_rkey c\<rparr>, c'))"

text \<open>\<open>wait_on_bit_lock\<close>: when the bit is clear the caller goes on and has set it again.\<close>

definition wait_on_bit_lock :: "u64 \<Rightarrow> rdfs_context \<Rightarrow> rdfs_context option" where
  "wait_on_bit_lock req_id c =
     (if bit (lock_word c) (unat req_id) then None else Some (c\<lparr>lock_word := set_bit (unat req_id) (lock_word c)\<rparr>))"

text \<open>One completion: a successful one clears the bit of its request, of a failed one only a line is printed.\<close>

definition handle_wc :: "u64 \<times> bool \<Rightarrow> (u64 \<Rightarrow> rdfs_context option) \<Rightarrow> (u64 \<Rightarrow> rdfs_context option) option" where
  "handle_wc wc ctxs =
     (if snd wc then
        let s_id = drop_bit SLAVE_ID_SHIFT (fst wc); req_id = fst wc AND REQ_ID_MASK
        in case ctxs s_id of None \<Rightarrow> None
           | Some c \<Rightarrow> Some (ctxs(s_id \<mapsto> c\<lparr>lock_word := unset_bit (unat req_id) (lock_word c)\<rparr>))
      else Some ctxs)"

fun comp_handler_send :: "(u64 \<times> bool) list \<Rightarrow> (u64 \<Rightarrow> rdfs_context option) \<Rightarrow> (u64 \<Rightarrow> rdfs_context option) option" where
  "comp_handler_send [] ctxs = Some ctxs"
| "comp_handler_send (wc # wcs) ctxs =
     (case handle_wc wc ctxs of None \<Rightarrow> None | Some ctxs' \<Rightarrow> comp_handler_send wcs ctxs')"

section \<open>The system of callers, hardware and handler\<close>

record waiter =
  ticket :: nat
  w_slave :: u64
  w_req :: u64
  w_size :: u64

record xfer =
  ctxs :: "u64 \<Rightarrow> rdfs_context option"
  posted :: "(nat \<times> wr) list"
  cq :: "(nat \<times> u64 \<times> bool) list"
  waiters :: "waiter list"
  tickets :: nat
  succeeded :: "nat list"
  failed :: "nat list"

datatype xevent = Submit u64 u64 u64 u64 u64 u32 | Refused u64 | Complete bool | Handle | Returns nat | Killed nat

text \<open>\<open>Submit\<close> and \<open>Refused\<close> are calls whose post succeeds or fails (the caller gets -1), \<open>Complete\<close> is the hardware, \<open>Handle\<close> the handler
  with the next completion, \<open>Returns\<close> a caller that finds its bit clear, and \<open>Killed\<close> one that a fatal signal wakes.\<close>

inductive xstep :: "xfer \<Rightarrow> xevent \<Rightarrow> xfer \<Rightarrow> bool" where
  submit: "\<lbrakk>ctxs x s = Some c; post_request a s b ofs len rw c = (w, c')\<rbrakk> \<Longrightarrow>
     xstep x (Submit a s b ofs len rw) (x\<lparr>ctxs := (ctxs x)(s \<mapsto> c'), posted := posted x @ [(tickets x, w)],
       waiters := \<lparr>ticket = tickets x, w_slave = s, w_req = current_req_id c, w_size = len\<rparr> # waiters x, tickets := Suc (tickets x)\<rparr>)"
| refused: "\<lbrakk>ctxs x s = Some c; post_request a s b ofs len rw c = (w, c')\<rbrakk> \<Longrightarrow>
     xstep x (Refused s) (x\<lparr>ctxs := (ctxs x)(s \<mapsto> c')\<rparr>)"
| complete: "posted x = ps @ (k, w) # qs \<Longrightarrow>
     xstep x (Complete ok) (x\<lparr>posted := ps @ qs, cq := cq x @ [(k, wr_id w, ok)]\<rparr>)"
| handle: "\<lbrakk>cq x = (k, wc) # rest; handle_wc wc (ctxs x) = Some cs\<rbrakk> \<Longrightarrow>
     xstep x Handle (x\<lparr>ctxs := cs, cq := rest, succeeded := (if snd wc then k # succeeded x else succeeded x),
       failed := (if snd wc then failed x else k # failed x)\<rparr>)"
| returns: "\<lbrakk>waiters x = us @ u # vs; ctxs x (w_slave u) = Some c; wait_on_bit_lock (w_req u) c = Some c'\<rbrakk> \<Longrightarrow>
     xstep x (Returns (ticket u)) (x\<lparr>ctxs := (ctxs x)(w_slave u \<mapsto> c'), waiters := us @ vs\<rparr>)"
| killed: "waiters x = us @ u # vs \<Longrightarrow> xstep x (Killed (ticket u)) (x\<lparr>waiters := us @ vs\<rparr>)"


inductive_cases xstep_submitE: "xstep x (Submit a s b ofs len rw) y"
inductive_cases xstep_refusedE: "xstep x (Refused s) y"
inductive_cases xstep_completeE: "xstep x (Complete ok) y"
inductive_cases xstep_handleE: "xstep x Handle y"
inductive_cases xstep_returnsE: "xstep x (Returns k) y"
inductive_cases xstep_killedE: "xstep x (Killed k) y"

section \<open>Request numbers\<close>

lemma REQ_ID_MASK_mask: "REQ_ID_MASK = mask 52"
  by (simp add: REQ_ID_MASK_def mask_eq_exp_minus_1)

lemma pack_fields:
  assumes "s < 4096" "r < 64"
  shows "drop_bit SLAVE_ID_SHIFT (pack s r) = s" "pack s r AND REQ_ID_MASK = r"
proof -
  have "unat s < 2 ^ 12" "unat r < 2 ^ 6" using assms by (simp_all add: word_less_nat_alt)
  note small = this [THEN unat_less_bit]
  show "drop_bit SLAVE_ID_SHIFT (pack s r) = s"
    by (rule bit_word_eqI) (auto simp: pack_def SLAVE_ID_SHIFT_def bit_simps dest: small)
  show "pack s r AND REQ_ID_MASK = r"
    by (rule bit_word_eqI) (auto simp: pack_def SLAVE_ID_SHIFT_def REQ_ID_MASK_mask bit_simps dest: small)
qed

lemma pack_eq:
  "\<lbrakk>s < 4096; r < 64; s' < 4096; r' < 64\<rbrakk> \<Longrightarrow> pack s r = pack s' r' \<longleftrightarrow> s = s' \<and> r = r'"
  by (metis pack_fields)

lemma unat_req: "r < 64 \<Longrightarrow> r' < 64 \<Longrightarrow> unat r = unat (r' :: u64) \<longleftrightarrow> r = r'" for r :: u64
  by (simp add: word_unat_eq_iff)

lemma next_req: "((r :: u64) + 1) mod 64 < 64"
  by (simp add: word_less_nat_alt unat_mod_distrib)

section \<open>The invariant\<close>

definition entries :: "xfer \<Rightarrow> (nat \<times> u64) set" where
  "entries x = (\<lambda>(k, w). (k, wr_id w)) ` set (posted x) \<union> (\<lambda>(k, i, ok). (k, i)) ` set (cq x)"

abbreviation slot :: "waiter \<Rightarrow> u64 \<times> u64" where
  "slot u \<equiv> (w_slave u, w_req u)"

abbreviation slot_id :: "waiter \<Rightarrow> u64" where
  "slot_id u \<equiv> pack (w_slave u) (w_req u)"

text \<open>A caller's bit is set while its request is under way or has failed, and clear once it has succeeded.\<close>

definition waiter_ok :: "xfer \<Rightarrow> waiter \<Rightarrow> bool" where
  "waiter_ok x u \<longleftrightarrow> w_req u < 64 \<and> (\<exists>c. ctxs x (w_slave u) = Some c \<and>
     (if bit (lock_word c) (unat (w_req u)) then ticket u \<in> set (failed x) \<or> (ticket u, slot_id u) \<in> entries x
      else ticket u \<in> set (succeeded x)))"

definition xinv :: "xfer \<Rightarrow> bool" where
  "xinv x \<longleftrightarrow> (\<forall>s c. ctxs x s = Some c \<longrightarrow> s < 4096 \<and> current_req_id c < 64) \<and>
     (\<forall>u \<in> set (waiters x). waiter_ok x u) \<and> distinct (map slot (waiters x)) \<and>
     (\<forall>k i. (k, i) \<in> entries x \<longrightarrow> (\<exists>s r. ctxs x s \<noteq> None \<and> r < 64 \<and> i = pack s r)) \<and>
     (\<forall>k i u. (k, i) \<in> entries x \<longrightarrow> u \<in> set (waiters x) \<longrightarrow> i = slot_id u \<longrightarrow> k = ticket u)"

text \<open>The number a call would get is in use by no waiting caller and by no request under way.\<close>

definition unused :: "xfer \<Rightarrow> u64 \<Rightarrow> u64 \<Rightarrow> bool" where
  "unused x s r \<longleftrightarrow> (s, r) \<notin> slot ` set (waiters x) \<and> pack s r \<notin> snd ` entries x"

fun allowed :: "xfer \<Rightarrow> xevent \<Rightarrow> bool" where
  "allowed x (Submit a s b ofs len rw) \<longleftrightarrow> (\<forall>c. ctxs x s = Some c \<longrightarrow> unused x s (current_req_id c))"
| "allowed x (Refused s) \<longleftrightarrow> (\<forall>c. ctxs x s = Some c \<longrightarrow> unused x s (current_req_id c))"
| "allowed x e \<longleftrightarrow> True"

lemma xinv_waiterD:
  assumes "xinv x" "u \<in> set (waiters x)"
  shows "w_req u < 64" "w_slave u < 4096" "waiter_ok x u"
  using assms by (auto simp: xinv_def waiter_ok_def)

text \<open>What a step does to the contexts of the slaves matters to a waiting caller only where its own bit is concerned.\<close>

lemma waiter_ok_mono:
  assumes "waiter_ok x u" "ctxs y (w_slave u) = Some c'"
    and "\<And>c. ctxs x (w_slave u) = Some c \<Longrightarrow> bit (lock_word c') (unat (w_req u)) = bit (lock_word c) (unat (w_req u))"
    and "(ticket u, slot_id u) \<in> entries x \<Longrightarrow> (ticket u, slot_id u) \<in> entries y \<or> ticket u \<in> set (failed y)"
    and "set (failed x) \<subseteq> set (failed y)" "set (succeeded x) \<subseteq> set (succeeded y)"
  shows "waiter_ok y u"
  using assms unfolding waiter_ok_def by (auto split: if_splits)


lemma post_request_facts:
  assumes "post_request a s b ofs len rw c = (w, c')"
  shows "wr_id w = pack s (current_req_id c)" "current_req_id c' < 64"
    and "n < 64 \<Longrightarrow> bit (lock_word c') n \<longleftrightarrow> n = unat (current_req_id c) \<or> bit (lock_word c) n"
  using assms by (auto simp: post_request_def Let_def next_req bit_set_bit_iff)

lemma xinvI:
  assumes "\<And>s c. ctxs x s = Some c \<Longrightarrow> s < 4096 \<and> current_req_id c < 64"
    and "\<And>u. u \<in> set (waiters x) \<Longrightarrow> waiter_ok x u" and "distinct (map slot (waiters x))"
    and "\<And>k i. (k, i) \<in> entries x \<Longrightarrow> \<exists>s r. ctxs x s \<noteq> None \<and> r < 64 \<and> i = pack s r"
    and "\<And>k i u. (k, i) \<in> entries x \<Longrightarrow> u \<in> set (waiters x) \<Longrightarrow> i = slot_id u \<Longrightarrow> k = ticket u"
  shows "xinv x"
  using assms unfolding xinv_def by blast

lemma xinvD:
  assumes "xinv x"
  shows "ctxs x s = Some c \<Longrightarrow> s < 4096" "ctxs x s = Some c \<Longrightarrow> current_req_id c < 64"
    and "distinct (map slot (waiters x))"
    and "(k, i) \<in> entries x \<Longrightarrow> \<exists>s r. ctxs x s \<noteq> None \<and> r < 64 \<and> i = pack s r"
    and "(k, i) \<in> entries x \<Longrightarrow> u \<in> set (waiters x) \<Longrightarrow> i = slot_id u \<Longrightarrow> k = ticket u"
  using assms unfolding xinv_def by simp_all

lemma entry_slot_mono:
  assumes "xinv x" "(k, i) \<in> entries x" "\<And>s. ctxs x s \<noteq> None \<Longrightarrow> ctxs y s \<noteq> None"
  shows "\<exists>s r. ctxs y s \<noteq> None \<and> r < 64 \<and> i = pack s r"
  using xinvD(4) [OF assms(1,2)] assms(3) by blast

lemma unat_req_less: "r < 64 \<Longrightarrow> unat (r :: u64) < 64"
  by (simp add: word_less_nat_alt)

lemma other_waiter_posted:
  assumes inv: "xinv x" and c: "ctxs x s = Some c" and un: "unused x s (current_req_id c)"
    and p: "post_request a s b ofs len rw c = (w, c')" and u: "u \<in> set (waiters x)"
    and y: "ctxs y = (ctxs x)(s \<mapsto> c')" "entries x \<subseteq> entries y" "failed y = failed x" "succeeded y = succeeded x"
  shows "waiter_ok y u"
proof -
  note w = xinv_waiterD [OF inv u]
  obtain d where d: "ctxs y (w_slave u) = Some d"
    using w(3) y(1) by (cases "w_slave u = s") (auto simp: waiter_ok_def)
  have "bit (lock_word d) (unat (w_req u)) = bit (lock_word e) (unat (w_req u))" if "ctxs x (w_slave u) = Some e" for e
  proof (cases "w_slave u = s")
    case True
    then have "w_req u \<noteq> current_req_id c" using un u by (auto simp: unused_def)
    then have "unat (w_req u) \<noteq> unat (current_req_id c)" using unat_req [OF w(1) xinvD(2) [OF inv c]] by simp
    with True that d y(1) c show ?thesis using post_request_facts(3) [OF p unat_req_less [OF w(1)]] by simp
  next
    case False
    with that d y(1) show ?thesis by simp
  qed
  then show ?thesis by (rule waiter_ok_mono [OF w(3) d]) (use y(2-4) in auto)
qed

lemma xinv_submit:
  assumes inv: "xinv x" and step: "xstep x (Submit a s b ofs len rw) y" and ok: "allowed x (Submit a s b ofs len rw)"
  shows "xinv y"
  using step
proof (rule xstep_submitE)
  fix c w c'
  assume c: "ctxs x s = Some c" and p: "post_request a s b ofs len rw c = (w, c')"
    and y: "y = x\<lparr>ctxs := (ctxs x)(s \<mapsto> c'), posted := posted x @ [(tickets x, w)],
       waiters := \<lparr>ticket = tickets x, w_slave = s, w_req = current_req_id c, w_size = len\<rparr> # waiters x, tickets := Suc (tickets x)\<rparr>"
  let ?r = "current_req_id c"
  have un: "unused x s ?r" using ok c by simp
  note f = post_request_facts [OF p] and r = xinvD(2) [OF inv c] and s = xinvD(1) [OF inv c]
  have ent: "entries y = insert (tickets x, pack s ?r) (entries x)" by (auto simp: entries_def y f(1))
  show "xinv y"
  proof (rule xinvI)
    show "t < 4096 \<and> current_req_id d < 64" if "ctxs y t = Some d" for t d
      using that xinvD(1,2) [OF inv] f(2) s by (auto simp: y split: if_splits)
    show "waiter_ok y u" if "u \<in> set (waiters y)" for u
    proof (cases "u \<in> set (waiters x)")
      case True
      then show ?thesis using ent by (intro other_waiter_posted [OF inv c un p]) (auto simp: y)
    next
      case False
      then show ?thesis using that f(3) [OF unat_req_less [OF r]] r ent by (auto simp: y waiter_ok_def)
    qed
    show "distinct (map slot (waiters y))" using xinvD(3) [OF inv] un by (auto simp: y unused_def)
    show "\<exists>s r. ctxs y s \<noteq> None \<and> r < 64 \<and> i = pack s r" if "(k, i) \<in> entries y" for k i
    proof (cases "(k, i) \<in> entries x")
      case True
      then show ?thesis by (rule entry_slot_mono [OF inv]) (auto simp: y)
    next
      case False
      with that have "ctxs y s \<noteq> None \<and> i = pack s ?r" by (simp add: ent) (simp add: y)
      with r show ?thesis by blast
    qed
    show "k = ticket u" if "(k, i) \<in> entries y" "u \<in> set (waiters y)" "i = slot_id u" for k i u
    proof (cases "u \<in> set (waiters x)")
      case True
      have "slot_id u \<noteq> pack s ?r"
        using pack_eq [OF xinv_waiterD(2,1) [OF inv True] s r] un True by (auto simp: unused_def)
      with True that show ?thesis using xinvD(5) [OF inv] unfolding ent by auto
    next
      case False
      with that un show ?thesis unfolding ent by (force simp: y unused_def)
    qed
  qed
qed

lemma xinv_refused:
  assumes inv: "xinv x" and step: "xstep x (Refused s) y" and ok: "allowed x (Refused s)"
  shows "xinv y"
  using step
proof (rule xstep_refusedE)
  fix c a b ofs len rw w c'
  assume c: "ctxs x s = Some c" and p: "post_request a s b ofs len rw c = (w, c')" and y: "y = x\<lparr>ctxs := (ctxs x)(s \<mapsto> c')\<rparr>"
  have un: "unused x s (current_req_id c)" using ok c by simp
  have same: "entries y = entries x" "waiters y = waiters x" by (simp_all add: entries_def y)
  show "xinv y"
  proof (rule xinvI)
    show "t < 4096 \<and> current_req_id d < 64" if "ctxs y t = Some d" for t d
      using that xinvD(1,2) [OF inv] post_request_facts(2) [OF p] c by (auto simp: y split: if_splits)
    show "waiter_ok y u" if "u \<in> set (waiters y)" for u
      using that same by (intro other_waiter_posted [OF inv c un p]) (auto simp: y)
    show "distinct (map slot (waiters y))" using xinvD(3) [OF inv] same by simp
    show "\<exists>s r. ctxs y s \<noteq> None \<and> r < 64 \<and> i = pack s r" if "(k, i) \<in> entries y" for k i
      using that by (intro entry_slot_mono [OF inv, of k i y]) (auto simp: same, auto simp: y)
    show "k = ticket u" if "(k, i) \<in> entries y" "u \<in> set (waiters y)" "i = slot_id u" for k i u
      using that same xinvD(5) [OF inv] by simp
  qed
qed


text \<open>A step that keeps the requests under way and the contexts, and only drops waiting callers or moves requests on.\<close>

lemma xinv_fewer:
  assumes inv: "xinv x" and same: "ctxs y = ctxs x" "entries y = entries x" "failed y = failed x" "succeeded y = succeeded x"
    and less: "set (waiters y) \<subseteq> set (waiters x)" "distinct (map slot (waiters y))"
  shows "xinv y"
proof (rule xinvI)
  show "t < 4096 \<and> current_req_id d < 64" if "ctxs y t = Some d" for t d
    using that same(1) xinvD(1,2) [OF inv] by simp
  show "waiter_ok y u" if "u \<in> set (waiters y)" for u
  proof -
    have "waiter_ok x u" using that less(1) xinv_waiterD(3) [OF inv] by blast
    then show ?thesis unfolding waiter_ok_def same .
  qed
  show "\<exists>s r. ctxs y s \<noteq> None \<and> r < 64 \<and> i = pack s r" if "(k, i) \<in> entries y" for k i
    using that same by (intro entry_slot_mono [OF inv, of k i y]) simp_all
  show "k = ticket u" if "(k, i) \<in> entries y" "u \<in> set (waiters y)" "i = slot_id u" for k i u
    using that same(2) less(1) xinvD(5) [OF inv, of k i u] by blast
qed (rule less(2))

lemma xinv_complete: "xinv x \<Longrightarrow> xstep x (Complete ok) y \<Longrightarrow> xinv y"
  by (erule xstep_completeE) (rule xinv_fewer, auto simp: entries_def xinvD(3))

lemma xinv_killed: "xinv x \<Longrightarrow> xstep x (Killed k) y \<Longrightarrow> xinv y"
  using xinvD(3) [of x] by (elim xstep_killedE) (rule xinv_fewer, auto simp: entries_def)

lemma wait_on_bit_lock_facts:
  assumes "wait_on_bit_lock r c = Some c'" "r < 64"
  shows "\<not> bit (lock_word c) (unat r)" "current_req_id c' = current_req_id c"
    and "n < 64 \<Longrightarrow> bit (lock_word c') n \<longleftrightarrow> n = unat r \<or> bit (lock_word c) n"
  using assms unat_req_less [OF assms(2)] by (auto simp: wait_on_bit_lock_def bit_set_bit_iff split: if_splits)

lemma xinv_returns:
  assumes inv: "xinv x" and step: "xstep x (Returns k) y"
  shows "xinv y"
  using step
proof (rule xstep_returnsE)
  fix us u vs c c'
  assume ws: "waiters x = us @ u # vs" and c: "ctxs x (w_slave u) = Some c" and l: "wait_on_bit_lock (w_req u) c = Some c'"
    and y: "y = x\<lparr>ctxs := (ctxs x)(w_slave u \<mapsto> c'), waiters := us @ vs\<rparr>"
  have u: "u \<in> set (waiters x)" by (simp add: ws)
  note f = wait_on_bit_lock_facts [OF l xinv_waiterD(1) [OF inv u]]
  have dist: "distinct (map slot (waiters x))" by (rule xinvD(3) [OF inv])
  have ent: "entries y = entries x" by (simp add: entries_def y)
  show "xinv y"
  proof (rule xinvI)
    show "t < 4096 \<and> current_req_id d < 64" if "ctxs y t = Some d" for t d
      using that xinvD(1,2) [OF inv] f(2) c by (auto simp: y split: if_splits)
    show "waiter_ok y v" if v: "v \<in> set (waiters y)" for v
    proof -
      have "slot v \<in> slot ` (set us \<union> set vs)" using v by (simp add: y)
      moreover have "slot u \<notin> slot ` (set us \<union> set vs)" using dist by (simp add: ws image_Un)
      ultimately have "slot v \<noteq> slot u" by metis
      moreover have "v \<in> set (waiters x)" using v by (auto simp: y ws)
      ultimately have vx: "v \<in> set (waiters x)" "slot v \<noteq> slot u" by simp_all
      note wv = xinv_waiterD [OF inv vx(1)]
      obtain d where d: "ctxs y (w_slave v) = Some d"
        using wv(3) by (cases "w_slave v = w_slave u") (auto simp: waiter_ok_def y)
      have "bit (lock_word d) (unat (w_req v)) = bit (lock_word e) (unat (w_req v))" if "ctxs x (w_slave v) = Some e" for e
      proof (cases "w_slave v = w_slave u")
        case True
        then have "unat (w_req v) \<noteq> unat (w_req u)"
          using vx(2) unat_req [OF wv(1) xinv_waiterD(1) [OF inv u]] by simp
        with True that d c f(3) [OF unat_req_less [OF wv(1)]] show ?thesis by (simp add: y)
      next
        case False
        with that d show ?thesis by (simp add: y)
      qed
      then show ?thesis by (rule waiter_ok_mono [OF wv(3) d]) (simp_all add: ent, simp_all add: y)
    qed
    show "distinct (map slot (waiters y))" using dist by (simp add: y ws)
    show "\<exists>s r. ctxs y s \<noteq> None \<and> r < 64 \<and> i = pack s r" if "(k, i) \<in> entries y" for k i
      using that by (intro entry_slot_mono [OF inv, of k i y]) (simp_all add: ent, simp add: y)
    show "k = ticket v" if "(k, i) \<in> entries y" "v \<in> set (waiters y)" "i = slot_id v" for k i v
      using that xinvD(5) [OF inv, of k i v] by (auto simp: ent) (auto simp: y ws)
  qed
qed

lemma handle_wc_facts:
  assumes "handle_wc (pack s r, True) cs = Some cs'" "s < 4096" "r < 64"
  shows "(cs' t = None) = (cs t = None)"
    and "\<lbrakk>cs t = Some c; cs' t = Some c'\<rbrakk> \<Longrightarrow> current_req_id c' = current_req_id c"
    and "\<lbrakk>cs t = Some c; cs' t = Some c'; n < 64\<rbrakk> \<Longrightarrow>
      bit (lock_word c') n \<longleftrightarrow> bit (lock_word c) n \<and> \<not> (t = s \<and> n = unat r)"
  using assms by (auto simp: handle_wc_def pack_fields Let_def bit_unset_bit_iff split: option.splits if_splits)

lemma xinv_handle:
  assumes inv: "xinv x" and step: "xstep x Handle y"
  shows "xinv y"
  using step
proof (rule xstep_handleE)
  fix k wc rest cs
  assume q: "cq x = (k, wc) # rest" and h: "handle_wc wc (ctxs x) = Some cs"
    and y: "y = x\<lparr>ctxs := cs, cq := rest, succeeded := (if snd wc then k # succeeded x else succeeded x),
       failed := (if snd wc then failed x else k # failed x)\<rparr>"
  obtain i ok where wc: "wc = (i, ok)" by (cases wc)
  have here: "(k, i) \<in> entries x" by (force simp: entries_def q wc)
  obtain s r where id: "ctxs x s \<noteq> None" "r < 64" "i = pack s r" using xinvD(4) [OF inv here] by blast
  have s: "s < 4096" using id(1) xinvD(1) [OF inv] by blast
  have ent: "entries y \<subseteq> entries x" "entries x \<subseteq> insert (k, i) (entries y)"
    by (simp_all add: entries_def y q wc) blast+
  have dom: "(ctxs y t = None) = (ctxs x t = None)" for t
    using h handle_wc_facts(1) [OF _ s id(2)] by (cases ok) (auto simp: y wc id(3) handle_wc_def)
  have req: "current_req_id d = current_req_id c" if "ctxs x t = Some c" "ctxs y t = Some d" for t c d
    using h that handle_wc_facts(2) [OF _ s id(2)] by (cases ok) (auto simp: y wc id(3) handle_wc_def)
  have bits: "bit (lock_word d) n \<longleftrightarrow> bit (lock_word c) n \<and> \<not> (ok \<and> t = s \<and> n = unat r)"
    if "ctxs x t = Some c" "ctxs y t = Some d" "n < 64" for t c d n
    using h that handle_wc_facts(3) [OF _ s id(2), of "ctxs x" cs t c d n] by (cases ok) (auto simp: y wc id(3) handle_wc_def)
  show "xinv y"
  proof (rule xinvI)
    show "t < 4096 \<and> current_req_id d < 64" if d: "ctxs y t = Some d" for t d
    proof -
      obtain c where "ctxs x t = Some c" using d dom [of t] by force
      with req [OF this d] show ?thesis using xinvD(1,2) [OF inv] by simp
    qed
    show "waiter_ok y u" if u: "u \<in> set (waiters y)" for u
    proof -
      have ux: "u \<in> set (waiters x)" using u by (simp add: y)
      note w = xinv_waiterD [OF inv ux]
      obtain c where c: "ctxs x (w_slave u) = Some c" using w(3) by (auto simp: waiter_ok_def)
      obtain d where d: "ctxs y (w_slave u) = Some d" using c dom [of "w_slave u"] by force
      have own: "k = ticket u" if "slot_id u = i" using xinvD(5) [OF inv here ux] that by simp
      have "unat (w_req u) = unat r \<and> w_slave u = s \<longleftrightarrow> slot_id u = i"
        using pack_eq [OF w(2,1) s id(2)] unat_req [OF w(1) id(2)] id(3) by auto
      then have b: "bit (lock_word d) (unat (w_req u)) \<longleftrightarrow> bit (lock_word c) (unat (w_req u)) \<and> \<not> (ok \<and> slot_id u = i)"
        using bits [OF c d unat_req_less [OF w(1)]] by auto
      show ?thesis
      proof (cases "slot_id u = i")
        case True
        with own b w(1,3) c d ent(2) show ?thesis
          by (cases ok) (auto simp: waiter_ok_def y wc split: if_splits)
      next
        case False
        with b c show ?thesis
          by (intro waiter_ok_mono [OF w(3) d]) (use ent(2) in \<open>auto simp: y\<close>)
      qed
    qed
    show "distinct (map slot (waiters y))" using xinvD(3) [OF inv] by (simp add: y)
    show "\<exists>s r. ctxs y s \<noteq> None \<and> r < 64 \<and> j = pack s r" if "(l, j) \<in> entries y" for l j
      by (rule entry_slot_mono [OF inv]) (use that ent(1) dom in auto)
    show "l = ticket u" if "(l, j) \<in> entries y" "u \<in> set (waiters y)" "j = slot_id u" for l j u
      using that ent(1) xinvD(5) [OF inv, of l j u] by (auto simp: y)
  qed
qed

lemma xinv_step: "\<lbrakk>xinv x; xstep x e y; allowed x e\<rbrakk> \<Longrightarrow> xinv y"
  by (cases e) (metis xinv_submit, metis xinv_refused, metis xinv_complete, metis xinv_handle, metis xinv_returns, metis xinv_killed)


section \<open>Runs\<close>

text \<open>Before the first request: slaves are registered and nothing is under way.\<close>

definition idle :: "xfer \<Rightarrow> bool" where
  "idle x \<longleftrightarrow> posted x = [] \<and> cq x = [] \<and> waiters x = [] \<and> (\<forall>s c. ctxs x s = Some c \<longrightarrow> s < 10 \<and> current_req_id c < 64)"

inductive xreach :: "xfer \<Rightarrow> xfer \<Rightarrow> bool" for x\<^sub>0 where
  start: "xreach x\<^sub>0 x\<^sub>0"
| more: "\<lbrakk>xreach x\<^sub>0 x; xstep x e y; allowed x e\<rbrakk> \<Longrightarrow> xreach x\<^sub>0 y"

lemma idle_xinv: "idle x \<Longrightarrow> xinv x"
  by (rule xinvI) (auto simp: idle_def entries_def intro: less_trans [of _ 10 4096])

lemma xreach_inv: "xreach x\<^sub>0 x \<Longrightarrow> idle x\<^sub>0 \<Longrightarrow> xinv x"
proof (induction rule: xreach.induct)
  case (more x e y)
  then show ?case using xinv_step [of x e y] by simp
qed (rule idle_xinv)

text \<open>A step of hardware, handler or a waiting caller, with no failure and no signal.\<close>

definition drain :: "xfer \<Rightarrow> xfer \<Rightarrow> bool" where
  "drain x y \<longleftrightarrow> xstep x (Complete True) y \<or> xstep x Handle y \<or> (\<exists>k. xstep x (Returns k) y)"

definition pending :: "xfer \<Rightarrow> nat" where
  "pending x = 2 * length (posted x) + length (cq x) + length (waiters x)"

definition no_failure :: "xfer \<Rightarrow> bool" where
  "no_failure x \<longleftrightarrow> list_all (\<lambda>u. ticket u \<notin> set (failed x)) (waiters x) \<and> list_all (\<lambda>(k, i, ok). ok) (cq x)"

lemma drain_facts:
  assumes "xinv x" "no_failure x" "drain x y"
  shows "xinv y" "no_failure y" "pending y < pending x"
proof -
  show "xinv y" using assms(3) unfolding drain_def
    by (elim disjE exE) (metis assms(1) xinv_complete, metis assms(1) xinv_handle, metis assms(1) xinv_returns)
  have "no_failure y \<and> pending y < pending x" using assms(3) unfolding drain_def
  proof (elim disjE exE)
    assume "xstep x (Complete True) y"
    then show ?thesis by (rule xstep_completeE) (use assms(2) in \<open>auto simp: no_failure_def pending_def\<close>)
  next
    assume "xstep x Handle y"
    then show ?thesis by (rule xstep_handleE) (use assms(2) in \<open>auto simp: no_failure_def pending_def\<close>)
  next
    fix k
    assume "xstep x (Returns k) y"
    then show ?thesis by (rule xstep_returnsE) (use assms(2) in \<open>auto simp: no_failure_def pending_def\<close>)
  qed
  then show "no_failure y" "pending y < pending x" by simp_all
qed

lemma drain_enabled:
  assumes inv: "xinv x" and nf: "no_failure x" and "waiters x \<noteq> []"
  shows "\<exists>y. drain x y"
proof -
  obtain u vs where ws: "waiters x = [] @ u # vs" using assms(3) by (cases "waiters x") auto
  have u: "u \<in> set (waiters x)" "ticket u \<notin> set (failed x)" using nf by (auto simp: ws no_failure_def)
  obtain c where c: "ctxs x (w_slave u) = Some c"
    and b: "if bit (lock_word c) (unat (w_req u)) then ticket u \<in> set (failed x) \<or> (ticket u, slot_id u) \<in> entries x
      else ticket u \<in> set (succeeded x)"
    using xinv_waiterD(3) [OF inv u(1)] by (auto simp: waiter_ok_def)
  show ?thesis
  proof (cases "bit (lock_word c) (unat (w_req u))")
    case False
    then obtain c' where "wait_on_bit_lock (w_req u) c = Some c'" by (simp add: wait_on_bit_lock_def)
    then show ?thesis unfolding drain_def by (metis returns [OF ws c])
  next
    case True
    show ?thesis
    proof (cases "posted x")
      case (Cons p ps)
      then obtain k w where "posted x = [] @ (k, w) # ps" by (cases p) simp
      then show ?thesis unfolding drain_def by (metis complete)
    next
      case Nil
      with True b u(2) have "cq x \<noteq> []" by (auto simp: entries_def)
      then obtain k i ok rest where q: "cq x = (k, i, ok) # rest" by (metis list.exhaust prod_cases3)
      then have "(k, i) \<in> entries x" by (force simp: entries_def)
      then obtain s r where id: "ctxs x s \<noteq> None" "r < 64" "i = pack s r" using xinvD(4) [OF inv] by blast
      then have "s < 4096" using xinvD(1) [OF inv] by blast
      then obtain cs where "handle_wc (i, ok) (ctxs x) = Some cs"
        using id by (cases ok) (auto simp: handle_wc_def pack_fields Let_def)
      with q show ?thesis unfolding drain_def by (metis handle)
    qed
  qed
qed

lemma drain_star: "drain\<^sup>*\<^sup>* x y \<Longrightarrow> xinv x \<Longrightarrow> no_failure x \<Longrightarrow> xinv y \<and> no_failure y"
proof (induction rule: rtranclp_induct)
  case (step y z)
  then show ?case using drain_facts(1,2) [of y z] by simp
qed simp

lemma drains: "xinv x \<Longrightarrow> no_failure x \<Longrightarrow> \<exists>y. drain\<^sup>*\<^sup>* x y \<and> waiters y = []"
proof (induction "pending x" arbitrary: x rule: less_induct)
  case less
  show ?case
  proof (cases "waiters x = []")
    case False
    then obtain y where y: "drain x y" using drain_enabled less.prems by blast
    with less drain_facts [OF less.prems y] obtain z where "drain\<^sup>*\<^sup>* y z" "waiters z = []" by blast
    with y show ?thesis by (meson converse_rtranclp_into_rtranclp)
  qed blast
qed

lemma returns_succeeded:
  assumes "xinv x" "xstep x (Returns k) y"
  shows "k \<in> set (succeeded x)"
  using assms(2)
proof (rule xstep_returnsE)
  fix us u vs c c'
  assume k: "k = ticket u" and ws: "waiters x = us @ u # vs" and c: "ctxs x (w_slave u) = Some c"
    and l: "wait_on_bit_lock (w_req u) c = Some c'"
  have "waiter_ok x u" using xinv_waiterD(3) [OF assms(1), of u] by (simp add: ws)
  with c l k show ?thesis by (auto simp: waiter_ok_def wait_on_bit_lock_def split: if_splits)
qed


definition one_slave :: xfer where
  "one_slave = \<lparr>ctxs = [0 \<mapsto> some_master], posted = [], cq = [], waiters = [], tickets = 0, succeeded = [], failed = []\<rparr>"


end
