(* ===== verification/File_Io.thy ===== *)
theory File_Io
  imports Namei Transfers
begin

text \<open>
  Reading and writing files (\<open>rdfs_master/file.c\<close>). The data of a file lives in the memory of the slaves; a read or a write goes
  through one page of the master's NVM and is cut into one transfer per block, each to the slave and block that the entry of the
  file's table names. The same walk over the blocks answers a client's request for the blocks of a file
  (\<open>rdfs_client_search_metadata\<close> of \<open>pgtable.c\<close>).

  \<open>None\<close> is a fault (an unmapped table, a slave that has no context) or a loop that does not end.
\<close>

section \<open>Walking over the blocks of a request\<close>

text \<open>The loop \<open>for(i=start;i<end;)\<close>: for every block the aligned offset, the offset in the block and the number of bytes.\<close>

partial_function (option) block_walk :: "u64 \<Rightarrow> u64 \<Rightarrow> (u64 \<times> u64 \<times> u64) list option" where
  "block_walk i stop =
     (if i < stop then
        let pte = push_bit 12 (drop_bit 12 i);
            block_offset = i AND 0xFFF;
            len = BLOCK_BYTES - block_offset;
            len' = (if i + len > stop then stop - i else len)
        in do {
          ps \<leftarrow> block_walk (i + (BLOCK_BYTES - block_offset)) stop;
          Some ((pte, block_offset, len') # ps)
        }
      else Some [])"

section \<open>State\<close>

text \<open>The buffer page (\<open>global_phy_addr\<close>, \<open>local_rw_addr\<close> and \<open>flag\<close>), the counters \<open>i_p_counter\<close> by inode, the contexts of the slaves
  (\<open>slave_ctx\<close>) and their memory by DMA address.\<close>

record fio = vfs +
  global_phy_addr :: u64
  local_rw_addr :: u64
  buffer_flag :: bool
  i_p_counter :: "u64 \<Rightarrow> int"
  slave_ctxs :: "u64 \<Rightarrow> rdfs_context option"
  slave_mem :: "u64 \<Rightarrow> mem"

text \<open>What the kernel and the hardware decide: the DMA address of a page (\<open>ib_dma_map_single\<close>), the address under which the CPU
  sees what a DMA address names, whether the post of a request succeeds, the result of \<open>generic_file_open\<close>, the bytes that
  \<open>__copy_from_user\<close> stores for a buffer and a length, and those of a kernel buffer that \<open>__copy_to_user\<close> delivers.\<close>

record fenv = nenv +
  dma_map :: "u64 \<Rightarrow> u64"
  dma_cpu :: "u64 \<Rightarrow> u64"
  post_ok :: "wr \<Rightarrow> bool"
  generic_file_open :: "inode \<Rightarrow> int"
  copy_from_user :: "u8 list \<Rightarrow> nat \<Rightarrow> u8 list"
  copy_to_user :: "u8 list \<Rightarrow> u8 list"

definition RDFS_READ :: u32 where [consts_eval]: "RDFS_READ = 4"
definition RDFS_WRITE :: u32 where [consts_eval]: "RDFS_WRITE = 0"

section \<open>The buffer, opening and closing\<close>

text \<open>The result of \<open>rdfs_new_block\<close> is not looked at: without a free page the address stays what it was.\<close>

definition rdfs_init_local_rw_buffer :: "'k fenv_scheme \<Rightarrow> 'a fio_scheme \<Rightarrow> 'a fio_scheme" where
  "rdfs_init_local_rw_buffer k s =
     (if buffer_flag s then s
      else let s1 = (case rdfs_new_block (s\<lparr>buffer_flag := True\<rparr>) (this_cpu k) 1 0 of
                 None \<Rightarrow> s\<lparr>buffer_flag := True\<rparr> | Some (p, s') \<Rightarrow> s'\<lparr>global_phy_addr := p\<rparr>)
           in s1\<lparr>local_rw_addr := dma_map k (global_phy_addr s1)\<rparr>)"

definition rdfs_destroy_local_rw_buffer :: "'a fio_scheme \<Rightarrow> 'a fio_scheme" where
  "rdfs_destroy_local_rw_buffer s = (if \<not> buffer_flag s then s else s\<lparr>buffer_flag := False\<rparr>)"

definition rdfs_open_file :: "'k fenv_scheme \<Rightarrow> 'a fio_scheme \<Rightarrow> u64 \<Rightarrow> (int \<times> 'a fio_scheme) option" where
  "rdfs_open_file k s ino = do {
     (_, s1) \<leftarrow> on_inode (establish k) s ino;
     let s2 = rdfs_init_local_rw_buffer k s1;
     let s3 = (if S_ISREG (i_mode (icache s2 ino))
               then s2\<lparr>i_p_counter := (i_p_counter s2)(ino := i_p_counter s2 ino + 1)\<rparr> else s2);
     Some (generic_file_open k (icache s3 ino), s3)
   }"

definition rdfs_release_file :: "'a fio_scheme \<Rightarrow> u64 \<Rightarrow> (int \<times> 'a fio_scheme) option" where
  "rdfs_release_file s ino =
     (if i_virt_addr (info (icache s ino)) \<noteq> 0 then
        let s1 = s\<lparr>i_p_counter := (i_p_counter s)(ino := i_p_counter s ino - 1)\<rparr>
        in if i_p_counter s1 ino = 0 then on_inode rdfs_destroy_mapping s1 ino else Some (0, s1)
      else Some (0, s))"

definition rdfs_direct_IO :: "u64 \<Rightarrow> u64" where
  "rdfs_direct_IO len = len"

definition O_DIRECT :: u32 where [consts_eval]: "O_DIRECT = 0x4000"

definition rdfs_check_flags :: "u32 \<Rightarrow> int" where
  "rdfs_check_flags flags = (if flags AND O_DIRECT = 0 then - EINVAL else 0)"

section \<open>One transfer\<close>

text \<open>What the hardware does for a work request: it copies between the local buffer and the memory of the slave.\<close>

definition rdma_move :: "'k fenv_scheme \<Rightarrow> 'a fio_scheme \<Rightarrow> u64 \<Rightarrow> wr \<Rightarrow> 'a fio_scheme" where
  "rdma_move k s s_id w =
     (let n = unat (sg_length w)
      in if opcode w = RDFS_READ
         then s\<lparr>mem := store_bytes (mem s) (dma_cpu k (sg_addr w)) (load_bytes (slave_mem s s_id) (remote_addr w) n)\<rparr>
         else s\<lparr>slave_mem := (slave_mem s)(s_id := store_bytes (slave_mem s s_id) (remote_addr w)
                  (load_bytes (mem s) (dma_cpu k (sg_addr w)) n))\<rparr>)"

text \<open>The request is posted, the hardware does it, the handler clears the bit and the caller goes on.\<close>

definition rdfs_rdma_block_rw ::
  "'k fenv_scheme \<Rightarrow> 'a fio_scheme \<Rightarrow> u64 \<Rightarrow> u64 \<Rightarrow> u64 \<Rightarrow> u64 \<Rightarrow> u64 \<Rightarrow> u32 \<Rightarrow> (u64 \<times> 'a fio_scheme) option" where
  "rdfs_rdma_block_rw k s local_phy_addr s_id block_id block_offset len rw_flag =
     (case slave_ctxs s s_id of None \<Rightarrow> None
      | Some c \<Rightarrow>
          let (w, c1) = post_request local_phy_addr s_id block_id block_offset len rw_flag c;
              s1 = s\<lparr>slave_ctxs := (slave_ctxs s)(s_id \<mapsto> c1)\<rparr>
          in if \<not> post_ok k w then Some (- 1, s1)
             else let s2 = rdma_move k s1 s_id w
                  in do {
                    cs \<leftarrow> handle_wc (wr_id w, True) (slave_ctxs s2);
                    c2 \<leftarrow> cs s_id;
                    c3 \<leftarrow> wait_on_bit_lock (current_req_id c) c2;
                    Some (len, s2\<lparr>slave_ctxs := cs(s_id \<mapsto> c3)\<rparr>)
                  })"

text \<open>The body of the loops: the result of a transfer is overwritten by the size.\<close>

fun transfer_pieces ::
  "'k fenv_scheme \<Rightarrow> rdfs_inode_info \<Rightarrow> u32 \<Rightarrow> (u64 \<times> u64 \<times> u64) list \<Rightarrow> u64 \<Rightarrow> 'a fio_scheme \<Rightarrow> 'a fio_scheme option" where
  "transfer_pieces k ri rw [] rw_addr s = Some s"
| "transfer_pieces k ri rw ((pte, block_offset, len) # ps) rw_addr s = do {
     (s_id, block_id) \<leftarrow> rdfs_search_metadata s ri pte;
     (_, s1) \<leftarrow> rdfs_rdma_block_rw k s rw_addr s_id block_id block_offset len rw;
     transfer_pieces k ri rw ps (rw_addr + len) s1
   }"

section \<open>Reading and writing\<close>

abbreviation file_size :: "'a vfs_scheme \<Rightarrow> u64 \<Rightarrow> u64" where
  "file_size s ino \<equiv> word_of_int (i_size (icache s ino))"

definition i_size_write :: "'a vfs_scheme \<Rightarrow> u64 \<Rightarrow> u64 \<Rightarrow> 'a vfs_scheme" where
  "i_size_write s ino v = set_inode s ino ((icache s ino)\<lparr>i_size := sint v\<rparr>)"

text \<open>\<open>length\<close> is unsigned, so the second early return is taken for 0 only. The result is what the function returns, the bytes in the
  user's buffer, the new position and the state.\<close>

definition rdfs_local_file_read ::
  "'k fenv_scheme \<Rightarrow> 'a fio_scheme \<Rightarrow> u64 \<Rightarrow> u64 \<Rightarrow> u64 \<Rightarrow> (u64 \<times> u8 list \<times> u64 \<times> 'a fio_scheme) option" where
  "rdfs_local_file_read k s ino len ppos =
     (if i_size (icache s ino) \<le> 0 then Some (len, [], ppos, s)
      else
        let n = (if ppos + len > file_size s ino then file_size s ino - ppos else len)
        in if n = 0 then Some (0, [], ppos, s)
           else do {
             ps \<leftarrow> block_walk ppos (ppos + n);
             s1 \<leftarrow> transfer_pieces k (info (icache s ino)) RDFS_READ ps (local_rw_addr s) s;
             Some (n, copy_to_user k (load_bytes (mem s1) (rdfs_va s1 (global_phy_addr s1)) (unat n)), ppos + n, s1)
           })"

text \<open>The number of blocks a request up to \<open>stop\<close> needs beyond those the file has.\<close>

definition pages_to_alloc :: "'k kenv_scheme \<Rightarrow> 'a vfs_scheme \<Rightarrow> u64 \<Rightarrow> u64 \<Rightarrow> u64" where
  "pages_to_alloc k s ino stop =
     drop_bit (s_blocksize_bits k) (stop + s_blocksize k - 1) -
     drop_bit (s_blocksize_bits k) (file_size s ino + s_blocksize k - 1)"

text \<open>The \<open>long\<close> is passed as an \<open>int\<close>.\<close>

definition grow_file :: "'k nenv_scheme \<Rightarrow> 'a vfs_scheme \<Rightarrow> u64 \<Rightarrow> u64 \<Rightarrow> (int \<times> 'a vfs_scheme) option" where
  "grow_file k s ino stop =
     (let n = pages_to_alloc k s ino stop
      in if 0 < sint n
         then on_inode (\<lambda>s i. rdfs_alloc_blocks k s i (sint (ucast n :: u32)) 1 ALLOC_PTE (junk_page k)) s ino
         else Some (0, s))"

text \<open>The test for an error of \<open>rdfs_alloc_blocks\<close> compares an unsigned variable with 0 and never succeeds. A byte 0 is
  stored behind the data. The size of the file is set to the end of the request in any case.\<close>

definition rdfs_local_file_write ::
  "'k fenv_scheme \<Rightarrow> 'a fio_scheme \<Rightarrow> u64 \<Rightarrow> u8 list \<Rightarrow> u64 \<Rightarrow> u64 \<Rightarrow> (u64 \<times> u64 \<times> 'a fio_scheme) option" where
  "rdfs_local_file_write k s ino buf len ppos = do {
     (_, s1) \<leftarrow> grow_file k s ino (ppos + len);
     let va = rdfs_va s1 (global_phy_addr s1);
     let s2 = s1\<lparr>mem := store_bytes (mem s1) va (copy_from_user k buf (unat len))\<rparr>;
     let s3 = put8 s2 (va + len) 0;
     ps \<leftarrow> block_walk ppos (ppos + len);
     s4 \<leftarrow> transfer_pieces k (info (icache s3 ino)) RDFS_WRITE ps (local_rw_addr s3) s3;
     let s5 = (if ppos + len > file_size s ino then i_size_write s4 ino (ppos + len) else s4);
     Some (len, ppos + len, i_size_write s5 ino (ppos + len))
   }"

section \<open>Blocks of a file for a client\<close>

text \<open>One record: slave, block, offset in the block and number of bytes, as \<open>%ld:%ld:%ld:%ld\<close>.\<close>

definition block_record :: "u64 \<Rightarrow> u64 \<Rightarrow> u64 \<Rightarrow> u64 \<Rightarrow> string" where
  "block_record s_id block_id block_offset len =
     colons [sdec (sint s_id), sdec (sint block_id), sdec (sint block_offset), sdec (sint len)]"

text \<open>The records are printed one after the other, with nothing in between.\<close>

fun block_records :: "'a kern_scheme \<Rightarrow> rdfs_inode_info \<Rightarrow> (u64 \<times> u64 \<times> u64) list \<Rightarrow> string option" where
  "block_records s ri [] = Some []"
| "block_records s ri ((pte, block_offset, len) # ps) = do {
     (s_id, block_id) \<leftarrow> rdfs_search_metadata s ri pte;
     rest \<leftarrow> block_records s ri ps;
     Some (block_record s_id block_id block_offset len @ rest)
   }"

text \<open>The result: the return value, and on success the text for \<open>m_data\<close> and \<open>nums\<close>. A text that does not fit into the message overruns
  it, which is \<^const>\<open>None\<close>, as is an inode that \<open>rdfs_iget\<close> does not find.\<close>

definition rdfs_client_search_metadata ::
  "'k nenv_scheme \<Rightarrow> 'a vfs_scheme \<Rightarrow> u32 \<Rightarrow> u64 \<Rightarrow> u64 \<Rightarrow> (int \<times> (string \<times> u32) option \<times> 'a vfs_scheme) option" where
  "rdfs_client_search_metadata k s ino32 offset len = do {
     let ino = (scast ino32 :: u64);
     (r, _) \<leftarrow> rdfs_iget k s (iget_lock k ino) ino;
     inode \<leftarrow> (case r of Inl _ \<Rightarrow> None | Inr i \<Rightarrow> Some i);
     let s1 = set_inode s ino inode;
     (err, s2) \<leftarrow> grow_file k s1 ino (offset + len);
     if err < 0 then Some (err, None, s2)
     else do {
       ps \<leftarrow> block_walk offset (offset + len);
       text \<leftarrow> block_records s2 (info (icache s2 ino)) ps;
       if MAX_MESSAGE_LENGTH \<le> length text then None
       else
         let s3 = (if sint (offset + len) > i_size (icache s1 ino) then i_size_write s2 ino (offset + len) else s2)
         in Some (0, Some (text, of_nat (length ps)), i_size_write s3 ino (offset + len))
     }
   }"


section \<open>The walk ends and covers the request\<close>

lemma unat_page_offset: "unat ((i :: u64) AND 0xFFF) = unat i mod 4096"
proof -
  have "i AND 0xFFF = take_bit 12 i" by (simp add: take_bit_eq_mask mask_eq_exp_minus_1)
  then show ?thesis by (simp add: take_bit_eq_mod unat_mod_distrib)
qed

lemma unat_page_base: "unat (push_bit 12 (drop_bit 12 (i :: u64))) = unat i div 4096 * 4096"
proof -
  have "push_bit 12 (drop_bit 12 i) = i - take_bit 12 i"
    by (metis add_diff_cancel_left' add_diff_cancel_right' bits_ident)
  moreover have "unat (take_bit 12 i) = unat i mod 4096" by (simp add: take_bit_eq_mod unat_mod_distrib)
  moreover have "take_bit 12 i \<le> i" by (simp add: word_le_nat_alt take_bit_eq_mod unat_mod_distrib)
  ultimately show ?thesis by (simp add: unat_sub minus_mod_eq_div_mult)
qed

lemma unat_piece: "unat (BLOCK_BYTES - ((i :: u64) AND 0xFFF)) = 4096 - unat i mod 4096"
proof -
  have "i AND 0xFFF \<le> BLOCK_BYTES"
    using unat_page_offset [of i] by (simp add: word_le_nat_alt BLOCK_BYTES_def)
  then show ?thesis by (simp add: unat_sub unat_page_offset BLOCK_BYTES_def)
qed

lemma less_next_block: "i < i div 4096 * 4096 + (4096 :: nat)"
  using div_mult_mod_eq [of i 4096] mod_less_divisor [of 4096 i] by linarith

text \<open>The walk over natural numbers: from \<open>i\<close> to the end of its block, then block by block.\<close>

function pieces :: "nat \<Rightarrow> nat \<Rightarrow> (nat \<times> nat \<times> nat) list" where
  "pieces i e = (if i < e then (i div 4096 * 4096, i mod 4096, min (4096 - i mod 4096) (e - i)) #
     pieces (i div 4096 * 4096 + 4096) e else [])"
  by pat_completeness auto
termination pieces
  by (relation "measure (\<lambda>(i, e). e - i)") (auto intro!: diff_less_mono2 less_next_block)

declare pieces.simps [simp del]

lemma next_block: "i + (4096 - i mod 4096) = i div 4096 * 4096 + (4096 :: nat)"
  using div_mult_mod_eq [of i 4096] mod_less_divisor [of 4096 i] by linarith

lemma unat_next_block:
  assumes "unat (i :: u64) + 4096 < 2 ^ 64"
  shows "unat (i + (BLOCK_BYTES - (i AND 0xFFF))) = unat i div 4096 * 4096 + 4096"
proof -
  have "unat i + (4096 - unat i mod 4096) \<le> unat i + 4096" by simp
  then have "unat i + unat (BLOCK_BYTES - (i AND 0xFFF)) < 2 ^ 64"
    using le_less_trans [OF _ assms] by (simp only: unat_piece)
  from unat_plus_const [OF this] show ?thesis by (simp only: unat_piece next_block)
qed

abbreviation nats :: "u64 \<times> u64 \<times> u64 \<Rightarrow> nat \<times> nat \<times> nat" where
  "nats p \<equiv> (case p of (a, b, c) \<Rightarrow> (unat a, unat b, unat c))"

lemma block_walk_pieces:
  assumes "unat stop + 4096 \<le> 2 ^ 64"
  shows "\<exists>ps. block_walk i stop = Some ps \<and> map nats ps = pieces (unat i) (unat stop)"
proof (induction "unat stop - unat i" arbitrary: i rule: less_induct)
  case less
  show ?case
  proof (cases "i < stop")
    case False
    then show ?thesis by (subst block_walk.simps, subst pieces.simps) (simp add: word_less_nat_alt)
  next
    case True
    let ?n = "i + (BLOCK_BYTES - (i AND 0xFFF))"
    have lt: "unat i < unat stop" using True by (simp add: word_less_nat_alt)
    then have n: "unat ?n = unat i div 4096 * 4096 + 4096" using assms by (intro unat_next_block) simp
    have "unat i < unat ?n" unfolding n by (rule less_next_block)
    then have "unat stop - unat ?n < unat stop - unat i" using lt by linarith
    then obtain ps where ps: "block_walk ?n stop = Some ps" "map nats ps = pieces (unat ?n) (unat stop)"
      using less by blast
    define len where "len = (if stop < ?n then stop - i else BLOCK_BYTES - (i AND 0xFFF))"
    have "unat len = min (4096 - unat i mod 4096) (unat stop - unat i)"
    proof (cases "stop < ?n")
      case True
      then have "unat stop < unat i + (4096 - unat i mod 4096)" by (simp add: word_less_nat_alt n next_block)
      with True lt show ?thesis by (simp add: len_def unat_sub word_le_nat_alt)
    next
      case False
      then have "unat i + (4096 - unat i mod 4096) \<le> unat stop" by (simp add: word_less_nat_alt n next_block)
      with False show ?thesis by (simp add: len_def unat_piece)
    qed
    moreover have "block_walk i stop = Some ((push_bit 12 (drop_bit 12 i), i AND 0xFFF, len) # ps)"
      using True ps(1) by (subst block_walk.simps) (simp add: len_def Let_def)
    ultimately show ?thesis
      using lt ps(2) by (subst pieces.simps) (simp add: unat_page_base unat_page_offset n)
  qed
qed

text \<open>A request that ends in the last block of the address space: the position wraps around to 0 and the walk starts again.\<close>

lemma next_block_aligned: "4096 dvd unat ((i :: u64) + (BLOCK_BYTES - (i AND 0xFFF)))"
proof -
  have "4096 dvd (unat i div 4096 * 4096 + 4096) mod 2 ^ 64" by (rule dvd_mod) simp_all
  then show ?thesis by (simp add: unat_word_ariths(1) unat_piece next_block)
qed

lemma block_walk_wraps:
  assumes "block_walk i stop = Some ps"
  shows "i < stop \<longrightarrow> unat stop + 4096 \<le> 2 ^ 64"
proof (rule block_walk.raw_induct [OF _ assms], goal_cases)
  case (1 walk i stop ps)
  let ?n = "i + (BLOCK_BYTES - (i AND 0xFFF))"
  show ?case
  proof
    assume "i < stop"
    with 1(2) obtain qs where "walk ?n stop = Some qs" by (auto simp: Let_def split: bind_splits)
    note IH = 1(1) [OF this]
    show "unat stop + 4096 \<le> 2 ^ 64"
    proof (cases "?n < stop")
      case False
      then have le: "unat stop \<le> unat ?n" by (simp add: word_less_nat_alt)
      obtain q where "unat ?n = 4096 * q" using next_block_aligned by blast
      then have "unat ?n + 4096 \<le> 2 ^ 64" using unat_u64 [of ?n] by simp
      with le show ?thesis by linarith
    qed (rule IH [rule_format])
  qed
qed

lemma pieces_cover:
  "concat (map (\<lambda>(b, off, n). [b + off ..< b + off + n]) (pieces i e)) = [i ..< e]"
proof (induction i e rule: pieces.induct)
  case (1 i e)
  show ?case
  proof (cases "i < e")
    case True
    let ?n = "i div 4096 * 4096 + 4096"
    have "[i ..< min ?n e] @ [?n ..< e] = [i ..< e]"
      using True less_next_block [of i] upt_add_eq_append [of i ?n "e - ?n"] by (cases "?n \<le> e") simp_all
    moreover have "i + min (4096 - i mod 4096) (e - i) = min ?n e"
      using True next_block [of i] by (simp add: min_def) linarith
    ultimately show ?thesis using True 1 by (subst pieces.simps) (simp add: div_mult_mod_eq)
  qed (subst pieces.simps, simp)
qed

lemma pieces_facts:
  "(b, off, n) \<in> set (pieces i e) \<Longrightarrow> 4096 dvd b \<and> 0 < n \<and> off + n \<le> 4096 \<and> i div 4096 * 4096 \<le> b \<and> b < e"
proof (induction i e rule: pieces.induct)
  case (1 i e)
  have i: "i < e" using 1(2) by (subst (asm) pieces.simps) (simp split: if_splits)
  have head: "i div 4096 * 4096 < e" using i div_times_less_eq_dividend [of i 4096] by linarith
  have m: "i mod 4096 < 4096" by simp
  show ?case
    using 1 i head m by (subst (asm) (2) pieces.simps) (auto simp: min_def less_imp_le dvd_add)
qed

lemma pieces_distinct: "distinct (map fst (pieces i e))"
proof (induction i e rule: pieces.induct)
  case (1 i e)
  then show ?case
    by (subst pieces.simps) (auto dest: pieces_facts)
qed

text \<open>C18. The walk over the blocks of a request ends exactly for the empty requests and for those that end at least one block before the
  end of the address space. It cuts the request into consecutive pieces that lie within one block each and cover its bytes once,
  in order; no block occurs twice. Any other request makes the loop of \<open>rdfs_local_file_read\<close>, \<open>rdfs_local_file_write\<close> and
  \<open>rdfs_client_search_metadata\<close> run forever.\<close>

theorem block_walk_spec:
  "case block_walk i stop of
     None \<Rightarrow> i < stop \<and> 2 ^ 64 < unat stop + 4096
   | Some ps \<Rightarrow> (stop \<le> i \<or> unat stop + 4096 \<le> 2 ^ 64) \<and>
       concat (map (\<lambda>(b, off, n). [unat b + unat off ..< unat b + unat off + unat n]) ps) = [unat i ..< unat stop] \<and>
       distinct (map fst ps) \<and>
       list_all (\<lambda>(b, off, n). 4096 dvd unat b \<and> 0 < n \<and> unat off + unat n \<le> 4096) ps"
proof (cases "block_walk i stop")
  case None
  have "i < stop" using None by (subst (asm) block_walk.simps) (simp split: if_splits)
  moreover have "\<not> unat stop + 4096 \<le> 2 ^ 64" using block_walk_pieces [of stop i] None by auto
  ultimately show ?thesis using None by simp
next
  case (Some ps)
  have stop: "stop \<le> i \<or> unat stop + 4096 \<le> 2 ^ 64" using block_walk_wraps [OF Some] by (simp add: not_less [symmetric])
  have ps: "map nats ps = pieces (unat i) (unat stop)"
  proof (cases "i < stop")
    case True
    with stop obtain qs where "block_walk i stop = Some qs" "map nats qs = pieces (unat i) (unat stop)"
      using block_walk_pieces [of stop i] by auto
    with Some show ?thesis by simp
  next
    case False
    with Some have "ps = []" by (subst (asm) block_walk.simps) simp
    with False show ?thesis by (subst pieces.simps) (simp add: word_less_nat_alt)
  qed
  have fst_nats: "map fst (map nats ps) = map unat (map fst ps)" by (simp add: case_prod_unfold)
  have "distinct (map unat (map fst ps))" unfolding fst_nats [symmetric] ps by (rule pieces_distinct)
  then have "distinct (map fst ps)" unfolding distinct_map [of unat "map fst ps"] by (rule conjunct1)
  moreover have "list_all (\<lambda>(b, off, n). 4096 dvd unat b \<and> 0 < n \<and> unat off + unat n \<le> 4096) ps"
  proof (clarsimp simp: list_all_iff)
    fix b off n assume "(b, off, n) \<in> set ps"
    then have "nats (b, off, n) \<in> set (map nats ps)" by (force simp: image_iff)
    then have "(unat b, unat off, unat n) \<in> set (pieces (unat i) (unat stop))" by (simp add: ps)
    then show "4096 dvd unat b \<and> 0 < n \<and> unat off + unat n \<le> 4096"
      using pieces_facts by (fastforce simp: word_less_nat_alt)
  qed
  moreover have "concat (map (\<lambda>(b, off, n). [unat b + unat off ..< unat b + unat off + unat n]) ps) = [unat i ..< unat stop]"
    using pieces_cover [of "unat i" "unat stop"] unfolding ps [symmetric] by (simp add: comp_def case_prod_unfold)
  ultimately show ?thesis using Some stop by simp
qed

end
