(* ===== verification/File_Data.thy ===== *)
theory File_Data
  imports File_Io
begin

text \<open>
  What a write stores on the slaves and a read brings back: the transfers of \<open>File_Io\<close> seen as moves of bytes between the buffer page
  and the places on the slaves that the table of the file names.
\<close>

section \<open>Moves of bytes\<close>

text \<open>A piece of a request on its slave: the slave, the address there and the number of bytes.\<close>

type_synonym target = "u64 \<times> u64 \<times> u64"

fun plan :: "'a fio_scheme \<Rightarrow> rdfs_inode_info \<Rightarrow> (u64 \<times> u64 \<times> u64) list \<Rightarrow> target list option" where
  "plan s ri [] = Some []"
| "plan s ri ((pte, off, len) # ps) = do {
     (s_id, block_id) \<leftarrow> rdfs_search_metadata s ri pte;
     c \<leftarrow> slave_ctxs s s_id;
     ts \<leftarrow> plan s ri ps;
     Some ((s_id, rem_addr c + block_id * BLOCK_BYTES + off, len) # ts)
   }"

text \<open>The places of the bytes of a request, in order.\<close>

fun places :: "target list \<Rightarrow> (u64 \<times> u64) list" where
  "places [] = []"
| "places ((s_id, a, len) # ts) = map (\<lambda>i. (s_id, a + of_nat i)) [0 ..< unat len] @ places ts"

fun write_moves :: "(u64 \<Rightarrow> mem) \<Rightarrow> mem \<Rightarrow> u64 \<Rightarrow> target list \<Rightarrow> u64 \<Rightarrow> mem" where
  "write_moves sm m va [] = sm"
| "write_moves sm m va ((s_id, a, len) # ts) =
     write_moves (sm(s_id := store_bytes (sm s_id) a (load_bytes m va (unat len)))) m (va + len) ts"

fun read_moves :: "(u64 \<Rightarrow> mem) \<Rightarrow> mem \<Rightarrow> u64 \<Rightarrow> target list \<Rightarrow> mem" where
  "read_moves sm m va [] = m"
| "read_moves sm m va ((s_id, a, len) # ts) =
     read_moves sm (store_bytes m va (load_bytes (sm s_id) a (unat len))) (va + len) ts"

lemma store_bytes_at:
  "i < length bs \<Longrightarrow> length bs < 2 ^ 64 \<Longrightarrow> store_bytes m a bs (a + of_nat i) = bs ! i"
  by (simp add: store_bytes_def unat_of_nat)

lemma load_bytes_nth [simp]: "i < n \<Longrightarrow> load_bytes m a n ! i = m (a + of_nat i)"
  by (simp add: load_bytes_def)

lemma apart_notin: "apart a n b k \<Longrightarrow> a \<notin> region b k"
  by (simp add: apart_def region_def)

lemma write_moves_elsewhere:
  "(t, x) \<notin> set (places ts) \<Longrightarrow> write_moves sm m va ts t x = sm t x"
proof (induction ts arbitrary: sm va)
  case (Cons p ts)
  obtain s_id a len where p: "p = (s_id, a, len)" by (cases p)
  have "(t, x) \<notin> set (places ts)" using Cons.prems by (simp add: p)
  moreover have "\<not> (t = s_id \<and> unat (x - a) < unat len)"
  proof
    assume *: "t = s_id \<and> unat (x - a) < unat len"
    define i where "i = unat (x - a)"
    have "x = a + of_nat i" "i < unat len" using * by (simp_all add: i_def)
    then have "(t, x) \<in> set (places (p # ts))" using * by (simp add: p)
    with Cons.prems show False by simp
  qed
  ultimately show ?case using Cons.IH by (simp add: p store_bytes_def)
qed simp

lemma write_moves_place:
  "\<lbrakk>distinct (places ts); j < length (places ts); places ts ! j = (t, x)\<rbrakk> \<Longrightarrow>
     write_moves sm m va ts t x = m (va + of_nat j)"
proof (induction ts arbitrary: sm va j)
  case (Cons p ts)
  obtain s_id a len where p: "p = (s_id, a, len)" by (cases p)
  show ?case
  proof (cases "j < unat len")
    case True
    then have tx: "t = s_id" "x = a + of_nat j" using Cons.prems(3) by (simp_all add: p nth_append)
    have "(t, x) \<in> set (map (\<lambda>i. (s_id, a + of_nat i)) [0 ..< unat len])" using True by (simp add: tx)
    with Cons.prems(1) have "(t, x) \<notin> set (places ts)" unfolding p places.simps distinct_append by blast
    with True show ?thesis
      using unat_u64 [of len] by (simp add: p write_moves_elsewhere tx store_bytes_at)
  next
    case False
    then have "write_moves (sm(s_id := store_bytes (sm s_id) a (load_bytes m va (unat len)))) m (va + len) ts t x =
        m (va + len + of_nat (j - unat len))"
      using Cons.prems by (intro Cons.IH) (auto simp: p nth_append)
    moreover have "va + len + of_nat (j - unat len) = va + of_nat j" using False by (simp add: of_nat_diff)
    ultimately show ?thesis by (simp add: p)
  qed
qed simp

lemma read_moves_elsewhere:
  "x \<notin> region va (length (places ts)) \<Longrightarrow> length (places ts) < 2 ^ 64 \<Longrightarrow> read_moves sm m va ts x = m x"
proof (induction ts arbitrary: m va)
  case (Cons p ts)
  obtain s_id a len where p: "p = (s_id, a, len)" by (cases p)
  have n: "unat len + length (places ts) \<le> unat (x - va)" using Cons.prems(1) by (simp add: p region_def)
  moreover have "x - (va + len) = x - va - len" by simp
  ultimately have "unat (x - (va + len)) = unat (x - va) - unat len" by (simp only: unat_sub word_le_nat_alt)
  then have "x \<notin> region (va + len) (length (places ts))" using n by (simp add: region_def)
  then show ?case using Cons.IH Cons.prems(2) n by (simp add: p store_bytes_def)
qed simp

lemma read_moves_place:
  "\<lbrakk>j < length (places ts); length (places ts) < 2 ^ 64; places ts ! j = (t, x)\<rbrakk> \<Longrightarrow>
     read_moves sm m va ts (va + of_nat j) = sm t x"
proof (induction ts arbitrary: m va j)
  case (Cons p ts)
  obtain s_id a len where p: "p = (s_id, a, len)" by (cases p)
  let ?m = "store_bytes m va (load_bytes (sm s_id) a (unat len))"
  show ?case
  proof (cases "j < unat len")
    case True
    then have tx: "t = s_id" "x = a + of_nat j" using Cons.prems(3) by (simp_all add: p nth_append)
    have "va + of_nat j \<notin> region (va + len) (length (places ts))"
    proof -
      have "apart (va + of_nat j) 1 (va + len) (length (places ts))"
        using True Cons.prems(2) unat_u64 [of len] by (intro apart_offsets) (simp_all add: p unat_of_nat)
      then show ?thesis by (rule apart_notin)
    qed
    with True show ?thesis
      using Cons.prems(2) by (simp add: p tx read_moves_elsewhere store_bytes_at)
  next
    case False
    then have "read_moves sm ?m (va + len) ts (va + len + of_nat (j - unat len)) = sm t x"
      using Cons.prems by (intro Cons.IH) (auto simp: p nth_append)
    moreover have "va + len + of_nat (j - unat len) = va + of_nat j" using False by (simp add: of_nat_diff)
    ultimately show ?thesis by (simp add: p)
  qed
qed simp


section \<open>Transfers as moves\<close>

text \<open>Contexts that can take a request: request numbers below 64. Transfers change nothing else that matters.\<close>

definition links_ok :: "'a fio_scheme \<Rightarrow> bool" where
  "links_ok s \<longleftrightarrow> (\<forall>t c. slave_ctxs s t = Some c \<longrightarrow> t < 4096 \<and> current_req_id c < 64)"

definition same_links :: "(u64 \<Rightarrow> rdfs_context option) \<Rightarrow> (u64 \<Rightarrow> rdfs_context option) \<Rightarrow> bool" where
  "same_links cs cs' \<longleftrightarrow> (\<forall>t. map_option rem_addr (cs' t) = map_option rem_addr (cs t))"

text \<open>The DMA addresses of the buffer name the bytes the CPU sees from \<open>va\<close> on.\<close>

definition dma_linear :: "'k fenv_scheme \<Rightarrow> u64 \<Rightarrow> u64 \<Rightarrow> nat \<Rightarrow> bool" where
  "dma_linear k rw_addr va n \<longleftrightarrow> list_all (\<lambda>i. dma_cpu k (rw_addr + of_nat i) = va + of_nat i) [0 ..< n]"

lemma rdma_block_rw_moves:
  assumes "slave_ctxs s t = Some c" "t < 4096" "current_req_id c < 64" "\<And>w. post_ok k w"
  obtains c' where "rem_addr c' = rem_addr c" "current_req_id c' < 64"
    "rdfs_rdma_block_rw k s la t b off len rw =
       Some (len, (rdma_move k s t (fst (post_request la t b off len rw c)))\<lparr>slave_ctxs := (slave_ctxs s)(t \<mapsto> c')\<rparr>)"
proof -
  let ?r = "current_req_id c"
  let ?c1 = "c\<lparr>current_req_id := (?r + 1) mod 64, lock_word := set_bit (unat ?r) (lock_word c)\<rparr>"
  let ?c2 = "?c1\<lparr>lock_word := unset_bit (unat ?r) (lock_word ?c1)\<rparr>"
  let ?c3 = "?c2\<lparr>lock_word := set_bit (unat ?r) (lock_word ?c2)\<rparr>"
  obtain w where post: "post_request la t b off len rw c = (w, ?c1)" "wr_id w = pack t ?r"
    by (simp add: post_request_def Let_def)
  have ctxs: "slave_ctxs (rdma_move k s' t w) = slave_ctxs s'" for s' w by (simp add: rdma_move_def Let_def)
  have move: "(rdma_move k (s\<lparr>slave_ctxs := cs\<rparr>) t w)\<lparr>slave_ctxs := cs'\<rparr> = (rdma_move k s t w)\<lparr>slave_ctxs := cs'\<rparr>" for cs cs' w
    by (simp add: rdma_move_def Let_def)
  have wait: "wait_on_bit_lock ?r ?c2 = Some ?c3"
    by (simp add: wait_on_bit_lock_def bit_unset_bit_iff)
  have "rdfs_rdma_block_rw k s la t b off len rw = Some (len, (rdma_move k s t w)\<lparr>slave_ctxs := (slave_ctxs s)(t \<mapsto> ?c3)\<rparr>)"
    using assms post wait
    by (simp add: rdfs_rdma_block_rw_def handle_wc_def pack_fields ctxs move Let_def)
  then show thesis by (intro that [of ?c3]) (simp_all add: next_req post)
qed

lemma search_metadata_frame [simp]:
  "rdfs_search_metadata (s\<lparr>slave_ctxs := cs\<rparr>) ri pte = rdfs_search_metadata s ri pte"
  "rdfs_search_metadata (s\<lparr>slave_mem := sm\<rparr>) ri pte = rdfs_search_metadata s ri pte"
  by (simp_all add: rdfs_search_metadata_def translate_def rdfs_va_def Let_def cong: option.case_cong)

lemma plan_same_links:
  assumes "same_links (slave_ctxs s) (slave_ctxs s')"
    and "list_all (\<lambda>(pte, off, len). rdfs_search_metadata s' ri pte = rdfs_search_metadata s ri pte) ps"
  shows "plan s' ri ps = plan s ri ps"
  using assms(2)
proof (induction ps)
  case (Cons p ps)
  obtain pte off len where p: "p = (pte, off, len)" by (cases p)
  have same: "map_option rem_addr (slave_ctxs s' t) = map_option rem_addr (slave_ctxs s t)" for t
    using assms(1) by (simp add: same_links_def)
  show ?case
  proof (cases "rdfs_search_metadata s ri pte")
    case (Some tb)
    with Cons same [of "fst tb"] show ?thesis
      by (cases tb; cases "slave_ctxs s' (fst tb)"; cases "slave_ctxs s (fst tb)") (auto simp: p)
  qed (use Cons in \<open>simp add: p\<close>)
qed simp

lemma same_links_upd:
  "slave_ctxs s t = Some c \<Longrightarrow> rem_addr c' = rem_addr c \<Longrightarrow> same_links (slave_ctxs s) ((slave_ctxs s)(t \<mapsto> c'))"
  by (simp add: same_links_def)

lemma same_links_trans: "same_links a b \<Longrightarrow> same_links b c \<Longrightarrow> same_links a c"
  by (simp add: same_links_def)

lemma plan_ConsE:
  assumes "plan s ri ((pte, off, len) # ps) = Some ts"
  obtains t b c ts' where "rdfs_search_metadata s ri pte = Some (t, b)" "slave_ctxs s t = Some c" "plan s ri ps = Some ts'"
    "ts = (t, rem_addr c + b * BLOCK_BYTES + off, len) # ts'"
  using assms by (auto split: bind_splits)

text \<open>Lengths below 4 GiB fit the 32-bit length of a work request.\<close>

definition short :: "(u64 \<times> u64 \<times> u64) list \<Rightarrow> bool" where
  "short ps = list_all (\<lambda>(pte, off, len). 0 < len \<and> unat len < 2 ^ 32) ps"

lemma post_request_fields:
  "unat len < 2 ^ 32 \<Longrightarrow> unat (sg_length (fst (post_request la t b off len rw c))) = unat len"
  "sg_addr (fst (post_request la t b off len rw c)) = la"
  "opcode (fst (post_request la t b off len rw c)) = rw"
  "remote_addr (fst (post_request la t b off len rw c)) = rem_addr c + b * BLOCK_BYTES + off"
  by (simp_all add: post_request_def Let_def unat_u32_exact word_less_nat_alt)

lemma dma_linear_split:
  assumes "dma_linear k la va (unat len + n)" "0 < len"
  shows "dma_cpu k la = va" "dma_linear k (la + len) (va + len) n"
proof -
  have all: "dma_cpu k (la + of_nat i) = va + of_nat i" if "i < unat len + n" for i
    using assms(1) that by (simp add: dma_linear_def list_all_iff)
  have "0 < unat len" using assms(2) by (simp add: word_less_nat_alt)
  then show "dma_cpu k la = va" using all [of 0] by simp
  show "dma_linear k (la + len) (va + len) n"
    using all [of "unat len + _"] by (simp add: dma_linear_def list_all_iff add.assoc)
qed

lemma rdma_move_write:
  assumes "unat len < 2 ^ 32" "dma_cpu k la = va"
  shows "rdma_move k s t (fst (post_request la t b off len RDFS_WRITE c)) =
    s\<lparr>slave_mem := (slave_mem s)(t := store_bytes (slave_mem s t) (rem_addr c + b * BLOCK_BYTES + off)
      (load_bytes (mem s) va (unat len)))\<rparr>"
  using assms by (simp add: rdma_move_def post_request_fields Let_def RDFS_WRITE_def RDFS_READ_def)

lemma rdma_move_read:
  assumes "unat len < 2 ^ 32" "dma_cpu k la = va"
  shows "rdma_move k s t (fst (post_request la t b off len RDFS_READ c)) =
    s\<lparr>mem := store_bytes (mem s) va (load_bytes (slave_mem s t) (rem_addr c + b * BLOCK_BYTES + off) (unat len))\<rparr>"
  using assms by (simp add: rdma_move_def post_request_fields Let_def)

lemma links_ok_upd: "links_ok s \<Longrightarrow> slave_ctxs s t = Some c \<Longrightarrow> current_req_id c' < 64 \<Longrightarrow>
    slave_ctxs s' = (slave_ctxs s)(t \<mapsto> c') \<Longrightarrow> links_ok s'"
  by (auto simp: links_ok_def)

lemma transfer_write:
  assumes "\<And>w. post_ok k w"
  shows "\<lbrakk>links_ok s; plan s ri ps = Some ts; short ps; dma_linear k la va (length (places ts))\<rbrakk> \<Longrightarrow>
    \<exists>cs. transfer_pieces k ri RDFS_WRITE ps la s =
        Some (s\<lparr>slave_ctxs := cs, slave_mem := write_moves (slave_mem s) (mem s) va ts\<rparr>) \<and>
      same_links (slave_ctxs s) cs \<and> links_ok (s\<lparr>slave_ctxs := cs\<rparr>)"
proof (induction ps arbitrary: s la va ts)
  case Nil
  then have "s\<lparr>slave_ctxs := slave_ctxs s, slave_mem := slave_mem s\<rparr> = s" by simp
  with Nil show ?case by (intro exI [of _ "slave_ctxs s"]) (simp add: same_links_def)
next
  case (Cons p ps)
  obtain pte off len where p: "p = (pte, off, len)" by (cases p)
  from Cons.prems(2) obtain t b c ts' where e: "rdfs_search_metadata s ri pte = Some (t, b)" "slave_ctxs s t = Some c"
      "plan s ri ps = Some ts'" "ts = (t, rem_addr c + b * BLOCK_BYTES + off, len) # ts'"
    unfolding p by (rule plan_ConsE)
  have len: "0 < len" "unat len < 2 ^ 32" "short ps" using Cons.prems(3) by (simp_all add: p short_def)
  note dma = dma_linear_split [OF Cons.prems(4) [unfolded e(4), simplified] len(1)]
  have c: "t < 4096" "current_req_id c < 64" using Cons.prems(1) e(2) by (auto simp: links_ok_def)
  obtain c' where c': "rem_addr c' = rem_addr c" "current_req_id c' < 64"
    and rw: "rdfs_rdma_block_rw k s la t b off len RDFS_WRITE =
       Some (len, (rdma_move k s t (fst (post_request la t b off len RDFS_WRITE c)))\<lparr>slave_ctxs := (slave_ctxs s)(t \<mapsto> c')\<rparr>)"
    using rdma_block_rw_moves [OF e(2) c assms] by metis
  define s1 where "s1 = s\<lparr>slave_ctxs := (slave_ctxs s)(t \<mapsto> c'),
     slave_mem := (slave_mem s)(t := store_bytes (slave_mem s t) (rem_addr c + b * BLOCK_BYTES + off) (load_bytes (mem s) va (unat len)))\<rparr>"
  have step: "rdfs_rdma_block_rw k s la t b off len RDFS_WRITE = Some (len, s1)"
    using rw by (simp add: rdma_move_write [OF len(2) dma(1)] s1_def)
  have links: "same_links (slave_ctxs s) (slave_ctxs s1)" "links_ok s1"
    using same_links_upd [OF e(2) c'(1)] links_ok_upd [OF Cons.prems(1) e(2) c'(2), of s1] by (simp_all add: s1_def)
  have "plan s1 ri ps = Some ts'"
    using plan_same_links [OF links(1), of ri ps] e(3) by (simp add: s1_def list_all_iff case_prod_unfold)
  then obtain cs where "transfer_pieces k ri RDFS_WRITE ps (la + len) s1 =
        Some (s1\<lparr>slave_ctxs := cs, slave_mem := write_moves (slave_mem s1) (mem s1) (va + len) ts'\<rparr>)"
      "same_links (slave_ctxs s1) cs" "links_ok (s1\<lparr>slave_ctxs := cs\<rparr>)"
    using Cons.IH [OF links(2) _ len(3) dma(2)] by blast
  then show ?case
    using e step same_links_trans [OF links(1)] by (intro exI [of _ cs]) (simp add: p s1_def links_ok_def)
qed


text \<open>The cells of NVM that finding the entry of a block reads: the entries of the two table levels and the entry itself.\<close>

definition upper_cell :: "'a kern_scheme \<Rightarrow> u64 \<Rightarrow> u64" where
  "upper_cell s a = rdfs_va s (kpud s Init_mm (drop_bit 30 a) AND PAGE_MASK) + pmd_index a * 8"

definition pmd_entry :: "'a kern_scheme \<Rightarrow> u64 \<Rightarrow> u64" where
  "pmd_entry s a =
     (if RDFS_START \<le> a \<and> a < RDFS_START + DIR_AREA_SIZE then kpmd s Init_mm (drop_bit 21 a)
      else if kpud s Init_mm (drop_bit 30 a) = 0 then 0 else ld64 (mem s) (upper_cell s a))"

definition lower_cell :: "'a kern_scheme \<Rightarrow> u64 \<Rightarrow> u64" where
  "lower_cell s a = rdfs_va s (pmd_entry s a AND PAGE_MASK) + pte_index a * 8"

definition search_cells :: "'a kern_scheme \<Rightarrow> rdfs_inode_info \<Rightarrow> u64 \<Rightarrow> u64 list" where
  "search_cells s ri offset =
     (let a = i_virt_addr ri + offset div 4096 * 8
      in [upper_cell s a, lower_cell s a, case translate s a of None \<Rightarrow> upper_cell s a | Some p \<Rightarrow> rdfs_va s p])"

definition steady :: "'a kern_scheme \<Rightarrow> rdfs_inode_info \<Rightarrow> (u64 \<times> u64 \<times> u64) list \<Rightarrow> u64 \<Rightarrow> nat \<Rightarrow> bool" where
  "steady s ri ps va n \<longleftrightarrow> list_all (\<lambda>(pte, off, len). list_all (\<lambda>c. apart c 8 va n) (search_cells s ri pte)) ps"

lemma load_agree_apart:
  assumes "apart c 8 va n" "\<And>x. x \<notin> region va n \<Longrightarrow> m' x = m x"
  shows "load 8 m' c = load 8 m c"
  by (rule load_agree) (use apart_disjoint [OF assms(1)] assms(2) in auto)

lemma translate_cells: "translate s a =
    (if pmd_entry s a = 0 then None
     else let pte = ld64 (mem s) (lower_cell s a) in if pte = 0 then None else Some (get_phys_from_pte_val pte + (a AND 4095)))"
  by (simp add: translate_def pmd_entry_def lower_cell_def upper_cell_def Let_def)

lemma steady_search:
  assumes cells: "list_all (\<lambda>c. apart c 8 va n) (search_cells s ri pte)"
    and m: "\<And>x. x \<notin> region va n \<Longrightarrow> m' x = mem s x"
  shows "rdfs_search_metadata (s\<lparr>mem := m'\<rparr>) ri pte = rdfs_search_metadata s ri pte"
    "search_cells (s\<lparr>mem := m'\<rparr>) ri pte = search_cells s ri pte"
proof -
  let ?s = "s\<lparr>mem := m'\<rparr>"
  define a where "a = i_virt_addr ri + pte div 4096 * 8"
  have ld: "ld64 m' c = ld64 (mem s) c" if "apart c 8 va n" for c
    using that m by (rule load_agree_apart)
  have va: "rdfs_va ?s = rdfs_va s" by (simp add: rdfs_va_def fun_eq_iff)
  have ap: "apart (upper_cell s a) 8 va n" "apart (lower_cell s a) 8 va n"
    using cells by (simp_all add: search_cells_def Let_def a_def)
  have up: "upper_cell ?s a = upper_cell s a" by (simp add: upper_cell_def va)
  have pmd: "pmd_entry ?s a = pmd_entry s a" using ld [OF ap(1)] by (simp add: pmd_entry_def up)
  have low: "lower_cell ?s a = lower_cell s a" by (simp add: lower_cell_def va pmd)
  have tr: "translate ?s a = translate s a" using ld [OF ap(2)] by (simp add: translate_cells pmd low)
  show "search_cells ?s ri pte = search_cells s ri pte"
    by (cases "translate s a") (simp_all add: search_cells_def Let_def up low tr va flip: a_def)
  show "rdfs_search_metadata ?s ri pte = rdfs_search_metadata s ri pte"
  proof (cases "translate s a")
    case (Some p)
    then have "apart (rdfs_va s p) 8 va n" using cells by (simp add: search_cells_def Let_def flip: a_def)
    from ld [OF this] show ?thesis by (simp add: rdfs_search_metadata_def tr va Some flip: a_def)
  qed (simp add: rdfs_search_metadata_def tr flip: a_def)
qed

lemma search_cells_frame [simp]:
  "search_cells (s\<lparr>slave_ctxs := cs\<rparr>) ri pte = search_cells s ri pte"
  by (simp add: search_cells_def translate_cells lower_cell_def pmd_entry_def upper_cell_def rdfs_va_def Let_def)

lemma region_tail:
  assumes "unat len + n < 2 ^ 64"
  shows "region (va + len) n \<subseteq> region va (unat len + n)"
proof
  fix x assume x: "x \<in> region (va + len) n"
  have "unat ((x - (va + len)) + len) = unat (x - (va + len)) + unat len"
    using x assms by (intro unat_plus_const) (simp add: region_def)
  then show "x \<in> region va (unat len + n)" using x by (simp add: region_def)
qed

lemma transfer_read:
  assumes post: "\<And>w. post_ok k w"
  shows "\<lbrakk>links_ok s; plan s ri ps = Some ts; short ps; dma_linear k la va (length (places ts));
      steady s ri ps V N; region va (length (places ts)) \<subseteq> region V N; length (places ts) < 2 ^ 64\<rbrakk> \<Longrightarrow>
    \<exists>cs. transfer_pieces k ri RDFS_READ ps la s =
        Some (s\<lparr>slave_ctxs := cs, mem := read_moves (slave_mem s) (mem s) va ts\<rparr>)"
proof (induction ps arbitrary: s la va ts)
  case Nil
  then have "s\<lparr>slave_ctxs := slave_ctxs s, mem := mem s\<rparr> = s" by simp
  with Nil show ?case by (intro exI [of _ "slave_ctxs s"]) simp
next
  case (Cons p ps)
  obtain pte off len where p: "p = (pte, off, len)" by (cases p)
  from Cons.prems(2) obtain t b c ts' where e: "rdfs_search_metadata s ri pte = Some (t, b)" "slave_ctxs s t = Some c"
      "plan s ri ps = Some ts'" "ts = (t, rem_addr c + b * BLOCK_BYTES + off, len) # ts'"
    unfolding p by (rule plan_ConsE)
  have len: "0 < len" "unat len < 2 ^ 32" "short ps" using Cons.prems(3) by (simp_all add: p short_def)
  note dma = dma_linear_split [OF Cons.prems(4) [unfolded e(4), simplified] len(1)]
  have c: "t < 4096" "current_req_id c < 64" using Cons.prems(1) e(2) by (auto simp: links_ok_def)
  obtain c' where c': "rem_addr c' = rem_addr c" "current_req_id c' < 64"
    and rw: "rdfs_rdma_block_rw k s la t b off len RDFS_READ =
       Some (len, (rdma_move k s t (fst (post_request la t b off len RDFS_READ c)))\<lparr>slave_ctxs := (slave_ctxs s)(t \<mapsto> c')\<rparr>)"
    using rdma_block_rw_moves [OF e(2) c post] by metis
  define m1 where "m1 = store_bytes (mem s) va (load_bytes (slave_mem s t) (rem_addr c + b * BLOCK_BYTES + off) (unat len))"
  define s1 where "s1 = s\<lparr>slave_ctxs := (slave_ctxs s)(t \<mapsto> c'), mem := m1\<rparr>"
  have step: "rdfs_rdma_block_rw k s la t b off len RDFS_READ = Some (len, s1)"
    using rw by (simp add: rdma_move_read [OF len(2) dma(1)] s1_def m1_def)
  have links: "same_links (slave_ctxs s) (slave_ctxs s1)" "links_ok s1"
    using same_links_upd [OF e(2) c'(1)] links_ok_upd [OF Cons.prems(1) e(2) c'(2), of s1] by (simp_all add: s1_def)
  have sub: "region va (unat len) \<subseteq> region va (length (places ts))" by (auto simp: region_def e(4))
  then have m1: "m1 x = mem s x" if "x \<notin> region V N" for x
    using that Cons.prems(6) by (auto simp: m1_def intro!: store_bytes_outside)
  have st: "steady s ri ps V N" using Cons.prems(5) by (simp add: steady_def p)
  have srch: "rdfs_search_metadata s1 ri q = rdfs_search_metadata s ri q" "search_cells s1 ri q = search_cells s ri q"
    if "(q, x, y) \<in> set ps" for q x y
  proof -
    let ?s0 = "s\<lparr>slave_ctxs := (slave_ctxs s)(t \<mapsto> c')\<rparr>"
    have "list_all (\<lambda>c. apart c 8 V N) (search_cells ?s0 ri q)"
      using st that by (auto simp: steady_def list_all_iff)
    from steady_search [OF this, of m1] m1 show "rdfs_search_metadata s1 ri q = rdfs_search_metadata s ri q"
        "search_cells s1 ri q = search_cells s ri q"
      by (simp_all add: s1_def)
  qed
  have "plan s1 ri ps = Some ts'"
    using plan_same_links [OF links(1), of ri ps] e(3) srch by (fastforce simp: list_all_iff)
  moreover have "steady s1 ri ps V N" using st srch(2) by (fastforce simp: steady_def list_all_iff)
  moreover have "region (va + len) (length (places ts')) \<subseteq> region V N"
    using region_tail [of len "length (places ts')" va] Cons.prems(6,7) by (simp add: e(4))
  ultimately obtain cs where "transfer_pieces k ri RDFS_READ ps (la + len) s1 =
        Some (s1\<lparr>slave_ctxs := cs, mem := read_moves (slave_mem s1) (mem s1) (va + len) ts'\<rparr>)"
    using Cons.IH [OF links(2) _ len(3) dma(2)] Cons.prems(7) by (auto simp: e(4))
  then show ?case
    using e step by (intro exI [of _ cs]) (simp add: p s1_def m1_def)
qed

section \<open>A write followed by a read\<close>

lemma search_cong:
  assumes "sbi s' = sbi s" "mem s' = mem s" "kpud s' = kpud s" "kpmd s' = kpmd s"
  shows "rdfs_search_metadata s' ri q = rdfs_search_metadata s ri q" "search_cells s' ri q = search_cells s ri q"
proof -
  have va: "rdfs_va s' = rdfs_va s" by (simp add: rdfs_va_def assms(1) fun_eq_iff)
  have cells: "upper_cell s' a = upper_cell s a" "lower_cell s' a = lower_cell s a" "translate s' a = translate s a" for a
    by (simp_all add: upper_cell_def lower_cell_def pmd_entry_def translate_cells assms va)
  show "rdfs_search_metadata s' ri q = rdfs_search_metadata s ri q" "search_cells s' ri q = search_cells s ri q"
    by (simp_all add: rdfs_search_metadata_def search_cells_def cells va assms(2) Let_def cong: option.case_cong)
qed

lemma length_places: "length (places ts) = (\<Sum>(t, a, len) \<leftarrow> ts. unat len)"
  by (induction ts rule: places.induct) simp_all

lemma plan_lengths: "plan s ri ps = Some ts \<Longrightarrow> (\<Sum>(t, a, len) \<leftarrow> ts. unat len) = (\<Sum>(b, off, len) \<leftarrow> ps. unat len)"
proof (induction ps arbitrary: ts)
  case (Cons p ps)
  obtain pte off len where p: "p = (pte, off, len)" by (cases p)
  from Cons.prems show ?case unfolding p by (rule plan_ConsE) (simp add: Cons.IH)
qed simp

lemma walk_lengths:
  assumes "unat i \<le> unat stop" "unat stop + 4096 \<le> 2 ^ 64" "block_walk i stop = Some ps"
  shows "(\<Sum>(b, off, len) \<leftarrow> ps. unat len) = unat stop - unat i" "short ps"
proof -
  have ps: "map nats ps = pieces (unat i) (unat stop)" using block_walk_pieces [OF assms(2), of i] assms(3) by simp
  have "length (concat (map (\<lambda>(b, off, n). [b + off ..< b + off + n]) (map nats ps))) = unat stop - unat i"
    unfolding ps pieces_cover by simp
  then show "(\<Sum>(b, off, len) \<leftarrow> ps. unat len) = unat stop - unat i"
    by (simp add: length_concat comp_def case_prod_unfold)
  have "0 < len \<and> unat len < 2 ^ 32" if "(b, off, len) \<in> set ps" for b off len
  proof -
    have "nats (b, off, len) \<in> set (map nats ps)" using that by (force simp: image_iff)
    from pieces_facts [OF this [unfolded ps, simplified]] show ?thesis by (simp add: word_less_nat_alt)
  qed
  then show "short ps" by (auto simp: short_def list_all_iff)
qed

text \<open>When a request can be served: it is not empty and shorter than the buffer page, its blocks are in the table of the file and on
  slaves that are registered, no two of its bytes are at the same place, and the buffer is not in the tables.\<close>

definition io_ready :: "'k fenv_scheme \<Rightarrow> 'a fio_scheme \<Rightarrow> u64 \<Rightarrow> u64 \<Rightarrow> u64 \<Rightarrow> bool" where
  "io_ready k s ino pos len \<longleftrightarrow>
     0 < len \<and> len < 4096 \<and> unat pos < 2 ^ 62 \<and> links_ok s \<and>
     dma_linear k (local_rw_addr s) (rdfs_va s (global_phy_addr s)) (unat len) \<and>
     (case block_walk pos (pos + len) of None \<Rightarrow> False
      | Some ps \<Rightarrow> steady s (info (icache s ino)) ps (rdfs_va s (global_phy_addr s)) (unat len + 1) \<and>
          (case plan s (info (icache s ino)) ps of None \<Rightarrow> False | Some ts \<Rightarrow> distinct (places ts)))"

text \<open>The places of a request on the slaves.\<close>

definition request_places :: "'a fio_scheme \<Rightarrow> u64 \<Rightarrow> u64 \<Rightarrow> u64 \<Rightarrow> (u64 \<times> u64) list" where
  "request_places s ino pos len =
     (case block_walk pos (pos + len) of None \<Rightarrow> []
      | Some ps \<Rightarrow> (case plan s (info (icache s ino)) ps of None \<Rightarrow> [] | Some ts \<Rightarrow> places ts))"

lemma io_readyE:
  assumes "io_ready k s ino pos len"
  obtains ps ts where "block_walk pos (pos + len) = Some ps" "plan s (info (icache s ino)) ps = Some ts" "distinct (places ts)"
    "steady s (info (icache s ino)) ps (rdfs_va s (global_phy_addr s)) (unat len + 1)"
    "length (places ts) = unat len" "short ps" "request_places s ino pos len = places ts"
    "unat (pos + len) = unat pos + unat len" "unat (pos + len) < 2 ^ 63" "0 < unat len" "unat len < 4096"
proof -
  have len: "0 < unat len" "unat len < 4096" using assms by (simp_all add: io_ready_def word_less_nat_alt)
  have sum: "unat (pos + len) = unat pos + unat len"
    using assms len by (intro unat_plus_const) (simp add: io_ready_def)
  then have le: "unat pos \<le> unat (pos + len)" "unat (pos + len) + 4096 \<le> 2 ^ 64" "unat (pos + len) < 2 ^ 63"
    using assms len by (simp_all add: io_ready_def)
  from assms obtain ps ts where ps: "block_walk pos (pos + len) = Some ps" "plan s (info (icache s ino)) ps = Some ts"
      "distinct (places ts)" "steady s (info (icache s ino)) ps (rdfs_va s (global_phy_addr s)) (unat len + 1)"
    by (auto simp: io_ready_def split: option.splits)
  show thesis
    by (rule that [OF ps]) (use walk_lengths [OF le(1,2) ps(1)] plan_lengths [OF ps(2)] sum le(3) len ps in
      \<open>simp_all add: length_places request_places_def\<close>)
qed

text \<open>The memory of the master once the data of a write are in the buffer.\<close>

abbreviation filled :: "mem \<Rightarrow> u64 \<Rightarrow> u64 \<Rightarrow> u8 list \<Rightarrow> mem" where
  "filled m va len bs \<equiv> st8 (store_bytes m va bs) (va + len) 0"

lemma filled_outside:
  assumes "length bs = unat len" "unat len < 4096" "x \<notin> region va (unat len + 1)"
  shows "filled m va len bs x = m x"
proof -
  have "x \<notin> region va (length bs)" "x \<notin> region (va + len) 1"
    using assms region_tail [of len 1 va] by (auto simp: region_def)
  then show ?thesis by (simp add: store_outside store_bytes_outside)
qed

lemma filled_nth:
  assumes "length bs = unat len" "unat len < 4096" "i < unat len"
  shows "filled m va len bs (va + of_nat i) = bs ! i"
proof -
  have "apart (va + of_nat i) 1 (va + len) 1" using assms by (intro apart_offsets) (simp_all add: unat_of_nat)
  then have "va + of_nat i \<notin> region (va + len) 1" by (rule apart_notin)
  then show ?thesis using assms by (simp add: store_outside store_bytes_at)
qed

lemma steady_cong:
  assumes "\<And>q x y. (q, x, y) \<in> set ps \<Longrightarrow> search_cells s' ri q = search_cells s ri q"
  shows "steady s' ri ps va n = steady s ri ps va n"
  using assms by (fastforce simp: steady_def list_all_iff)

lemma steady_searchD:
  assumes "steady s ri ps va n" "(q, x, y) \<in> set ps" "\<And>x. x \<notin> region va n \<Longrightarrow> m' x = mem s x"
  shows "rdfs_search_metadata (s\<lparr>mem := m'\<rparr>) ri q = rdfs_search_metadata s ri q"
    "search_cells (s\<lparr>mem := m'\<rparr>) ri q = search_cells s ri q"
  using steady_search [of va n s ri q m'] assms by (auto simp: steady_def list_all_iff)

lemma write_effect:
  assumes post: "\<And>w. post_ok k w" and grow: "grow_file k s ino (pos + len) = Some (e, s1)"
    and ready: "io_ready k s1 ino pos len"
    and buf: "length (copy_from_user k buf (unat len)) = unat len"
  defines "va \<equiv> rdfs_va s1 (global_phy_addr s1)"
  defines "m \<equiv> filled (mem s1) va len (copy_from_user k buf (unat len))"
  obtains ps ts cs where "block_walk pos (pos + len) = Some ps" "plan s1 (info (icache s1 ino)) ps = Some ts"
    "same_links (slave_ctxs s1) cs" "links_ok (s1\<lparr>slave_ctxs := cs\<rparr>)"
    "rdfs_local_file_write k s ino buf len pos = Some (len, pos + len,
       i_size_write (s1\<lparr>mem := m, slave_ctxs := cs, slave_mem := write_moves (slave_mem s1) m va ts\<rparr>) ino (pos + len))"
proof -
  let ?ri = "info (icache s1 ino)"
  from ready obtain ps ts where ps: "block_walk pos (pos + len) = Some ps" "plan s1 ?ri ps = Some ts"
      "steady s1 ?ri ps va (unat len + 1)" "length (places ts) = unat len" "short ps" "unat len < 4096"
    unfolding va_def by (rule io_readyE)
  have m: "m x = mem s1 x" if "x \<notin> region va (unat len + 1)" for x
    unfolding m_def using buf ps(6) that by (rule filled_outside)
  let ?s3 = "s1\<lparr>mem := m\<rparr>"
  have "plan ?s3 ?ri ps = Some ts"
    using plan_same_links [of s1 ?s3 ?ri ps] steady_searchD(1) [OF ps(3) _ m] ps(2)
    by (fastforce simp: list_all_iff same_links_def)
  moreover have "links_ok ?s3" "dma_linear k (local_rw_addr ?s3) va (length (places ts))"
    using ready by (simp_all add: io_ready_def links_ok_def ps(4) va_def)
  ultimately obtain cs where cs: "transfer_pieces k ?ri RDFS_WRITE ps (local_rw_addr ?s3) ?s3 =
        Some (?s3\<lparr>slave_ctxs := cs, slave_mem := write_moves (slave_mem s1) m va ts\<rparr>)"
      "same_links (slave_ctxs s1) cs" "links_ok (s1\<lparr>slave_ctxs := cs\<rparr>)"
    using transfer_write [OF post, of ?s3 ?ri ps ts "local_rw_addr ?s3" va] ps(5) by (auto simp: links_ok_def)
  have twice: "i_size_write (i_size_write x ino v) ino v = i_size_write x ino v" for x :: "'b fio_scheme" and v
    by (simp add: i_size_write_def set_inode_def)
  show thesis
    by (rule that [OF ps(1,2) cs(2,3)])
      (use cs(1) ps(1) in \<open>simp add: rdfs_local_file_write_def grow va_def m_def Let_def twice\<close>)
qed

text \<open>What comes back of what was written.\<close>

lemma moves_roundtrip:
  assumes "distinct (places ts)" "length (places ts) = n" "n < 2 ^ 64"
  shows "load_bytes (read_moves (write_moves sm m va ts) m' va ts) va n = load_bytes m va n"
proof (rule nth_equalityI)
  fix j assume j: "j < length (load_bytes (read_moves (write_moves sm m va ts) m' va ts) va n)"
  obtain t x where tx: "places ts ! j = (t, x)" by (cases "places ts ! j")
  then show "load_bytes (read_moves (write_moves sm m va ts) m' va ts) va n ! j = load_bytes m va n ! j"
    using assms j by (simp add: read_moves_place write_moves_place)
qed simp

lemma sint_small:
  assumes "unat (w :: u64) < 2 ^ 63"
  shows "sint w = int (unat w)"
proof -
  have "uint w < 2 ^ 63" using assms by (simp only: uint_nat flip: of_nat_less_iff [where 'a = int]) simp
  moreover have "- (2 ^ 63) \<le> uint w" by (rule order_trans [OF _ uint_ge_0]) simp
  ultimately have "signed_take_bit 63 (uint w) = uint w" by (intro signed_take_bit_int_eq_self)
  then show ?thesis by (simp add: sint_uint)
qed

lemma read_after_write:
  assumes post: "\<And>w. post_ok k w" and out: "\<And>bs. copy_to_user k bs = bs"
    and ready: "io_ready k s1 ino pos len" and ps: "block_walk pos (pos + len) = Some ps" "plan s1 (info (icache s1 ino)) ps = Some ts"
    and cs: "same_links (slave_ctxs s1) cs" "links_ok (s1\<lparr>slave_ctxs := cs\<rparr>)"
    and bs: "length bs = unat len"
  defines "va \<equiv> rdfs_va s1 (global_phy_addr s1)"
  defines "m \<equiv> filled (mem s1) va len bs"
  defines "s2 \<equiv> i_size_write (s1\<lparr>mem := m, slave_ctxs := cs, slave_mem := write_moves (slave_mem s1) m va ts\<rparr>) ino (pos + len)"
  shows "\<exists>s3. rdfs_local_file_read k s2 ino len pos = Some (len, bs, pos + len, s3)"
proof -
  let ?ri = "info (icache s1 ino)"
  from ready ps have facts: "steady s1 ?ri ps va (unat len + 1)" "length (places ts) = unat len" "short ps" "unat len < 4096"
      "unat (pos + len) = unat pos + unat len" "unat (pos + len) < 2 ^ 63" "0 < unat len" "distinct (places ts)"
    unfolding va_def by (auto elim!: io_readyE)
  have m: "m x = mem s1 x" if "x \<notin> region va (unat len + 1)" for x
    unfolding m_def using bs facts(4) that by (rule filled_outside)
  have cong: "rdfs_search_metadata s2 ri q = rdfs_search_metadata (s1\<lparr>mem := m\<rparr>) ri q"
      "search_cells s2 ri q = search_cells (s1\<lparr>mem := m\<rparr>) ri q" for ri q
    by (rule search_cong; simp add: s2_def i_size_write_def set_inode_def)+
  have sel: "rdfs_va s2 (global_phy_addr s2) = va" "local_rw_addr s2 = local_rw_addr s1" "info (icache s2 ino) = ?ri"
      "i_size (icache s2 ino) = sint (pos + len)" "slave_mem s2 = write_moves (slave_mem s1) m va ts" "mem s2 = m"
      "slave_ctxs s2 = cs"
    by (simp_all add: s2_def i_size_write_def set_inode_def va_def rdfs_va_def)
  have "plan s2 ?ri ps = Some ts"
    using plan_same_links [of s1 s2 ?ri ps] steady_searchD(1) [OF facts(1) _ m] ps(2) cs(1)
    by (fastforce simp: list_all_iff sel cong)
  moreover have "steady s2 ?ri ps va (unat len + 1)"
    using steady_cong [of ps s2 ?ri s1] steady_searchD(2) [OF facts(1) _ m] facts(1) by (simp add: cong)
  moreover have "links_ok s2" using cs(2) by (simp add: links_ok_def sel)
  moreover have "dma_linear k (local_rw_addr s2) va (length (places ts))"
    using ready by (simp add: io_ready_def sel facts(2) va_def)
  moreover have "region va (length (places ts)) \<subseteq> region va (unat len + 1)" by (auto simp: region_def facts(2))
  ultimately obtain cs' where "transfer_pieces k ?ri RDFS_READ ps (local_rw_addr s2) s2 =
      Some (s2\<lparr>slave_ctxs := cs', mem := read_moves (slave_mem s2) (mem s2) va ts\<rparr>)"
    using transfer_read [OF post, of s2 ?ri ps ts "local_rw_addr s2" va va "unat len + 1"] facts(2-4) by auto
  moreover have "load_bytes (read_moves (slave_mem s2) (mem s2) va ts) va (unat len) = bs"
  proof -
    have "load_bytes m va (unat len) = bs"
      unfolding m_def by (rule nth_equalityI) (use filled_nth [OF bs facts(4)] bs in simp_all)
    then show ?thesis using moves_roundtrip [OF facts(8,2)] facts(4) by (simp add: sel)
  qed
  moreover have "0 < sint (pos + len)" using facts(5,7) by (simp only: sint_small [OF facts(6)])
  moreover have "len \<noteq> 0" using facts(7) by auto
  moreover have "rdfs_va (s2\<lparr>slave_ctxs := cs', mem := x\<rparr>) (global_phy_addr s2) = va" for x cs' using sel(1) by (simp add: rdfs_va_def)
  ultimately show ?thesis using ps(1) by (simp add: rdfs_local_file_read_def sel out)
qed

text \<open>C1. What is written to a file is read back. Let a request of less than a page be served: after growing, the file has its blocks,
  they are on registered slaves and no two of its bytes are in the same place (\<open>io_ready\<close>). Then the write returns its length
  and advances the position, changes no byte of any slave but those of the request, and a read of the same range delivers the
  bytes that were written. The size of the file is afterwards the end of the request, also when it was larger before.\<close>

theorem write_read_roundtrip:
  assumes "\<And>w. post_ok k w" "\<And>bs. copy_to_user k bs = bs" "copy_from_user k buf (unat len) = take (unat len) buf"
    and "unat len \<le> length buf" "grow_file k s ino (pos + len) = Some (e, s1)" "io_ready k s1 ino pos len"
  shows "\<exists>s2 s3. rdfs_local_file_write k s ino buf len pos = Some (len, pos + len, s2) \<and>
    rdfs_local_file_read k s2 ino len pos = Some (len, take (unat len) buf, pos + len, s3) \<and>
    i_size (icache s2 ino) = sint (pos + len) \<and>
    (\<forall>t x. (t, x) \<notin> set (request_places s1 ino pos len) \<longrightarrow> slave_mem s2 t x = slave_mem s1 t x)"
proof -
  let ?va = "rdfs_va s1 (global_phy_addr s1)" and ?bs = "take (unat len) buf"
  let ?m = "filled (mem s1) ?va len ?bs"
  have bs: "length (copy_from_user k buf (unat len)) = unat len" "length ?bs = unat len" using assms(3,4) by simp_all
  obtain ps ts cs where w: "block_walk pos (pos + len) = Some ps" "plan s1 (info (icache s1 ino)) ps = Some ts"
      "same_links (slave_ctxs s1) cs" "links_ok (s1\<lparr>slave_ctxs := cs\<rparr>)"
      "rdfs_local_file_write k s ino buf len pos = Some (len, pos + len,
        i_size_write (s1\<lparr>mem := ?m, slave_ctxs := cs, slave_mem := write_moves (slave_mem s1) ?m ?va ts\<rparr>) ino (pos + len))"
    using write_effect [OF assms(1,5,6) bs(1)] unfolding assms(3) by blast
  let ?s2 = "i_size_write (s1\<lparr>mem := ?m, slave_ctxs := cs, slave_mem := write_moves (slave_mem s1) ?m ?va ts\<rparr>) ino (pos + len)"
  obtain s3 where "rdfs_local_file_read k ?s2 ino len pos = Some (len, ?bs, pos + len, s3)"
    using read_after_write [OF assms(1,2,6) w(1-4) bs(2)] by blast
  moreover have "i_size (icache ?s2 ino) = sint (pos + len)" by (simp add: i_size_write_def set_inode_def)
  moreover have "slave_mem ?s2 t x = slave_mem s1 t x" if "(t, x) \<notin> set (request_places s1 ino pos len)" for t x
    using that w(1,2) by (simp add: request_places_def i_size_write_def set_inode_def write_moves_elsewhere)
  ultimately show ?thesis using w(5) by blast
qed


section \<open>An example\<close>

text \<open>A file of two blocks, on two slaves; three bytes across the boundary of the blocks.\<close>

definition example_fio :: fio where
  "example_fio = \<lparr>sbi = example_sbi,
     mem = st64 (st64 (st64 (st64 (\<lambda>_. 0) 0xffffc90000200000 0x1800201000) 0xffffc90000201000 0x1800202000)
       0xffffc90000202000 (slave_pte 0 7)) 0xffffc90000202008 (slave_pte 1 9),
     next_numa_id = 0, slave_infos = [], pte_cnt = 0, pte_phy_addr = 0, pte_free_list = pte_free_list example_smem,
     nv = nv_start, kpud = (\<lambda>_ _. 0x1800200000), kpmd = (\<lambda>_ _. 0), bdevs = (\<lambda>_. example_bdev),
     icache = (\<lambda>_. example_inode), global_phy_addr = 0x1800300000, local_rw_addr = 0x9000, buffer_flag = True,
     i_p_counter = (\<lambda>_. 1), slave_ctxs = [0 \<mapsto> some_master, 1 \<mapsto> some_master], slave_mem = (\<lambda>_ _. 0)\<rparr>"

definition example_fenv :: fenv where
  "example_fenv = nenv.extend (kenv.extend example_kenv
       \<lparr>iput_evicts = (\<lambda>_. False), iget_lock = (\<lambda>_. Iget_null), new_valid_dev = (\<lambda>_. True), readlink_copy = (\<lambda>_ _. 0), junk_page = 0\<rparr>)
     \<lparr>dma_map = (\<lambda>_. 0x9000), dma_cpu = (\<lambda>a. a - 0x9000 + 0xffffc90000300000), post_ok = (\<lambda>_. True), generic_file_open = (\<lambda>_. 0),
      copy_from_user = (\<lambda>buf n. take n buf), copy_to_user = (\<lambda>bs. bs)\<rparr>"

lemma example_fenv_eval [mem_eval]:
  "post_ok example_fenv w" "copy_to_user example_fenv bs = bs" "copy_from_user example_fenv buf n = take n buf"
  "dma_cpu example_fenv a = a - 0x9000 + 0xffffc90000300000" "s_blocksize_bits example_fenv = 12"
  by (simp_all add: example_fenv_def nenv.defs kenv.defs example_kenv_def)

lemma example_fio_eval [mem_eval]:
  "virt_addr (sbi example_fio) = 0xffffc90000000000" "phy_addr (sbi example_fio) = 0x1800000000"
  "ld64 (mem example_fio) 0xffffc90000200000 = 0x1800201000" "ld64 (mem example_fio) 0xffffc90000201000 = 0x1800202000"
  "ld64 (mem example_fio) 0xffffc90000202000 = slave_pte 0 7" "ld64 (mem example_fio) 0xffffc90000202008 = slave_pte 1 9"
  "kpud example_fio mm a = 0x1800200000" "icache example_fio ino = example_inode" "global_phy_addr example_fio = 0x1800300000"
  "local_rw_addr example_fio = 0x9000" "slave_ctxs example_fio = [0 \<mapsto> some_master, 1 \<mapsto> some_master]"
  by (simp_all add: example_fio_def example_sbi_def mem_eval)

lemma example_walk: "block_walk 4094 4097 = Some [(0, 4094, 2), (4096, 0, 1)]"
  by (simp add: block_walk.simps BLOCK_BYTES_def Let_def push_bit_eq_mult drop_bit_eq_div)

lemma example_search:
  "rdfs_search_metadata example_fio (info example_inode) 0 = Some (0, 7)"
  "rdfs_search_metadata example_fio (info example_inode) 4096 = Some (1, 9)"
  by (simp_all add: rdfs_search_metadata_def translate_cells pmd_entry_def upper_cell_def lower_cell_def rdfs_va_def
      get_phys_from_pte_val_def pmd_index_def pte_index_def slave_pte_decode mem_eval consts_eval Let_def drop_bit_eq_div)


lemma example_cells:
  "search_cells example_fio (info example_inode) 0 = [0xffffc90000200000, 0xffffc90000201000, 0xffffc90000202000]"
  "search_cells example_fio (info example_inode) 4096 = [0xffffc90000200000, 0xffffc90000201000, 0xffffc90000202008]"
  by (simp_all add: search_cells_def translate_cells pmd_entry_def upper_cell_def lower_cell_def rdfs_va_def
      get_phys_from_pte_val_def pmd_index_def pte_index_def mem_eval consts_eval Let_def drop_bit_eq_div)

lemma example_io_ready: "io_ready example_fenv example_fio 1 4094 3"
  by (simp add: io_ready_def example_walk example_search example_cells steady_def links_ok_def dma_linear_def rdfs_va_def
      apart_def mem_eval BLOCK_BYTES_def some_master_def upt_conv_Cons)

theorem write_read_roundtrip_witness:
  "\<exists>s2 s3. rdfs_local_file_write example_fenv example_fio 1 [10, 20, 30] 3 4094 = Some (3, 4097, s2) \<and>
     rdfs_local_file_read example_fenv s2 1 3 4094 = Some (3, [10, 20, 30], 4097, s3) \<and> i_size (icache s2 1) = 4097"
proof -
  have "grow_file example_fenv example_fio 1 (4094 + 3) = Some (0, example_fio)"
    by (simp add: grow_file_def pages_to_alloc_def s_blocksize_def mem_eval drop_bit_eq_div push_bit_eq_mult)
  from write_read_roundtrip [OF _ _ _ _ this, of "[10, 20, 30]"] example_io_ready show ?thesis by (auto simp: mem_eval)
qed

end
