(* ===== verification/Client.thy ===== *)
theory Client
  imports Handshake
begin

text \<open>
  The client library (\<open>rdfs_client/network.cpp\<close> and \<open>rdfs.cpp\<close>): connecting to the master and to the slaves it names, opening and
  closing files, and asking for the blocks of a file.

  The state is the array of slave contexts, the map from file descriptors to open files, the two connections to the master
  and the sockets by descriptor. \<open>None\<close> is undefined behaviour (a null pointer, an index or an iterator out of range) or a
  run that is longer than the fuel.
\<close>

section \<open>State\<close>

record rdfs_file =
  inode_ino :: u32
  file_size :: u64
  offset :: u64

record client =
  slave_ctx :: "nat \<Rightarrow> slave_context option"
  file_map :: "u32 \<Rightarrow> rdfs_file option"
  master_kernel_sock_fd :: int
  master_userspace_sock_fd :: int
  socks :: "int \<Rightarrow> sock"

text \<open>What the system answers: the descriptor \<open>socket\<close> returns, whether \<open>connect\<close> succeeds, the context the InfiniBand
  library sets up, the value of \<open>rand\<close>, and the bytes of uninitialised messages.\<close>

record client_env = net +
  new_socket :: "u32 \<Rightarrow> u32 \<Rightarrow> int"
  connects :: "int \<Rightarrow> bool"
  hca_ctx :: slave_context
  rand_value :: u64
  stack :: string

definition MAX_SLAVE_NUMS :: nat where [consts_eval]: "MAX_SLAVE_NUMS = 10"
definition CLIENT_REQUEST_PORT :: u32 where [consts_eval]: "CLIENT_REQUEST_PORT = 18514"
definition CLIENT_USERSPACE_REQUEST_PORT :: u32 where [consts_eval]: "CLIENT_USERSPACE_REQUEST_PORT = 18513"
definition MASTER_IP :: u32 where [consts_eval]: "MASTER_IP = 0x0200a8c0"

definition RDFS_CLIENT_OPEN :: u32 where [consts_eval]: "RDFS_CLIENT_OPEN = 0"
definition RDFS_CLIENT_CLOSE :: u32 where [consts_eval]: "RDFS_CLIENT_CLOSE = 1"
definition RDFS_CLIENT_READ :: u32 where [consts_eval]: "RDFS_CLIENT_READ = 5"
definition RDFS_CLIENT_WRITE :: u32 where [consts_eval]: "RDFS_CLIENT_WRITE = 6"

text \<open>\<open>sizeof(struct rdfs_message)\<close> and \<open>sizeof(struct rdfs_search_message)\<close>.\<close>

definition client_message_size :: nat where [consts_eval]: "client_message_size = 1032"
definition search_message_size :: nat where [consts_eval]: "search_message_size = 8 + 4 * 1024 * 8"

text \<open>The type and the number at the edges of an uninitialised message, and its buffer in between.\<close>

definition edges :: "client_env \<Rightarrow> string" where
  "edges e = take 4 (stack e) @ take 4 (drop (4 + CLIENT_MESSAGE_LENGTH) (stack e))"

definition junk_data :: "client_env \<Rightarrow> string" where
  "junk_data e = take CLIENT_MESSAGE_LENGTH (drop 4 (stack e))"

section \<open>Connections\<close>

text \<open>The local identifier, the sequence number, the MTU and the queue pair number are set; the other fields are what
  \<open>malloc\<close> returned.\<close>

definition client_init_context :: "client_env \<Rightarrow> slave_context" where
  "client_init_context e = (hca_ctx e)\<lparr>psn := ucast (rand_value e AND 0xffffff)\<rparr>"

definition rdfs_connect :: "client_env \<Rightarrow> u32 \<Rightarrow> u32 \<Rightarrow> int" where
  "rdfs_connect e ip port =
     (let fd = new_socket e ip port
      in if fd = - 1 then - 1 else if \<not> connects e fd then - 1 else fd)"

text \<open>The context of a slave is filled from the message buffer (\<open>sscanf\<close>) instead of printed into it. The \<open>%lx\<close> for \<open>&lid\<close> would
  store four bytes more than the field has, into \<open>rem_qpn\<close>.\<close>

definition set_own :: "int list \<Rightarrow> slave_context \<Rightarrow> slave_context" where
  "set_own vs c = c\<lparr>dma_addr := asg vs 0 (dma_addr c), rkey := asg vs 1 (rkey c), qpn := asg vs 2 (qpn c), psn := asg vs 3 (psn c),
     lid := asg vs 4 (lid c), rem_qpn := (if 4 < length vs then of_int (vs ! 4 div 2 ^ 32) else rem_qpn c)\<rparr>"

definition client_send :: "client_env \<Rightarrow> client \<Rightarrow> int \<Rightarrow> string \<Rightarrow> int \<times> client" where
  "client_send e st fd m =
     (let (r, s) = send_data (net.truncate e) (socks st fd) (Some m) in (r, st\<lparr>socks := (socks st)(fd := s)\<rparr>))"

definition client_recv :: "client_env \<Rightarrow> client \<Rightarrow> int \<Rightarrow> string \<Rightarrow> nat \<Rightarrow> int \<times> string \<times> client" where
  "client_recv e st fd m n =
     (let (r, m', s) = recv_data (net.truncate e) (socks st fd) (Some m) n in (r, the m', st\<lparr>socks := (socks st)(fd := s)\<rparr>))"

text \<open>Contexts are passed by their index in \<open>slave_ctx\<close>; a null pointer is \<^const>\<open>None\<close>.\<close>

definition client_send_message :: "client_env \<Rightarrow> client \<Rightarrow> int \<Rightarrow> nat option \<Rightarrow> u32 \<Rightarrow> (int \<times> client) option" where
  "client_send_message e st fd ctx_p m_type =
     (let m = msg m_type (zeros CLIENT_MESSAGE_LENGTH) (drop 4 (edges e))
      in if m_type = CLIENT_CTX_INFO_TO_SLAVE then
           (case ctx_p of None \<Rightarrow> None
            | Some i \<Rightarrow> (case slave_ctx st i of None \<Rightarrow> None
              | Some c \<Rightarrow> Some (client_send e (st\<lparr>slave_ctx := (slave_ctx st)(i \<mapsto>
                    set_own (sscanf ctx_format (c_str (msg_data CLIENT_MESSAGE_LENGTH m))) c)\<rparr>) fd m)))
         else Some (client_send e st fd m))"

text \<open>\<open>%lx\<close> for \<open>&rem_block_nums\<close>, an \<open>int\<close>: the upper half of the value goes into the lower half of \<open>rdma_buffer\<close>.\<close>

definition set_slave :: "int list \<Rightarrow> slave_context \<Rightarrow> slave_context" where
  "set_slave vs c = (set_rem vs c)\<lparr>slave_block_nums := asg vs 5 (slave_block_nums c),
     rdma_buffer := (if 5 < length vs
       then (rdma_buffer c AND NOT (mask 32)) OR take_bit 32 (of_int (vs ! 5 div 2 ^ 32)) else rdma_buffer c)\<rparr>"

text \<open>\<open>rdfs_recv_message\<close> connects to the slave a message names, which receives a message in turn, and then receives the next
  message if the first one announced more.\<close>

fun client_recv_message :: "nat \<Rightarrow> client_env \<Rightarrow> client \<Rightarrow> int \<Rightarrow> nat option \<Rightarrow> (int \<times> u32 \<times> client) option"
and rdfs_init_slave_connect :: "nat \<Rightarrow> client_env \<Rightarrow> client \<Rightarrow> u32 \<Rightarrow> u32 \<Rightarrow> u32 \<Rightarrow> client option" where
  "client_recv_message 0 e st fd ctx_p = None"
| "client_recv_message (Suc fuel) e st fd ctx_p =
     (let (r, m, st1) = client_recv e st fd (fresh_message CLIENT_MESSAGE_LENGTH (edges e)) client_message_size;
          m_type = msg_type m;
          text = c_str (msg_data CLIENT_MESSAGE_LENGTH m)
      in if m_type = SLAVE_CTX_TO_CLIENT then
           (case ctx_p of None \<Rightarrow> None
            | Some i \<Rightarrow> (case slave_ctx st1 i of None \<Rightarrow> None
              | Some c \<Rightarrow> Some (r, m_type, st1\<lparr>slave_ctx := (slave_ctx st1)(i \<mapsto>
                    set_slave (sscanf (ctx_format @ [conv_x]) text) c)\<rparr>)))
         else if m_type = CLIENT_SERACH_SLAVE_INFO then
           (let vs = sscanf [conv_d, conv_d, conv_u, conv_d] text;
                junk = of_le4 (stack e)
            in case rdfs_init_slave_connect fuel e st1 (asg vs 1 junk) (asg vs 2 junk) (asg vs 3 junk) of
                 None \<Rightarrow> None
               | Some st2 \<Rightarrow>
                   if 0 < (asg vs 0 junk :: u32) then
                     (case client_recv_message fuel e st2 fd ctx_p of
                        None \<Rightarrow> None | Some (_, ty, st3) \<Rightarrow> Some (r, ty, st3))
                   else Some (r, m_type, st2))
         else Some (r, m_type, st1))"
| "rdfs_init_slave_connect 0 e st s_id ip port = None"
| "rdfs_init_slave_connect (Suc fuel) e st s_id ip port =
     (let fd = rdfs_connect e ip port; i = unat s_id
      in if MAX_SLAVE_NUMS \<le> i then None
         else case client_send_message e (st\<lparr>slave_ctx := (slave_ctx st)(i \<mapsto> client_init_context e)\<rparr>) fd (Some i)
                 CLIENT_CTX_INFO_TO_SLAVE of
           None \<Rightarrow> None
         | Some (_, st1) \<Rightarrow>
             (case client_recv_message fuel e st1 fd (Some i) of None \<Rightarrow> None | Some (_, _, st2) \<Rightarrow> Some st2))"

definition rdfsConnect :: "nat \<Rightarrow> client_env \<Rightarrow> client \<Rightarrow> (int \<times> client) option" where
  "rdfsConnect fuel e st =
     (let fd = rdfs_connect e MASTER_IP CLIENT_REQUEST_PORT;
          st1 = st\<lparr>master_kernel_sock_fd := fd\<rparr>
      in if fd = - 1 then Some (- 1, st1)
         else case client_send_message e st1 fd None CLIENT_SERACH_SLAVE_INFO of None \<Rightarrow> None
         | Some (_, st2) \<Rightarrow>
             (case client_recv_message fuel e st2 fd None of None \<Rightarrow> None
              | Some (_, _, st3) \<Rightarrow>
                  let ufd = rdfs_connect e MASTER_IP CLIENT_USERSPACE_REQUEST_PORT
                  in Some (if ufd \<le> 0 then - 1 else 0, st3\<lparr>master_userspace_sock_fd := ufd\<rparr>)))"

section \<open>Files\<close>

text \<open>Printing into the buffer of a message, which fails (overruns the structure) when the text does not fit.\<close>

definition put_text :: "string \<Rightarrow> string \<Rightarrow> string option" where
  "put_text m t = (if length t < CLIENT_MESSAGE_LENGTH
     then Some (take 4 m @ sprintf_to (take CLIENT_MESSAGE_LENGTH (drop 4 m)) t @ drop (4 + CLIENT_MESSAGE_LENGTH) m) else None)"

definition get_text :: "string \<Rightarrow> string" where
  "get_text m = c_str (msg_data CLIENT_MESSAGE_LENGTH m)"

text \<open>A request on one connection: send the message, receive into the same variable.\<close>

definition ask :: "client_env \<Rightarrow> client \<Rightarrow> int \<Rightarrow> string \<Rightarrow> string \<times> client" where
  "ask e st fd m =
     (let (_, st1) = client_send e st fd m; (_, m', st2) = client_recv e st1 fd m client_message_size in (m', st2))"

definition rdfsOpenFile :: "client_env \<Rightarrow> client \<Rightarrow> string \<Rightarrow> u32 \<Rightarrow> (u32 \<times> client) option" where
  "rdfsOpenFile e st path flags =
     (let m0 = msg RDFS_CLIENT_OPEN (junk_data e) (drop 4 (edges e))
      in case put_text m0 (colons [sdec (sint flags), sdec 420, path]) of None \<Rightarrow> None
      | Some m1 \<Rightarrow>
          let (m2, st1) = ask e st (master_userspace_sock_fd st) m1;
              open_fd = asg (sscanf [conv_d] (get_text m2)) 0 0
          in case put_text m2 path of None \<Rightarrow> None
          | Some m3 \<Rightarrow>
              let (m4, st2) = ask e st1 (master_kernel_sock_fd st1) m3;
                  vs = sscanf [conv_d, conv_d] (get_text m4);
                  file = \<lparr>inode_ino = asg vs 0 1, file_size = asg vs 1 10, offset = 0\<rparr>
              in Some (open_fd, st2\<lparr>file_map := (if file_map st2 open_fd = None
                   then (file_map st2)(open_fd \<mapsto> file) else file_map st2)\<rparr>))"

text \<open>The iterator that \<open>find\<close> returns for a descriptor that is not open may not be dereferenced.\<close>

definition rdfsCloseFile :: "client_env \<Rightarrow> client \<Rightarrow> u32 \<Rightarrow> (int \<times> client) option" where
  "rdfsCloseFile e st rdfs_fd =
     (case put_text (msg RDFS_CLIENT_CLOSE (junk_data e) (drop 4 (edges e))) (sdec (sint rdfs_fd)) of None \<Rightarrow> None
      | Some m \<Rightarrow>
          let (_, st1) = ask e st (master_userspace_sock_fd st) m
          in case file_map st1 rdfs_fd of None \<Rightarrow> None
             | Some _ \<Rightarrow> Some (0, st1\<lparr>file_map := (file_map st1)(rdfs_fd := None)\<rparr>))"

text \<open>The blocks a reply names, as the loop reads them: four numbers, then the rest of the text as the next record. A conversion
  that fails leaves the variables as they were.\<close>

fun read_blocks :: "nat \<Rightarrow> string \<Rightarrow> u32 \<times> u32 \<times> u32 \<times> u32 \<Rightarrow> string \<Rightarrow> (u32 \<times> u32 \<times> u32 \<times> u32) list" where
  "read_blocks 0 p old s = []"
| "read_blocks (Suc n) p (s_id, block_id, block_offset, len) s =
     (let (vs, rest) = scan_rest [conv_d, conv_d, conv_d, conv_d] p;
          new = (asg vs 0 s_id, asg vs 1 block_id, asg vs 2 block_offset, asg vs 3 len);
          s' = (case rest of None \<Rightarrow> s | Some t \<Rightarrow> if dropWhile is_space t = [] then s
                else takeWhile (\<lambda>c. \<not> is_space c) (dropWhile is_space t))
      in new # read_blocks n s' new s')"

text \<open>\<open>recv\<close> may store as many bytes as a \<open>rdfs_search_message\<close> has into a variable that is a \<open>rdfs_message\<close>. The result has, besides
  what the function returns, the blocks it found in the reply.\<close>

definition rdfs_io :: "client_env \<Rightarrow> client \<Rightarrow> u32 \<Rightarrow> u64 \<Rightarrow> u64 \<Rightarrow> (u32 \<times> (u32 \<times> u32 \<times> u32 \<times> u32) list \<times> client) option" where
  "rdfs_io e st rdfs_fd len off =
     (case file_map st rdfs_fd of None \<Rightarrow> None
      | Some f \<Rightarrow>
          case put_text (msg RDFS_CLIENT_WRITE (junk_data e) (drop 4 (edges e)))
              (colons [sdec (sint (inode_ino f)), sdec (sint off), sdec (sint len)]) of None \<Rightarrow> None
          | Some m \<Rightarrow>
              let fd = master_kernel_sock_fd st;
                  (_, st1) = client_send e st fd m;
                  (r, m', st2) = client_recv e st1 fd m search_message_size;
                  nums = of_le4 (drop (4 + CLIENT_MESSAGE_LENGTH) m');
                  junk = of_le4 (stack e)
              in if int client_message_size < r then None
                 else Some (ucast len, read_blocks (nat (sint nums)) (get_text m') (junk, junk, junk, junk) (c_str (stack e)), st2))"

definition rdfsWrite where "rdfsWrite e st rdfs_fd len off = rdfs_io e st rdfs_fd len off"
definition rdfsRead where "rdfsRead e st rdfs_fd len off = rdfs_io e st rdfs_fd len off"

end
