(* ===== verification/Master_Service.thy ===== *)
theory Master_Service
  imports File_Data Client
begin

text \<open>
  The services of the master (\<open>rdfs_master/master_service.c\<close>): registration of slaves, and requests of clients, which one thread
  receives into a list of tasks and another one takes from there and answers.

  The list of tasks is a list; a socket is named by a number. \<open>None\<close> is a fault of the kernel: a null pointer, an array index or a
  buffer out of range, a loop that does not end.
\<close>

section \<open>State\<close>

text \<open>\<open>struct client_request_task\<close>: the message, as the bytes of the structure, and the socket.\<close>

record client_request_task =
  t_message :: string
  t_sock :: nat

text \<open>The list of tasks, the number of registered slaves (\<open>slave_id\<close>), their addresses and ports for clients, the open sockets, and the
  flags that end the services.\<close>

record master = fio +
  task_list :: "client_request_task list"
  next_slave :: nat
  slave_net :: "nat \<Rightarrow> u32 \<times> u32"
  conn :: "nat \<Rightarrow> sock"
  register_stop :: bool
  request_stop :: bool

text \<open>What the system decides: the network, the inode \<open>filp_open\<close> finds for a path (as a directory or for reading), the bytes of
  uninitialised messages, and the InfiniBand device.\<close>

record senv = fenv +
  s_net :: net
  filp_dir :: "string \<Rightarrow> u64 option"
  filp_read :: "string \<Rightarrow> u64 option"
  junk_bytes :: string
  ib_dev :: "hca option"
  junk_ctx :: rdfs_context

definition MASTER_MESSAGE_SIZE :: nat where [consts_eval]: "MASTER_MESSAGE_SIZE = 4104"
definition CLIENT_REGISTER_SLAVE_PORT :: u32 where [consts_eval]: "CLIENT_REGISTER_SLAVE_PORT = 18518"
definition RDFS_FILE_PATH_LENGTH :: nat where [consts_eval]: "RDFS_FILE_PATH_LENGTH = 1024"
definition MAX_SLAVES :: nat where [consts_eval]: "MAX_SLAVES = 10"
definition SLAVE_ALIVE :: int where [consts_eval]: "SLAVE_ALIVE = 1"
definition SLAVE_REMOVED :: int where [consts_eval]: "SLAVE_REMOVED = 2"
definition REQ_OPEN :: u32 where [consts_eval]: "REQ_OPEN = 0"
definition REQ_READ :: u32 where [consts_eval]: "REQ_READ = 5"
definition REQ_WRITE :: u32 where [consts_eval]: "REQ_WRITE = 6"

text \<open>The type and \<open>nums\<close> of an uninitialised message.\<close>

definition junk_edges :: "'k senv_scheme \<Rightarrow> string" where
  "junk_edges k = take 8 (junk_bytes k @ zeros 8)"

section \<open>The list of tasks\<close>

definition rdfs_init_job_service :: "'a master_scheme \<Rightarrow> 'a master_scheme" where
  "rdfs_init_job_service s = s\<lparr>task_list := []\<rparr>"

definition rdfs_add_task :: "'a master_scheme \<Rightarrow> client_request_task \<Rightarrow> 'a master_scheme" where
  "rdfs_add_task s task = s\<lparr>task_list := task # task_list s\<rparr>"

definition rdfs_remove_task :: "'a master_scheme \<Rightarrow> client_request_task option \<times> 'a master_scheme" where
  "rdfs_remove_task s =
     (case task_list s of [] \<Rightarrow> (None, s) | task # rest \<Rightarrow> (Some task, s\<lparr>task_list := rest\<rparr>))"

section \<open>Sending and receiving\<close>

definition master_send :: "'k senv_scheme \<Rightarrow> 'a master_scheme \<Rightarrow> nat \<Rightarrow> string \<Rightarrow> 'a master_scheme" where
  "master_send k s c m = s\<lparr>conn := (conn s)(c := snd (send_data (s_net k) (conn s c) (Some m)))\<rparr>"

text \<open>The thread of the request service: one message into a new task.\<close>

definition rdfs_process_request :: "'k senv_scheme \<Rightarrow> 'a master_scheme \<Rightarrow> nat \<Rightarrow> 'a master_scheme" where
  "rdfs_process_request k s c =
     (let (_, m, sock) = recv_data (s_net k) (conn s c) (Some (fresh_message MAX_MESSAGE_LENGTH (junk_edges k))) MASTER_MESSAGE_SIZE
      in rdfs_add_task (s\<lparr>conn := (conn s)(c := sock)\<rparr>) \<lparr>t_message = the m, t_sock = c\<rparr>)"

section \<open>Requests of clients\<close>

text \<open>One message per slave, all from the same variable, with a counter that says how many follow.\<close>

primrec slave_info_loop :: "nat \<Rightarrow> nat \<Rightarrow> string \<Rightarrow> 'k senv_scheme \<Rightarrow> 'a master_scheme \<Rightarrow> nat \<Rightarrow> 'a master_scheme" where
  "slave_info_loop 0 i buf k s c = s"
| "slave_info_loop (Suc t) i buf k s c =
     (let buf' = sprintf_to buf (colons [sdec (int t), sdec (s_slave_id (slave_infos s ! i)), dec (unat (fst (slave_net s i))),
                   sdec (sint (snd (slave_net s i)))])
      in slave_info_loop t (Suc i) buf' k (master_send k s c (msg CLIENT_SERACH_SLAVE_INFO buf' (drop 4 (junk_edges k)))) c)"

definition rdfs_search_slave_info :: "'k senv_scheme \<Rightarrow> 'a master_scheme \<Rightarrow> nat \<Rightarrow> 'a master_scheme" where
  "rdfs_search_slave_info k s c = slave_info_loop (next_slave s) 0 (zeros MAX_MESSAGE_LENGTH) k s c"

definition path_to_inode :: "'k senv_scheme \<Rightarrow> string \<Rightarrow> u64 option" where
  "path_to_inode k path = (case filp_dir k path of Some i \<Rightarrow> Some i | None \<Rightarrow> filp_read k path)"

text \<open>The parts of a message of the master, and printing into its buffer.\<close>

definition data_of :: "string \<Rightarrow> string" where
  "data_of m = msg_data MAX_MESSAGE_LENGTH m"

definition with_data :: "string \<Rightarrow> string \<Rightarrow> string" where
  "with_data m d = take 4 m @ d @ drop (4 + MAX_MESSAGE_LENGTH) m"

definition with_nums :: "string \<Rightarrow> u32 \<Rightarrow> string" where
  "with_nums m n = take (4 + MAX_MESSAGE_LENGTH) m @ le4 n"

text \<open>A path that \<open>filp_open\<close> does not find is a null pointer that is dereferenced.\<close>

definition rdfs_client_open :: "'k senv_scheme \<Rightarrow> 'a master_scheme \<Rightarrow> client_request_task \<Rightarrow> 'a master_scheme option" where
  "rdfs_client_open k s task =
     (let m = t_message task;
          word = scan_word (c_str (data_of m));
          filename = (if word = [] then c_str (junk_bytes k) else word)
      in if RDFS_FILE_PATH_LENGTH \<le> length filename then None
         else case path_to_inode k filename of None \<Rightarrow> None
         | Some i \<Rightarrow>
             let text = colons [sdec (sint (ucast i :: u32)), sdec (i_size (icache s i))]
             in Some (master_send k s (t_sock task) (with_data m (sprintf_to (data_of m) text))))"

text \<open>The result of \<open>rdfs_client_search_metadata\<close> is not looked at; the message is sent in any case.\<close>

definition rdfs_client_read :: "'k senv_scheme \<Rightarrow> 'a master_scheme \<Rightarrow> client_request_task \<Rightarrow> 'a master_scheme option" where
  "rdfs_client_read k s task =
     (let m = t_message task;
          vs = sscanf [conv_d, conv_d, conv_d] (c_str (data_of m));
          junk = of_le4 (junk_edges k)
      in case rdfs_client_search_metadata k s (asg vs 0 junk) (asg vs 1 (ucast junk)) (asg vs 2 (ucast junk)) of None \<Rightarrow> None
         | Some (_, None, s1) \<Rightarrow> Some (master_send k s1 (t_sock task) m)
         | Some (_, Some (text, nums), s1) \<Rightarrow>
             Some (master_send k s1 (t_sock task)
               (with_nums (if nums = 0 then m else with_data m (sprintf_to (data_of m) text)) nums)))"

text \<open>One round of the thread that does the tasks. A task of another type is neither answered nor freed.\<close>

definition rdfs_process_task :: "'k senv_scheme \<Rightarrow> 'a master_scheme \<Rightarrow> 'a master_scheme option" where
  "rdfs_process_task k s =
     (case rdfs_remove_task s of
        (None, s1) \<Rightarrow> Some s1
      | (Some task, s1) \<Rightarrow>
          let m_type = msg_type (t_message task)
          in if m_type = CLIENT_SERACH_SLAVE_INFO then Some (rdfs_search_slave_info k s1 (t_sock task))
             else if m_type = REQ_READ then rdfs_client_read k s1 task
             else if m_type = REQ_WRITE then rdfs_client_read k s1 task
             else if m_type = REQ_OPEN then rdfs_client_open k s1 task
             else Some s1)"

section \<open>Registration of slaves\<close>

text \<open>\<open>in_aton("192.168.0.3")\<close>, in network byte order.\<close>

definition slave_ip_const :: u32 where [consts_eval]: "slave_ip_const = 0x0300a8c0"

text \<open>The result, the calls of \<open>ib_modify_qp\<close>, and the state. The results of the two messages are not looked at.\<close>

definition rdfs_process_register ::
  "'k senv_scheme \<Rightarrow> 'a master_scheme \<Rightarrow> nat \<Rightarrow> (int \<times> (qp_attr \<times> qp_flag list) list \<times> 'a master_scheme) option" where
  "rdfs_process_register k s c =
     (case rdfs_init_context (ib_dev k) (junk_ctx k) of
        (None, _) \<Rightarrow> Some (- 1, [], s)
      | (Some ctx, _) \<Rightarrow>
          let i = next_slave s
          in if MAX_SLAVES \<le> i \<or> length (slave_infos s) \<le> i then None
             else do {
               (_, _, ctx1, sock1) \<leftarrow> rdfs_recv_message (s_net k) (conn s c) ctx (junk_edges k);
               let (_, sock2) = rdfs_send_message (s_net k) sock1 ctx1 MASTER_CTX_INFO (drop 4 (junk_edges k));
               let info = rdfs_init_slave_memory_bitmap_list ((slave_infos s ! i)\<lparr>
                     slave_info.rem_block_nums := sint (ucast (rdfs_context.rem_block_nums ctx1) :: u32),
                     s_slave_id := int i, s_status := SLAVE_ALIVE\<rparr>);
               Some (0, rdfs_modify_qp ctx1,
                 s\<lparr>conn := (conn s)(c := sock2), slave_ctxs := (slave_ctxs s)(of_nat i \<mapsto> ctx1),
                   slave_infos := (slave_infos s)[i := info], slave_net := (slave_net s)(i := (slave_ip_const, CLIENT_REGISTER_SLAVE_PORT)),
                   next_slave := Suc i\<rparr>)
             })"

definition rdfs_remove_register :: "slave_info \<Rightarrow> slave_info option" where
  "rdfs_remove_register s = map_option (\<lambda>s'. s'\<lparr>s_status := SLAVE_REMOVED\<rparr>) (rdfs_free_slave_memory_bitmap_list s)"

text \<open>\<open>rdfs_exit_service\<close>: an error for an error pointer, else the flag of the service whose thread it is.\<close>

definition rdfs_exit_service :: "bool \<Rightarrow> bool \<Rightarrow> 'a master_scheme \<Rightarrow> int \<times> 'a master_scheme" where
  "rdfs_exit_service is_err is_register s =
     (if is_err then (- 1, s) else if is_register then (0, s\<lparr>register_stop := True\<rparr>) else (0, s\<lparr>request_stop := True\<rparr>))"

text \<open>\<open>rdfs_add_device\<close> starts the threads of the two services, each of which may fail to start, and only then makes the list of tasks
  empty; \<open>rdfs_remove_device\<close> tells both threads to end.\<close>

definition rdfs_init_slave_register_service :: "bool \<Rightarrow> int" where
  "rdfs_init_slave_register_service thread_is_err = (if thread_is_err then - 1 else 0)"

definition rdfs_init_client_request_service :: "bool \<Rightarrow> int" where
  "rdfs_init_client_request_service thread_is_err = (if thread_is_err then - 1 else 0)"

definition rdfs_add_device :: "bool \<Rightarrow> bool \<Rightarrow> 'a master_scheme \<Rightarrow> 'a master_scheme" where
  "rdfs_add_device register_is_err request_is_err s =
     (if rdfs_init_slave_register_service register_is_err \<noteq> 0 then s
      else if rdfs_init_client_request_service request_is_err \<noteq> 0 then s
      else rdfs_init_job_service s)"

definition rdfs_remove_device :: "bool \<Rightarrow> bool \<Rightarrow> 'a master_scheme \<Rightarrow> 'a master_scheme" where
  "rdfs_remove_device register_is_err request_is_err s =
     snd (rdfs_exit_service register_is_err True (snd (rdfs_exit_service request_is_err False s)))"

section \<open>The threads of the services\<close>

text \<open>Where the thread of a service is: waiting in \<open>kernel_accept\<close>, serving a connection, or at its end.\<close>

datatype pc = Accepting | Serving nat | Ended

datatype service = SLAVE_REGISTER_SERVICE | CLIENT_REQUEST_SERVICE

text \<open>\<open>rdfs_init_service\<close> up to its loop: the results of \<open>sock_create_kern\<close>, \<open>kernel_bind\<close> and \<open>kernel_listen\<close> decide whether it gets
  there.\<close>

definition service_start :: "bool \<Rightarrow> int \<Rightarrow> int \<Rightarrow> int \<Rightarrow> int + pc" where
  "service_start should_stop sock_ret bind_ret listen_ret =
     (if should_stop then Inl (- 1) else if sock_ret \<noteq> 0 then Inl (- 1) else if bind_ret \<noteq> 0 then Inl (- 1)
      else if listen_ret \<noteq> 0 then Inl (- 1) else Inr Accepting)"

text \<open>The loop. An accept that fails is tried again. The request service stays with a connection until its flag is set, and then
  accepts the next one.\<close>

inductive serve :: "'k senv_scheme \<Rightarrow> service \<Rightarrow> pc \<times> 'a master_scheme \<Rightarrow> pc \<times> 'a master_scheme \<Rightarrow> bool" for k where
  accept_fails: "serve k v (Accepting, s) (Accepting, s)"
| register: "rdfs_process_register k s c = Some (r, calls, s') \<Longrightarrow>
    serve k SLAVE_REGISTER_SERVICE (Accepting, s) (if register_stop s' then Ended else Accepting, s')"
| connect: "serve k CLIENT_REQUEST_SERVICE (Accepting, s) (Serving c, s)"
| request: "rdfs_process_request k s c = s' \<Longrightarrow>
    serve k CLIENT_REQUEST_SERVICE (Serving c, s) (if request_stop s' then Accepting else Serving c, s')"

inductive_cases serve_requestE: "serve k CLIENT_REQUEST_SERVICE x y"

lemma request_service_runs_on: "(serve k CLIENT_REQUEST_SERVICE)\<^sup>*\<^sup>* x y \<Longrightarrow> fst x \<noteq> Ended \<Longrightarrow> fst y \<noteq> Ended"
  by (induction rule: rtranclp_induct) (auto elim!: serve_requestE split: if_splits)

section \<open>What the master sends\<close>

lemma length_sprintf_to: "length t < length buf \<Longrightarrow> length (sprintf_to buf t) = length buf"
  by (simp add: sprintf_to_def)

lemma length_with_data:
  "length m = MASTER_MESSAGE_SIZE \<Longrightarrow> length d = MAX_MESSAGE_LENGTH \<Longrightarrow> length (with_data m d) = MASTER_MESSAGE_SIZE"
  by (simp add: with_data_def consts_eval)

lemma length_with_nums: "length m = MASTER_MESSAGE_SIZE \<Longrightarrow> length (with_nums m n) = MASTER_MESSAGE_SIZE"
  by (simp add: with_nums_def consts_eval)

lemma search_text_fits:
  "rdfs_client_search_metadata k s ino off len = Some (r, Some (text, n), s') \<Longrightarrow> length text < MAX_MESSAGE_LENGTH"
  by (auto simp: rdfs_client_search_metadata_def Let_def split: bind_splits if_splits sum.splits prod.splits)

text \<open>A network that takes every message whole.\<close>

definition takes_all :: "net \<Rightarrow> bool" where
  "takes_all net \<longleftrightarrow> (\<forall>buf. net_send net buf = int (length buf))"

lemma master_send_outq: "takes_all (s_net k) \<Longrightarrow> outq (conn (master_send k s c m) c) = outq (conn s c) @ m"
  by (simp add: master_send_def send_data_def takes_all_def)

lemma client_read_reply:
  assumes "takes_all (s_net k)" "length (t_message task) = MASTER_MESSAGE_SIZE" "rdfs_client_read k s task = Some s'"
  shows "\<exists>q m. outq (conn s' (t_sock task)) = q @ m \<and> length m = MASTER_MESSAGE_SIZE"
proof -
  obtain s1 m where "s' = master_send k s1 (t_sock task) m" "length m = MASTER_MESSAGE_SIZE"
  proof -
    have d: "length (data_of (t_message task)) = MAX_MESSAGE_LENGTH"
      using assms(2) by (simp add: data_of_def msg_data_def consts_eval)
    note fits = search_text_fits [of k s]
    show thesis
      using assms(2,3) d fits that
      by (force simp: rdfs_client_read_def Let_def length_with_nums length_with_data length_sprintf_to split: option.splits)
  qed
  then show ?thesis using master_send_outq [OF assms(1)] by blast
qed

text \<open>C35. The message structures of master and client do not fit together: the answer of the master to a request for the blocks of a file is
  a structure of 4104 bytes, \<open>rdfs_io\<close> receives up to 32776 bytes into a structure of 1032. When the answer has arrived
  as a whole, the client writes behind its variable, for every file, request and content of the answer.\<close>

theorem client_io_overruns:
  assumes "takes_all (s_net k)" "task_list s = task # rest" "msg_type (t_message task) \<in> {REQ_READ, REQ_WRITE}"
    and "length (t_message task) = MASTER_MESSAGE_SIZE" "rdfs_process_task k s = Some s'"
    and "net.truncate e = lan"
  shows "\<exists>q m. outq (conn s' (t_sock task)) = q @ m \<and>
    (\<forall>st. inq (socks st (master_kernel_sock_fd st)) = m \<longrightarrow> rdfs_io e st rdfs_fd len off = None)"
proof -
  have "rdfs_client_read k (s\<lparr>task_list := rest\<rparr>) task = Some s'"
    using assms(2,3,5) by (auto simp: rdfs_process_task_def rdfs_remove_task_def Let_def consts_eval)
  from client_read_reply [OF assms(1,4) this] obtain q m where m: "outq (conn s' (t_sock task)) = q @ m" "length m = 4104"
    by (auto simp: consts_eval)
  have "rdfs_io e st rdfs_fd len off = None" if "inq (socks st (master_kernel_sock_fd st)) = m" for st
    using that m(2) assms(6)
    by (auto simp: rdfs_io_def client_send_def client_recv_def send_data_def recv_data_def lan_def consts_eval Let_def split: option.splits)
  with m(1) show ?thesis by blast
qed


definition example_senv :: senv where
  "example_senv = fenv.extend (example_fenv\<lparr>iget_lock := (\<lambda>_. Iget_cached example_inode)\<rparr>)
     \<lparr>s_net = lan, filp_dir = (\<lambda>_. None), filp_read = (\<lambda>_. Some 1), junk_bytes = [], ib_dev = None, junk_ctx = some_master\<rparr>"

definition example_task :: client_request_task where
  "example_task = \<lparr>t_message = msg REQ_READ (sprintf_to (zeros MAX_MESSAGE_LENGTH) ''1:4094:3'') (zeros 4), t_sock = 5\<rparr>"

definition example_master :: master where
  "example_master = fio.extend example_fio
     \<lparr>task_list = [example_task], next_slave = 2, slave_net = (\<lambda>_. (0, 0)), conn = (\<lambda>_. no_traffic), register_stop = False,
      request_stop = False\<rparr>"

lemma example_senv_eval [mem_eval]:
  "s_net example_senv = lan" "iget_lock example_senv i = Iget_cached example_inode" "s_blocksize_bits example_senv = 12"
  by (simp_all add: example_senv_def example_fenv_def fenv.defs nenv.defs kenv.defs example_kenv_def)

lemma example_master_search:
  "rdfs_search_metadata (example_master\<lparr>task_list := [], icache := f\<rparr>) (info example_inode) 0 = Some (0, 7)"
  "rdfs_search_metadata (example_master\<lparr>task_list := [], icache := f\<rparr>) (info example_inode) 4096 = Some (1, 9)"
  using example_search search_cong(1) [of "example_master\<lparr>task_list := [], icache := f\<rparr>" example_fio "info example_inode"]
  by (simp_all add: example_master_def fio.defs)

lemma example_lengths:
  "length (sdec 0) = 1" "length (sdec 1) = 1" "length (sdec 2) = 1" "length (sdec 7) = 1" "length (sdec 9) = 1" "length (sdec 4094) = 4"
  by (simp_all add: sdec_def dec_def digits.simps)

lemma example_master_round: "\<exists>s'. rdfs_process_task example_senv example_master = Some s'"
proof -
  have data: "data_of (t_message example_task) = sprintf_to (zeros MAX_MESSAGE_LENGTH) ''1:4094:3''"
    by (simp add: example_task_def data_of_def msg_data_msg length_sprintf_to consts_eval)
  have scan: "sscanf [conv_d, conv_d, conv_d] ''1:4094:3'' = [1, 4094, 3]"
    by (simp add: scan_num_def scan_sign_def skip_0x_def is_dig_def char_dig_def is_space_def digits_val_def)
  have "rdfs_client_search_metadata example_senv (example_master\<lparr>task_list := []\<rparr>) 1 4094 3 \<noteq> None"
    by (simp add: rdfs_client_search_metadata_def rdfs_iget_def mem_eval grow_file_def pages_to_alloc_def s_blocksize_def
        set_inode_def example_walk example_master_search block_record_def example_lengths MAX_MESSAGE_LENGTH_def Let_def)
  then obtain r ans s1 where "rdfs_client_search_metadata example_senv (example_master\<lparr>task_list := []\<rparr>) 1 4094 3 = Some (r, ans, s1)"
    by auto
  then have "\<exists>s'. rdfs_client_read example_senv (example_master\<lparr>task_list := []\<rparr>) example_task = Some s'"
    by (cases ans) (auto simp: rdfs_client_read_def data c_str_sprintf_to scan asg_def Let_def simp del: sscanf.simps)
  moreover have "msg_type (t_message example_task) = REQ_READ" by (simp add: example_task_def)
  moreover have "task_list example_master = [example_task]" by (simp add: example_master_def fio.defs)
  ultimately show ?thesis by (simp add: rdfs_process_task_def rdfs_remove_task_def REQ_READ_def CLIENT_SERACH_SLAVE_INFO_def)
qed

definition example_client_env :: client_env where
  "example_client_env = net.extend lan \<lparr>new_socket = \<lambda>_ _. 3, connects = \<lambda>_. True,
     hca_ctx = qp_info.extend (qp_info.truncate some_master) \<lparr>slave_block_nums = 0, rdma_buffer = 0\<rparr>, rand_value = 0, stack = []\<rparr>"

theorem client_io_overruns_witness:
  "\<exists>s' q m. rdfs_process_task example_senv example_master = Some s' \<and> outq (conn s' (t_sock example_task)) = q @ m \<and>
    (\<forall>st. inq (socks st (master_kernel_sock_fd st)) = m \<longrightarrow> rdfs_io example_client_env st 4 3 4094 = None)"
proof -
  obtain s' where s': "rdfs_process_task example_senv example_master = Some s'" using example_master_round by blast
  have 1: "takes_all (s_net example_senv)" by (simp add: mem_eval takes_all_def lan_def)
  have 2: "task_list example_master = example_task # []" by (simp add: example_master_def fio.defs)
  have 3: "msg_type (t_message example_task) \<in> {REQ_READ, REQ_WRITE}" by (simp add: example_task_def)
  have 4: "length (t_message example_task) = MASTER_MESSAGE_SIZE"
    by (simp add: example_task_def msg_def length_sprintf_to consts_eval)
  have 5: "net.truncate example_client_env = lan" by (simp add: example_client_env_def net.defs lan_def)
  from client_io_overruns [OF 1 2 3 4 s' 5] s' show ?thesis by blast
qed

end
