(* ===== verification/Slave_Node.thy ===== *)
theory Slave_Node
  imports Client Rdma
begin

text \<open>
  The slave (\<open>rdfs_slave/memory.c\<close>, \<open>rdfs.c\<close>, \<open>main.c\<close>): it maps its memory once, registers with the master and then waits for clients. Each
  connection gets a context of its own.

  The kernel's answers (allocations, mappings, sockets, threads) are parameters. The handlers of \<open>event.c\<close> only print.
\<close>

section \<open>Memory\<close>

definition SLAVE_MAPPING_PHY_ADDR :: u64 where [consts_eval]: "SLAVE_MAPPING_PHY_ADDR = 0x200000000"
definition SLAVE_MAPPING_PHY_SIZE :: u64 where [consts_eval]: "SLAVE_MAPPING_PHY_SIZE = 0x100000000"

text \<open>The static variables \<open>map_flag\<close>, \<open>map_block_nums\<close> (an \<open>int\<close>) and \<open>map_dma_addr\<close>.\<close>

record slave_state =
  map_flag :: bool
  map_block_nums :: u32
  map_dma_addr :: u64

record slave_env =
  s_hca :: hca
  request_region :: bool
  ioremap_result :: u64
  dma_map_single :: "u64 \<Rightarrow> u64 \<Rightarrow> u64"
  s_junk :: slave_rdfs_context
  s_edges :: string
  slave_net :: net

definition slave_mapping_address :: "slave_env \<Rightarrow> u64 \<Rightarrow> u64 \<Rightarrow> u64" where
  "slave_mapping_address e vir_addr len =
     (let dma_addr = dma_map_single e vir_addr len in if dma_addr < SLAVE_MAPPING_PHY_ADDR then 0 else dma_addr)"

definition slave_ioremap :: "slave_env \<Rightarrow> u64" where
  "slave_ioremap e = (if \<not> request_region e then 0 else ioremap_result e)"

text \<open>The address that is mapped for DMA is \<open>__va\<close> of the physical address, here the physical address itself.\<close>

definition rdfs_map_mem :: "slave_env \<Rightarrow> slave_state \<Rightarrow> slave_rdfs_context \<Rightarrow> int \<times> slave_rdfs_context \<times> slave_state" where
  "rdfs_map_mem e st c =
     (if map_flag st then (0, c\<lparr>block_nums := scast (map_block_nums st), dma_addr := map_dma_addr st\<rparr>, st)
      else
        let c1 = c\<lparr>block_nums := SLAVE_MAPPING_PHY_SIZE div 4096\<rparr>
        in if slave_ioremap e = 0 then (- 1, c1, st)
           else let dma = slave_mapping_address e SLAVE_MAPPING_PHY_ADDR SLAVE_MAPPING_PHY_SIZE
                in if dma = 0 then (- 1, c1, st)
                   else (0, c1\<lparr>dma_addr := dma\<rparr>,
                     \<lparr>map_flag = True, map_block_nums = ucast (block_nums c1), map_dma_addr = dma\<rparr>))"

section \<open>Contexts\<close>

text \<open>What a call leaves: the context or a null pointer, the objects of the InfiniBand stack that stay allocated, the calls of
  \<open>ib_modify_qp\<close>, the socket and the state.\<close>

type_synonym slave_result =
  "slave_rdfs_context option \<times> resource list \<times> (qp_attr \<times> qp_flag list) list \<times> sock \<times> slave_state"

definition make_context :: "slave_env \<Rightarrow> slave_rdfs_context \<Rightarrow> slave_rdfs_context" where
  "make_context e c = c\<lparr>rkey := mr_rkey (s_hca e), lid := port_lid (s_hca e), qpn := qp_num (s_hca e),
     psn := random_bytes (s_hca e) AND 0xffffff, active_mtu := port_mtu (s_hca e)\<rparr>"

definition slave_init_context :: "slave_env \<Rightarrow> slave_state \<Rightarrow> sock \<Rightarrow> slave_result" where
  "slave_init_context e st s =
     (let h = s_hca e; queues = filter (creates h) [R_send_cq, R_recv_cq]
      in if \<not> creates h R_ctx then (None, [], [], s, st)
         else if \<not> creates h R_pd then (None, [], [], s, st)
         else if \<not> creates h R_mr then (None, [R_pd], [], s, st)
         else case rdfs_map_mem e st (s_junk e) of (r, c, st1) \<Rightarrow>
           if r \<noteq> 0 then (None, [R_pd, R_mr], [], s, st1)
           else if length queues < 2 then (None, [R_pd, R_mr] @ queues, [], s, st1)
           else if \<not> creates h R_qp then (None, [R_pd, R_mr] @ queues, [], s, st1)
           else case rdfs_client_handshake (slave_net e) s (make_context e c) (s_edges e) of (r2, c2, s2) \<Rightarrow>
             if r2 \<noteq> 0 then (None, [R_pd, R_mr] @ queues @ [R_qp], [], s2, st1)
             else (Some c2, [R_ctx, R_pd, R_mr] @ queues @ [R_qp], rdfs_modify_qp c2, s2, st1))"

section \<open>Registration and connections of clients\<close>

text \<open>\<open>rdfs_register\<close>: the results of \<open>sock_create_kern\<close> and \<open>kernel_connect\<close>, then the context.\<close>

definition rdfs_register :: "slave_env \<Rightarrow> bool \<Rightarrow> int \<Rightarrow> int \<Rightarrow> slave_state \<Rightarrow> sock \<Rightarrow> int \<times> sock \<times> slave_state" where
  "rdfs_register e null_info sock_ret connect_ret st s =
     (if null_info then (- 1, s, st) else if sock_ret \<noteq> 0 then (- 1, s, st) else if connect_ret \<noteq> 0 then (- 1, s, st)
      else case slave_init_context e st s of
        (None, _, _, s1, st1) \<Rightarrow> (- 1, s1, st1)
      | (Some _, _, _, s1, st1) \<Rightarrow> (0, s1, st1))"

text \<open>The thread that waits for clients: the setup, and one round of the loop with the result of \<open>kernel_accept\<close>. After the handshake
  in \<open>rdfs_init_context\<close> comes a second one with the roles exchanged.\<close>

definition wait_setup :: "bool \<Rightarrow> int \<Rightarrow> int \<Rightarrow> int \<Rightarrow> int option" where
  "wait_setup should_stop sock_ret bind_ret listen_ret =
     (if should_stop \<or> sock_ret \<noteq> 0 \<or> bind_ret \<noteq> 0 \<or> listen_ret \<noteq> 0 then Some (- 1) else None)"

definition rdfs_wait_register :: "slave_env \<Rightarrow> int \<Rightarrow> slave_state \<Rightarrow> sock \<Rightarrow>
    slave_rdfs_context option \<times> (qp_attr \<times> qp_flag list) list \<times> sock \<times> slave_state" where
  "rdfs_wait_register e accept_ret st s =
     (if accept_ret \<noteq> 0 then (None, [], s, st)
      else case slave_init_context e st s of
        (None, _, _, s1, st1) \<Rightarrow> (None, [], s1, st1)
      | (Some c, _, calls, s1, st1) \<Rightarrow>
          (case rdfs_server_handshake (slave_net e) s1 c (s_edges e) of (r, c2, s2) \<Rightarrow>
             if r \<noteq> 0 then (Some c2, calls, s2, st1) else (Some c2, calls @ rdfs_modify_qp c2, s2, st1)))"

text \<open>\<open>rdfs_add_device\<close>: register, then start the thread; the result of \<open>kthread_run\<close> decides.\<close>

definition rdfs_init_register_service :: "bool \<Rightarrow> int" where
  "rdfs_init_register_service thread_is_err = (if thread_is_err then - 1 else 0)"

definition slave_add_device :: "slave_env \<Rightarrow> int \<Rightarrow> int \<Rightarrow> bool \<Rightarrow> slave_state \<Rightarrow> sock \<Rightarrow> bool \<times> sock \<times> slave_state" where
  "slave_add_device e sock_ret connect_ret thread_is_err st s =
     (case rdfs_register e False sock_ret connect_ret st s of (r, s1, st1) \<Rightarrow>
        (r = 0 \<and> rdfs_init_register_service thread_is_err = 0, s1, st1))"

text \<open>\<open>struct rdma_request\<close> and its constructor.\<close>

datatype rdma_op = RDMA_READ | RDMA_WRITE

record rdma_request =
  rw :: rdma_op
  local_dma_addr :: u64
  remote_dma_addr :: u64
  req_size :: u32

definition rdfs_init_rdma_request :: "rdma_request option \<Rightarrow> rdma_op \<Rightarrow> u64 \<Rightarrow> u64 \<Rightarrow> u32 \<Rightarrow> int \<times> rdma_request option" where
  "rdfs_init_rdma_request req op local_addr remote_addr len =
     (case req of None \<Rightarrow> (- 1, None)
      | Some _ \<Rightarrow> (0, Some \<lparr>rw = op, local_dma_addr = local_addr, remote_dma_addr = remote_addr, req_size = len\<rparr>))"

section \<open>Mapping once\<close>

lemma map_mem_again:
  assumes "rdfs_map_mem e st c = (0, c1, st1)" "\<not> map_flag st"
  shows "rdfs_map_mem e' st1 c' = (0, c'\<lparr>block_nums := block_nums c1, dma_addr := dma_addr c1\<rparr>, st1)"
  using assms by (auto simp: rdfs_map_mem_def Let_def consts_eval split: if_splits)


section \<open>A client and a slave\<close>

lemma sscanf_empty: "sscanf cvs [] = []"
  by (cases cvs) (simp_all add: scan_num_def scan_sign_def skip_0x_def)

lemma asg_nil [simp]: "asg [] i w = w"
  by (simp add: asg_def)

lemma set_nothing: "set_rem [] c = c" "set_own [] c' = c'"
  by (simp_all add: set_rem_def set_own_def)

lemma c_str_zeros: "0 < n \<Longrightarrow> c_str (zeros n @ r) = []"
  by (cases n) (simp_all add: c_str_def zeros_def)

lemma lan_recv: "recv_data lan s (Some buf) n =
    (int (min n (length (inq s))), Some (take n (inq s) @ drop (min n (length (inq s))) buf), s\<lparr>inq := drop (min n (length (inq s))) (inq s)\<rparr>)"
  by (simp add: recv_data_def lan_def Let_def min_def)

lemma lan_send: "send_data lan s (Some buf) = (int (length buf), s\<lparr>outq := outq s @ buf\<rparr>)"
  by (simp add: send_data_def lan_def)

text \<open>What a client sends to introduce itself.\<close>

definition hello :: "client_env \<Rightarrow> string" where
  "hello e = msg CLIENT_CTX_INFO_TO_SLAVE (zeros CLIENT_MESSAGE_LENGTH) (drop 4 (edges e))"

lemma hello_text: "c_str (msg_data CLIENT_MESSAGE_LENGTH (hello e)) = []"
  using c_str_zeros [of CLIENT_MESSAGE_LENGTH "[]"] by (simp add: hello_def consts_eval)

lemma slave_hears_nothing:
  assumes "inq s = hello e"
  shows "\<exists>r s'. slave_sock_get_info lan s c junk = (r, c, s') \<and> 0 < r"
proof -
  let ?buf = "fresh_message MAX_MESSAGE_LENGTH junk" and ?n = "MAX_MESSAGE_LENGTH + 4"
  let ?im = "take ?n (hello e) @ drop (min ?n (length (hello e))) ?buf"
  have len: "1028 \<le> length (hello e)" by (simp add: hello_def msg_def consts_eval)
  have "take ?n (hello e) = le4 CLIENT_CTX_INFO_TO_SLAVE @ zeros 1024 @ take (?n - 1028) (drop 4 (edges e))"
    by (simp add: hello_def msg_def consts_eval)
  then have "c_str (msg_data MAX_MESSAGE_LENGTH ?im) = []"
    using c_str_zeros [of 1024] by (simp add: msg_data_def take_append consts_eval)
  then show ?thesis
    using len by (simp add: slave_sock_get_info_def lan_recv assms sscanf_empty set_nothing)
      (auto simp: consts_eval min_def)
qed

lemma client_hears_nothing:
  assumes "net.truncate e = lan" "inq (socks st fd) = outq (snd (slave_sock_send_info lan no_traffic cs))"
  shows "\<exists>r st'. client_recv_message (Suc n) e st fd p = Some (r, SLAVE_CTX_TO_MASTER_INFO, st') \<and>
     slave_ctx st' = slave_ctx st \<and> outq (socks st' fd) = outq (socks st fd)"
proof -
  let ?m = "msg SLAVE_CTX_TO_MASTER_INFO (sprintf_to (zeros MAX_MESSAGE_LENGTH) (colons (ctx_text cs @ [hex (unat (block_nums cs))]))) []"
  have m: "inq (socks st fd) = ?m" using assms(2) by (simp add: slave_sock_send_info_def lan_send)
  have "take client_message_size ?m = le4 SLAVE_CTX_TO_MASTER_INFO @ take 1028 (drop 4 ?m)"
    by (simp add: msg_def client_message_size_def)
  then have ty: "msg_type (take client_message_size ?m @ r) = SLAVE_CTX_TO_MASTER_INFO" for r
    by (simp add: msg_type_def)
  show ?thesis
    using assms(1) by (simp add: client_recv_def lan_recv m ty Let_def) (simp add: consts_eval)
qed

text \<open>C36. A client and a slave that exchange their parameters learn nothing of each other, and neither notices. The client reads (\<open>sscanf\<close>)
  its parameters from the empty message instead of printing them into it, so the slave's handshake succeeds and leaves its context
  as it was; the slave's message has the type for the master, 200, where the client waits for type 6, so the client ignores it and
  connects its queue pair with remote parameters it never got.\<close>

theorem client_slave_exchange_nothing:
  assumes "net.truncate e = lan" "unat s_id < MAX_SLAVE_NUMS" "rdfs_connect e ip port = fd"
    and "inq (socks st fd) = outq (snd (slave_sock_send_info lan no_traffic cs))" "outq (socks st fd) = []"
  shows "\<exists>st' s'. rdfs_init_slave_connect (Suc (Suc fuel)) e st s_id ip port = Some st' \<and>
    slave_ctx st' (unat s_id) = Some (client_init_context e) \<and>
    rdfs_client_handshake lan \<lparr>inq = outq (socks st' fd), outq = []\<rparr> cs junk = (0, cs, s')"
proof -
  let ?i = "unat s_id"
  let ?st = "st\<lparr>slave_ctx := (slave_ctx st)(?i \<mapsto> client_init_context e)\<rparr>"
  let ?st1 = "?st\<lparr>socks := (socks st)(fd := (socks st fd)\<lparr>outq := hello e\<rparr>)\<rparr>"
  have same: "(slave_ctx ?st)(?i \<mapsto> set_own [] (client_init_context e)) = slave_ctx ?st" by (simp add: set_nothing)
  have sent: "client_send_message e ?st fd (Some ?i) CLIENT_CTX_INFO_TO_SLAVE = Some (int (length (hello e)), ?st1)"
    using assms(1,5) hello_text [of e] same
    by (simp add: client_send_message_def client_send_def lan_send sscanf_empty set_nothing hello_def Let_def)
  obtain r st' where recv: "client_recv_message (Suc fuel) e ?st1 fd (Some ?i) = Some (r, SLAVE_CTX_TO_MASTER_INFO, st')"
      "slave_ctx st' = slave_ctx ?st1" "outq (socks st' fd) = hello e"
    using client_hears_nothing [OF assms(1), of ?st1 fd cs fuel "Some ?i"] assms(4) by auto
  have "rdfs_init_slave_connect (Suc (Suc fuel)) e st s_id ip port = Some st'"
    using assms(2,3) sent recv(1) by (simp add: Let_def del: client_recv_message.simps)
  moreover obtain r2 s2 where "slave_sock_get_info lan (snd (slave_sock_send_info lan \<lparr>inq = hello e, outq = []\<rparr> cs)) cs junk = (r2, cs, s2)"
      "0 < r2"
    using slave_hears_nothing [of "snd (slave_sock_send_info lan \<lparr>inq = hello e, outq = []\<rparr> cs)" e cs junk]
    by (auto simp: slave_sock_send_info_def lan_send)
  ultimately show ?thesis
    using recv(2,3) by (auto simp: rdfs_client_handshake_def slave_sock_send_info_def lan_send msg_def)
qed

theorem client_slave_exchange_nothing_witness:
  "\<exists>e st st' s'. rdfs_init_slave_connect 2 e st 0 0x0300a8c0 18518 = Some st' \<and> rem_qpn some_slave = 0 \<and>
     slave_ctx st' 0 = Some (client_init_context e) \<and>
     rdfs_client_handshake lan \<lparr>inq = outq (socks st' 3), outq = []\<rparr> some_slave (zeros 4) = (0, some_slave, s')"
proof -
  define e where "e = net.extend lan \<lparr>new_socket = \<lambda>_ _. 3, connects = \<lambda>_. True,
     hca_ctx = qp_info.extend (qp_info.truncate some_master) \<lparr>slave_block_nums = 0, rdma_buffer = 0\<rparr>, rand_value = 0, stack = []\<rparr>"
  define st where "st = \<lparr>slave_ctx = (\<lambda>_. None), file_map = (\<lambda>_. None), master_kernel_sock_fd = 0, master_userspace_sock_fd = 0,
     socks = (\<lambda>_. \<lparr>inq = outq (snd (slave_sock_send_info lan no_traffic some_slave)), outq = []\<rparr>)\<rparr>"
  have "net.truncate e = lan" "rdfs_connect e 0x0300a8c0 18518 = 3" by (simp_all add: e_def net.defs lan_def rdfs_connect_def)
  moreover have "unat (0 :: u32) < MAX_SLAVE_NUMS" "rem_qpn some_slave = 0" by (simp_all add: consts_eval some_slave_def)
  moreover have "inq (socks st 3) = outq (snd (slave_sock_send_info lan no_traffic some_slave))" "outq (socks st 3) = []"
    by (simp_all add: st_def)
  ultimately show ?thesis
    using client_slave_exchange_nothing [of e 0 "0x0300a8c0" 18518 3 st some_slave 0 "zeros 4"]
    by (metis numeral_2_eq_2 unsigned_0)
qed

end
