(* ===== verification/Server.thy ===== *)
theory Server
  imports Client
begin

text \<open>
  The user-space server (\<open>rdfs_server/event.c\<close>, \<open>rdfs_server.c\<close>, \<open>main.c\<close>): it opens and closes files for clients. One thread waits in
  \<open>epoll_wait\<close> and calls, for each event, the function that the slot of the event names: accepting a connection, receiving a
  request, sending an answer.

  The state is the table of slots, the interest list of the epoll instance (by descriptor: slot and events), the sockets, and the
  history of the calls of \<open>open\<close> and \<open>close\<close>. Where the code leaves its memory the step is a fault.
\<close>

section \<open>State\<close>

datatype callback = Cb_none | Rdfs_accept_connection | Rdfs_recv_data | Rdfs_send_data

definition EPOLLIN :: u32 where [consts_eval]: "EPOLLIN = 1"
definition EPOLLOUT :: u32 where [consts_eval]: "EPOLLOUT = 4"
definition MAX_EPOLL_EVENTS :: nat where [consts_eval]: "MAX_EPOLL_EVENTS = 10"
definition NETWORK_BUFF_LENGTH :: nat where [consts_eval]: "NETWORK_BUFF_LENGTH = 1024"
definition server_message_size :: nat where [consts_eval]: "server_message_size = 1028"

text \<open>\<open>struct rdfs_event\<close>. The field \<open>arg\<close> always names the slot itself.\<close>

record rdfs_event =
  fd :: int
  call_back :: callback
  events :: u32
  status :: int
  m_type :: u32
  m_data :: string

datatype file_call = Open_call string u32 u32 | Close_call u32

text \<open>A slot behind the table, a text without its end in the buffer of a message, a call through a null pointer.\<close>

datatype fault = Table_full | Text_unterminated | Null_callback

record server =
  g_events :: "rdfs_event list"
  interest :: "int \<Rightarrow> (nat \<times> u32) option"
  peers :: "int \<Rightarrow> sock"
  calls :: "file_call list"

text \<open>What the system answers: \<open>accept\<close>, the network, \<open>open\<close> and \<open>close\<close>, and what uninitialised variables hold.\<close>

record server_env =
  accept_result :: int
  sv_net :: net
  open_result :: "string \<Rightarrow> u32 \<Rightarrow> u32 \<Rightarrow> u32"
  close_result :: "u32 \<Rightarrow> u32"
  junk_int :: u32
  junk_path :: string

section \<open>Slots and the interest list\<close>

definition slot :: "server \<Rightarrow> nat \<Rightarrow> rdfs_event" where
  "slot sv i = g_events sv ! i"

definition set_slot :: "server \<Rightarrow> nat \<Rightarrow> rdfs_event \<Rightarrow> server" where
  "set_slot sv i ev = sv\<lparr>g_events := (g_events sv)[i := ev]\<rparr>"

text \<open>\<open>arg\<close> is only tested for a null pointer, which clears the message.\<close>

definition rdfs_event_set :: "server \<Rightarrow> nat \<Rightarrow> int \<Rightarrow> callback \<Rightarrow> bool \<Rightarrow> server" where
  "rdfs_event_set sv i d cb null_arg =
     (let ev = (slot sv i)\<lparr>fd := d, call_back := cb, events := 0, status := 0\<rparr>
      in set_slot sv i (if null_arg then ev\<lparr>m_data := zeros (length (m_data ev)), m_type := - 1\<rparr> else ev))"

text \<open>\<open>EPOLL_CTL_ADD\<close> fails for a descriptor that is in the list, \<open>EPOLL_CTL_MOD\<close> for one that is not.\<close>

definition rdfs_event_add :: "server \<Rightarrow> nat \<Rightarrow> u32 \<Rightarrow> server" where
  "rdfs_event_add sv i evs =
     (let ev = (slot sv i)\<lparr>events := evs\<rparr>; d = fd ev
      in if status ev = 1
         then (set_slot sv i ev)\<lparr>interest := (if interest sv d = None then interest sv else (interest sv)(d \<mapsto> (i, evs)))\<rparr>
         else (set_slot sv i (ev\<lparr>status := 1\<rparr>))
           \<lparr>interest := (if interest sv d = None then (interest sv)(d \<mapsto> (i, evs)) else interest sv)\<rparr>)"

definition rdfs_event_del :: "server \<Rightarrow> nat \<Rightarrow> server" where
  "rdfs_event_del sv i =
     (if status (slot sv i) \<noteq> 1 then sv
      else (set_slot sv i ((slot sv i)\<lparr>status := 0\<rparr>))\<lparr>interest := (interest sv)(fd (slot sv i) := None)\<rparr>)"

text \<open>Closing a descriptor takes it from the interest list.\<close>

definition close_fd :: "server \<Rightarrow> int \<Rightarrow> server" where
  "close_fd sv d = sv\<lparr>interest := (interest sv)(d := None)\<rparr>"

section \<open>Requests\<close>

text \<open>The server's own enumeration of the requests.\<close>

definition SERVER_CLIENT_OPEN :: u32 where [consts_eval]: "SERVER_CLIENT_OPEN = 0"
definition SERVER_CLIENT_CLOSE :: u32 where [consts_eval]: "SERVER_CLIENT_CLOSE = 1"

text \<open>\<open>sprintf\<close> into the message of the slot, and whether its text has an end there.\<close>

definition answer :: "server \<Rightarrow> nat \<Rightarrow> string \<Rightarrow> server" where
  "answer sv i t = set_slot sv i ((slot sv i)\<lparr>m_data := sprintf_to (m_data (slot sv i)) t\<rparr>)"

definition terminated :: "string \<Rightarrow> bool" where
  "terminated buf \<longleftrightarrow> length (c_str buf) < length buf"

definition server_client_open :: "server_env \<Rightarrow> server \<Rightarrow> nat \<Rightarrow> fault + server" where
  "server_client_open e sv i =
     (let data = m_data (slot sv i);
          (vs, rest) = scan_rest [conv_d, conv_d] (c_str data);
          word = (case rest of None \<Rightarrow> [] | Some t \<Rightarrow> scan_word t);
          filename = (if word = [] then junk_path e else word);
          flag = asg vs 0 (junk_int e); mode = asg vs 1 (junk_int e)
      in if \<not> terminated data then Inl Text_unterminated
         else Inr (answer (sv\<lparr>calls := Open_call filename flag mode # calls sv\<rparr>) i (sdec (sint (open_result e filename flag mode)))))"

text \<open>The descriptor to close is the client's: nothing says that it is one of a file.\<close>

definition server_client_close :: "server_env \<Rightarrow> server \<Rightarrow> nat \<Rightarrow> fault + server" where
  "server_client_close e sv i =
     (let data = m_data (slot sv i); open_fd = asg (sscanf [conv_d] (c_str data)) 0 0
      in if \<not> terminated data then Inl Text_unterminated
         else Inr (answer ((close_fd sv (sint open_fd))\<lparr>calls := Close_call open_fd # calls sv\<rparr>) i (sdec (sint (close_result e open_fd)))))"

definition server_process_request :: "server_env \<Rightarrow> server \<Rightarrow> nat \<Rightarrow> fault + server" where
  "server_process_request e sv i =
     (if m_type (slot sv i) = SERVER_CLIENT_OPEN then server_client_open e sv i
      else if m_type (slot sv i) = SERVER_CLIENT_CLOSE then server_client_close e sv i
      else Inr sv)"

section \<open>The functions of the slots\<close>

text \<open>The first slot that is not in use. When there is none, the code says so and goes on with the slot behind the table.\<close>

definition free_slot :: "server \<Rightarrow> nat" where
  "free_slot sv = length (takeWhile (\<lambda>ev. status ev \<noteq> 0) (take MAX_EPOLL_EVENTS (g_events sv)))"

definition rdfs_accept_connection :: "server_env \<Rightarrow> server \<Rightarrow> fault + server" where
  "rdfs_accept_connection e sv =
     (let nfd = accept_result e; i = free_slot sv
      in if nfd = - 1 then Inr sv
         else if i = MAX_EPOLL_EVENTS then Inl Table_full
         else Inr (rdfs_event_add (rdfs_event_set sv i nfd Rdfs_recv_data True) i EPOLLIN))"

definition rdfs_recv_data :: "server_env \<Rightarrow> server \<Rightarrow> int \<Rightarrow> nat \<Rightarrow> fault + server" where
  "rdfs_recv_data e sv d i =
     (let ev = slot sv i;
          (len, im, sock) = recv_data (sv_net e) (peers sv d) (Some (msg (m_type ev) (m_data ev) [])) server_message_size;
          ev1 = ev\<lparr>m_type := msg_type (the im), m_data := msg_data NETWORK_BUFF_LENGTH (the im)\<rparr>;
          sv1 = rdfs_event_del ((set_slot sv i ev1)\<lparr>peers := (peers sv)(d := sock)\<rparr>) i
      in if len = int server_message_size then
           (case server_process_request e sv1 i of Inl f \<Rightarrow> Inl f
            | Inr sv2 \<Rightarrow> Inr (rdfs_event_add (rdfs_event_set sv2 i d Rdfs_send_data False) i EPOLLOUT))
         else if 0 < len then Inr (rdfs_event_add (rdfs_event_set sv1 i d Rdfs_recv_data True) i EPOLLIN)
         else Inr (close_fd sv1 (fd (slot sv1 i))))"

definition rdfs_send_data :: "server_env \<Rightarrow> server \<Rightarrow> int \<Rightarrow> nat \<Rightarrow> server" where
  "rdfs_send_data e sv d i =
     (let ev = slot sv i;
          (len, sock) = send_data (sv_net e) (peers sv d) (Some (msg 0 (m_data ev) []));
          sv1 = (set_slot sv i (ev\<lparr>m_type := - 1, m_data := zeros (length (m_data ev))\<rparr>))\<lparr>peers := (peers sv)(d := sock)\<rparr>
      in if 0 < len then rdfs_event_add (rdfs_event_set (rdfs_event_del sv1 i) i d Rdfs_recv_data True) i EPOLLIN
         else rdfs_event_del (close_fd sv1 (fd (slot sv1 i))) i)"

definition call_slot :: "server_env \<Rightarrow> server \<Rightarrow> nat \<Rightarrow> fault + server" where
  "call_slot e sv i =
     (case call_back (slot sv i) of
        Cb_none \<Rightarrow> Inl Null_callback
      | Rdfs_accept_connection \<Rightarrow> rdfs_accept_connection e sv
      | Rdfs_recv_data \<Rightarrow> rdfs_recv_data e sv (fd (slot sv i)) i
      | Rdfs_send_data \<Rightarrow> Inr (rdfs_send_data e sv (fd (slot sv i)) i))"

section \<open>The loop\<close>

text \<open>One event: the slot and what \<open>epoll_wait\<close> reports for it. The second test sees what the first call left.\<close>

definition ready :: "u32 \<Rightarrow> u32 \<Rightarrow> server \<Rightarrow> nat \<Rightarrow> bool" where
  "ready flag revents sv i \<longleftrightarrow> revents AND flag \<noteq> 0 \<and> events (slot sv i) AND flag \<noteq> 0"

definition dispatch :: "server_env \<Rightarrow> nat \<Rightarrow> u32 \<Rightarrow> server \<Rightarrow> fault + server" where
  "dispatch e i revents sv =
     (case (if ready EPOLLIN revents sv i then call_slot e sv i else Inr sv) of Inl f \<Rightarrow> Inl f
      | Inr sv1 \<Rightarrow> if ready EPOLLOUT revents sv1 i then call_slot e sv1 i else Inr sv1)"

fun serve_batch :: "server_env \<Rightarrow> (nat \<times> u32) list \<Rightarrow> server \<Rightarrow> fault + server" where
  "serve_batch e [] sv = Inr sv"
| "serve_batch e ((i, revents) # ps) sv =
     (case dispatch e i revents sv of Inl f \<Rightarrow> Inl f | Inr sv1 \<Rightarrow> serve_batch e ps sv1)"

definition zero_event :: rdfs_event where
  "zero_event = \<lparr>fd = 0, call_back = Cb_none, events = 0, status = 0, m_type = 0, m_data = zeros NETWORK_BUFF_LENGTH\<rparr>"

definition rdfs_init_listen_socket :: "int \<Rightarrow> server \<Rightarrow> server" where
  "rdfs_init_listen_socket listenFd sv =
     rdfs_event_add (rdfs_event_set sv (MAX_EPOLL_EVENTS - 1) listenFd Rdfs_accept_connection True) (MAX_EPOLL_EVENTS - 1) EPOLLIN"

text \<open>The result -1, or the state in which the loop starts.\<close>

definition rdfs_init_network :: "int \<Rightarrow> int \<Rightarrow> (int \<Rightarrow> sock) \<Rightarrow> int + server" where
  "rdfs_init_network epoll_fd listenFd ps =
     (if epoll_fd \<le> 0 then Inl (- 1)
      else Inr (rdfs_init_listen_socket listenFd
        \<lparr>g_events = replicate MAX_EPOLL_EVENTS zero_event, interest = (\<lambda>_. None), peers = ps, calls = []\<rparr>))"

text \<open>What \<open>epoll_wait\<close> can report, and the states in which the loop waits. The system answers as it likes, and differently in
  each round.\<close>

definition reported :: "server \<Rightarrow> (nat \<times> u32) list \<Rightarrow> bool" where
  "reported sv ps \<longleftrightarrow> (\<forall>(i, revents) \<in> set ps. \<exists>d evs. interest sv d = Some (i, evs))"

inductive server_reach :: "server \<Rightarrow> bool" where
  start: "rdfs_init_network epoll_fd listenFd ps = Inr sv \<Longrightarrow> server_reach sv"
| batch: "server_reach sv \<Longrightarrow> reported sv ps \<Longrightarrow> serve_batch e ps sv = Inr sv' \<Longrightarrow> server_reach sv'"

section \<open>Every slot keeps its type\<close>

text \<open>A slot in use waits for what its function handles: the last one accepts, the others receive or send.\<close>

definition slot_typed :: "nat \<Rightarrow> rdfs_event \<Rightarrow> bool" where
  "slot_typed i ev \<longleftrightarrow> length (m_data ev) = NETWORK_BUFF_LENGTH \<and> status ev \<in> {0, 1} \<and>
     (if i = MAX_EPOLL_EVENTS - 1 then status ev = 1 \<and> call_back ev = Rdfs_accept_connection \<and> events ev = EPOLLIN
      else (call_back ev, events ev) \<in> {(Rdfs_recv_data, EPOLLIN), (Rdfs_send_data, EPOLLOUT)} \<or> events ev = 0 \<and> status ev = 0)"

text \<open>The whole table, apart from a slot that is being worked on. What the interest list names is in use, with the descriptor and the
  events of the list.\<close>

definition named_ok :: "server \<Rightarrow> int \<Rightarrow> nat \<Rightarrow> u32 \<Rightarrow> bool" where
  "named_ok sv d i evs \<longleftrightarrow> i < MAX_EPOLL_EVENTS \<and> fd (slot sv i) = d \<and> status (slot sv i) = 1 \<and> events (slot sv i) = evs"

definition typed_but :: "nat set \<Rightarrow> server \<Rightarrow> bool" where
  "typed_but X sv \<longleftrightarrow> length (g_events sv) = MAX_EPOLL_EVENTS \<and>
     (\<forall>i < MAX_EPOLL_EVENTS. length (m_data (slot sv i)) = NETWORK_BUFF_LENGTH \<and> (i \<in> X \<or> slot_typed i (slot sv i))) \<and>
     (\<forall>d i evs. interest sv d = Some (i, evs) \<longrightarrow> i \<notin> X \<and> named_ok sv d i evs)"

abbreviation "table_typed \<equiv> typed_but {}"

lemma typed_butD:
  assumes "typed_but X sv"
  shows "length (g_events sv) = MAX_EPOLL_EVENTS"
    and "\<And>i. i < MAX_EPOLL_EVENTS \<Longrightarrow> length (m_data (slot sv i)) = NETWORK_BUFF_LENGTH"
    and "\<And>i. i < MAX_EPOLL_EVENTS \<Longrightarrow> i \<notin> X \<Longrightarrow> slot_typed i (slot sv i)"
    and "\<And>d i evs. interest sv d = Some (i, evs) \<Longrightarrow> i \<notin> X"
    and "\<And>d i evs. interest sv d = Some (i, evs) \<Longrightarrow> named_ok sv d i evs"
  using assms by (auto simp: typed_but_def)

lemma slot_typed_length: "slot_typed i ev \<Longrightarrow> length (m_data ev) = NETWORK_BUFF_LENGTH"
  by (simp add: slot_typed_def)

lemma slot_typed_data:
  "slot_typed i ev \<Longrightarrow> length b = NETWORK_BUFF_LENGTH \<Longrightarrow> slot_typed i (ev\<lparr>m_type := t, m_data := b\<rparr>)"
  by (auto simp: slot_typed_def)

lemma slot_set_slot:
  "length (g_events sv) = MAX_EPOLL_EVENTS \<Longrightarrow> i < MAX_EPOLL_EVENTS \<Longrightarrow>
    slot (set_slot sv i ev) j = (if j = i then ev else slot sv j)"
  by (auto simp: slot_def set_slot_def nth_list_update)

lemma set_slot_frame [simp]:
  "length (g_events (set_slot sv i ev)) = length (g_events sv)" "interest (set_slot sv i ev) = interest sv"
  "peers (set_slot sv i ev) = peers sv" "calls (set_slot sv i ev) = calls sv"
  by (simp_all add: set_slot_def)

lemma slot_frame [simp]:
  "slot (sv\<lparr>interest := m\<rparr>) i = slot sv i" "slot (sv\<lparr>peers := p\<rparr>) i = slot sv i" "slot (sv\<lparr>calls := c\<rparr>) i = slot sv i"
  by (simp_all add: slot_def)

lemma typed_but_frame [simp]:
  "typed_but X (sv\<lparr>peers := p\<rparr>) = typed_but X sv" "typed_but X (sv\<lparr>calls := c\<rparr>) = typed_but X sv"
  by (simp_all add: typed_but_def named_ok_def)

lemma close_fd_typed: "typed_but X sv \<Longrightarrow> typed_but X (close_fd sv d)"
  by (simp add: typed_but_def named_ok_def close_fd_def)

text \<open>While a slot is worked on, it may be changed at will.\<close>

lemma set_slot_worked:
  assumes "typed_but {i} sv" "i < MAX_EPOLL_EVENTS" "length (m_data ev) = NETWORK_BUFF_LENGTH"
  shows "typed_but {i} (set_slot sv i ev)"
  unfolding typed_but_def
proof (intro conjI allI impI)
  note sl = slot_set_slot [OF typed_butD(1) [OF assms(1)] assms(2)]
  show "length (g_events (set_slot sv i ev)) = MAX_EPOLL_EVENTS" using typed_butD(1) [OF assms(1)] by simp
  show "length (m_data (slot (set_slot sv i ev) j)) = NETWORK_BUFF_LENGTH" if "j < MAX_EPOLL_EVENTS" for j
    using typed_butD(2) [OF assms(1) that] assms(3) by (simp add: sl)
  show "j \<in> {i} \<or> slot_typed j (slot (set_slot sv i ev) j)" if "j < MAX_EPOLL_EVENTS" for j
    using typed_butD(3) [OF assms(1) that] by (simp add: sl)
  fix d j evs
  assume n: "interest (set_slot sv i ev) d = Some (j, evs)"
  then show "j \<notin> {i}" using typed_butD(4) [OF assms(1)] by simp
  with n typed_butD(5) [OF assms(1), of d j evs] show "named_ok (set_slot sv i ev) d j evs" by (simp add: sl named_ok_def)
qed

text \<open>Entering a slot with the event of its function makes the table whole again.\<close>

lemma event_add_typed:
  assumes "typed_but {i} sv" "i < MAX_EPOLL_EVENTS" "slot_typed i ((slot sv i)\<lparr>events := evs, status := 1\<rparr>)" "status (slot sv i) = 0"
  shows "table_typed (rdfs_event_add sv i evs)"
proof -
  define ev where "ev = (slot sv i)\<lparr>events := evs, status := 1\<rparr>"
  define sv1 where "sv1 = set_slot sv i ev"
  define m where "m = (if interest sv (fd ev) = None then (interest sv)(fd ev \<mapsto> (i, evs)) else interest sv)"
  have add: "rdfs_event_add sv i evs = sv1\<lparr>interest := m\<rparr>"
    using assms(4) by (simp add: rdfs_event_add_def Let_def sv1_def ev_def m_def set_slot_def)
  have w: "typed_but {i} sv1"
    unfolding sv1_def by (rule set_slot_worked [OF assms(1,2)]) (simp add: ev_def typed_butD(2) [OF assms(1,2)])
  have i: "slot sv1 i = ev" by (simp add: sv1_def slot_set_slot [OF typed_butD(1) [OF assms(1)] assms(2)])
  have n: "named_ok sv1 d j es" if "m d = Some (j, es)" for d j es
  proof (cases "interest sv1 d = Some (j, es)")
    case True
    with typed_butD(5) [OF w] show ?thesis by blast
  next
    case False
    then have "d = fd ev \<and> j = i \<and> es = evs" using that by (simp add: m_def sv1_def split: if_splits)
    with i assms(2) show ?thesis by (simp add: named_ok_def ev_def)
  qed
  have t: "slot_typed j (slot sv1 j)" if "j < MAX_EPOLL_EVENTS" for j
    using typed_butD(3) [OF w that] i assms(3) by (cases "j = i") (simp_all add: ev_def)
  show ?thesis
    unfolding add typed_but_def
    using n t typed_butD(1,2) [OF w] by (simp add: named_ok_def)
qed

lemma enter_typed:
  assumes "typed_but {i} sv" "i < MAX_EPOLL_EVENTS - 1"
    and "(cb, evs) \<in> {(Rdfs_recv_data, EPOLLIN), (Rdfs_send_data, EPOLLOUT)}"
  shows "table_typed (rdfs_event_add (rdfs_event_set sv i d cb c) i evs)"
proof -
  have i: "i < MAX_EPOLL_EVENTS" using assms(2) by simp
  note sl = slot_set_slot [OF typed_butD(1) [OF assms(1)] i]
  have "typed_but {i} (rdfs_event_set sv i d cb c)"
    unfolding rdfs_event_set_def Let_def
    by (rule set_slot_worked [OF assms(1) i]) (simp add: typed_butD(2) [OF assms(1) i])
  then show ?thesis
    using i assms(2,3) typed_butD(2) [OF assms(1) i]
    by (intro event_add_typed) (auto simp: rdfs_event_set_def Let_def sl slot_typed_def)
qed

text \<open>A change of a slot that keeps its descriptor, its function and its events, and a slot that leaves the interest list.\<close>

lemma set_slot_typed:
  assumes "table_typed sv" "i < MAX_EPOLL_EVENTS" "slot_typed i ev"
    and "status (slot sv i) = 1 \<Longrightarrow> fd ev = fd (slot sv i) \<and> events ev = events (slot sv i) \<and> status ev = 1"
  shows "table_typed (set_slot sv i ev)"
proof -
  note sl = slot_set_slot [OF typed_butD(1) [OF assms(1)] assms(2)]
  have n: "named_ok (set_slot sv i ev) d j evs" if "interest sv d = Some (j, evs)" for d j evs
    using typed_butD(5) [OF assms(1) that] assms(4) by (auto simp: named_ok_def sl)
  show ?thesis
    unfolding typed_but_def using n assms(3) typed_butD(1-3) [OF assms(1)] by (simp add: sl slot_typed_length)
qed

lemma event_del_typed:
  assumes "table_typed sv" "i < MAX_EPOLL_EVENTS - 1"
  shows "table_typed (rdfs_event_del sv i)" "typed_but {i} (rdfs_event_del sv i)"
proof -
  have i: "i < MAX_EPOLL_EVENTS" using assms(2) by simp
  note sl = slot_set_slot [OF typed_butD(1) [OF assms(1)] i]
  have n: "j \<noteq> i \<and> named_ok (rdfs_event_del sv i) d j evs" if "interest (rdfs_event_del sv i) d = Some (j, evs)" for d j evs
  proof -
    have "interest sv d = Some (j, evs)" "status (slot sv i) = 1 \<Longrightarrow> d \<noteq> fd (slot sv i)"
      using that by (auto simp: rdfs_event_del_def split: if_splits)
    with typed_butD(5) [OF assms(1), of d j evs] show ?thesis by (auto simp: named_ok_def rdfs_event_del_def sl)
  qed
  have t: "slot_typed j (slot (rdfs_event_del sv i) j)" if "j < MAX_EPOLL_EVENTS" for j
    using typed_butD(3) [OF assms(1) that] assms(2) by (auto simp: rdfs_event_del_def sl slot_typed_def)
  have l: "length (g_events (rdfs_event_del sv i)) = MAX_EPOLL_EVENTS"
    using typed_butD(1) [OF assms(1)] by (simp add: rdfs_event_del_def)
  show "table_typed (rdfs_event_del sv i)" "typed_but {i} (rdfs_event_del sv i)"
    unfolding typed_but_def using n t slot_typed_length [OF t] l by simp_all
qed

text \<open>An answer fits into the message.\<close>

lemma length_sdec: "length (sdec (sint (w :: u32))) \<le> 11"
proof -
  have "- (2 ^ 31) \<le> sint w" "sint w < 2 ^ 31" using sint_ge [of w] sint_lt [of w] by simp_all
  then have "nat (- sint w) < 10 ^ Suc 9" "nat (sint w) < 10 ^ Suc 9" by simp_all
  then show ?thesis
    using length_digits [of 10 "nat (- sint w)" 9] length_digits [of 10 "nat (sint w)" 9] by (simp add: sdec_def dec_def)
qed

lemma answer_worked:
  assumes "typed_but {i} sv" "i < MAX_EPOLL_EVENTS"
  shows "typed_but {i} (answer sv i (sdec (sint (w :: u32))))"
  unfolding answer_def using length_sdec [of w] typed_butD(2) [OF assms]
  by (intro set_slot_worked [OF assms]) (simp add: sprintf_to_def NETWORK_BUFF_LENGTH_def)

lemma process_request_worked:
  assumes "typed_but {i} sv" "i < MAX_EPOLL_EVENTS"
  shows "(case server_process_request e sv i of Inl f \<Rightarrow> f = Text_unterminated | Inr sv1 \<Rightarrow> typed_but {i} sv1)"
proof -
  have "typed_but {i} (sv\<lparr>calls := c\<rparr>)" "typed_but {i} ((close_fd sv d)\<lparr>calls := c\<rparr>)" for c d
    using assms(1) close_fd_typed [OF assms(1)] by simp_all
  note a = answer_worked [OF this(1) assms(2)] answer_worked [OF this(2) assms(2)]
  show ?thesis
    using assms(1) a
    by (simp add: server_process_request_def server_client_open_def server_client_close_def Let_def case_prod_beta)
qed

text \<open>Each function leaves a whole table. Only accepting and reading an unterminated text can fault.\<close>

lemma free_slot_spec:
  assumes "table_typed sv"
  shows "free_slot sv \<le> MAX_EPOLL_EVENTS"
    and "free_slot sv < MAX_EPOLL_EVENTS \<Longrightarrow> status (slot sv (free_slot sv)) = 0 \<and> free_slot sv < MAX_EPOLL_EVENTS - 1"
proof -
  let ?P = "\<lambda>ev. status ev \<noteq> 0"
  have f: "free_slot sv = length (takeWhile ?P (g_events sv))" using typed_butD(1) [OF assms] by (simp add: free_slot_def)
  then show le: "free_slot sv \<le> MAX_EPOLL_EVENTS" using typed_butD(1) [OF assms] length_takeWhile_le by metis
  assume lt: "free_slot sv < MAX_EPOLL_EVENTS"
  then have "status (slot sv (free_slot sv)) = 0"
    using nth_length_takeWhile [of ?P "g_events sv"] f typed_butD(1) [OF assms] by (simp add: slot_def)
  moreover from this have "free_slot sv \<noteq> MAX_EPOLL_EVENTS - 1"
    using typed_butD(3) [OF assms lt] by (auto simp: slot_typed_def)
  ultimately show "status (slot sv (free_slot sv)) = 0 \<and> free_slot sv < MAX_EPOLL_EVENTS - 1" using lt by simp
qed

lemma idle_slot_worked:
  assumes "table_typed sv" "i < MAX_EPOLL_EVENTS - 1" "status (slot sv i) = 0"
  shows "typed_but {i} sv"
  using event_del_typed(2) [OF assms(1,2)] assms(3) by (simp add: rdfs_event_del_def)

lemma accept_typed:
  assumes "table_typed sv"
  shows "(case rdfs_accept_connection e sv of Inl f \<Rightarrow> f = Table_full | Inr sv1 \<Rightarrow> table_typed sv1)"
proof -
  have "table_typed (rdfs_event_add (rdfs_event_set sv i d Rdfs_recv_data True) i EPOLLIN)"
    if "i = free_slot sv" "i \<noteq> MAX_EPOLL_EVENTS" for i d
    using free_slot_spec [OF assms] that by (intro enter_typed idle_slot_worked assms) auto
  with assms show ?thesis by (simp add: rdfs_accept_connection_def Let_def)
qed

lemma message_length:
  "length buf = NETWORK_BUFF_LENGTH \<Longrightarrow>
    length (msg_data NETWORK_BUFF_LENGTH (got @ drop (length got) (msg ty buf []))) = NETWORK_BUFF_LENGTH"
  by (simp add: msg_data_def msg_def)

lemma recv_typed:
  assumes "table_typed sv" "i < MAX_EPOLL_EVENTS - 1"
  shows "(case rdfs_recv_data e sv d i of Inl f \<Rightarrow> f = Text_unterminated | Inr sv1 \<Rightarrow> table_typed sv1)"
proof -
  have i: "i < MAX_EPOLL_EVENTS" using assms(2) by simp
  let ?ev = "slot sv i"
  obtain len im sock where r: "recv_data (sv_net e) (peers sv d) (Some (msg (m_type ?ev) (m_data ?ev) [])) server_message_size = (len, im, sock)"
    by (metis prod_cases3)
  then have im: "length (msg_data NETWORK_BUFF_LENGTH (the im)) = NETWORK_BUFF_LENGTH"
    using message_length [OF typed_butD(2) [OF assms(1) i]] by (auto simp: recv_data_def Let_def simp del: length_take)
  define sv1 where "sv1 = rdfs_event_del ((set_slot sv i (?ev\<lparr>m_type := msg_type (the im), m_data := msg_data NETWORK_BUFF_LENGTH (the im)\<rparr>))
    \<lparr>peers := (peers sv)(d := sock)\<rparr>) i"
  have "table_typed (set_slot sv i (?ev\<lparr>m_type := msg_type (the im), m_data := msg_data NETWORK_BUFF_LENGTH (the im)\<rparr>))"
    using typed_butD(3) [OF assms(1) i] im by (intro set_slot_typed [OF assms(1) i] slot_typed_data) simp_all
  then have w: "table_typed sv1" "typed_but {i} sv1" unfolding sv1_def using event_del_typed [OF _ assms(2)] by simp_all
  have p: "(case server_process_request e sv1 i of Inl f \<Rightarrow> f = Text_unterminated | Inr sv2 \<Rightarrow> typed_but {i} sv2)"
    by (rule process_request_worked [OF w(2) i])
  show ?thesis
    using p enter_typed [OF w(2) assms(2)] enter_typed [OF _ assms(2)] close_fd_typed [OF w(1)]
    by (auto simp: rdfs_recv_data_def r Let_def sv1_def [symmetric] split: sum.splits)
qed

lemma send_typed:
  assumes "table_typed sv" "i < MAX_EPOLL_EVENTS - 1"
  shows "table_typed (rdfs_send_data e sv d i)"
proof -
  have i: "i < MAX_EPOLL_EVENTS" using assms(2) by simp
  let ?ev = "(slot sv i)\<lparr>m_type := - 1, m_data := zeros (length (m_data (slot sv i)))\<rparr>"
  have "table_typed (set_slot sv i ?ev)"
    using typed_butD(2,3) [OF assms(1) i] by (intro set_slot_typed [OF assms(1) i] slot_typed_data) simp_all
  then have "table_typed ((set_slot sv i ?ev)\<lparr>peers := p\<rparr>)" for p by simp
  note w = event_del_typed [OF this assms(2)] event_del_typed(1) [OF close_fd_typed [OF this] assms(2)]
  show ?thesis
    using w(1,3) enter_typed [OF w(2) assms(2)] by (simp add: rdfs_send_data_def Let_def case_prod_beta)
qed

lemma ready_kind:
  assumes "slot_typed i (slot sv i)" "ready flag revents sv i" "i < MAX_EPOLL_EVENTS"
  shows "(call_back (slot sv i) = Rdfs_accept_connection) = (i = MAX_EPOLL_EVENTS - 1)" "call_back (slot sv i) \<noteq> Cb_none"
  using assms by (auto simp: slot_typed_def ready_def split: if_splits)

text \<open>What a call of a slot in a whole table gives.\<close>

definition sound :: "fault + server \<Rightarrow> bool" where
  "sound r \<longleftrightarrow> (case r of Inl f \<Rightarrow> f \<noteq> Null_callback | Inr sv \<Rightarrow> table_typed sv)"

lemma call_slot_sound:
  assumes "table_typed sv" "i < MAX_EPOLL_EVENTS" "ready flag revents sv i"
  shows "sound (call_slot e sv i)"
proof -
  note k = ready_kind [OF typed_butD(3) [OF assms(1,2)] assms(3,2)]
  have "i < MAX_EPOLL_EVENTS - 1" if "call_back (slot sv i) \<noteq> Rdfs_accept_connection"
    using that k(1) assms(2) by simp
  note w = accept_typed [OF assms(1), of e] recv_typed [OF assms(1) this, of e "fd (slot sv i)"] send_typed [OF assms(1) this, of e]
  show ?thesis
    using k(2) w by (auto simp: sound_def call_slot_def split: callback.splits sum.splits)
qed

lemma dispatch_sound:
  assumes "table_typed sv" "i < MAX_EPOLL_EVENTS"
  shows "sound (dispatch e i revents sv)"
proof -
  define r where "r = (if ready EPOLLIN revents sv i then call_slot e sv i else Inr sv)"
  have "sound r" using call_slot_sound [OF assms] assms(1) by (simp add: r_def sound_def)
  then show ?thesis
  proof (cases r)
    case (Inr sv1)
    with \<open>sound r\<close> have t: "table_typed sv1" by (simp add: sound_def)
    have d: "dispatch e i revents sv = (if ready EPOLLOUT revents sv1 i then call_slot e sv1 i else Inr sv1)"
      using Inr by (simp add: dispatch_def r_def [symmetric])
    show ?thesis using call_slot_sound [OF t assms(2)] t by (simp add: d) (simp add: sound_def)
  qed (simp add: sound_def dispatch_def r_def [symmetric])
qed

lemma serve_batch_sound:
  "table_typed sv \<Longrightarrow> \<forall>p \<in> set ps. fst p < MAX_EPOLL_EVENTS \<Longrightarrow> sound (serve_batch e ps sv)"
proof (induction e ps sv rule: serve_batch.induct)
  case (2 e i revents ps sv)
  then show ?case using dispatch_sound [of sv i e revents] by (auto simp: sound_def split: sum.splits)
qed (simp add: sound_def)

lemma reported_slots:
  assumes "table_typed sv" "reported sv ps" "p \<in> set ps"
  shows "fst p < MAX_EPOLL_EVENTS"
proof -
  obtain d evs where "interest sv d = Some (fst p, evs)" using assms(2,3) by (auto simp: reported_def)
  with typed_butD(5) [OF assms(1)] show ?thesis by (auto simp: named_ok_def)
qed

lemma init_typed:
  assumes "rdfs_init_network epoll_fd listenFd ps = Inr sv"
  shows "table_typed sv"
proof -
  define sv0 where "sv0 = \<lparr>g_events = replicate MAX_EPOLL_EVENTS zero_event, interest = (\<lambda>_. None), peers = ps, calls = []\<rparr>"
  have last: "MAX_EPOLL_EVENTS - 1 < MAX_EPOLL_EVENTS" by (simp add: MAX_EPOLL_EVENTS_def)
  have z: "slot sv0 i = zero_event" if "i < MAX_EPOLL_EVENTS" for i using that by (simp add: sv0_def slot_def)
  have t0: "typed_but {MAX_EPOLL_EVENTS - 1} sv0"
    unfolding typed_but_def using z by (simp add: sv0_def zero_event_def slot_typed_def)
  let ?sv1 = "rdfs_event_set sv0 (MAX_EPOLL_EVENTS - 1) listenFd Rdfs_accept_connection True"
  have "typed_but {MAX_EPOLL_EVENTS - 1} ?sv1"
    unfolding rdfs_event_set_def Let_def by (rule set_slot_worked [OF t0 last]) (use z [OF last] in \<open>simp add: zero_event_def\<close>)
  then have "table_typed (rdfs_event_add ?sv1 (MAX_EPOLL_EVENTS - 1) EPOLLIN)"
    by (rule event_add_typed [OF _ last])
      (simp_all only: rdfs_event_set_def Let_def slot_set_slot [OF typed_butD(1) [OF t0] last] z [OF last] zero_event_def, simp_all add: slot_typed_def)
  then show ?thesis
    using assms by (simp add: rdfs_init_network_def rdfs_init_listen_socket_def sv0_def split: if_splits)
qed

lemma server_reach_typed: "server_reach sv \<Longrightarrow> table_typed sv"
proof (induction rule: server_reach.induct)
  case (start epoll_fd listenFd ps sv)
  then show ?case by (rule init_typed)
next
  case (batch sv ps e sv')
  then show ?case
    using serve_batch_sound [of sv ps e] reported_slots [of sv ps] by (simp add: sound_def)
qed

text \<open>C4. In every state in which the server waits, the table is well typed: the last slot accepts connections and waits for
  input; every other slot in use receives and waits for input or sends and waits for room; its message is a buffer of 1024 bytes; and
  what the interest list names is such a slot with the same descriptor and events. So, whatever the peers send, whatever \<open>accept\<close>,
  \<open>recv\<close>, \<open>send\<close>, \<open>open\<close> and \<open>close\<close> return, and in whatever order events are reported, no event calls through a null pointer. A
  round leaves the memory of the program only by accepting a connection with all slots in use (\<open>g_events[10]\<close>) or by reading a
  request that does not end in its buffer.\<close>

theorem server_table_typed:
  assumes "server_reach sv" "reported sv ps"
  shows "table_typed sv \<and> serve_batch e ps sv \<noteq> Inl Null_callback"
proof
  show t: "table_typed sv" by (rule server_reach_typed [OF assms(1)])
  show "serve_batch e ps sv \<noteq> Inl Null_callback"
    using serve_batch_sound [OF t, of ps e] reported_slots [OF t assms(2)] by (auto simp: sound_def)
qed

text \<open>One round with the listening socket ready: the connection gets the first slot.\<close>

theorem server_table_typed_witness:
  "(\<exists>sv e. server_reach sv \<and> reported sv [(9, 1)] \<and> table_typed sv \<and> serve_batch e [(9, 1)] sv \<noteq> Inl Null_callback)"
proof -
  obtain sv where i: "rdfs_init_network 4 3 (\<lambda>_. \<lparr>inq = [], outq = []\<rparr>) = Inr sv" and n: "interest sv 3 = Some (9, 1)"
    by (simp add: rdfs_init_network_def rdfs_init_listen_socket_def rdfs_event_add_def rdfs_event_set_def set_slot_def slot_def
        Let_def MAX_EPOLL_EVENTS_def EPOLLIN_def)
  have "server_reach sv" "reported sv [(9, 1)]" using server_reach.start [OF i] n by (auto simp: reported_def)
  then show ?thesis using server_table_typed [of sv "[(9, 1)]"] by blast
qed

section \<open>Opening a file for a client\<close>

lemma sdec_chars:
  assumes "c \<in> set (sdec i)"
  shows "c \<noteq> CHR 0x00"
proof -
  have "dig_char d \<noteq> CHR 0x00" if "d < 10" for d
    using char_dig_dig_char [of 10 d] that by (auto simp: char_dig_def Let_def)
  then have "CHR 0x00 \<notin> set (dec n)" for n using digits_less [of 10 _ n] by (fastforce simp: dec_def)
  then show ?thesis using assms by (auto simp: sdec_def split: if_splits)
qed

lemma sint_bound: "\<bar>sint (w :: u32)\<bar> < 10 ^ 20"
  using sint_ge [of w] sint_lt [of w] by simp

lemma scan_answer: "sscanf [conv_d] (c_str (sprintf_to buf (sdec (sint (w :: u32))))) = [sint w]"
  using scan_sdec [OF sint_bound, of "[]" w] sdec_chars [of _ "sint w"] by (subst c_str_sprintf_to) auto

lemma scan_open:
  "scan_rest [conv_d, conv_d] (colons [sdec (sint (w :: u32)), sdec 420, p]) = ([sint w, 420], Some p)"
  using scan_sdec [OF sint_bound, of "CHR '':'' # sdec 420 @ CHR '':'' # p" w] scan_sdec [of 420 "CHR '':'' # p"] by simp

text \<open>Receiving a whole message takes it from the queue.\<close>

lemma recv_whole:
  assumes "inq s = m @ r" "length m = n" "length buf = n" "net_recv net n (inq s) = int n"
  shows "recv_data net s (Some buf) n = (int n, Some m, s\<lparr>inq := r\<rparr>)"
  using assms by (simp add: recv_data_def Let_def)

lemma put_text_msg:
  assumes "put_text (msg ty junk extra) t = Some m" "length junk = CLIENT_MESSAGE_LENGTH"
  shows "m = (le4 ty @ sprintf_to junk t) @ extra" "length (sprintf_to junk t) = CLIENT_MESSAGE_LENGTH" "length t < CLIENT_MESSAGE_LENGTH"
  using assms by (auto simp: put_text_def msg_def sprintf_to_def split: if_splits)

text \<open>The request that the parsed message makes.\<close>

lemma client_open_effect:
  assumes "m_data (slot sv i) = sprintf_to junk (colons [sdec (sint flags), sdec 420, path])"
    and "terminated (m_data (slot sv i))" "path \<noteq> []" "\<not> list_ex is_space path" "CHR 0x00 \<notin> set path"
  shows "server_client_open e sv i = Inr (answer (sv\<lparr>calls := Open_call path flags 420 # calls sv\<rparr>) i
    (sdec (sint (open_result e path flags 420))))"
proof -
  have "CHR 0x00 \<notin> set (colons [sdec (sint flags), sdec 420, path])" using assms(5) sdec_chars by auto
  then have "c_str (m_data (slot sv i)) = colons [sdec (sint flags), sdec 420, path]"
    by (simp add: assms(1) c_str_sprintf_to del: colons.simps)
  then show ?thesis
    using assms(2,3) scan_word_all [OF assms(4)]
    by (simp add: server_client_open_def scan_open asg_def Let_def del: colons.simps scan_rest.simps)
qed

lemma event_frame [simp]:
  "calls (rdfs_event_add sv i evs) = calls sv" "peers (rdfs_event_add sv i evs) = peers sv"
  "calls (rdfs_event_set sv i d cb c) = calls sv" "peers (rdfs_event_set sv i d cb c) = peers sv"
  "calls (rdfs_event_del sv i) = calls sv" "peers (rdfs_event_del sv i) = peers sv"
  by (simp_all add: rdfs_event_add_def rdfs_event_set_def rdfs_event_del_def Let_def)

lemma slot_events:
  assumes "length (g_events sv) = MAX_EPOLL_EVENTS" "i < MAX_EPOLL_EVENTS"
  shows "slot (rdfs_event_add sv i evs) i = (slot sv i)\<lparr>events := evs, status := 1\<rparr>"
    and "slot (rdfs_event_set sv i d cb False) i = (slot sv i)\<lparr>fd := d, call_back := cb, events := 0, status := 0\<rparr>"
    and "m_data (slot (rdfs_event_del sv i) i) = m_data (slot sv i)" "m_type (slot (rdfs_event_del sv i) i) = m_type (slot sv i)"
    and "length (g_events (rdfs_event_add sv i evs)) = MAX_EPOLL_EVENTS" "length (g_events (rdfs_event_set sv i d cb c)) = MAX_EPOLL_EVENTS"
    "length (g_events (rdfs_event_del sv i)) = MAX_EPOLL_EVENTS"
  using assms by (simp_all add: rdfs_event_add_def rdfs_event_set_def rdfs_event_del_def Let_def slot_set_slot)

text \<open>A whole message in the queue is served as a request.\<close>

lemma recv_message:
  assumes "table_typed sv" "i < MAX_EPOLL_EVENTS" "inq (peers sv d) = (le4 ty @ buf) @ extra" "length buf = NETWORK_BUFF_LENGTH"
    and "net_recv (sv_net e) 1028 ((le4 ty @ buf) @ extra) = 1028"
  obtains sv1 where
    "rdfs_recv_data e sv d i = (case server_process_request e sv1 i of Inl f \<Rightarrow> Inl f
      | Inr sv2 \<Rightarrow> Inr (rdfs_event_add (rdfs_event_set sv2 i d Rdfs_send_data False) i EPOLLOUT))"
    "slot sv1 i = (slot sv i)\<lparr>m_type := ty, m_data := buf, status := 0\<rparr>" "length (g_events sv1) = MAX_EPOLL_EVENTS"
    "calls sv1 = calls sv" "inq (peers sv1 d) = extra" "\<forall>j. j \<noteq> i \<longrightarrow> slot sv1 j = slot sv j"
proof
  define ev where "ev = (slot sv i)\<lparr>m_type := ty, m_data := buf\<rparr>"
  define sv0 where "sv0 = (set_slot sv i ev)\<lparr>peers := (peers sv)(d := (peers sv d)\<lparr>inq := extra\<rparr>)\<rparr>"
  have rv: "recv_data (sv_net e) (peers sv d) (Some (msg (m_type (slot sv i)) (m_data (slot sv i)) [])) server_message_size =
    (int server_message_size, Some (le4 ty @ buf), (peers sv d)\<lparr>inq := extra\<rparr>)"
    using assms(3-5) typed_butD(2) [OF assms(1,2)]
    by (intro recv_whole) (simp_all add: msg_def server_message_size_def NETWORK_BUFF_LENGTH_def)
  show "rdfs_recv_data e sv d i = (case server_process_request e (rdfs_event_del sv0 i) i of Inl f \<Rightarrow> Inl f
      | Inr sv2 \<Rightarrow> Inr (rdfs_event_add (rdfs_event_set sv2 i d Rdfs_send_data False) i EPOLLOUT))"
    by (simp add: rdfs_recv_data_def rv Let_def msg_type_def msg_data_def assms(4) ev_def sv0_def)
  have l0: "length (g_events sv0) = MAX_EPOLL_EVENTS" using typed_butD(1) [OF assms(1)] by (simp add: sv0_def)
  then show "length (g_events (rdfs_event_del sv0 i)) = MAX_EPOLL_EVENTS" by (rule slot_events(7) [OF _ assms(2)])
  have s0: "slot sv0 i = ev" by (simp add: sv0_def slot_set_slot [OF typed_butD(1) [OF assms(1)] assms(2)])
  have "status ev \<in> {0, 1}" using typed_butD(3) [OF assms(1,2)] by (simp add: ev_def slot_typed_def)
  then show "slot (rdfs_event_del sv0 i) i = (slot sv i)\<lparr>m_type := ty, m_data := buf, status := 0\<rparr>"
    by (auto simp: rdfs_event_del_def s0 slot_set_slot [OF l0 assms(2)] ev_def)
  show "calls (rdfs_event_del sv0 i) = calls sv" "inq (peers (rdfs_event_del sv0 i) d) = extra" by (simp_all add: sv0_def)
  show "\<forall>j. j \<noteq> i \<longrightarrow> slot (rdfs_event_del sv0 i) j = slot sv j"
    using slot_set_slot [OF l0 assms(2)] slot_set_slot [OF typed_butD(1) [OF assms(1)] assms(2)]
    by (simp add: rdfs_event_del_def) (simp add: sv0_def)
qed


lemma init_ok: "\<exists>sv. rdfs_init_network 4 3 ps = Inr sv \<and> peers sv = ps \<and> interest sv 3 = Some (9, 1) \<and> fd (slot sv 9) = 3"
  by (simp add: rdfs_init_network_def rdfs_init_listen_socket_def rdfs_event_add_def rdfs_event_set_def set_slot_def slot_def
      Let_def MAX_EPOLL_EVENTS_def EPOLLIN_def)

lemma put_text_ok: "length t < CLIENT_MESSAGE_LENGTH \<Longrightarrow> \<exists>m. put_text x t = Some m"
  by (simp add: put_text_def)


section \<open>Closing the descriptors of the server\<close>

text \<open>The states behind a state.\<close>

inductive server_later :: "server \<Rightarrow> server \<Rightarrow> bool" where
  now: "server_later sv sv"
| later: "server_later sv sv1 \<Longrightarrow> reported sv1 ps \<Longrightarrow> serve_batch e ps sv1 = Inr sv2 \<Longrightarrow> server_later sv sv2"

text \<open>The listening slot is not in the interest list.\<close>

definition deaf :: "server \<Rightarrow> bool" where
  "deaf sv \<longleftrightarrow> table_typed sv \<and> (\<forall>d evs. interest sv d \<noteq> Some (MAX_EPOLL_EVENTS - 1, evs))"

text \<open>What a function enters into the interest list is one slot.\<close>

definition enters :: "nat \<Rightarrow> server \<Rightarrow> server \<Rightarrow> bool" where
  "enters i sv sv' \<longleftrightarrow> (\<forall>d j evs. interest sv' d = Some (j, evs) \<longrightarrow> j = i \<or> interest sv d = Some (j, evs))"

lemma enters_refl: "enters i sv sv"
  by (simp add: enters_def)

lemma enters_trans: "enters i sv sv1 \<Longrightarrow> enters i sv1 sv2 \<Longrightarrow> enters i sv sv2"
  unfolding enters_def by blast

lemma enters_steps:
  "enters i sv (rdfs_event_add sv i evs)" "enters i sv (rdfs_event_set sv i d cb c)" "enters i sv (rdfs_event_del sv i)"
  "enters i sv (close_fd sv d)" "enters i sv (answer sv i t)" "enters i sv (set_slot sv i ev)"
  by (auto simp: enters_def rdfs_event_add_def rdfs_event_set_def rdfs_event_del_def close_fd_def answer_def Let_def split: if_splits)

lemma enters_frame [simp]:
  "enters i sv (sv1\<lparr>peers := p\<rparr>) = enters i sv sv1" "enters i sv (sv1\<lparr>calls := c\<rparr>) = enters i sv sv1"
  "enters i (sv\<lparr>peers := p\<rparr>) sv1 = enters i sv sv1" "enters i (sv\<lparr>calls := c\<rparr>) sv1 = enters i sv sv1"
  by (simp_all add: enters_def)

lemma process_request_enters: "server_process_request e sv i = Inr sv1 \<Longrightarrow> enters i sv sv1"
proof -
  have "enters i sv (answer (sv\<lparr>calls := c\<rparr>) i t)" "enters i sv (answer ((close_fd sv d)\<lparr>calls := c\<rparr>) i t)" for c t d
    using enters_steps(5) [of i "sv\<lparr>calls := c\<rparr>" t] enters_trans [OF enters_steps(4) [of i sv d], of "answer ((close_fd sv d)\<lparr>calls := c\<rparr>) i t"]
      enters_steps(5) [of i "(close_fd sv d)\<lparr>calls := c\<rparr>" t] by simp_all
  then show "server_process_request e sv i = Inr sv1 \<Longrightarrow> ?thesis"
    by (auto simp: server_process_request_def server_client_open_def server_client_close_def Let_def case_prod_beta enters_refl split: if_splits)
qed

lemma enter_enters: "enters i sv sv1 \<Longrightarrow> enters i sv (rdfs_event_add (rdfs_event_set sv1 i d cb c) i evs)"
  using enters_trans enters_steps(1,2) by metis

lemma recv_enters:
  assumes "rdfs_recv_data e sv d i = Inr sv'"
  shows "enters i sv sv'"
proof -
  obtain len im sock where r: "recv_data (sv_net e) (peers sv d) (Some (msg (m_type (slot sv i)) (m_data (slot sv i)) [])) server_message_size
      = (len, im, sock)" by (metis prod_cases3)
  define sv1 where "sv1 = rdfs_event_del ((set_slot sv i ((slot sv i)\<lparr>m_type := msg_type (the im),
    m_data := msg_data NETWORK_BUFF_LENGTH (the im)\<rparr>))\<lparr>peers := (peers sv)(d := sock)\<rparr>) i"
  have 1: "enters i sv sv1"
    unfolding sv1_def by (rule enters_trans [OF _ enters_steps(3)]) (simp add: enters_steps(6))
  note n = enters_trans [OF 1 process_request_enters] enter_enters [OF 1] enters_trans [OF 1 enters_steps(4)]
  show ?thesis
    using assms n enter_enters
    by (auto simp: rdfs_recv_data_def r Let_def sv1_def [symmetric] split: sum.splits if_splits)
qed

lemma send_enters: "enters i sv (rdfs_send_data e sv d i)"
proof -
  have 1: "enters i sv ((set_slot sv i ev)\<lparr>peers := p\<rparr>)" for ev p by (simp add: enters_steps(6))
  note n = enter_enters [OF enters_trans [OF 1 enters_steps(3)]] enters_trans [OF enters_trans [OF 1 enters_steps(4)] enters_steps(3)]
  show ?thesis using n by (simp add: rdfs_send_data_def Let_def case_prod_beta)
qed

lemma deaf_enters: "deaf sv \<Longrightarrow> table_typed sv' \<Longrightarrow> enters i sv sv' \<Longrightarrow> i < MAX_EPOLL_EVENTS - 1 \<Longrightarrow> deaf sv'"
  unfolding deaf_def enters_def by blast

text \<open>Once the listening socket is closed, nothing enters it again.\<close>

lemma call_slot_deaf:
  assumes "deaf sv" "i < MAX_EPOLL_EVENTS" "ready flag revents sv i" "call_slot e sv i = Inr sv'"
  shows "deaf sv'"
proof -
  have t: "table_typed sv" using assms(1) by (simp add: deaf_def)
  have t': "table_typed sv'" using call_slot_sound [OF t assms(2,3), of e] by (simp add: sound_def assms(4))
  note k = ready_kind [OF typed_butD(3) [OF t assms(2)] assms(3,2)]
  show ?thesis
  proof (cases "call_back (slot sv i) = Rdfs_accept_connection")
    case True
    then have a: "rdfs_accept_connection e sv = Inr sv'" using assms(4) by (simp add: call_slot_def)
    show ?thesis
    proof (cases "accept_result e = - 1")
      case False
      then have f: "free_slot sv \<noteq> MAX_EPOLL_EVENTS" "enters (free_slot sv) sv sv'"
        using a enter_enters [OF enters_refl, of "free_slot sv"] by (auto simp: rdfs_accept_connection_def Let_def split: if_splits)
      then show ?thesis using deaf_enters [OF assms(1) t' f(2)] free_slot_spec [OF t] by simp
    qed (use a assms(1) in \<open>simp add: rdfs_accept_connection_def Let_def\<close>)
  next
    case False
    then have i: "i < MAX_EPOLL_EVENTS - 1" using k(1) assms(2) by simp
    have "enters i sv sv'"
      using assms(4) False k(2) recv_enters send_enters by (auto simp: call_slot_def split: callback.splits)
    then show ?thesis by (rule deaf_enters [OF assms(1) t' _ i])
  qed
qed

lemma dispatch_deaf:
  assumes "deaf sv" "i < MAX_EPOLL_EVENTS" "dispatch e i revents sv = Inr sv'"
  shows "deaf sv'"
proof -
  obtain sv1 where 1: "(if ready EPOLLIN revents sv i then call_slot e sv i else Inr sv) = Inr sv1"
    and 2: "(if ready EPOLLOUT revents sv1 i then call_slot e sv1 i else Inr sv1) = Inr sv'"
    using assms(3) by (auto simp: dispatch_def split: sum.splits)
  have "deaf sv1" using 1 assms(1) call_slot_deaf [OF assms(1,2)] by (simp split: if_splits)
  with 2 call_slot_deaf [OF _ assms(2), of sv1] show ?thesis by (simp split: if_splits)
qed

lemma serve_batch_deaf:
  "deaf sv \<Longrightarrow> \<forall>p \<in> set ps. fst p < MAX_EPOLL_EVENTS \<Longrightarrow> serve_batch e ps sv = Inr sv' \<Longrightarrow> deaf sv'"
proof (induction e ps sv rule: serve_batch.induct)
  case (2 e i revents ps sv)
  then obtain sv1 where "dispatch e i revents sv = Inr sv1" by (auto split: sum.splits)
  with 2 dispatch_deaf [of sv i e revents sv1] show ?case by simp
qed simp

lemma server_later_deaf: "server_later sv sv' \<Longrightarrow> deaf sv \<Longrightarrow> deaf sv'"
proof (induction rule: server_later.induct)
  case (later sv sv1 ps e sv2)
  then show ?case using serve_batch_deaf [of sv1 ps e sv2] reported_slots [of sv1 ps] by (simp add: deaf_def)
qed simp

text \<open>C31. A client can close the listening socket of the server. The descriptor of a close request goes to \<open>close\<close> unchecked, so
  that a request with the number of the listening socket takes it from the interest list, while its slot still counts as in use. In no
  later round, whatever happens, is an event of this slot reported: the server never accepts a connection again.\<close>

theorem close_request_deafens:
  assumes "table_typed sv" "i < 9" "sint w = fd (g_events sv ! 9)"
    and "put_text (msg RDFS_CLIENT_CLOSE junk extra) (sdec (sint w)) = Some m" "length junk = 1024"
    and "inq (peers sv d) = m" "net_recv (sv_net e) 1028 m = 1028" "d \<noteq> sint w"
  shows "\<exists>sv'. rdfs_recv_data e sv d i = Inr sv' \<and> calls sv' = Close_call w # calls sv \<and> status (g_events sv' ! 9) = 1 \<and>
     (\<forall>sv2 ps. server_later sv' sv2 \<longrightarrow> reported sv2 ps \<longrightarrow> 9 \<notin> fst ` set ps)"
proof -
  have i: "i < MAX_EPOLL_EVENTS - 1" "i < MAX_EPOLL_EVENTS" and n: "(9 :: nat) = MAX_EPOLL_EVENTS - 1" "9 < MAX_EPOLL_EVENTS"
    using assms(2) by (simp_all add: MAX_EPOLL_EVENTS_def)
  have jl: "length junk = CLIENT_MESSAGE_LENGTH" by (simp add: assms(5) CLIENT_MESSAGE_LENGTH_def)
  note m = put_text_msg [OF assms(4) jl]
  obtain sv1 where q: "rdfs_recv_data e sv d i = (case server_process_request e sv1 i of Inl f \<Rightarrow> Inl f
      | Inr sv2 \<Rightarrow> Inr (rdfs_event_add (rdfs_event_set sv2 i d Rdfs_send_data False) i EPOLLOUT))"
    and s1: "slot sv1 i = (slot sv i)\<lparr>m_type := RDFS_CLIENT_CLOSE, m_data := sprintf_to junk (sdec (sint w)), status := 0\<rparr>"
    and l1: "length (g_events sv1) = MAX_EPOLL_EVENTS" and c1: "calls sv1 = calls sv" "inq (peers sv1 d) = extra"
    and o1: "\<forall>j. j \<noteq> i \<longrightarrow> slot sv1 j = slot sv j"
    by (rule recv_message [OF assms(1) i(2) assms(6) [unfolded m(1)] _ assms(7) [unfolded m(1)]])
      (use m(2) in \<open>simp add: CLIENT_MESSAGE_LENGTH_def NETWORK_BUFF_LENGTH_def\<close>)
  have "CHR 0x00 \<notin> set (sdec (sint w))" using sdec_chars by blast
  then have "terminated (m_data (slot sv1 i))" using m(2,3) by (simp add: s1 terminated_def c_str_sprintf_to)
  then have p: "server_process_request e sv1 i =
      Inr (answer ((close_fd sv1 (sint w))\<lparr>calls := Close_call w # calls sv1\<rparr>) i (sdec (sint (close_result e w))))"
    using scan_answer [of junk w]
    by (simp add: server_process_request_def server_client_close_def s1 asg_def RDFS_CLIENT_CLOSE_def SERVER_CLIENT_OPEN_def
        SERVER_CLIENT_CLOSE_def Let_def del: sscanf.simps)
  define sv2 where "sv2 = answer ((close_fd sv1 (sint w))\<lparr>calls := Close_call w # calls sv1\<rparr>) i (sdec (sint (close_result e w)))"
  define sv' where "sv' = rdfs_event_add (rdfs_event_set sv2 i d Rdfs_send_data False) i EPOLLOUT"
  have r: "rdfs_recv_data e sv d i = Inr sv'" by (simp add: q p sv2_def sv'_def)
  have t: "table_typed sv'" using recv_typed [OF assms(1) i(1), of e d] by (simp add: r)
  have l2: "length (g_events sv2) = MAX_EPOLL_EVENTS" using l1 by (simp add: sv2_def answer_def close_fd_def)
  have "slot sv2 9 = slot sv1 9"
    using l1 assms(2) by (simp add: sv2_def answer_def close_fd_def slot_set_slot [OF _ i(2)])
  then have 9: "slot sv' 9 = slot sv 9"
    using o1 assms(2) l2
    by (simp add: sv'_def rdfs_event_add_def rdfs_event_set_def Let_def slot_set_slot [OF _ i(2)])
  have "interest sv' (sint w) = None"
    using assms(8) l2
    by (simp add: sv'_def rdfs_event_add_def rdfs_event_set_def Let_def slot_set_slot [OF _ i(2)] sv2_def answer_def close_fd_def)
  then have "deaf sv'"
    using t 9 assms(3) typed_butD(5) [OF t, of _ 9] n(1) by (auto simp: deaf_def named_ok_def slot_def [symmetric])
  then have "9 \<notin> fst ` set ps" if "server_later sv' sv2" "reported sv2 ps" for sv2 ps
    using server_later_deaf [OF that(1)] that(2) n(1) by (fastforce simp: deaf_def reported_def)
  moreover have "calls sv' = Close_call w # calls sv" by (simp add: sv'_def sv2_def answer_def c1)
  moreover have "status (g_events sv' ! 9) = 1" using typed_butD(3) [OF t n(2)] n(1) by (simp add: slot_typed_def slot_def)
  ultimately show ?thesis using r by blast
qed

text \<open>A client asks a server that has just started to close descriptor 3.\<close>

theorem close_request_deafens_witness:
  "\<exists>sv sv' e m. table_typed sv \<and> (0::nat) < 9 \<and> sint (3 :: u32) = fd (g_events sv ! 9) \<and>
     put_text (msg RDFS_CLIENT_CLOSE (zeros 1024) (zeros 4)) (sdec (sint (3 :: u32))) = Some m \<and>
     inq (peers sv 7) = m \<and> net_recv (sv_net e) 1028 m = 1028 \<and> (7 :: int) \<noteq> sint (3 :: u32) \<and>
     rdfs_recv_data e sv 7 0 = Inr sv' \<and> (\<forall>sv2 ps. server_later sv' sv2 \<longrightarrow> reported sv2 ps \<longrightarrow> 9 \<notin> fst ` set ps)"
proof -
  define e :: server_env where "e = \<lparr>accept_result = - 1, sv_net = \<lparr>net_recv = (\<lambda>n q. 1028), net_send = (\<lambda>b. int (length b))\<rparr>,
    open_result = (\<lambda>_ _ _. 5), close_result = (\<lambda>_. 0), junk_int = 0, junk_path = []\<rparr>"
  obtain m where m: "put_text (msg RDFS_CLIENT_CLOSE (zeros 1024) (zeros 4)) (sdec (sint (3 :: u32))) = Some m"
    using put_text_ok [of "sdec (sint (3 :: u32))"] length_sdec [of 3] by (auto simp: CLIENT_MESSAGE_LENGTH_def)
  obtain sv where sv: "rdfs_init_network 4 3 (\<lambda>_. \<lparr>inq = m, outq = []\<rparr>) = Inr sv" "peers sv = (\<lambda>_. \<lparr>inq = m, outq = []\<rparr>)"
    and f: "fd (slot sv 9) = 3" using init_ok by blast
  have n: "net_recv (sv_net e) 1028 m = 1028" and q: "inq (peers sv 7) = m" by (simp_all add: e_def sv(2))
  have f': "sint (3 :: u32) = fd (g_events sv ! 9)" using f by (simp add: slot_def)
  obtain sv' where s': "rdfs_recv_data e sv 7 0 = Inr sv'"
      "\<forall>sv2 ps. server_later sv' sv2 \<longrightarrow> reported sv2 ps \<longrightarrow> 9 \<notin> fst ` set ps"
    using close_request_deafens [OF init_typed [OF sv(1)] _ f' m _ q n, of 0] by auto
  with init_typed [OF sv(1)] m q n f' show ?thesis
    by (intro exI [of _ sv] exI [of _ sv'] exI [of _ e] exI [of _ m]) simp
qed

end
