(* ===== verification/Spec2Isabelle.thy ===== *)
theory Spec2Isabelle
  imports Link_Counts Master_Service Slave_Node Server
begin

text \<open>
  \<^bold>\<open>A verification development of rdfs\<close>

  rdfs is a distributed file system over non-volatile memory (NVM) and RDMA. It has four programs.

  \<^item> The \<^emph>\<open>master\<close> (\<open>src/rdfs_master\<close>) is a Linux kernel module: a file system whose metadata (super block, inode slots, directories, page
    tables) is in NVM and whose file data is in the memory of slaves. It registers slaves and answers requests of clients.
  \<^item> A \<^emph>\<open>slave\<close> (\<open>src/rdfs_slave\<close>) is a kernel module that makes its memory accessible by RDMA.
  \<^item> The \<^emph>\<open>client\<close> (\<open>src/rdfs_client\<close>) is a library that connects to the master and the slaves.
  \<^item> The \<^emph>\<open>user-space server\<close> (\<open>src/rdfs_server\<close>) runs beside the master and opens and closes files for clients.

  The model is a shallow embedding. The NVM window is a byte memory; a pointer to a structure in NVM is its address, a field a load or a
  store at its offset; machine integers are words. A function of the sources is a function on an explicit state, with the name of the
  source wherever no other program of the system has the same one (then the name has a prefix such as \<open>slave_\<close>, \<open>client_\<close> or
  \<open>server_\<close>). The states extend each other as records: \<open>nvm\<close> (the NVM), \<open>fs\<close>, \<open>smem\<close> (slaves and their memory), \<open>kern\<close> (kernel page
  tables and virtual areas), \<open>vfs\<close> (inodes in memory), \<open>fio\<close> (buffer page and contexts of the slaves), \<open>master\<close> (tasks and connections). What the
  kernel, the InfiniBand stack and the network decide is a field of an environment record (\<open>kenv\<close>, \<open>nenv\<close>, \<open>fenv\<close>, \<open>senv\<close>, \<open>client_env\<close>,
  \<open>slave_env\<close>, \<open>server_env\<close>) or an argument. \<open>None\<close> is a fault (null pointer, unmapped address, index or buffer out of range) or a loop that
  does not end; the user-space server names its faults.

  \<^bold>\<open>Theories\<close>

  \<^item> \<open>Prelude\<close>: words, byte memory, regions, page arithmetic, collections of simplification rules. \<open>Resource_Pool\<close>: the contract of an
    allocator as a locale, with the safety of every sequence of requests; \<open>Free_Pages\<close>, \<open>Free_Inodes\<close> and \<open>Nvmalloc\<close> interpret it on their own
    operations.
  \<^item> \<open>Layout\<close> (\<open>rdfs.h\<close>, \<open>rdfs_const.h\<close>, \<open>macro_cfg.h\<close>): super block, node descriptors, inode slots, the codec of page-table entries. Inode
    numbers and slot addresses are inverse to each other.
  \<^item> \<open>Free_Pages\<close>, \<open>Numa_Init\<close>, \<open>Disk_Pool\<close> (\<open>balloc.c\<close>) and \<open>Free_Inodes\<close> (\<open>inode.c\<close>): formatting builds the free lists; the allocators
    implement lists of free pages and slots, hand nothing out twice and lose nothing; deferred freeing is equivalent to freeing page by page;
    the pools of sectors refill with fresh sectors, and what happens when they are exhausted.
  \<^item> \<open>Nvmalloc\<close> (\<open>nvmalloc.c\<close>), \<open>Page_Table\<close>, \<open>Mapping_Tables\<close>, \<open>Mmu\<close>, \<open>Remove_Table\<close> (\<open>pgtable.c\<close>, \<open>nvmalloc.c\<close>): virtual areas, the page table
    of a file, its mapping into the kernel's tables. After mapping, the walk of the MMU reaches exactly the pages of the file; unmapping
    restores the kernel's tables; removing a table gives every page back.
  \<^item> \<open>Vfs\<close>, \<open>Slave_Memory\<close> (\<open>memory.c\<close>): the blocks of slave memory that a file holds. The allocator refines a specification that never gives a
    block out twice.
  \<^item> \<open>Acl\<close> (\<open>acl.c\<close>), \<open>Inode_Store\<close> (\<open>inode.c\<close>, \<open>super.c\<close>), \<open>Mount\<close> (\<open>tool.c\<close>, \<open>super.c\<close>): access control lists and their external form; slots
    that are written and read back; formatting an image; the mount options.
  \<^item> \<open>Dir\<close> (\<open>dir.c\<close>) and \<open>Namei\<close> (\<open>namei.c\<close>, \<open>symlink.c\<close>, \<open>rdfs_fill_super\<close>): a directory refines a map from names to inode numbers under any
    sequence of additions and deletions, through the locale \<open>directory\<close>, which is interpreted on the entries in mapped memory; every
    operation on names on top of it. \<open>Link_Counts\<close>: these operations keep the link counts right, in every state and on every path.
  \<^item> \<open>Wire\<close>, \<open>Handshake\<close> (\<open>network.c\<close>, \<open>rdfs_sock.c\<close>): messages as bytes, \<open>sprintf\<close> and \<open>sscanf\<close> of numbers (what is printed is read back), sockets, the
    exchange of connection parameters.
  \<^item> \<open>Rdma\<close>, \<open>Transfers\<close> (\<open>rdfs_rdma.c\<close>, \<open>server.c\<close>): contexts, the states of a queue pair, and transfers as a transition system of callers,
    hardware and completion handler with an invariant, safety and progress.
  \<^item> \<open>File_Io\<close>, \<open>File_Data\<close> (\<open>file.c\<close>, \<open>rdfs_client_search_metadata\<close> of \<open>pgtable.c\<close>): the walk over the blocks of a request, reading and
    writing; what is written is read back.
  \<^item> \<open>Master_Service\<close> (\<open>master_service.c\<close>, \<open>device.c\<close>), \<open>Slave_Node\<close> (\<open>rdfs_slave\<close>), \<open>Client\<close> (\<open>rdfs_client\<close>), \<open>Server\<close> (\<open>rdfs_server\<close>): the four programs as
    they meet on the network. The slots of the server stay well typed in every run; an open request arrives unchanged; and where
    the programs do not fit together (sizes of messages, types of messages, unchecked descriptors), what follows from it.

  \<^bold>\<open>Loops, fuel and bounds\<close>

  Loops over a fixed number of entries are primitive recursive in that number. Loops whose end depends on data are partial functions
  with values in an option type (\<open>block_walk\<close>, \<open>find_loop\<close>, \<open>empty_loop\<close>, \<open>add_scan\<close>, \<open>readdir_loop\<close>, \<open>nvmap_file_loop\<close>, \<open>unnvmap_file_loop\<close>, \<open>area_loop\<close>), and that they
  return is part of what is proved: exactly when for \<open>block_walk\<close>, for well-formed directories and tables for the others. Only
  \<open>client_recv_message\<close> and \<open>rdfs_init_slave_connect\<close>, which call each other for as long as messages announce further ones, have fuel; two
  units are enough for one slave, and the theorem on them holds for every larger amount. The loops of threads that run until they
  are stopped (\<open>serve\<close>, \<open>rdfs_wait_register\<close>, \<open>serve_batch\<close>) are steps, and their runs are relations.

  Sections under a spin lock are atomic steps. \<open>kmalloc\<close> of small structures succeeds. The addresses of the memory layout are those of
  x86-64 with pages of 4096 bytes.

  \<^bold>\<open>Not modelled\<close>

  \<^item> \<open>fs.h\<close> is a copy of a header of the Linux kernel: of its inline functions only the two link counters that \<open>namei.c\<close> calls are here.
  \<^item> Functions that only print (\<open>print_pgtable\<close>, \<open>print_free_list\<close>, \<open>rdfs_slave/event.c\<close>, the event handlers of \<open>server.c\<close>), that are empty or
    return a constant (\<open>rdfs_remount\<close>, \<open>rdfs_get_xip_mem\<close>, \<open>rdfs_destroy_jobs\<close>, \<open>userspace_test\<close>) and that are commented out.
  \<^item> Registration with the kernel and creation of kernel objects (\<open>main.c\<close>, the inode cache, \<open>rdfs_put_super\<close>, starting threads), since
    these have no state of the program.
  \<^item> \<open>rdfs_init_bdev_pool\<close> and the functions it calls, which place the arrays of the sector pools in the kernel's page tables by way of kernel
    internals; \<open>Disk_Pool\<close> starts from arrays that are in place.
  \<^item> \<open>rdfs_free_file_used_bitmap\<close> and \<open>rdfs_free_slave_bitmap_memory\<close>, which pass a \<open>slave_info\<close> as an inode info and a pointer as a block number: what
    they do depends on the layout of unrelated kernel structures.
  \<^item> The directory cache, the page cache, quota and the tables of operations of the kernel's file-system layer.
\<close>

end
